(* ===== verification/Prelude.thy ===== *)
theory Prelude
  imports Main "HOL-Library.AList"
begin

section \<open>Shared notions: Python values, dictionaries, slices\<close>

text \<open>
  The types and the small Python vocabulary every component of the model uses.
  A Python dict keeps insertion order: assigning to an existing key keeps its place, a new key
  goes to the end. That is an association list with distinct keys, updated by
  \<^const>\<open>AList.update\<close> and shrunk by \<^const>\<open>AList.delete\<close>. Exceptions are values of
  \<open>py_exn\<close>; a fallible function returns \<open>py_exn + 'a\<close>. Slices follow Python's rule for
  negative bounds.
\<close>

named_theorems dict_simps \<open>rewriting of the dictionary operations to finite maps\<close>

type_synonym ('k, 'v) dict = "('k \<times> 'v) list"

datatype py_exn = ValueError | KeyError | TypeError | DatabaseError

subsection \<open>Dictionaries\<close>

abbreviation dict_lookup :: "('k, 'v) dict \<Rightarrow> 'k \<Rightarrow> 'v option" where
  "dict_lookup \<equiv> map_of"

definition dict_get :: "('k, 'v) dict \<Rightarrow> 'k \<Rightarrow> 'v \<Rightarrow> 'v" where
  "dict_get d k x = (case map_of d k of None \<Rightarrow> x | Some v \<Rightarrow> v)"

definition dict_has :: "('k, 'v) dict \<Rightarrow> 'k \<Rightarrow> bool" where
  "dict_has d k = (map_of d k \<noteq> None)"

definition dict_set :: "('k, 'v) dict \<Rightarrow> 'k \<Rightarrow> 'v \<Rightarrow> ('k, 'v) dict" where
  "dict_set d k v = AList.update k v d"

definition dict_pop :: "('k, 'v) dict \<Rightarrow> 'k \<Rightarrow> ('k, 'v) dict" where
  "dict_pop d k = AList.delete k d"

abbreviation dict_keys :: "('k, 'v) dict \<Rightarrow> 'k list" where
  "dict_keys d \<equiv> map fst d"

abbreviation dict_values :: "('k, 'v) dict \<Rightarrow> 'v list" where
  "dict_values d \<equiv> map snd d"

definition dict_ok :: "('k, 'v) dict \<Rightarrow> bool" where
  "dict_ok d = distinct (map fst d)"

text \<open>\<open>d1.update(d2)\<close>: every item of \<open>d2\<close> is assigned, in its order.\<close>

definition dict_merge :: "('k, 'v) dict \<Rightarrow> ('k, 'v) dict \<Rightarrow> ('k, 'v) dict" where
  "dict_merge d1 d2 = fold (\<lambda>(k, v) d. dict_set d k v) d2 d1"

text \<open>Python's \<open>==\<close> on dicts ignores the order of the items.\<close>

definition dict_eq :: "('k, 'v) dict \<Rightarrow> ('k, 'v) dict \<Rightarrow> bool" where
  "dict_eq d1 d2 =
     (list_all (\<lambda>(k, v). map_of d2 k = map_of d1 k) d1 \<and>
      list_all (\<lambda>(k, v). map_of d1 k = map_of d2 k) d2)"

lemma dict_get_map_of [dict_simps]:
  "map_of d k = Some v \<Longrightarrow> dict_get d k x = v"
  "map_of d k = None \<Longrightarrow> dict_get d k x = x"
  by (simp_all add: dict_get_def)

lemma dict_has_iff [dict_simps]: "dict_has d k \<longleftrightarrow> k \<in> fst ` set d"
  by (simp add: dict_has_def map_of_eq_None_iff)

lemma map_of_dict_set [simp, dict_simps]: "map_of (dict_set d k v) = (map_of d)(k \<mapsto> v)"
  by (simp add: dict_set_def update_conv')

lemma map_of_dict_pop [simp, dict_simps]: "map_of (dict_pop d k) = (map_of d)(k := None)"
  by (simp add: dict_pop_def delete_conv')

lemma dict_get_set [simp, dict_simps]:
  "dict_get (dict_set d k v) k' x = (if k' = k then v else dict_get d k' x)"
  by (simp add: dict_get_def)

lemma dict_get_Nil [simp]: "dict_get [] k x = x"
  by (simp add: dict_get_def)

lemma dict_ok_Nil [simp, intro]: "dict_ok []"
  by (simp add: dict_ok_def)

lemma dict_ok_set [simp, intro]: "dict_ok d \<Longrightarrow> dict_ok (dict_set d k v)"
  by (simp add: dict_ok_def dict_set_def distinct_update)

lemma dict_ok_pop [simp, intro]: "dict_ok d \<Longrightarrow> dict_ok (dict_pop d k)"
  by (simp add: dict_ok_def dict_pop_def distinct_delete)

lemma dict_keys_set [simp]: "fst ` set (dict_set d k v) = insert k (fst ` set d)"
  by (simp add: dict_set_def dom_update)

lemma dict_keys_pop [simp]: "fst ` set (dict_pop d k) = fst ` set d - {k}"
proof -
  have "set (map fst (dict_pop d k)) = set (map fst d) - {k}"
    by (simp only: dict_pop_def delete_keys set_removeAll)
  then show ?thesis by simp
qed

lemma dict_pop_absent: "k \<notin> fst ` set d \<Longrightarrow> dict_pop d k = d"
  by (simp add: dict_pop_def)

lemma dict_set_new: "k \<notin> fst ` set d \<Longrightarrow> dict_set d k v = d @ [(k, v)]"
  unfolding dict_set_def by (induction d) auto

lemma dict_set_in_place: "k \<in> fst ` set d \<Longrightarrow> map fst (dict_set d k v) = map fst d"
  by (simp add: dict_set_def update_keys)

lemma length_dict_set:
  "length (dict_set d k v) = (if k \<in> fst ` set d then length d else Suc (length d))"
  unfolding dict_set_def by (induction d) auto

lemma length_dict_pop:
  "dict_ok d \<Longrightarrow> length (dict_pop d k) = (if k \<in> fst ` set d then length d - 1 else length d)"
  unfolding dict_pop_def dict_ok_def
proof (induction d)
  case Nil
  then show ?case by simp
next
  case (Cons p d)
  then show ?case by (cases "k \<in> fst ` set d"; cases d) auto
qed

lemma dict_eq_map_of: "dict_eq d1 d2 \<longleftrightarrow> map_of d1 = map_of d2"
proof
  assume eq: "dict_eq d1 d2"
  show "map_of d1 = map_of d2"
  proof
    fix k
    consider "k \<in> fst ` set d1" | "k \<in> fst ` set d2" | "k \<notin> fst ` set d1" "k \<notin> fst ` set d2"
      by blast
    then show "map_of d1 k = map_of d2 k"
    proof cases
      case 1
      with eq show ?thesis by (fastforce simp: dict_eq_def list_all_iff)
    next
      case 2
      with eq show ?thesis by (fastforce simp: dict_eq_def list_all_iff)
    next
      case 3
      then have "map_of d1 k = None" "map_of d2 k = None" by (simp_all add: map_of_eq_None_iff)
      then show ?thesis by simp
    qed
  qed
qed (auto simp: dict_eq_def list_all_iff)

lemma dict_merge_fresh: "distinct (map fst (d @ kvs)) \<Longrightarrow> dict_merge d kvs = d @ kvs"
proof (induction kvs arbitrary: d)
  case Nil
  then show ?case by (simp add: dict_merge_def)
next
  case (Cons p kvs)
  then have "fst p \<notin> fst ` set d" by auto
  then have "dict_set d (fst p) (snd p) = d @ [p]" by (simp add: dict_set_new)
  with Cons.IH [of "d @ [p]"] Cons.prems show ?case
    by (simp add: dict_merge_def case_prod_beta)
qed

lemma map_of_filter_key: "map_of (filter (\<lambda>(k, _). P k) d) k = (if P k then map_of d k else None)"
  by (induction d) auto

lemma dict_ok_filter: "dict_ok d \<Longrightarrow> dict_ok (filter P d)"
  by (auto simp: dict_ok_def distinct_map_filter)

subsection \<open>Slices\<close>

text \<open>\<open>xs[i:]\<close> and \<open>xs[:i]\<close>: a negative bound counts from the end.\<close>

definition slice_start :: "'a list \<Rightarrow> int \<Rightarrow> nat" where
  "slice_start xs i = (if i < 0 then nat (int (length xs) + i) else nat i)"

definition py_drop :: "int \<Rightarrow> 'a list \<Rightarrow> 'a list" where
  "py_drop i xs = drop (slice_start xs i) xs"

definition py_take :: "int \<Rightarrow> 'a list \<Rightarrow> 'a list" where
  "py_take i xs = take (slice_start xs i) xs"

text \<open>\<open>xs[i:j]\<close>.\<close>

definition py_slice :: "int \<Rightarrow> int \<Rightarrow> 'a list \<Rightarrow> 'a list" where
  "py_slice i j xs = drop (slice_start xs i) (take (slice_start xs j) xs)"

text \<open>\<open>xs[i]\<close>, \<open>None\<close> where Python raises IndexError.\<close>

definition py_index :: "'a list \<Rightarrow> int \<Rightarrow> 'a option" where
  "py_index xs i =
     (let j = (if i < 0 then int (length xs) + i else i)
      in if 0 \<le> j \<and> j < int (length xs) then Some (xs ! nat j) else None)"

lemma py_drop_nonneg: "0 \<le> i \<Longrightarrow> py_drop i xs = drop (nat i) xs"
  by (simp add: py_drop_def slice_start_def)

lemma py_take_nonneg: "0 \<le> i \<Longrightarrow> py_take i xs = take (nat i) xs"
  by (simp add: py_take_def slice_start_def)

lemma py_slice_nonneg: "0 \<le> i \<Longrightarrow> 0 \<le> j \<Longrightarrow> py_slice i j xs = drop (nat i) (take (nat j) xs)"
  by (simp add: py_slice_def slice_start_def)

lemma py_index_nonneg: "0 \<le> i \<Longrightarrow> i < int (length xs) \<Longrightarrow> py_index xs i = Some (xs ! nat i)"
  by (simp add: py_index_def)

lemma py_take_drop: "py_take i xs @ py_drop i xs = xs"
  by (simp add: py_take_def py_drop_def)

end
