(* ===== verification/Py_String.thy ===== *)
theory Py_String
  imports Prelude
begin

section \<open>Python strings\<close>

text \<open>
  The \<open>str\<close> methods the program calls, on \<^typ>\<open>string\<close>. A \<^typ>\<open>char\<close> is a code point
  below 256, so whitespace and digits follow Python's tables for that range: besides the ASCII
  characters, 0x85 and 0xA0 are whitespace, and the superscripts 0xB2, 0xB3, 0xB9 satisfy
  \<open>isdigit()\<close> although \<open>int()\<close> rejects them. The lemmas give the inverse laws
  (splitting what was joined, reading what was printed) that the command language and the JSON
  texts of the program rely on.
\<close>

subsection \<open>Character classes\<close>

definition is_space :: "char \<Rightarrow> bool" where
  "is_space c = (of_char c \<in> set [9, 10, 11, 12, 13, 28, 29, 30, 31, 32, 133, 160 :: nat])"

definition is_decimal :: "char \<Rightarrow> bool" where
  "is_decimal c = (48 \<le> (of_char c :: nat) \<and> (of_char c :: nat) \<le> 57)"

definition is_digit_char :: "char \<Rightarrow> bool" where
  "is_digit_char c = (is_decimal c \<or> of_char c \<in> set [178, 179, 185 :: nat])"

definition digit_value :: "char \<Rightarrow> int" where
  "digit_value c = int (of_char c) - 48"

definition digit_char :: "nat \<Rightarrow> char" where
  "digit_char n = char_of (48 + n)"

definition upper_char :: "char \<Rightarrow> char" where
  "upper_char c = (if 97 \<le> (of_char c :: nat) \<and> (of_char c :: nat) \<le> 122
                   then char_of ((of_char c :: nat) - 32) else c)"

subsection \<open>Methods of str\<close>

definition str_strip :: "string \<Rightarrow> string" where
  "str_strip s = rev (dropWhile is_space (rev (dropWhile is_space s)))"

text \<open>Only compared with upper-case ASCII words, which no other letter below 256 maps to.\<close>

definition str_upper :: "string \<Rightarrow> string" where
  "str_upper s = map upper_char s"

definition lower_char :: "char \<Rightarrow> char" where
  "lower_char c = (if 65 \<le> (of_char c :: nat) \<and> (of_char c :: nat) \<le> 90
                   then char_of ((of_char c :: nat) + 32) else c)"

definition str_lower :: "string \<Rightarrow> string" where
  "str_lower s = map lower_char s"

definition str_startswith :: "string \<Rightarrow> string \<Rightarrow> bool" where
  "str_startswith s p = (take (length p) s = p)"

definition str_isdigit :: "string \<Rightarrow> bool" where
  "str_isdigit s = (s \<noteq> [] \<and> list_all is_digit_char s)"

definition str_partition :: "char \<Rightarrow> string \<Rightarrow> string \<times> string \<times> string" where
  "str_partition c s =
     (takeWhile (\<lambda>x. x \<noteq> c) s, if c \<in> set s then [c] else [], drop 1 (dropWhile (\<lambda>x. x \<noteq> c) s))"

definition str_rpartition :: "char \<Rightarrow> string \<Rightarrow> string \<times> string \<times> string" where
  "str_rpartition c s =
     (if c \<in> set s
      then (rev (drop 1 (dropWhile (\<lambda>x. x \<noteq> c) (rev s))), [c], rev (takeWhile (\<lambda>x. x \<noteq> c) (rev s)))
      else ([], [], s))"

text \<open>\<open>s.split(c, n)\<close> and \<open>s.split(c)\<close> for a one-character separator.\<close>

fun str_split_max :: "nat \<Rightarrow> char \<Rightarrow> string \<Rightarrow> string list" where
  "str_split_max 0 c s = [s]"
| "str_split_max (Suc n) c s =
     (if c \<in> set s
      then takeWhile (\<lambda>x. x \<noteq> c) s # str_split_max n c (drop 1 (dropWhile (\<lambda>x. x \<noteq> c) s))
      else [s])"

definition str_split :: "char \<Rightarrow> string \<Rightarrow> string list" where
  "str_split c s = str_split_max (length s) c s"

text \<open>\<open>s.split(None, n)\<close> and \<open>s.split()\<close>: runs of whitespace separate, none is kept.\<close>

fun words_max :: "nat \<Rightarrow> string \<Rightarrow> string list" where
  "words_max 0 s =
     (let t = dropWhile is_space s in if t = [] then [] else [t])"
| "words_max (Suc n) s =
     (let t = dropWhile is_space s
      in if t = [] then []
         else takeWhile (\<lambda>x. \<not> is_space x) t # words_max n (dropWhile (\<lambda>x. \<not> is_space x) t))"

definition str_words :: "string \<Rightarrow> string list" where
  "str_words s = words_max (length s) s"

fun str_join :: "string \<Rightarrow> string list \<Rightarrow> string" where
  "str_join sep [] = []"
| "str_join sep [x] = x"
| "str_join sep (x # y # ys) = x @ sep @ str_join sep (y # ys)"

subsection \<open>int() and str() of an integer\<close>

text \<open>
  The digits of \<open>int(s)\<close>: decimal digits with single underscores between them. The flag says
  that the character before was a digit.
\<close>

fun scan_digits :: "bool \<Rightarrow> int \<Rightarrow> string \<Rightarrow> int option" where
  "scan_digits after acc [] = (if after then Some acc else None)"
| "scan_digits after acc (c # cs) =
     (if is_decimal c then scan_digits True (acc * 10 + digit_value c) cs
      else if c = CHR ''_'' \<and> after then scan_digits False acc cs
      else None)"

definition py_int :: "string \<Rightarrow> py_exn + int" where
  "py_int s =
     (let t = str_strip s;
          r = (case t of
                 [] \<Rightarrow> None
               | c # cs \<Rightarrow>
                   if c = CHR ''-'' then map_option uminus (scan_digits False 0 cs)
                   else if c = CHR ''+'' then scan_digits False 0 cs
                   else scan_digits False 0 t)
      in case r of None \<Rightarrow> Inl ValueError | Some i \<Rightarrow> Inr i)"

fun show_nat :: "nat \<Rightarrow> string" where
  "show_nat n = (if n < 10 then [digit_char n] else show_nat (n div 10) @ [digit_char (n mod 10)])"

declare show_nat.simps [simp del]

definition show_int :: "int \<Rightarrow> string" where
  "show_int i = (if i < 0 then CHR ''-'' # show_nat (nat (- i)) else show_nat (nat i))"

subsection \<open>Digits\<close>

lemma of_char_digit [simp]: "n < 10 \<Longrightarrow> of_char (digit_char n) = 48 + n"
  by (simp add: digit_char_def)

lemma digit_char_class [simp]:
  assumes "n < 10"
  shows "is_decimal (digit_char n)" and "\<not> is_space (digit_char n)"
    and "digit_value (digit_char n) = int n"
  using assms by (auto simp: is_decimal_def is_space_def digit_value_def)

lemma digit_char_neq [simp]:
  assumes "n < 10" and "\<not> is_decimal c"
  shows "digit_char n \<noteq> c"
  using assms digit_char_class(1) by blast

lemma decimal_not_space: "is_decimal c \<Longrightarrow> \<not> is_space c"
  by (auto simp: is_decimal_def is_space_def)

lemma decimal_is_digit: "is_decimal c \<Longrightarrow> is_digit_char c"
  by (simp add: is_digit_char_def)

lemma show_nat_nonempty [simp]: "show_nat n \<noteq> []"
  by (subst show_nat.simps) simp

lemma show_nat_decimal: "c \<in> set (show_nat n) \<Longrightarrow> is_decimal c"
proof (induction n rule: show_nat.induct)
  case (1 n)
  then show ?case
    by (cases "n < 10") (auto simp: show_nat.simps [of n])
qed

lemma scan_digits_append:
  "list_all is_decimal ds \<Longrightarrow> ds \<noteq> [] \<Longrightarrow>
   scan_digits after acc (ds @ rest) =
     scan_digits True (foldl (\<lambda>a d. a * 10 + digit_value d) acc ds) rest"
proof (induction ds arbitrary: after acc)
  case Nil
  then show ?case by simp
next
  case (Cons d ds)
  show ?case
  proof (cases ds)
    case Nil
    with Cons.prems show ?thesis by simp
  next
    case (Cons e es)
    then show ?thesis using Cons.IH [of True "acc * 10 + digit_value d"] Cons.prems
      by (simp del: scan_digits.simps(2) add: scan_digits.simps(2) [of after acc d])
  qed
qed

lemma show_nat_value:
  "foldl (\<lambda>a d. a * 10 + digit_value d) 0 (show_nat n) = int n"
proof (induction n rule: show_nat.induct)
  case (1 n)
  show ?case
  proof (cases "n < 10")
    case True
    then show ?thesis by (simp add: show_nat.simps [of n])
  next
    case False
    have "int (n div 10) * 10 + int (n mod 10) = int n"
      by (metis div_mult_mod_eq of_nat_add of_nat_mult of_nat_numeral)
    with False 1 show ?thesis by (simp add: show_nat.simps [of n])
  qed
qed

lemma scan_digits_show_nat: "scan_digits after 0 (show_nat n) = Some (int n)"
  using scan_digits_append [of "show_nat n" after 0 "[]"]
  by (simp add: show_nat_value list_all_iff show_nat_decimal)

subsection \<open>Stripping, splitting, joining\<close>

lemma str_strip_tight:
  assumes "s \<noteq> []" and "\<not> is_space (hd s)" and "\<not> is_space (last s)"
  shows "str_strip s = s"
proof -
  have a: "dropWhile is_space s = s" using assms(1,2) by (cases s) auto
  have "dropWhile is_space (rev s) = rev s"
    using assms(1,3) by (cases "rev s") (auto simp: hd_rev [symmetric])
  with a show ?thesis by (simp add: str_strip_def)
qed

lemma str_strip_no_space: "\<forall>c \<in> set s. \<not> is_space c \<Longrightarrow> str_strip s = s"
  by (cases "s = []") (auto simp: str_strip_def [of "[]"] intro!: str_strip_tight)

lemma show_int_no_space: "c \<in> set (show_int i) \<Longrightarrow> \<not> is_space c"
  by (auto simp: show_int_def dest!: show_nat_decimal decimal_not_space split: if_splits)
    (simp add: is_space_def)

lemma show_nat_first: "\<exists>c cs. show_nat n = c # cs \<and> is_decimal c"
  using show_nat_decimal [of _ n] by (cases "show_nat n") auto

theorem py_int_show_int: "py_int (show_int i) = Inr i"
proof -
  have strip: "str_strip (show_int i) = show_int i"
    by (rule str_strip_no_space) (blast dest: show_int_no_space)
  show ?thesis
  proof (cases "i < 0")
    case True
    then show ?thesis
      by (simp add: py_int_def strip Let_def) (simp add: show_int_def scan_digits_show_nat)
  next
    case False
    obtain c cs where c: "show_nat (nat i) = c # cs" "is_decimal c"
      using show_nat_first by blast
    then have "c \<noteq> CHR ''-''" "c \<noteq> CHR ''+''" by (auto simp: is_decimal_def)
    moreover have "scan_digits False 0 (c # cs) = Some (int (nat i))"
      using scan_digits_show_nat [of False "nat i"] c(1) by simp
    ultimately show ?thesis
      using False c by (simp add: py_int_def strip Let_def) (simp add: show_int_def)
  qed
qed

lemma show_int_nonempty [simp]: "show_int i \<noteq> []"
  by (simp add: show_int_def)

lemma takeWhile_neq_append: "c \<notin> set a \<Longrightarrow> takeWhile (\<lambda>x. x \<noteq> c) (a @ c # b) = a"
  by (induction a) auto

lemma dropWhile_neq_append: "c \<notin> set a \<Longrightarrow> dropWhile (\<lambda>x. x \<noteq> c) (a @ c # b) = c # b"
  by (induction a) auto

lemma str_partition_found: "c \<notin> set a \<Longrightarrow> str_partition c (a @ c # b) = (a, [c], b)"
  by (simp add: str_partition_def takeWhile_neq_append dropWhile_neq_append)

lemma str_partition_absent: "c \<notin> set s \<Longrightarrow> str_partition c s = (s, [], [])"
proof -
  assume c: "c \<notin> set s"
  have tw: "takeWhile (\<lambda>x. x \<noteq> c) s = s" using c by (induction s) auto
  have dw: "dropWhile (\<lambda>x. x \<noteq> c) s = []" using c by (induction s) auto
  show ?thesis using c by (simp add: str_partition_def tw dw)
qed

lemma str_rpartition_found:
  assumes "c \<notin> set b"
  shows "str_rpartition c (a @ c # b) = (a, [c], b)"
  using assms takeWhile_neq_append [of c "rev b" "rev a"] dropWhile_neq_append [of c "rev b" "rev a"]
  by (simp add: str_rpartition_def)

lemma str_split_max_found:
  "c \<notin> set a \<Longrightarrow> str_split_max (Suc n) c (a @ c # b) = a # str_split_max n c b"
  by (simp add: takeWhile_neq_append dropWhile_neq_append)

lemma str_split_max_absent: "c \<notin> set s \<Longrightarrow> str_split_max n c s = [s]"
  by (cases n) auto

lemma str_split_absent: "c \<notin> set s \<Longrightarrow> str_split c s = [s]"
  by (simp add: str_split_def str_split_max_absent)

lemma after_separator_shorter:
  "c \<in> set s \<Longrightarrow> length (drop 1 (dropWhile (\<lambda>x. x \<noteq> c) s)) < length s"
proof -
  assume "c \<in> set s"
  then have "s \<noteq> []" by auto
  moreover have "length (dropWhile (\<lambda>x. x \<noteq> c) s) \<le> length s" by (rule length_dropWhile_le)
  ultimately show ?thesis by (cases s) auto
qed

lemma str_split_max_enough:
  "length s \<le> n \<Longrightarrow> length s \<le> m \<Longrightarrow> str_split_max n c s = str_split_max m c s"
proof (induction n arbitrary: m s)
  case 0
  then show ?case by (cases m) auto
next
  case (Suc n)
  show ?case
  proof (cases "c \<in> set s")
    case True
    with Suc.prems obtain k where k: "m = Suc k" by (cases m) auto
    have "length (drop 1 (dropWhile (\<lambda>x. x \<noteq> c) s)) < length s"
      using True by (rule after_separator_shorter)
    with Suc.prems k have
      "str_split_max n c (drop 1 (dropWhile (\<lambda>x. x \<noteq> c) s)) =
       str_split_max k c (drop 1 (dropWhile (\<lambda>x. x \<noteq> c) s))"
      by (intro Suc.IH) auto
    with True k show ?thesis by simp
  next
    case False
    then show ?thesis by (simp add: str_split_max_absent)
  qed
qed

lemma str_split_found:
  assumes "c \<notin> set a"
  shows "str_split c (a @ c # b) = a # str_split c b"
proof -
  have "str_split c (a @ c # b) = str_split_max (Suc (length a + length b)) c (a @ c # b)"
    by (simp add: str_split_def)
  also have "\<dots> = a # str_split_max (length a + length b) c b"
    using assms by (rule str_split_max_found)
  also have "str_split_max (length a + length b) c b = str_split_max (length b) c b"
    by (rule str_split_max_enough) auto
  finally show ?thesis by (simp add: str_split_def)
qed

end
