(* ===== verification/Json.thy ===== *)
theory Json
  imports Py_String
begin

section \<open>The json module, as the program uses it\<close>

text \<open>
  \<open>json.dumps\<close> with its default settings (separators comma-space and colon-space,
  \<open>ensure_ascii\<close>) and \<open>json.loads\<close>, on the values the program writes: null, booleans,
  integers, strings, arrays and objects. Floats are not modelled: \<open>loads\<close> answers
  \<open>ValueError\<close> for a text with a fraction, an exponent or an escape above 0xFF. The main
  result, \<open>loads_dumps\<close>, is that reading back what was written gives the same value; the
  membership commands of the log, the snapshot lines and the stored session results rest on it.
\<close>

datatype json =
    JNull
  | JBool bool
  | JInt int
  | JStr string
  | JArr "json list"
  | JObj "(string \<times> json) list"

subsection \<open>Writing\<close>

definition quote_char :: char where
  "quote_char = CHR 0x22"

definition backslash :: char where
  "backslash = CHR 0x5C"

definition hex_char :: "nat \<Rightarrow> char" where
  "hex_char n = (if n < 10 then char_of (48 + n) else char_of (87 + n))"

definition escape_char :: "char \<Rightarrow> string" where
  "escape_char c =
     (let n = of_char c :: nat in
      if c = quote_char \<or> c = backslash then [backslash, c]
      else if n = 10 then [backslash, CHR ''n'']
      else if n = 13 then [backslash, CHR ''r'']
      else if n = 9 then [backslash, CHR ''t'']
      else if n = 12 then [backslash, CHR ''f'']
      else if n = 8 then [backslash, CHR ''b'']
      else if n < 32 \<or> 126 < n
      then [backslash, CHR ''u'', CHR ''0'', CHR ''0'', hex_char (n div 16), hex_char (n mod 16)]
      else [c])"

definition dump_string :: "string \<Rightarrow> string" where
  "dump_string s = quote_char # concat (map escape_char s) @ [quote_char]"

fun dumps :: "json \<Rightarrow> string" where
  "dumps JNull = ''null''"
| "dumps (JBool b) = (if b then ''true'' else ''false'')"
| "dumps (JInt i) = show_int i"
| "dumps (JStr s) = dump_string s"
| "dumps (JArr xs) = CHR ''['' # str_join '', '' (map dumps xs) @ '']''"
| "dumps (JObj kvs) =
     CHR ''{'' # str_join '', '' (map (\<lambda>(k, v). dump_string k @ '': '' @ dumps v) kvs) @ ''}''"

subsection \<open>Reading\<close>

definition is_json_space :: "char \<Rightarrow> bool" where
  "is_json_space c = (of_char c \<in> set [9, 10, 13, 32 :: nat])"

abbreviation skip_space :: "string \<Rightarrow> string" where
  "skip_space \<equiv> dropWhile is_json_space"

definition hex_value :: "char \<Rightarrow> nat option" where
  "hex_value c =
     (let n = of_char c in
      if 48 \<le> n \<and> n \<le> 57 then Some (n - 48)
      else if 97 \<le> n \<and> n \<le> 102 then Some (n - 87)
      else if 65 \<le> n \<and> n \<le> 70 then Some (n - 55)
      else None)"

definition unescape :: "char \<Rightarrow> char option" where
  "unescape c =
     (if c = quote_char \<or> c = backslash \<or> c = CHR ''/'' then Some c
      else if c = CHR ''n'' then Some (char_of (10 :: nat))
      else if c = CHR ''r'' then Some (char_of (13 :: nat))
      else if c = CHR ''t'' then Some (char_of (9 :: nat))
      else if c = CHR ''f'' then Some (char_of (12 :: nat))
      else if c = CHR ''b'' then Some (char_of (8 :: nat))
      else None)"

definition unescape_hex :: "char \<Rightarrow> char \<Rightarrow> char \<Rightarrow> char \<Rightarrow> char option" where
  "unescape_hex a b c d =
     (case (hex_value a, hex_value b, hex_value c, hex_value d) of
        (Some i, Some j, Some k, Some l) \<Rightarrow>
          (if i = 0 \<and> j = 0 then Some (char_of (16 * k + l)) else None)
      | _ \<Rightarrow> None)"

text \<open>The rest of a string literal, after its opening quote.\<close>

fun scan_string :: "string \<Rightarrow> (string \<times> string) option" where
  "scan_string [] = None"
| "scan_string (c # cs) =
     (if c = quote_char then Some ([], cs)
      else if c = backslash
      then (case cs of
              [] \<Rightarrow> None
            | e # r \<Rightarrow>
                (if e = CHR ''u''
                 then (case r of
                         h1 # h2 # h3 # h4 # r' \<Rightarrow>
                           (case unescape_hex h1 h2 h3 h4 of
                              None \<Rightarrow> None
                            | Some x \<Rightarrow> map_option (\<lambda>(s, t). (x # s, t)) (scan_string r'))
                       | _ \<Rightarrow> None)
                 else (case unescape e of
                         None \<Rightarrow> None
                       | Some x \<Rightarrow> map_option (\<lambda>(s, t). (x # s, t)) (scan_string r))))
      else if (of_char c :: nat) < 32 then None
      else map_option (\<lambda>(s, t). (c # s, t)) (scan_string cs))"

text \<open>Characters after which an integer literal would go on, or turn into a float.\<close>

definition number_continues :: "string \<Rightarrow> bool" where
  "number_continues s =
     (case s of [] \<Rightarrow> False | c # _ \<Rightarrow> is_decimal c \<or> c \<in> set ''.eE'')"

definition scan_number :: "string \<Rightarrow> (int \<times> string) option" where
  "scan_number s =
     (let neg = (case s of [] \<Rightarrow> False | c # _ \<Rightarrow> c = CHR ''-'');
          t = (if neg then drop 1 s else s);
          ds = takeWhile is_decimal t;
          rest = dropWhile is_decimal t
      in if ds = [] \<or> (take 1 ds = ''0'' \<and> 1 < length ds) \<or> number_continues rest then None
         else case scan_digits False 0 ds of
                None \<Rightarrow> None
              | Some i \<Rightarrow> Some (if neg then - i else i, rest))"

fun parse_value :: "nat \<Rightarrow> string \<Rightarrow> (json \<times> string) option"
  and parse_items :: "nat \<Rightarrow> string \<Rightarrow> (json list \<times> string) option"
  and parse_members :: "nat \<Rightarrow> string \<Rightarrow> ((string \<times> json) list \<times> string) option"
where
  "parse_value 0 s = None"
| "parse_value (Suc n) s =
     (case s of
        [] \<Rightarrow> None
      | c # cs \<Rightarrow>
          if c = quote_char then map_option (\<lambda>(x, r). (JStr x, r)) (scan_string cs)
          else if c = CHR ''{''
          then (case skip_space cs of
                  [] \<Rightarrow> None
                | d # r \<Rightarrow>
                    if d = CHR ''}'' then Some (JObj [], r)
                    else map_option (\<lambda>(kvs, r). (JObj (dict_merge [] kvs), r)) (parse_members n (d # r)))
          else if c = CHR ''[''
          then (case skip_space cs of
                  [] \<Rightarrow> None
                | d # r \<Rightarrow>
                    if d = CHR '']'' then Some (JArr [], r)
                    else map_option (\<lambda>(xs, r). (JArr xs, r)) (parse_items n (d # r)))
          else if take 4 s = ''null'' then Some (JNull, drop 4 s)
          else if take 4 s = ''true'' then Some (JBool True, drop 4 s)
          else if take 5 s = ''false'' then Some (JBool False, drop 5 s)
          else map_option (\<lambda>(i, r). (JInt i, r)) (scan_number s))"
| "parse_items 0 s = None"
| "parse_items (Suc n) s =
     (case parse_value n s of
        None \<Rightarrow> None
      | Some (v, r) \<Rightarrow>
          (case skip_space r of
             [] \<Rightarrow> None
           | d # r' \<Rightarrow>
               if d = CHR '']'' then Some ([v], r')
               else if d = CHR '',''
               then map_option (\<lambda>(vs, t). (v # vs, t)) (parse_items n (skip_space r'))
               else None))"
| "parse_members 0 s = None"
| "parse_members (Suc n) s =
     (case s of
        [] \<Rightarrow> None
      | c # cs \<Rightarrow>
          if c \<noteq> quote_char then None
          else (case scan_string cs of
                  None \<Rightarrow> None
                | Some (k, r) \<Rightarrow>
                    (case skip_space r of
                       [] \<Rightarrow> None
                     | d # r1 \<Rightarrow>
                         if d \<noteq> CHR '':'' then None
                         else (case parse_value n (skip_space r1) of
                                 None \<Rightarrow> None
                               | Some (v, r2) \<Rightarrow>
                                   (case skip_space r2 of
                                      [] \<Rightarrow> None
                                    | e # r3 \<Rightarrow>
                                        if e = CHR ''}'' then Some ([(k, v)], r3)
                                        else if e = CHR '',''
                                        then map_option (\<lambda>(kvs, t). ((k, v) # kvs, t))
                                               (parse_members n (skip_space r3))
                                        else None)))))"

definition loads :: "string \<Rightarrow> py_exn + json" where
  "loads s =
     (let t = skip_space s in
      case parse_value (Suc (length t)) t of
        None \<Rightarrow> Inl ValueError
      | Some (v, r) \<Rightarrow> if skip_space r = [] then Inr v else Inl ValueError)"

subsection \<open>String literals\<close>

lemma hex_value_char: "m < 16 \<Longrightarrow> hex_value (hex_char m) = Some m"
  by (auto simp: hex_value_def hex_char_def Let_def)

lemma unescape_hex_char:
  "unescape_hex (CHR ''0'') (CHR ''0'') (hex_char (of_char c div 16)) (hex_char (of_char c mod 16)) = Some c"
proof -
  have b: "(of_char c :: nat) < 256" by simp
  have d: "(of_char c :: nat) div 16 < 16" using b by (intro less_mult_imp_div_less) simp
  have m: "(of_char c :: nat) mod 16 < 16" by simp
  have z: "hex_value (CHR ''0'') = Some 0" by (simp add: hex_value_def)
  have "16 * ((of_char c :: nat) div 16) + of_char c mod 16 = of_char c" by simp
  then show ?thesis
    by (simp add: unescape_hex_def z hex_value_char [OF d] hex_value_char [OF m])
qed

lemma scan_string_plain:
  "c \<noteq> quote_char \<Longrightarrow> c \<noteq> backslash \<Longrightarrow> \<not> (of_char c :: nat) < 32 \<Longrightarrow>
   scan_string (c # r) = map_option (\<lambda>(s, t). (c # s, t)) (scan_string r)"
  by simp

lemma scan_string_short:
  "unescape e = Some c \<Longrightarrow> e \<noteq> CHR ''u'' \<Longrightarrow>
   scan_string (backslash # e # r) = map_option (\<lambda>(s, t). (c # s, t)) (scan_string r)"
  by (simp add: quote_char_def backslash_def)

lemma scan_string_hex:
  "unescape_hex h1 h2 h3 h4 = Some c \<Longrightarrow>
   scan_string (backslash # CHR ''u'' # h1 # h2 # h3 # h4 # r) = map_option (\<lambda>(s, t). (c # s, t)) (scan_string r)"
  by (simp add: quote_char_def backslash_def)

declare scan_string.simps(2) [simp del]

lemma char_by_code: "of_char c = (n :: nat) \<Longrightarrow> c = char_of n"
  by auto

lemma scan_string_escape:
  "scan_string (escape_char c @ r) = map_option (\<lambda>(s, t). (c # s, t)) (scan_string r)"
proof -
  let ?n = "of_char c :: nat"
  consider (q) "c = quote_char \<or> c = backslash" | (ctl) "?n \<in> {10, 13, 9, 12, 8}" 
    | (hex) "c \<noteq> quote_char" "c \<noteq> backslash" "?n \<notin> {10, 13, 9, 12, 8}" "?n < 32 \<or> 126 < ?n"
    | (plain) "c \<noteq> quote_char" "c \<noteq> backslash" "32 \<le> ?n" "?n \<le> 126"
    by force
  then show ?thesis
  proof cases
    case q
    then have "unescape c = Some c" "c \<noteq> CHR ''u''" by (auto simp: unescape_def quote_char_def backslash_def)
    with q show ?thesis by (simp add: escape_char_def Let_def scan_string_short)
  next
    case ctl
    then have c: "c \<noteq> quote_char" "c \<noteq> backslash" by (auto simp: quote_char_def backslash_def)
    have "unescape (CHR ''n'') = Some (char_of (10::nat))" "unescape (CHR ''r'') = Some (char_of (13::nat))"
      "unescape (CHR ''t'') = Some (char_of (9::nat))" "unescape (CHR ''f'') = Some (char_of (12::nat))"
      "unescape (CHR ''b'') = Some (char_of (8::nat))"
      by (simp_all add: unescape_def quote_char_def backslash_def)
    with ctl c show ?thesis
      by (auto simp: escape_char_def Let_def dest: char_by_code intro!: scan_string_short)
  next
    case hex
    then show ?thesis
      by (auto simp: escape_char_def Let_def scan_string_hex unescape_hex_char)
  next
    case plain
    then show ?thesis
      by (auto simp: escape_char_def Let_def scan_string_plain)
  qed
qed

lemma scan_string_dump:
  "scan_string (concat (map escape_char s) @ quote_char # r) = Some (s, r)"
  by (induction s) (simp_all add: scan_string_escape scan_string.simps(2))


subsection \<open>Integer literals\<close>

lemma show_nat_no_leading_zero: "show_nat n = c # cs \<Longrightarrow> cs \<noteq> [] \<Longrightarrow> c \<noteq> CHR ''0''"
proof (induction n arbitrary: c cs rule: show_nat.induct)
  case (1 n)
  show ?case
  proof (cases "n < 10")
    case True
    with 1 show ?thesis by (simp add: show_nat.simps [of n])
  next
    case False
    obtain d ds where d: "show_nat (n div 10) = d # ds" by (cases "show_nat (n div 10)") auto
    with False "1.prems" have c: "c = d" by (simp add: show_nat.simps [of n])
    show ?thesis
    proof (cases "ds = []")
      case True
      with d have "n div 10 < 10" by (subst (asm) show_nat.simps) (auto split: if_splits)
      with d True have "d = digit_char (n div 10)" by (simp add: show_nat.simps [of "n div 10"])
      moreover have "of_char (digit_char (n div 10)) \<noteq> (48::nat)"
        using False \<open>n div 10 < 10\<close> by simp
      ultimately show ?thesis using c by auto
    next
      case False': False
      with False d c "1.IH" show ?thesis by blast
    qed
  qed
qed

lemma number_continues_decimal: "\<not> number_continues rest \<Longrightarrow> takeWhile is_decimal rest = []"
  by (cases rest) (auto simp: number_continues_def)

lemma digits_split:
  assumes "\<forall>c \<in> set ds. is_decimal c" and "\<not> number_continues rest"
  shows "takeWhile is_decimal (ds @ rest) = ds" and "dropWhile is_decimal (ds @ rest) = rest"
  using assms number_continues_decimal [of rest]
  by (auto simp: takeWhile_append2 dropWhile_append2)
    (metis takeWhile_dropWhile_id append_Nil)

lemma scan_number_nat:
  assumes "\<not> number_continues rest"
  shows "scan_number (show_nat n @ rest) = Some (int n, rest)"
proof -
  obtain c cs where c: "show_nat n = c # cs" "is_decimal c" using show_nat_first by blast
  then have m: "c \<noteq> CHR ''-''" by (auto simp: is_decimal_def)
  have ds: "takeWhile is_decimal (show_nat n @ rest) = show_nat n"
    "dropWhile is_decimal (show_nat n @ rest) = rest"
    using digits_split [of "show_nat n" rest] assms show_nat_decimal by auto
  have z: "\<not> (take 1 (show_nat n) = ''0'' \<and> 1 < length (show_nat n))"
    using show_nat_no_leading_zero [of n c cs] c by auto
  have "(case show_nat n @ rest of [] \<Rightarrow> False | c # _ \<Rightarrow> c = CHR ''-'') = False" using c m by simp
  then show ?thesis
    using assms z unfolding scan_number_def by (simp add: Let_def ds scan_digits_show_nat)
qed

lemma scan_number_int:
  assumes "\<not> number_continues rest"
  shows "scan_number (show_int i @ rest) = Some (i, rest)"
proof (cases "i < 0")
  case False
  with scan_number_nat [OF assms, of "nat i"] show ?thesis by (simp add: show_int_def)
next
  case True
  let ?n = "nat (- i)"
  obtain c cs where c: "show_nat ?n = c # cs" "is_decimal c" using show_nat_first by blast
  have ds: "takeWhile is_decimal (show_nat ?n @ rest) = show_nat ?n"
    "dropWhile is_decimal (show_nat ?n @ rest) = rest"
    using digits_split [of "show_nat ?n" rest] assms show_nat_decimal by auto
  have z: "\<not> (take 1 (show_nat ?n) = ''0'' \<and> 1 < length (show_nat ?n))"
    using show_nat_no_leading_zero [of ?n c cs] c by auto
  show ?thesis
    using True assms z unfolding scan_number_def by (simp add: show_int_def Let_def ds scan_digits_show_nat)
qed


subsection \<open>Reading back what was written\<close>

fun wf_json :: "json \<Rightarrow> bool" where
  "wf_json (JArr xs) = list_all wf_json xs"
| "wf_json (JObj kvs) = (distinct (map fst kvs) \<and> list_all (\<lambda>(k, v). wf_json v) kvs)"
| "wf_json _ = True"

lemma dumps_first:
  "\<exists>c cs. dumps v = c # cs \<and> \<not> is_json_space c \<and> c \<notin> {CHR '']'', CHR ''}'', CHR '',''}"
proof (cases v)
  case (JInt i)
  obtain c cs where "show_nat (nat i) = c # cs" "is_decimal c" using show_nat_first by blast
  with JInt show ?thesis
    by (auto simp: show_int_def is_json_space_def is_decimal_def)
qed (auto simp: is_json_space_def dump_string_def quote_char_def)

lemma skip_space_dumps: "skip_space (dumps v @ r) = dumps v @ r"
  using dumps_first [of v] by auto

lemma parse_int_value:
  assumes "\<not> number_continues rest"
  shows "parse_value (Suc n) (show_int i @ rest) = Some (JInt i, rest)"
proof -
  obtain c cs where c: "show_int i = c # cs" "is_decimal c \<or> c = CHR ''-''"
    using show_nat_first [of "nat i"] by (cases "i < 0") (auto simp: show_int_def)
  then have "c \<noteq> quote_char" "c \<noteq> CHR ''{''" "c \<noteq> CHR ''[''" "c \<noteq> CHR ''n''" "c \<noteq> CHR ''t''" "c \<noteq> CHR ''f''"
    by (auto simp: is_decimal_def quote_char_def)
  with c scan_number_int [OF assms, of i] show ?thesis by auto
qed

definition reads_back :: "json \<Rightarrow> bool" where
  "reads_back v = (\<forall>n rest. length (dumps v) \<le> n \<longrightarrow> \<not> number_continues rest \<longrightarrow>
     parse_value n (dumps v @ rest) = Some (v, rest))"

lemma reads_backD:
  "reads_back v \<Longrightarrow> length (dumps v) \<le> n \<Longrightarrow> \<not> number_continues rest \<Longrightarrow>
   parse_value n (dumps v @ rest) = Some (v, rest)"
  by (simp add: reads_back_def)

lemma str_join_cons: "ys \<noteq> [] \<Longrightarrow> str_join sep (x # ys) = x @ sep @ str_join sep ys"
  by (cases ys) auto

lemma parse_items_back:
  assumes "xs \<noteq> []" and "\<forall>x \<in> set xs. reads_back x"
    and "length (str_join '', '' (map dumps xs)) < n"
  shows "parse_items n (str_join '', '' (map dumps xs) @ CHR '']'' # rest) = Some (xs, rest)"
  using assms
proof (induction xs arbitrary: n)
  case Nil
  then show ?case by simp
next
  case (Cons x xs)
  then obtain m where n: "n = Suc m" by (cases n) auto
  show ?case
  proof (cases "xs = []")
    case True
    then have "parse_value m (dumps x @ CHR '']'' # rest) = Some (x, CHR '']'' # rest)"
      using Cons.prems n by (intro reads_backD) (auto simp: number_continues_def is_decimal_def)
    with True n show ?thesis by (simp add: is_json_space_def)
  next
    case False
    let ?tl = "str_join '', '' (map dumps xs) @ CHR '']'' # rest"
    have l: "length (str_join '', '' (map dumps xs)) < m" "length (dumps x) \<le> m"
      using Cons.prems(3) n False by (simp_all add: str_join_cons)
    have v: "parse_value m (dumps x @ '', '' @ ?tl) = Some (x, '', '' @ ?tl)"
      using Cons.prems l by (intro reads_backD) (auto simp: number_continues_def is_decimal_def)
    obtain y ys where "xs = y # ys" using False by (cases xs) auto
    then have sk: "skip_space ?tl = ?tl"
      using dumps_first [of y] by (cases ys) auto
    have "parse_items m ?tl = Some (xs, rest)"
      using Cons.IH False Cons.prems l by simp
    with v n False sk show ?thesis
      by (simp add: str_join_cons is_json_space_def)
  qed
qed

lemma parse_members_back:
  assumes "kvs \<noteq> []" and "\<forall>(k, v) \<in> set kvs. reads_back v"
    and "length (str_join '', '' (map (\<lambda>(k, v). dump_string k @ '': '' @ dumps v) kvs)) < n"
  shows "parse_members n (str_join '', '' (map (\<lambda>(k, v). dump_string k @ '': '' @ dumps v) kvs) @ CHR ''}'' # rest)
     = Some (kvs, rest)"
  using assms
proof (induction kvs arbitrary: n)
  case Nil
  then show ?case by simp
next
  case (Cons p kvs)
  obtain k v where p: "p = (k, v)" by (cases p)
  obtain m where n: "n = Suc m" using Cons.prems by (cases n) auto
  let ?w = "\<lambda>(k, v). dump_string k @ '': '' @ dumps v"
  have head: "parse_members (Suc m) (?w (k, v) @ t) =
      (case parse_value m (dumps v @ t) of
         None \<Rightarrow> None
       | Some (v, r2) \<Rightarrow>
           (case skip_space r2 of
              [] \<Rightarrow> None
            | e # r3 \<Rightarrow>
                if e = CHR ''}'' then Some ([(k, v)], r3)
                else if e = CHR '',''
                then map_option (\<lambda>(kvs, t). ((k, v) # kvs, t)) (parse_members m (skip_space r3))
                else None))" for t
    using skip_space_dumps [of v t]
    by (simp add: dump_string_def scan_string_dump is_json_space_def)
  show ?case
  proof (cases "kvs = []")
    case True
    then have "parse_value m (dumps v @ CHR ''}'' # rest) = Some (v, CHR ''}'' # rest)"
      using Cons.prems n p by (intro reads_backD) (auto simp: number_continues_def is_decimal_def)
    with True n p show ?thesis using head [of "CHR ''}'' # rest"] by (simp add: is_json_space_def)
  next
    case False
    let ?tl = "str_join '', '' (map ?w kvs) @ CHR ''}'' # rest"
    have l: "length (str_join '', '' (map ?w kvs)) < m" "length (dumps v) \<le> m"
      using Cons.prems(3) n p False by (simp_all add: str_join_cons)
    have v: "parse_value m (dumps v @ '', '' @ ?tl) = Some (v, '', '' @ ?tl)"
      using Cons.prems l p by (intro reads_backD) (auto simp: number_continues_def is_decimal_def)
    obtain q qs where "kvs = q # qs" using False by (cases kvs) auto
    then have sk: "skip_space ?tl = ?tl"
      by (cases qs; cases q) (auto simp: dump_string_def quote_char_def is_json_space_def)
    have "parse_members m ?tl = Some (kvs, rest)"
      using Cons.IH False Cons.prems l by simp
    with v n False sk p show ?thesis
      using head [of "'', '' @ ?tl"] by (simp add: str_join_cons is_json_space_def)
  qed
qed

lemma parse_string_value:
  "parse_value (Suc n) (dump_string s @ rest) = Some (JStr s, rest)"
  by (simp add: dump_string_def scan_string_dump)

lemma reads_back_wf: "wf_json v \<Longrightarrow> reads_back v"
proof (induction v)
  case JNull
  then show ?case
    by (auto simp: reads_back_def quote_char_def elim!: Suc_le_D [THEN exE])
next
  case (JBool b)
  have "parse_value (Suc m) (dumps (JBool b) @ rest) = Some (JBool b, rest)" for m rest
    by (simp add: quote_char_def)
  then show ?case
    unfolding reads_back_def by (metis dumps.simps(2) Suc_le_D dumps_first length_Cons)
next
  case (JInt i)
  then show ?case
    unfolding reads_back_def
    by (metis dumps.simps(3) Suc_le_D dumps_first length_Cons parse_int_value)
next
  case (JStr s)
  then show ?case
    unfolding reads_back_def
    by (metis dumps.simps(4) Suc_le_D dumps_first length_Cons parse_string_value)
next
  case (JArr xs)
  show ?case
    unfolding reads_back_def
  proof (intro allI impI)
    fix n rest assume n: "length (dumps (JArr xs)) \<le> n" and r: "\<not> number_continues rest"
    then obtain m where m: "n = Suc m" by (cases n) auto
    show "parse_value n (dumps (JArr xs) @ rest) = Some (JArr xs, rest)"
    proof (cases xs)
      case Nil
      with m show ?thesis by (simp add: quote_char_def is_json_space_def)
    next
      case (Cons x ys)
      have "\<forall>x \<in> set xs. reads_back x" using JArr by (auto simp: list_all_iff)
      then have items: "parse_items m (str_join '', '' (map dumps xs) @ CHR '']'' # rest) = Some (xs, rest)"
        using n m Cons by (intro parse_items_back) auto
      obtain c cs where c: "str_join '', '' (map dumps xs) @ CHR '']'' # rest = c # cs"
        "\<not> is_json_space c" "c \<noteq> CHR '']''"
        using dumps_first [of x] Cons by (cases ys) auto
      with items m show ?thesis by (simp add: quote_char_def)
    qed
  qed
next
  case (JObj kvs)
  show ?case
    unfolding reads_back_def
  proof (intro allI impI)
    fix n rest assume n: "length (dumps (JObj kvs)) \<le> n" and r: "\<not> number_continues rest"
    let ?w = "\<lambda>(k, v). dump_string k @ '': '' @ dumps v"
    obtain m where m: "n = Suc m" using n by (cases n) auto
    show "parse_value n (dumps (JObj kvs) @ rest) = Some (JObj kvs, rest)"
    proof (cases kvs)
      case Nil
      with m show ?thesis by (simp add: quote_char_def is_json_space_def)
    next
      case (Cons q qs)
      have "\<forall>(k, v) \<in> set kvs. reads_back v"
        using JObj by (fastforce simp: list_all_iff)
      then have mem: "parse_members m (str_join '', '' (map ?w kvs) @ CHR ''}'' # rest) = Some (kvs, rest)"
        using n m Cons by (intro parse_members_back) auto
      have d: "dict_merge [] kvs = kvs" using JObj.prems dict_merge_fresh [of "[]" kvs] by simp
      obtain c cs where c: "str_join '', '' (map ?w kvs) @ CHR ''}'' # rest = c # cs"
        "\<not> is_json_space c" "c \<noteq> CHR ''}''"
        using Cons by (cases qs; cases q) (auto simp: dump_string_def quote_char_def is_json_space_def)
      with mem m d show ?thesis by (simp add: quote_char_def)
    qed
  qed
qed

theorem loads_dumps: "wf_json v \<Longrightarrow> loads (dumps v) = Inr v"
proof -
  assume "wf_json v"
  then have "parse_value (Suc (length (dumps v))) (dumps v @ []) = Some (v, [])"
    by (intro reads_backD reads_back_wf) (simp_all add: number_continues_def)
  moreover have "skip_space (dumps v) = dumps v" using skip_space_dumps [of v "[]"] by simp
  ultimately show ?thesis by (simp add: loads_def)
qed


end
