(* ===== verification/Raft_Types.thy ===== *)
theory Raft_Types
  imports Json
begin

section \<open>raft/types.py: log entries, members, the state of one node\<close>

text \<open>
  \<open>log_entry\<close>, \<open>member\<close> and \<open>raft_node\<close> are the dataclasses of \<open>raft/types.py\<close>, with the
  same fields; terms and indices are Python ints. The log keeps only the entries after the
  snapshot: entry \<open>i\<close> of the Raft log sits at position \<open>i - snapshot_index - 1\<close>. Slices with
  a negative bound behave as in Python. \<open>wf_log\<close> is the invariant that makes the arithmetic
  right: the stored entries carry consecutive indices from \<open>snapshot_index + 1\<close>.
\<close>

subsection \<open>Data\<close>

datatype raft_state = FOLLOWER | CANDIDATE | LEADER

record log_entry =
  e_term :: int
  e_index :: int
  e_command :: string
  e_username :: string
  e_request_id :: string

record member =
  member_id :: string
  raft_address :: string
  client_address :: string

definition noop_command :: string where
  "noop_command = ''NOOP''"

definition config_word :: string where
  "config_word = ''CONFIG''"

record raft_node =
  current_term :: int
  voted_for :: "string option"
  log :: "log_entry list"
  role :: raft_state
  commit_index :: int
  last_applied :: int
  next_index :: "(string, int) dict"
  match_index :: "(string, int) dict"
  leader_id :: "string option"
  snapshot_index :: int
  snapshot_term :: int
  snapshot_config :: "member list option"

subsection \<open>Membership commands\<close>

definition member_to_dict :: "member \<Rightarrow> json" where
  "member_to_dict m =
     JObj [(''id'', JStr (member_id m)), (''raft'', JStr (raft_address m)),
           (''client'', JStr (client_address m))]"

text \<open>\<open>d["id"]\<close> raises \<open>KeyError\<close>; a value that is no string is outside the model.\<close>

definition member_from_dict :: "json \<Rightarrow> py_exn + member" where
  "member_from_dict d =
     (case d of
        JObj kvs \<Rightarrow>
          (case (map_of kvs ''id'', map_of kvs ''raft'') of
             (Some (JStr i), Some (JStr r)) \<Rightarrow>
               (case map_of kvs ''client'' of
                  None \<Rightarrow> Inr \<lparr>member_id = i, raft_address = r, client_address = ''''\<rparr>
                | Some (JStr c) \<Rightarrow> Inr \<lparr>member_id = i, raft_address = r, client_address = c\<rparr>
                | Some _ \<Rightarrow> Inl TypeError)
           | (None, _) \<Rightarrow> Inl KeyError
           | (Some (JStr _), None) \<Rightarrow> Inl KeyError
           | _ \<Rightarrow> Inl TypeError)
      | _ \<Rightarrow> Inl TypeError)"

fun members_from_dicts :: "json list \<Rightarrow> py_exn + member list" where
  "members_from_dicts [] = Inr []"
| "members_from_dicts (d # ds) =
     (case member_from_dict d of
        Inl e \<Rightarrow> Inl e
      | Inr m \<Rightarrow> (case members_from_dicts ds of Inl e \<Rightarrow> Inl e | Inr ms \<Rightarrow> Inr (m # ms)))"

text \<open>\<open>sorted(members, key=lambda m: m.node_id)\<close>: a stable sort in code point order.\<close>

fun string_le :: "string \<Rightarrow> string \<Rightarrow> bool" where
  "string_le [] ys = True"
| "string_le (x # xs) [] = False"
| "string_le (x # xs) (y # ys) =
     ((of_char x :: nat) < of_char y \<or> (x = y \<and> string_le xs ys))"

fun insert_string :: "string \<Rightarrow> string list \<Rightarrow> string list" where
  "insert_string s [] = [s]"
| "insert_string s (t # ts) = (if string_le s t then s # t # ts else t # insert_string s ts)"

definition sort_strings :: "string list \<Rightarrow> string list" where
  "sort_strings ss = foldr insert_string ss []"

fun insert_member :: "member \<Rightarrow> member list \<Rightarrow> member list" where
  "insert_member m [] = [m]"
| "insert_member m (x # xs) =
     (if string_le (member_id m) (member_id x) then m # x # xs else x # insert_member m xs)"

definition sort_members :: "member list \<Rightarrow> member list" where
  "sort_members ms = foldr insert_member ms []"

definition config_command :: "member list \<Rightarrow> string" where
  "config_command members =
     config_word @ '' '' @ dumps (JArr (map member_to_dict (sort_members members)))"

definition parse_config :: "string \<Rightarrow> py_exn + member list option" where
  "parse_config cmd =
     (if \<not> str_startswith cmd (config_word @ '' '') then Inr None
      else case loads (py_drop (int (length config_word) + 1) cmd) of
             Inl e \<Rightarrow> Inl e
           | Inr (JArr ds) \<Rightarrow>
               (case members_from_dicts ds of Inl e \<Rightarrow> Inl e | Inr ms \<Rightarrow> Inr (Some ms))
           | Inr _ \<Rightarrow> Inl TypeError)"

text \<open>
  The callers of \<open>parse_config\<close> do not expect it to raise: a \<open>CONFIG\<close> command in a log was
  written by \<open>config_command\<close>. \<open>config_of\<close> is its value in that case; \<open>parse_config_command\<close>
  below shows that it is never reached with an exception for such a command.
\<close>

definition config_of :: "string \<Rightarrow> member list option" where
  "config_of cmd = (case parse_config cmd of Inl e \<Rightarrow> None | Inr r \<Rightarrow> r)"

subsection \<open>RaftNode\<close>

definition last_log_index :: "raft_node \<Rightarrow> int" where
  "last_log_index n = snapshot_index n + int (length (log n))"

definition last_log_term :: "raft_node \<Rightarrow> int" where
  "last_log_term n = (if log n \<noteq> [] then e_term (last (log n)) else snapshot_term n)"

definition term_at :: "raft_node \<Rightarrow> int \<Rightarrow> int option" where
  "term_at n i =
     (if i = snapshot_index n then Some (snapshot_term n)
      else if i < snapshot_index n \<or> i > last_log_index n then None
      else map_option e_term (py_index (log n) (i - snapshot_index n - 1)))"

definition entry_at :: "raft_node \<Rightarrow> int \<Rightarrow> log_entry option" where
  "entry_at n i =
     (if i \<le> snapshot_index n \<or> i > last_log_index n then None
      else py_index (log n) (i - snapshot_index n - 1))"

definition entries_from :: "raft_node \<Rightarrow> int \<Rightarrow> int \<Rightarrow> log_entry list" where
  "entries_from n i limit =
     (let start = i - snapshot_index n - 1 in py_slice start (start + limit) (log n))"

definition truncate_from :: "raft_node \<Rightarrow> int \<Rightarrow> raft_node" where
  "truncate_from n i = n\<lparr>log := py_take (i - snapshot_index n - 1) (log n)\<rparr>"

fun newest_config :: "log_entry list \<Rightarrow> (int \<times> member list) option" where
  "newest_config [] = None"
| "newest_config (e # es) =
     (case config_of (e_command e) of None \<Rightarrow> newest_config es | Some ms \<Rightarrow> Some (e_index e, ms))"

definition latest_config :: "raft_node \<Rightarrow> int \<times> member list option" where
  "latest_config n =
     (case newest_config (rev (log n)) of
        Some (i, ms) \<Rightarrow> (i, Some ms)
      | None \<Rightarrow> (snapshot_index n, snapshot_config n))"

definition config_at :: "raft_node \<Rightarrow> int \<Rightarrow> member list option" where
  "config_at n i =
     (case newest_config (filter (\<lambda>e. e_index e \<le> i) (rev (log n))) of
        Some (_, ms) \<Rightarrow> Some ms
      | None \<Rightarrow> snapshot_config n)"

definition compact_through :: "raft_node \<Rightarrow> int \<Rightarrow> int \<Rightarrow> member list option \<Rightarrow> raft_node" where
  "compact_through n i t config =
     (let config' = (case config of None \<Rightarrow> config_at n i | Some c \<Rightarrow> Some c);
          log' = (if term_at n i = Some t then py_drop (i - snapshot_index n) (log n) else [])
      in n\<lparr>log := log', snapshot_index := i, snapshot_term := t, snapshot_config := config'\<rparr>)"

definition is_leader :: "raft_node \<Rightarrow> bool" where
  "is_leader n = (role n = LEADER)"

subsection \<open>Membership commands: round trip\<close>

lemma member_dict_round_trip: "member_from_dict (member_to_dict m) = Inr m"
  by (simp add: member_from_dict_def member_to_dict_def)

lemma members_dicts_round_trip: "members_from_dicts (map member_to_dict ms) = Inr ms"
  by (induction ms) (simp_all add: member_dict_round_trip)

lemma wf_members_json: "wf_json (JArr (map member_to_dict ms))"
  by (simp add: member_to_dict_def list_all_iff)

lemma parse_config_command: "parse_config (config_command ms) = Inr (Some (sort_members ms))"
proof -
  let ?v = "JArr (map member_to_dict (sort_members ms))"
  have "str_startswith (config_command ms) (config_word @ '' '')"
    by (simp add: str_startswith_def config_command_def config_word_def)
  moreover have "py_drop (int (length config_word) + 1) (config_command ms) = dumps ?v"
    by (simp add: py_drop_nonneg config_command_def config_word_def nat_add_distrib)
  ultimately show ?thesis
    using loads_dumps [OF wf_members_json, of "sort_members ms"]
    by (simp add: parse_config_def members_dicts_round_trip)
qed

lemma config_of_command [simp]: "config_of (config_command ms) = Some (sort_members ms)"
  by (simp add: config_of_def parse_config_command)

lemma config_of_other [simp]: "\<not> str_startswith c (config_word @ '' '') \<Longrightarrow> config_of c = None"
  by (simp add: config_of_def parse_config_def)

lemma config_of_noop [simp]: "config_of noop_command = None"
  by (rule config_of_other) (simp add: noop_command_def str_startswith_def config_word_def)

subsection \<open>The sorted membership\<close>

lemma string_le_refl [simp]: "string_le s s"
  by (induction s) auto

lemma string_le_total: "string_le s t \<or> string_le t s"
  by (induction s t rule: string_le.induct) (auto simp: not_less nat_less_le)

lemma string_le_trans: "string_le s t \<Longrightarrow> string_le t u \<Longrightarrow> string_le s u"
proof (induction s t arbitrary: u rule: string_le.induct)
  case (3 x xs y ys)
  then show ?case by (cases u) auto
qed auto

lemma string_le_antisym: "string_le s t \<Longrightarrow> string_le t s \<Longrightarrow> s = t"
proof (induction s t rule: string_le.induct)
  case (1 ys)
  then show ?case by (cases ys) auto
qed auto

lemma set_insert_member [simp]: "set (insert_member m xs) = insert m (set xs)"
  by (induction xs) auto

lemma set_sort_members [simp]: "set (sort_members ms) = set ms"
  by (induction ms) (auto simp: sort_members_def)

lemma length_sort_members [simp]: "length (sort_members ms) = length ms"
proof -
  have "length (insert_member m xs) = Suc (length xs)" for m xs
    by (induction xs) auto
  then show ?thesis by (induction ms) (auto simp: sort_members_def)
qed

lemma distinct_insert_member:
  "distinct (map member_id xs) \<Longrightarrow> member_id m \<notin> member_id ` set xs \<Longrightarrow>
   distinct (map member_id (insert_member m xs))"
  by (induction xs) auto

lemma distinct_sort_members:
  "distinct (map member_id ms) \<Longrightarrow> distinct (map member_id (sort_members ms))"
proof (induction ms)
  case Nil
  then show ?case by (simp add: sort_members_def)
next
  case (Cons m ms)
  then have "distinct (map member_id (sort_members ms))" "member_id m \<notin> member_id ` set (sort_members ms)"
    by auto
  then show ?case by (simp add: sort_members_def [of "m # ms"]) (simp add: sort_members_def [symmetric] distinct_insert_member)
qed

lemma sorted_insert_member:
  "sorted_wrt (\<lambda>a b. string_le (member_id a) (member_id b)) xs \<Longrightarrow>
   sorted_wrt (\<lambda>a b. string_le (member_id a) (member_id b)) (insert_member m xs)"
proof (induction xs)
  case (Cons x xs)
  then show ?case
    using string_le_total [of "member_id m" "member_id x"] string_le_trans by (auto; blast)
qed simp

lemma sorted_sort_members:
  "sorted_wrt (\<lambda>a b. string_le (member_id a) (member_id b)) (sort_members ms)"
  by (induction ms) (simp_all add: sort_members_def sorted_insert_member)

subsection \<open>The log arithmetic\<close>

definition wf_log :: "raft_node \<Rightarrow> bool" where
  "wf_log n = (\<forall>k < length (log n). e_index (log n ! k) = snapshot_index n + 1 + int k)"

definition in_log :: "raft_node \<Rightarrow> int \<Rightarrow> bool" where
  "in_log n i = (snapshot_index n < i \<and> i \<le> last_log_index n)"

lemma entry_at_nth: "in_log n i \<Longrightarrow> entry_at n i = Some (log n ! nat (i - snapshot_index n - 1))"
  by (simp add: entry_at_def in_log_def last_log_index_def py_index_nonneg)

lemma entry_at_None: "entry_at n i = None \<longleftrightarrow> \<not> in_log n i"
  by (auto simp: entry_at_def in_log_def last_log_index_def py_index_def Let_def)

lemma term_at_entry:
  "term_at n i = (if i = snapshot_index n then Some (snapshot_term n) else map_option e_term (entry_at n i))"
  by (auto simp: term_at_def entry_at_def)

lemma term_at_None: "term_at n i = None \<longleftrightarrow> i < snapshot_index n \<or> last_log_index n < i"
  using entry_at_None [of n i] by (auto simp: term_at_entry in_log_def last_log_index_def)

lemma entry_at_index: "wf_log n \<Longrightarrow> entry_at n i = Some e \<Longrightarrow> e_index e = i"
  using entry_at_None [of n i] entry_at_nth [of n i]
  by (auto simp: wf_log_def in_log_def last_log_index_def)

lemma last_log_term_at: "term_at n (last_log_index n) = Some (last_log_term n)"
proof (cases "log n = []")
  case True
  then show ?thesis by (simp add: term_at_def last_log_index_def last_log_term_def)
next
  case False
  then have "in_log n (last_log_index n)" by (cases "log n") (auto simp: in_log_def last_log_index_def)
  moreover have "nat (int (length (log n)) - 1) = length (log n) - 1" by (simp add: nat_diff_distrib')
  ultimately show ?thesis
    using False by (simp add: term_at_entry entry_at_nth last_log_term_def last_conv_nth)
      (simp add: last_log_index_def)
qed

lemma wf_log_append:
  assumes "wf_log n" and "\<forall>k < length es. e_index (es ! k) = last_log_index n + 1 + int k"
  shows "wf_log (n\<lparr>log := log n @ es\<rparr>)"
  using assms by (auto simp: wf_log_def nth_append last_log_index_def)

lemma entry_at_append:
  "i \<le> last_log_index n \<Longrightarrow> entry_at (n\<lparr>log := log n @ es\<rparr>) i = entry_at n i"
  by (auto simp: entry_at_def last_log_index_def py_index_def Let_def nth_append)

lemma truncate_from_log:
  assumes "snapshot_index n < i"
  shows "log (truncate_from n i) = take (nat (i - snapshot_index n - 1)) (log n)"
  using assms by (simp add: truncate_from_def py_take_nonneg)

lemma truncate_from_fields [simp]:
  "snapshot_index (truncate_from n i) = snapshot_index n"
  "snapshot_term (truncate_from n i) = snapshot_term n"
  "snapshot_config (truncate_from n i) = snapshot_config n"
  "current_term (truncate_from n i) = current_term n"
  "voted_for (truncate_from n i) = voted_for n"
  "role (truncate_from n i) = role n"
  "commit_index (truncate_from n i) = commit_index n"
  "last_applied (truncate_from n i) = last_applied n"
  "leader_id (truncate_from n i) = leader_id n"
  "next_index (truncate_from n i) = next_index n"
  "match_index (truncate_from n i) = match_index n"
  by (simp_all add: truncate_from_def)

lemma last_log_index_truncate:
  "in_log n i \<Longrightarrow> last_log_index (truncate_from n i) = i - 1"
  by (auto simp: last_log_index_def truncate_from_log in_log_def min_def)

lemma entry_at_truncate:
  assumes "in_log n i"
  shows "entry_at (truncate_from n i) j = (if j < i then entry_at n j else None)"
proof -
  have l: "last_log_index (truncate_from n i) = i - 1" by (rule last_log_index_truncate [OF assms])
  show ?thesis
  proof (cases "j < i")
    case True
    show ?thesis
    proof (cases "snapshot_index n < j")
      case True': True
      have "in_log n j" "in_log (truncate_from n i) j"
        using True True' assms l by (auto simp: in_log_def)
      with assms True True' show ?thesis
        by (simp add: entry_at_nth truncate_from_log in_log_def)
    next
      case False
      then show ?thesis by (simp add: entry_at_def)
    qed
  next
    case False
    then show ?thesis using l by (simp add: entry_at_None [unfolded in_log_def])
  qed
qed

lemma wf_log_truncate: "wf_log n \<Longrightarrow> snapshot_index n < i \<Longrightarrow> wf_log (truncate_from n i)"
  by (simp add: wf_log_def truncate_from_log)


subsection \<open>Compaction\<close>

lemma compact_through_fields [simp]:
  "snapshot_index (compact_through n i t c) = i"
  "snapshot_term (compact_through n i t c) = t"
  "current_term (compact_through n i t c) = current_term n"
  "voted_for (compact_through n i t c) = voted_for n"
  "role (compact_through n i t c) = role n"
  "commit_index (compact_through n i t c) = commit_index n"
  "last_applied (compact_through n i t c) = last_applied n"
  "leader_id (compact_through n i t c) = leader_id n"
  "next_index (compact_through n i t c) = next_index n"
  "match_index (compact_through n i t c) = match_index n"
  by (simp_all add: compact_through_def Let_def)

lemma compact_log_match:
  assumes "term_at n i = Some t"
  shows "log (compact_through n i t c) = drop (nat (i - snapshot_index n)) (log n)"
    and "last_log_index (compact_through n i t c) = last_log_index n"
proof -
  have r: "snapshot_index n \<le> i" "i \<le> last_log_index n"
    using assms term_at_None [of n i] by auto
  show l: "log (compact_through n i t c) = drop (nat (i - snapshot_index n)) (log n)"
    using assms r by (simp add: compact_through_def Let_def py_drop_nonneg)
  show "last_log_index (compact_through n i t c) = last_log_index n"
    using r by (simp add: last_log_index_def l)
qed

lemma compact_log_mismatch:
  assumes "term_at n i \<noteq> Some t"
  shows "log (compact_through n i t c) = []" and "last_log_index (compact_through n i t c) = i"
  using assms by (simp_all add: compact_through_def Let_def last_log_index_def)

lemma entry_at_compact:
  assumes "term_at n i = Some t" and "i < j"
  shows "entry_at (compact_through n i t c) j = entry_at n j"
proof -
  have r: "snapshot_index n \<le> i" using assms term_at_None [of n i] by auto
  show ?thesis
  proof (cases "in_log n j")
    case True
    have "in_log (compact_through n i t c) j"
      using True assms by (simp add: in_log_def compact_log_match)
    with True r assms show ?thesis
      by (simp add: entry_at_nth compact_log_match in_log_def last_log_index_def nat_add_distrib [symmetric]
          diff_right_commute)
  next
    case False
    then have "entry_at n j = None" "entry_at (compact_through n i t c) j = None"
      using r assms by (auto simp: entry_at_None in_log_def compact_log_match)
    then show ?thesis by simp
  qed
qed

lemma wf_log_compact: "wf_log n \<Longrightarrow> wf_log (compact_through n i t c)"
proof (cases "term_at n i = Some t")
  case True
  assume "wf_log n"
  moreover have "snapshot_index n \<le> i" using True term_at_None [of n i] by auto
  ultimately show ?thesis using True by (auto simp: wf_log_def compact_log_match)
qed (simp add: wf_log_def compact_log_mismatch)

lemma newest_config_append:
  "newest_config (xs @ ys) = (case newest_config xs of None \<Rightarrow> newest_config ys | Some r \<Rightarrow> Some r)"
  by (induction xs) (auto split: option.splits)

lemma entries_up_to:
  assumes "wf_log n" and "snapshot_index n \<le> i"
  shows "filter (\<lambda>e. e_index e \<le> i) (log n) = take (nat (i - snapshot_index n)) (log n)"
proof -
  let ?k = "nat (i - snapshot_index n)"
  have a: "\<forall>e \<in> set (take ?k (log n)). e_index e \<le> i"
    using assms by (auto simp: in_set_conv_nth wf_log_def)
  have b: "\<forall>e \<in> set (drop ?k (log n)). \<not> e_index e \<le> i"
    using assms by (auto simp: in_set_conv_nth wf_log_def)
  have "filter (\<lambda>e. e_index e \<le> i) (log n) =
      filter (\<lambda>e. e_index e \<le> i) (take ?k (log n)) @ filter (\<lambda>e. e_index e \<le> i) (drop ?k (log n))"
    by (metis append_take_drop_id filter_append)
  with a b show ?thesis by (simp add: filter_id_conv filter_empty_conv)
qed

lemma compact_keeps_latest_config:
  assumes "wf_log n" and "term_at n i = Some t"
  shows "snd (latest_config (compact_through n i t None)) = snd (latest_config n)"
proof -
  let ?k = "nat (i - snapshot_index n)"
  have r: "snapshot_index n \<le> i" using assms term_at_None [of n i] by auto
  have cfg: "snapshot_config (compact_through n i t None) = config_at n i"
    by (simp add: compact_through_def Let_def)
  have at: "config_at n i = (case newest_config (rev (take ?k (log n))) of
      Some (_, ms) \<Rightarrow> Some ms | None \<Rightarrow> snapshot_config n)"
    by (simp add: config_at_def rev_filter [symmetric] entries_up_to [OF assms(1) r])
  have "rev (log n) = rev (drop ?k (log n)) @ rev (take ?k (log n))"
    by (metis append_take_drop_id rev_append)
  then have "newest_config (rev (log n)) = (case newest_config (rev (drop ?k (log n))) of
      None \<Rightarrow> newest_config (rev (take ?k (log n))) | Some x \<Rightarrow> Some x)"
    by (simp add: newest_config_append)
  then show ?thesis
    by (simp add: latest_config_def compact_log_match [OF assms(2)] cfg at split: option.splits)
qed


end
