(* ===== verification/Raft_Storage.thy ===== *)
theory Raft_Storage
  imports Raft_Types
begin

section \<open>raft/storage.py: what a node must not forget\<close>

text \<open>
  \<open>pstate\<close> is \<open>PersistentState\<close>. The abstract class \<open>RaftStorage\<close> is the record
  \<open>raft_storage\<close> of its methods, over the type of the storage object; the engine takes such a
  record, as the Python engine takes any subclass. The locale \<open>raft_storage_laws\<close> states what
  the engine relies on: after each operation \<open>load\<close> gives exactly what was saved. Inside it,
  \<open>mirrors\<close> says that reloading would give the node's own term, vote, log and snapshot, and the
  lemmas show that each pair (change of the node, call of the storage) keeps it.
  \<open>MemoryRaftStorage\<close> is modelled field by field and is shown to satisfy the laws.
\<close>

record pstate =
  p_current_term :: int
  p_voted_for :: "string option"
  p_log :: "log_entry list"
  p_snapshot_index :: int
  p_snapshot_term :: int
  p_last_applied :: int
  p_snapshot_config :: "member list option"

definition fresh_pstate :: pstate where
  "fresh_pstate = \<lparr>p_current_term = 0, p_voted_for = None, p_log = [], p_snapshot_index = 0,
     p_snapshot_term = 0, p_last_applied = 0, p_snapshot_config = None\<rparr>"

record 's raft_storage =
  load_op :: "'s \<Rightarrow> pstate"
  save_term_and_vote_op :: "int \<Rightarrow> string option \<Rightarrow> 's \<Rightarrow> 's"
  append_op :: "log_entry list \<Rightarrow> 's \<Rightarrow> 's"
  truncate_from_op :: "int \<Rightarrow> 's \<Rightarrow> 's"
  save_snapshot_op :: "int \<Rightarrow> int \<Rightarrow> int \<Rightarrow> member list option \<Rightarrow> 's \<Rightarrow> 's"

subsection \<open>MemoryRaftStorage\<close>

record mem_storage =
  m_term :: int
  m_voted_for :: "string option"
  m_entries :: "(int, log_entry) dict"
  m_snapshot_index :: int
  m_snapshot_term :: int
  m_last_applied :: int
  m_config :: "member list option"

definition mem_init :: mem_storage where
  "mem_init = \<lparr>m_term = 0, m_voted_for = None, m_entries = [], m_snapshot_index = 0,
     m_snapshot_term = 0, m_last_applied = 0, m_config = None\<rparr>"

definition mem_load :: "mem_storage \<Rightarrow> pstate" where
  "mem_load s = \<lparr>p_current_term = m_term s, p_voted_for = m_voted_for s,
     p_log = map (\<lambda>i. the (map_of (m_entries s) i))
               (filter (\<lambda>i. i > m_snapshot_index s) (sort (dict_keys (m_entries s)))),
     p_snapshot_index = m_snapshot_index s, p_snapshot_term = m_snapshot_term s,
     p_last_applied = m_last_applied s, p_snapshot_config = m_config s\<rparr>"

definition mem_save_term_and_vote :: "int \<Rightarrow> string option \<Rightarrow> mem_storage \<Rightarrow> mem_storage" where
  "mem_save_term_and_vote t v s = s\<lparr>m_term := t, m_voted_for := v\<rparr>"

definition mem_drop_from :: "int \<Rightarrow> mem_storage \<Rightarrow> mem_storage" where
  "mem_drop_from i s = s\<lparr>m_entries := filter (\<lambda>(k, _). \<not> k \<ge> i) (m_entries s)\<rparr>"

definition mem_append :: "log_entry list \<Rightarrow> mem_storage \<Rightarrow> mem_storage" where
  "mem_append entries s =
     (case entries of
        [] \<Rightarrow> s
      | e # es \<Rightarrow>
          (let s' = mem_drop_from (e_index e) s
           in s'\<lparr>m_entries := fold (\<lambda>x d. dict_set d (e_index x) x) entries (m_entries s')\<rparr>))"

definition mem_truncate_from :: "int \<Rightarrow> mem_storage \<Rightarrow> mem_storage" where
  "mem_truncate_from i s = mem_drop_from i s"

definition mem_save_snapshot :: "int \<Rightarrow> int \<Rightarrow> int \<Rightarrow> member list option \<Rightarrow> mem_storage \<Rightarrow> mem_storage" where
  "mem_save_snapshot i t applied config s =
     s\<lparr>m_snapshot_index := i, m_snapshot_term := t, m_last_applied := applied,
       m_config := (case config of None \<Rightarrow> m_config s | Some c \<Rightarrow> Some c),
       m_entries := filter (\<lambda>(k, _). \<not> k \<le> i) (m_entries s)\<rparr>"

definition memory_storage :: "mem_storage raft_storage" where
  "memory_storage = \<lparr>load_op = mem_load, save_term_and_vote_op = mem_save_term_and_vote,
     append_op = mem_append, truncate_from_op = mem_truncate_from,
     save_snapshot_op = mem_save_snapshot\<rparr>"

subsection \<open>The laws of a storage\<close>

definition consecutive :: "int \<Rightarrow> log_entry list \<Rightarrow> bool" where
  "consecutive i es = (\<forall>k < length es. e_index (es ! k) = i + int k)"

definition wf_pstate :: "pstate \<Rightarrow> bool" where
  "wf_pstate p = consecutive (p_snapshot_index p + 1) (p_log p)"

definition p_last_index :: "pstate \<Rightarrow> int" where
  "p_last_index p = p_snapshot_index p + int (length (p_log p))"

locale raft_storage_laws =
  fixes R :: "'s raft_storage" and stored_ok :: "'s \<Rightarrow> bool"
  assumes load_wf: "stored_ok s \<Longrightarrow> wf_pstate (load_op R s)"
    and term_vote_ok: "stored_ok s \<Longrightarrow> stored_ok (save_term_and_vote_op R t v s)"
    and load_term_vote: "stored_ok s \<Longrightarrow> load_op R (save_term_and_vote_op R t v s) =
          (load_op R s)\<lparr>p_current_term := t, p_voted_for := v\<rparr>"
    and append_Nil: "append_op R [] s = s"
    and append_ok: "stored_ok s \<Longrightarrow> consecutive (e_index e) (e # es) \<Longrightarrow>
          p_snapshot_index (load_op R s) < e_index e \<Longrightarrow>
          e_index e \<le> p_last_index (load_op R s) + 1 \<Longrightarrow> stored_ok (append_op R (e # es) s)"
    and load_append: "stored_ok s \<Longrightarrow> consecutive (e_index e) (e # es) \<Longrightarrow>
          p_snapshot_index (load_op R s) < e_index e \<Longrightarrow>
          e_index e \<le> p_last_index (load_op R s) + 1 \<Longrightarrow>
          load_op R (append_op R (e # es) s) = (load_op R s)\<lparr>p_log :=
            take (nat (e_index e - p_snapshot_index (load_op R s) - 1)) (p_log (load_op R s)) @ e # es\<rparr>"
    and truncate_ok: "stored_ok s \<Longrightarrow> p_snapshot_index (load_op R s) < i \<Longrightarrow>
          stored_ok (truncate_from_op R i s)"
    and load_truncate: "stored_ok s \<Longrightarrow> p_snapshot_index (load_op R s) < i \<Longrightarrow>
          load_op R (truncate_from_op R i s) = (load_op R s)\<lparr>p_log :=
            take (nat (i - p_snapshot_index (load_op R s) - 1)) (p_log (load_op R s))\<rparr>"
    and snapshot_ok: "stored_ok s \<Longrightarrow> p_snapshot_index (load_op R s) \<le> i \<Longrightarrow>
          stored_ok (save_snapshot_op R i t a c s)"
    and load_snapshot: "stored_ok s \<Longrightarrow> p_snapshot_index (load_op R s) \<le> i \<Longrightarrow>
          load_op R (save_snapshot_op R i t a c s) = (load_op R s)\<lparr>
            p_log := drop (nat (i - p_snapshot_index (load_op R s))) (p_log (load_op R s)),
            p_snapshot_index := i, p_snapshot_term := t, p_last_applied := a,
            p_snapshot_config := (case c of None \<Rightarrow> p_snapshot_config (load_op R s) | Some x \<Rightarrow> Some x)\<rparr>"

subsection \<open>MemoryRaftStorage satisfies the laws\<close>

definition mem_last :: "mem_storage \<Rightarrow> int" where
  "mem_last s = m_snapshot_index s + int (length (m_entries s))"

definition mem_ok :: "mem_storage \<Rightarrow> bool" where
  "mem_ok s = (dict_ok (m_entries s) \<and> set (dict_keys (m_entries s)) = {m_snapshot_index s + 1 .. mem_last s} \<and>
     (\<forall>k e. map_of (m_entries s) k = Some e \<longrightarrow> e_index e = k))"

lemma mem_ok_dict: "mem_ok s \<Longrightarrow> dict_ok (m_entries s)"
  by (simp add: mem_ok_def)

lemma sort_interval: "distinct xs \<Longrightarrow> set xs = {a .. b :: int} \<Longrightarrow> sort xs = [a .. b]"
  by (rule sorted_distinct_set_unique) auto

lemma mem_load_log:
  assumes "mem_ok s"
  shows "p_log (mem_load s) = map (\<lambda>i. the (map_of (m_entries s) i)) [m_snapshot_index s + 1 .. mem_last s]"
proof -
  have "sort (dict_keys (m_entries s)) = [m_snapshot_index s + 1 .. mem_last s]"
    using assms by (intro sort_interval) (simp_all add: mem_ok_def dict_ok_def)
  moreover have "filter (\<lambda>i. i > m_snapshot_index s) [m_snapshot_index s + 1 .. mem_last s] = [m_snapshot_index s + 1 .. mem_last s]"
    by (auto intro!: filter_True)
  ultimately show ?thesis by (simp add: mem_load_def)
qed

lemma mem_load_length: "mem_ok s \<Longrightarrow> length (p_log (mem_load s)) = length (m_entries s)"
  by (simp add: mem_load_log mem_last_def)

lemma mem_load_nth:
  assumes "mem_ok s" and "k < length (m_entries s)"
  shows "map_of (m_entries s) (m_snapshot_index s + 1 + int k) = Some (p_log (mem_load s) ! k)"
proof -
  have "m_snapshot_index s + 1 + int k \<in> set (dict_keys (m_entries s))"
    using assms by (simp add: mem_ok_def mem_last_def)
  then obtain e where e: "map_of (m_entries s) (m_snapshot_index s + 1 + int k) = Some e"
    by (metis list.set_map map_of_eq_None_iff not_None_eq)
  have "[m_snapshot_index s + 1 .. mem_last s] ! k = m_snapshot_index s + 1 + int k"
    using assms by (intro nth_upto) (simp add: mem_last_def)
  with assms e show ?thesis by (simp add: mem_load_log mem_last_def)
qed

lemma mem_load_wf: "mem_ok s \<Longrightarrow> wf_pstate (mem_load s)"
  using mem_load_nth [of s] mem_load_length [of s]
  by (auto simp: wf_pstate_def consecutive_def mem_ok_def) (simp_all add: mem_load_def)

text \<open>An ok storage is determined by its boundary and the entries it maps.\<close>

lemma mem_okI:
  assumes "dict_ok d" and "m_entries s = d" and "m_snapshot_index s = i"
    and "consecutive (i + 1) es"
    and "\<And>k. map_of d k = (if i < k \<and> k \<le> i + int (length es) then Some (es ! nat (k - i - 1)) else None)"
  shows "mem_ok s \<and> p_log (mem_load s) = es"
proof -
  have keys: "set (dict_keys d) = {i + 1 .. i + int (length es)}"
  proof -
    have "set (dict_keys d) = {k. map_of d k \<noteq> None}"
      by (auto simp: map_of_eq_None_iff)
    also have "\<dots> = {i + 1 .. i + int (length es)}" by (auto simp: assms(5) split: if_splits)
    finally show ?thesis .
  qed
  have "length d = card (set (dict_keys d))"
    using assms(1) distinct_card [of "dict_keys d"] by (simp add: dict_ok_def)
  then have len: "length d = length es" using keys by simp
  have idx: "e_index e = k" if "map_of d k = Some e" for k e
    using that assms(4,5) by (auto simp: consecutive_def split: if_splits)
  have ok: "mem_ok s"
    unfolding mem_ok_def using assms(1-3) keys len idx by (auto simp: mem_last_def)
  moreover have "p_log (mem_load s) = es"
  proof (rule nth_equalityI)
    show "length (p_log (mem_load s)) = length es" using ok len assms by (simp add: mem_load_length)
  next
    fix k assume "k < length (p_log (mem_load s))"
    then have k: "k < length es" using ok len assms by (simp add: mem_load_length)
    then have "map_of d (i + 1 + int k) = Some (es ! k)" by (simp add: assms(5))
    with mem_load_nth [OF ok, of k] k len assms show "p_log (mem_load s) ! k = es ! k" by simp
  qed
  ultimately show ?thesis by simp
qed

lemma mem_map_of:
  assumes "mem_ok s"
  shows "map_of (m_entries s) k =
    (if m_snapshot_index s < k \<and> k \<le> mem_last s then Some (p_log (mem_load s) ! nat (k - m_snapshot_index s - 1)) else None)"
proof (cases "m_snapshot_index s < k \<and> k \<le> mem_last s")
  case True
  then have "nat (k - m_snapshot_index s - 1) < length (m_entries s)" by (auto simp: mem_last_def)
  from mem_load_nth [OF assms this] True show ?thesis by simp
next
  case False
  then have "k \<notin> set (dict_keys (m_entries s))" using assms by (auto simp: mem_ok_def)
  then show ?thesis using False by (auto simp: map_of_eq_None_iff)
qed

lemma map_of_fold_entries:
  "consecutive i es \<Longrightarrow> map_of (fold (\<lambda>x d. dict_set d (e_index x) x) es d) k =
    (if i \<le> k \<and> k < i + int (length es) then Some (es ! nat (k - i)) else map_of d k)"
proof (induction es arbitrary: d i)
  case Nil
  then show ?case by auto
next
  case (Cons e es)
  have e: "e_index e = i" using Cons.prems by (auto simp: consecutive_def)
  have "consecutive (i + 1) es"
    using Cons.prems by (force simp: consecutive_def dest: spec [of _ "Suc _"])
  then have "map_of (fold (\<lambda>x d. dict_set d (e_index x) x) es (dict_set d i e)) k =
    (if i + 1 \<le> k \<and> k < i + 1 + int (length es) then Some (es ! nat (k - (i + 1))) else map_of (dict_set d i e) k)"
    by (rule Cons.IH)
  moreover have "(e # es) ! nat (k - i) = es ! nat (k - (i + 1))" if "i < k"
  proof -
    have "nat (k - i) = Suc (nat (k - (i + 1)))" using that by linarith
    then show ?thesis by simp
  qed
  ultimately show ?case using e by (auto simp: e)
qed

lemma dict_ok_fold_set: "dict_ok d \<Longrightarrow> dict_ok (fold (\<lambda>x d. dict_set d (f x) x) es d)"
  by (induction es arbitrary: d) auto


lemma mem_load_fields:
  "p_snapshot_index (mem_load s) = m_snapshot_index s"
  "p_current_term (mem_load s) = m_term s" "p_voted_for (mem_load s) = m_voted_for s"
  "p_snapshot_term (mem_load s) = m_snapshot_term s" "p_last_applied (mem_load s) = m_last_applied s"
  "p_snapshot_config (mem_load s) = m_config s"
  by (simp_all add: mem_load_def)

lemma mem_last_index: "mem_ok s \<Longrightarrow> p_last_index (mem_load s) = mem_last s"
  by (simp add: p_last_index_def mem_load_length mem_last_def mem_load_fields)

lemma consecutive_take: "consecutive i es \<Longrightarrow> consecutive i (take n es)"
  by (simp add: consecutive_def)

lemma consecutive_drop: "consecutive i es \<Longrightarrow> consecutive (i + int n) (drop n es)"
  by (simp add: consecutive_def)

lemma consecutive_append:
  "consecutive i es \<Longrightarrow> consecutive (i + int (length es)) fs \<Longrightarrow> consecutive i (es @ fs)"
  by (auto simp: consecutive_def nth_append)

lemma mem_truncate_log:
  assumes ok: "mem_ok s" and i: "m_snapshot_index s < i"
  shows "mem_ok (mem_truncate_from i s) \<and>
    p_log (mem_load (mem_truncate_from i s)) = take (nat (i - m_snapshot_index s - 1)) (p_log (mem_load s))"
proof (rule mem_okI [where i = "m_snapshot_index s"])
  show "dict_ok (m_entries (mem_truncate_from i s))"
    using ok by (simp add: mem_truncate_from_def mem_drop_from_def mem_ok_def dict_ok_filter)
  show "consecutive (m_snapshot_index s + 1) (take (nat (i - m_snapshot_index s - 1)) (p_log (mem_load s)))"
    using mem_load_wf [OF ok] by (intro consecutive_take) (simp add: wf_pstate_def mem_load_fields)
  fix k
  have "m_entries (mem_truncate_from i s) = filter (\<lambda>(k, _). \<not> i \<le> k) (m_entries s)"
    by (simp add: mem_truncate_from_def mem_drop_from_def)
  then show "map_of (m_entries (mem_truncate_from i s)) k =
    (if m_snapshot_index s < k \<and>
        k \<le> m_snapshot_index s + int (length (take (nat (i - m_snapshot_index s - 1)) (p_log (mem_load s))))
     then Some (take (nat (i - m_snapshot_index s - 1)) (p_log (mem_load s)) ! nat (k - m_snapshot_index s - 1)) else None)"
    using i by (auto simp: map_of_filter_key mem_map_of [OF ok] mem_load_length [OF ok] mem_last_def min_def)
qed (simp_all add: mem_truncate_from_def mem_drop_from_def)

lemma mem_append_log:
  assumes ok: "mem_ok s" and c: "consecutive (e_index e) (e # es)"
    and i: "m_snapshot_index s < e_index e" "e_index e \<le> mem_last s + 1"
  shows "mem_ok (mem_append (e # es) s) \<and> p_log (mem_load (mem_append (e # es) s)) =
    take (nat (e_index e - m_snapshot_index s - 1)) (p_log (mem_load s)) @ e # es"
proof (rule mem_okI [where i = "m_snapshot_index s"])
  let ?i = "e_index e" and ?n = "nat (e_index e - m_snapshot_index s - 1)"
  let ?old = "take ?n (p_log (mem_load s))"
  let ?t = "mem_drop_from ?i s"
  have len: "int (length ?old) = ?i - m_snapshot_index s - 1"
    using i by (simp add: mem_load_length [OF ok] mem_last_def)
  have t: "mem_ok ?t" "p_log (mem_load ?t) = ?old" "m_snapshot_index ?t = m_snapshot_index s"
    using mem_truncate_log [OF ok i(1)] by (simp_all add: mem_truncate_from_def mem_drop_from_def)
  have entries: "m_entries (mem_append (e # es) s) = fold (\<lambda>x d. dict_set d (e_index x) x) (e # es) (m_entries ?t)"
    by (simp add: mem_append_def Let_def)
  show "dict_ok (m_entries (mem_append (e # es) s))"
    unfolding entries by (rule dict_ok_fold_set [OF mem_ok_dict [OF t(1)], where f = e_index])
  show "m_snapshot_index (mem_append (e # es) s) = m_snapshot_index s"
    by (simp add: mem_append_def Let_def mem_drop_from_def)
  have "consecutive (m_snapshot_index s + 1) ?old"
    using mem_load_wf [OF ok] by (intro consecutive_take) (simp add: wf_pstate_def mem_load_fields)
  moreover have "m_snapshot_index s + 1 + int (length ?old) = ?i" using len by simp
  ultimately show "consecutive (m_snapshot_index s + 1) (?old @ e # es)"
    using c by (intro consecutive_append) simp_all
  fix k
  have old: "map_of (m_entries ?t) k = (if m_snapshot_index s < k \<and> k < ?i
      then Some (?old ! nat (k - m_snapshot_index s - 1)) else None)"
    using mem_map_of [OF t(1), of k] t len mem_load_length [OF t(1)] by (auto simp: mem_last_def)
  have new: "map_of (m_entries (mem_append (e # es) s)) k =
      (if ?i \<le> k \<and> k < ?i + int (length (e # es)) then Some ((e # es) ! nat (k - ?i)) else map_of (m_entries ?t) k)"
    unfolding entries by (rule map_of_fold_entries [OF c])
  have l: "int (length (?old @ e # es)) = ?i - m_snapshot_index s + int (length es)"
    using len by simp
  show "map_of (m_entries (mem_append (e # es) s)) k =
    (if m_snapshot_index s < k \<and> k \<le> m_snapshot_index s + int (length (?old @ e # es))
     then Some ((?old @ e # es) ! nat (k - m_snapshot_index s - 1)) else None)"
  proof (cases "?i \<le> k")
    case True
    have "nat (k - m_snapshot_index s - 1) = length ?old + nat (k - ?i)" using True len i by linarith
    then have "(?old @ e # es) ! nat (k - m_snapshot_index s - 1) = (e # es) ! nat (k - ?i)"
      by (simp only: nth_append_length_plus)
    with True i show ?thesis unfolding new old l by simp
  next
    case False
    show ?thesis
    proof (cases "m_snapshot_index s < k")
      case True
      have "nat (k - m_snapshot_index s - 1) < length ?old" using True False len by linarith
      then have "(?old @ e # es) ! nat (k - m_snapshot_index s - 1) = ?old ! nat (k - m_snapshot_index s - 1)"
        by (simp only: nth_append if_True)
      with True False show ?thesis unfolding new old l by simp
    next
      case False': False
      with False show ?thesis unfolding new old l by simp
    qed
  qed
qed simp_all

lemma mem_snapshot_log:
  assumes ok: "mem_ok s" and i: "m_snapshot_index s \<le> i"
  shows "mem_ok (mem_save_snapshot i t a c s) \<and>
    p_log (mem_load (mem_save_snapshot i t a c s)) = drop (nat (i - m_snapshot_index s)) (p_log (mem_load s))"
proof (rule mem_okI [where i = i])
  let ?n = "nat (i - m_snapshot_index s)"
  show "dict_ok (m_entries (mem_save_snapshot i t a c s))"
    using ok by (simp add: mem_save_snapshot_def mem_ok_def dict_ok_filter)
  have "consecutive (m_snapshot_index s + 1 + int ?n) (drop ?n (p_log (mem_load s)))"
    using mem_load_wf [OF ok] by (intro consecutive_drop) (simp add: wf_pstate_def mem_load_fields)
  then show "consecutive (i + 1) (drop ?n (p_log (mem_load s)))" using i by (simp add: algebra_simps)
  fix k
  have sub: "?n + nat (k - i - 1) = nat (k - m_snapshot_index s - 1)" if "i < k"
    using that i by linarith
  have "m_entries (mem_save_snapshot i t a c s) = filter (\<lambda>(k, _). \<not> k \<le> i) (m_entries s)"
    by (simp add: mem_save_snapshot_def)
  then show "map_of (m_entries (mem_save_snapshot i t a c s)) k =
    (if i < k \<and> k \<le> i + int (length (drop ?n (p_log (mem_load s))))
     then Some (drop ?n (p_log (mem_load s)) ! nat (k - i - 1)) else None)"
    using i sub by (auto simp: map_of_filter_key mem_map_of [OF ok] mem_load_length [OF ok] mem_last_def)
qed (simp_all add: mem_save_snapshot_def)

lemma mem_append_fields:
  "mem_append es s = s\<lparr>m_entries := m_entries (mem_append es s)\<rparr>"
  by (cases es) (simp_all add: mem_append_def mem_drop_from_def Let_def)

lemma mem_truncate_fields:
  "mem_truncate_from i s = s\<lparr>m_entries := m_entries (mem_truncate_from i s)\<rparr>"
  by (simp add: mem_truncate_from_def mem_drop_from_def)

lemma mem_load_entries:
  "mem_load (s\<lparr>m_entries := d\<rparr>) = (mem_load s)\<lparr>p_log := p_log (mem_load (s\<lparr>m_entries := d\<rparr>))\<rparr>"
  by (simp add: mem_load_def)

lemma mem_load_append:
  "mem_load (mem_append es s) = (mem_load s)\<lparr>p_log := p_log (mem_load (mem_append es s))\<rparr>"
  by (metis mem_append_fields mem_load_entries)

lemma mem_load_truncate:
  "mem_load (mem_truncate_from i s) = (mem_load s)\<lparr>p_log := p_log (mem_load (mem_truncate_from i s))\<rparr>"
  by (metis mem_truncate_fields mem_load_entries)

lemma mem_load_snapshot:
  "mem_load (mem_save_snapshot i t a c s) = (mem_load s)\<lparr>
     p_log := p_log (mem_load (mem_save_snapshot i t a c s)), p_snapshot_index := i, p_snapshot_term := t,
     p_last_applied := a,
     p_snapshot_config := (case c of None \<Rightarrow> p_snapshot_config (mem_load s) | Some x \<Rightarrow> Some x)\<rparr>"
  by (cases c) (simp_all add: mem_load_def mem_save_snapshot_def)

lemma memory_storage_sel [simp]:
  "load_op memory_storage = mem_load"
  "save_term_and_vote_op memory_storage = mem_save_term_and_vote"
  "append_op memory_storage = mem_append"
  "truncate_from_op memory_storage = mem_truncate_from"
  "save_snapshot_op memory_storage = mem_save_snapshot"
  by (simp_all add: memory_storage_def)

interpretation mem: raft_storage_laws memory_storage mem_ok
proof (unfold_locales, goal_cases)
  case (1 s)
  then show ?case by (simp add: mem_load_wf)
next
  case (2 s t v)
  then show ?case by (simp add: mem_ok_def mem_save_term_and_vote_def mem_last_def)
next
  case (3 s t v)
  show ?case by (simp add: mem_load_def mem_save_term_and_vote_def)
next
  case (4 s)
  show ?case by (simp add: mem_append_def)
next
  case (5 s e es)
  then show ?case by (simp add: mem_append_log mem_load_fields mem_last_index)
next
  case (6 s e es)
  then show ?case by (unfold memory_storage_sel, subst mem_load_append) (simp add: mem_append_log mem_load_fields mem_last_index)
next
  case (7 s i)
  then show ?case by (simp add: mem_truncate_log mem_load_fields)
next
  case (8 s i)
  then show ?case by (unfold memory_storage_sel, subst mem_load_truncate) (simp add: mem_truncate_log mem_load_fields)
next
  case (9 s i t a c)
  then show ?case by (simp add: mem_snapshot_log mem_load_fields)
next
  case (10 s i t a c)
  then show ?case by (unfold memory_storage_sel, subst mem_load_snapshot) (simp add: mem_snapshot_log mem_load_fields)
qed


subsection \<open>The storage mirrors the node\<close>

definition mirrors :: "'s raft_storage \<Rightarrow> ('s \<Rightarrow> bool) \<Rightarrow> raft_node \<Rightarrow> 's \<Rightarrow> bool" where
  "mirrors R ok n s =
     (ok s \<and> wf_log n \<and>
      p_current_term (load_op R s) = current_term n \<and> p_voted_for (load_op R s) = voted_for n \<and>
      p_log (load_op R s) = log n \<and> p_snapshot_index (load_op R s) = snapshot_index n \<and>
      p_snapshot_term (load_op R s) = snapshot_term n \<and>
      p_snapshot_config (load_op R s) = snapshot_config n)"

context raft_storage_laws
begin

lemma mirrors_ok: "mirrors R stored_ok n s \<Longrightarrow> stored_ok s"
  by (simp add: mirrors_def)

lemma mirrors_term_vote:
  assumes "mirrors R stored_ok n s"
  shows "mirrors R stored_ok (n\<lparr>current_term := t, voted_for := v\<rparr>) (save_term_and_vote_op R t v s)"
  using assms term_vote_ok [of s t v] load_term_vote [of s t v] by (auto simp: mirrors_def wf_log_def)

lemma mirrors_append:
  assumes "mirrors R stored_ok n s" and "consecutive (last_log_index n + 1) es"
  shows "mirrors R stored_ok (n\<lparr>log := log n @ es\<rparr>) (append_op R es s)"
proof (cases es)
  case Nil
  with assms show ?thesis by (simp add: append_Nil)
next
  case (Cons e fs)
  have i: "e_index e = last_log_index n + 1" using assms(2) Cons by (auto simp: consecutive_def)
  have l: "p_snapshot_index (load_op R s) = snapshot_index n" "p_log (load_op R s) = log n" "stored_ok s"
    using assms(1) by (simp_all add: mirrors_def)
  have pre: "consecutive (e_index e) (e # fs)" "p_snapshot_index (load_op R s) < e_index e"
    "e_index e \<le> p_last_index (load_op R s) + 1"
    using assms(2) Cons i l by (auto simp: p_last_index_def last_log_index_def)
  have "nat (e_index e - snapshot_index n - 1) = length (log n)" by (simp add: i last_log_index_def)
  then show ?thesis
    using assms append_ok [OF l(3) pre] load_append [OF l(3) pre] Cons l
      wf_log_append [of n es] by (auto simp: mirrors_def consecutive_def)
qed

lemma mirrors_truncate:
  assumes "mirrors R stored_ok n s" and "snapshot_index n < i"
  shows "mirrors R stored_ok (truncate_from n i) (truncate_from_op R i s)"
  using assms truncate_ok [of s i] load_truncate [of s i] wf_log_truncate [of n i]
  by (auto simp: mirrors_def truncate_from_log)

lemma mirrors_compact:
  assumes "mirrors R stored_ok n s" and "term_at n i = Some t" and "config_at n i = c"
  shows "mirrors R stored_ok (compact_through n i t c) (save_snapshot_op R i t a c s)"
proof -
  have i: "snapshot_index n \<le> i" using assms(2) term_at_None [of n i] by auto
  have "c = None \<Longrightarrow> snapshot_config n = None"
    using assms(3) by (auto simp: config_at_def split: option.splits)
  then have "snapshot_config (compact_through n i t c) = (case c of None \<Rightarrow> snapshot_config n | Some x \<Rightarrow> Some x)"
    using assms(3) by (auto simp: compact_through_def Let_def split: option.splits)
  then show ?thesis
    using assms(1,2) i snapshot_ok [of s i t a c] load_snapshot [of s i t a c] wf_log_compact [of n i t c]
    by (cases c) (auto simp: mirrors_def compact_log_match)
qed

text \<open>Installing a snapshot: a log that disagrees with it is dropped from the storage first.\<close>

lemma mirrors_install:
  fixes t :: int
  assumes "mirrors R stored_ok n s" and "snapshot_index n \<le> i"
  defines "s1 \<equiv> if term_at n i \<noteq> Some t then truncate_from_op R (snapshot_index n + 1) s else s"
  shows "mirrors R stored_ok (compact_through n i t (Some c)) (save_snapshot_op R i t a (Some c) s1)"
proof -
  have c: "snapshot_config (compact_through n i t (Some c)) = Some c"
    by (simp add: compact_through_def Let_def)
  have l: "p_snapshot_index (load_op R s) = snapshot_index n" "p_log (load_op R s) = log n" "stored_ok s"
    using assms(1) by (simp_all add: mirrors_def)
  show ?thesis
  proof (cases "term_at n i = Some t")
    case True
    then show ?thesis
      using assms(1,2) c l snapshot_ok [of s i t a "Some c"] load_snapshot [of s i t a "Some c"]
        wf_log_compact [of n i t "Some c"]
      by (auto simp: mirrors_def compact_log_match s1_def)
  next
    case False
    have s1: "stored_ok s1" "load_op R s1 = (load_op R s)\<lparr>p_log := []\<rparr>"
      using False l truncate_ok [of s "snapshot_index n + 1"] load_truncate [of s "snapshot_index n + 1"]
      by (simp_all add: s1_def)
    then show ?thesis
      using False assms(1,2) c l snapshot_ok [of s1 i t a "Some c"] load_snapshot [of s1 i t a "Some c"]
        wf_log_compact [of n i t "Some c"]
      by (auto simp: mirrors_def compact_log_mismatch)
  qed
qed

end


end
