(* ===== verification/Raft_Engine.thy ===== *)
theory Raft_Engine
  imports Raft_Storage
begin

section \<open>raft/node.py: state, elections and state transitions of RaftEngine\<close>

text \<open>
  The engine's fields are the record \<open>engine\<close>, over the type of its storage object. Every
  critical section of the code (a \<open>with self._state_lock\<close> block) is one function from engine to
  engine. A thread the code starts and a callback it calls become an \<open>effect\<close>, appended to
  \<open>effects\<close>; the thread's own critical sections are functions of their own (for example
  \<open>vote_reply\<close> is what \<open>_request_vote_from\<close> does with a response). Locals that such threads
  share, the vote sets, are fields here: \<open>votes\<close> by term and \<open>grants\<close> by pre-vote round. The
  clock is an argument \<open>now\<close> (microseconds); the random length of an election timeout is left
  open, so a timer may fire at any time. Waking a thread (\<open>Event.set\<close>, \<open>notify_all\<close>) has no
  effect on the state.
\<close>

type_synonym time = int

subsection \<open>The vote messages of raft/rpc.py\<close>

record vote_request =
  vq_term :: int
  vq_candidate_id :: string
  vq_last_log_index :: int
  vq_last_log_term :: int
  vq_pre_vote :: bool
  vq_transfer :: bool

record vote_response =
  vr_term :: int
  vr_granted :: bool

subsection \<open>The fields of RaftEngine\<close>

datatype effect =
    SpawnPreVote member vote_request int
  | SpawnVote member vote_request
  | SpawnReplicator string int int
  | SpawnCheckQuorum int
  | CallBecomeLeader
  | CallBecomeFollower

text \<open>\<open>_waiters\<close>: a proposal still pending, or the term it was applied at (its result is kept
  by the caller's state machine).\<close>

datatype 'r waiter = Pending | Applied int 'r

record snapshot_rx =
  rx_index :: int
  rx_data :: string

record ('s, 'r) engine =
  node_id :: string
  self_address :: string
  bootstrap :: "member list"
  min_timeout :: time
  max_timeout :: time
  snapshot_threshold :: int
  node :: raft_node
  storage :: 's
  members :: "(string, member) dict"
  config_index :: int
  learners :: "(string, member) dict"
  term_start_index :: int
  last_contact :: "(string, time) dict"
  send_seq :: int
  last_ack_seq :: "(string, int) dict"
  last_leader_contact :: time
  leader_addr :: string
  transferring :: bool
  snapshot_rx :: "snapshot_rx option"
  running :: bool
  timer_generation :: int
  timer_armed :: bool
  replicators :: "(string, int) dict"
  next_event :: int
  waiters :: "(int, 'r waiter) dict"
  grants :: "(int, string list) dict"
  votes :: "(int, string list) dict"
  effects :: "effect list"

definition emit :: "effect list \<Rightarrow> ('s, 'r) engine \<Rightarrow> ('s, 'r) engine" where
  "emit xs e = e\<lparr>effects := effects e @ xs\<rparr>"

definition never_contacted :: time where
  "never_contacted = - 1000000000000000"

subsection \<open>Timers, majorities, persistence\<close>

definition reset_election_timer :: "('s, 'r) engine \<Rightarrow> ('s, 'r) engine" where
  "reset_election_timer e = e\<lparr>timer_generation := timer_generation e + 1, timer_armed := running e\<rparr>"

definition majority :: "('s, 'r) engine \<Rightarrow> nat" where
  "majority e = length (members e) div 2 + 1"

text \<open>\<open>len(votes & self._members.keys())\<close>.\<close>

definition count_votes :: "string list \<Rightarrow> ('s, 'r) engine \<Rightarrow> nat" where
  "count_votes vs e = length (filter (\<lambda>m. m \<in> set vs) (dict_keys (members e)))"

definition persist_term_and_vote :: "'s raft_storage \<Rightarrow> ('s, 'r) engine \<Rightarrow> ('s, 'r) engine" where
  "persist_term_and_vote R e =
     e\<lparr>storage := save_term_and_vote_op R (current_term (node e)) (voted_for (node e)) (storage e)\<rparr>"

definition has_quorum_contact :: "time \<Rightarrow> time \<Rightarrow> ('s, 'r) engine \<Rightarrow> bool" where
  "has_quorum_contact now window e =
     (majority e \<le> length (filter (\<lambda>m. m = node_id e \<or>
        now - dict_get (last_contact e) m never_contacted < window) (dict_keys (members e))))"

definition in_leader_lease :: "time \<Rightarrow> ('s, 'r) engine \<Rightarrow> bool" where
  "in_leader_lease now e =
     (if role (node e) = LEADER then has_quorum_contact now (min_timeout e) e
      else leader_id (node e) \<noteq> None \<and> now - last_leader_contact e < min_timeout e)"

subsection \<open>Membership\<close>

definition targets :: "('s, 'r) engine \<Rightarrow> (string, member) dict" where
  "targets e = dict_pop (dict_merge (members e) (learners e)) (node_id e)"

definition start_replicator :: "time \<Rightarrow> string \<Rightarrow> ('s, 'r) engine \<Rightarrow> ('s, 'r) engine" where
  "start_replicator now p e =
     (if dict_has (replicators e) p then e
      else
        let e1 = (if dict_has (next_index (node e)) p then e
                  else e\<lparr>node := (node e)\<lparr>next_index := dict_set (next_index (node e)) p (last_log_index (node e) + 1),
                                           match_index := dict_set (match_index (node e)) p 0\<rparr>,
                          last_contact := dict_set (last_contact e) p now\<rparr>)
        in emit [SpawnReplicator p (current_term (node e1)) (next_event e1)]
             (e1\<lparr>replicators := dict_set (replicators e1) p (next_event e1),
                 next_event := next_event e1 + 1\<rparr>))"

definition members_dict :: "member list \<Rightarrow> (string, member) dict" where
  "members_dict ms = dict_merge [] (map (\<lambda>m. (member_id m, m)) ms)"

definition refresh_config :: "time \<Rightarrow> ('s, 'r) engine \<Rightarrow> ('s, 'r) engine" where
  "refresh_config now e =
     (let (i, ms) = latest_config (node e);
          new = members_dict (case ms of None \<Rightarrow> [] | Some xs \<Rightarrow> xs);
          e1 = e\<lparr>config_index := i\<rparr>
      in if dict_eq new (members e) then e1
         else
           let e2 = e1\<lparr>members := new, learners := filter (\<lambda>(k, _). \<not> dict_has new k) (learners e1)\<rparr>
           in if role (node e2) = LEADER
              then fold (start_replicator now) (dict_keys (targets e2)) e2
              else e2)"

subsection \<open>The local log\<close>

definition append_local :: "'s raft_storage \<Rightarrow> time \<Rightarrow> log_entry list \<Rightarrow> ('s, 'r) engine \<Rightarrow> ('s, 'r) engine" where
  "append_local R now entries e =
     (let e1 = e\<lparr>node := (node e)\<lparr>log := log (node e) @ entries\<rparr>,
                 storage := append_op R entries (storage e)\<rparr>
      in if list_ex (\<lambda>x. config_of (e_command x) \<noteq> None) entries then refresh_config now e1 else e1)"

definition truncate_local :: "'s raft_storage \<Rightarrow> time \<Rightarrow> int \<Rightarrow> ('s, 'r) engine \<Rightarrow> ('s, 'r) engine" where
  "truncate_local R now i e =
     refresh_config now (e\<lparr>node := truncate_from (node e) i,
                           storage := truncate_from_op R i (storage e)\<rparr>)"

subsection \<open>Committing\<close>

definition replicas :: "int \<Rightarrow> ('s, 'r) engine \<Rightarrow> nat" where
  "replicas i e = length (filter (\<lambda>m. m = node_id e \<or> dict_get (match_index (node e)) m 0 \<ge> i)
                            (dict_keys (members e)))"

fun scan_commit :: "('s, 'r) engine \<Rightarrow> int list \<Rightarrow> int option" where
  "scan_commit e [] = None"
| "scan_commit e (i # is) =
     (if term_at (node e) i \<noteq> Some (current_term (node e)) then None
      else if majority e \<le> replicas i e then Some i
      else scan_commit e is)"

definition advance_commit_index :: "('s, 'r) engine \<Rightarrow> ('s, 'r) engine" where
  "advance_commit_index e =
     (if role (node e) \<noteq> LEADER then e
      else case scan_commit e (rev [commit_index (node e) + 1 .. last_log_index (node e)]) of
             None \<Rightarrow> e
           | Some i \<Rightarrow> e\<lparr>node := (node e)\<lparr>commit_index := i\<rparr>\<rparr>)"

subsection \<open>State transitions\<close>

definition become_follower :: "'s raft_storage \<Rightarrow> int \<Rightarrow> ('s, 'r) engine \<Rightarrow> ('s, 'r) engine" where
  "become_follower R t e =
     (let was_leader = (role (node e) = LEADER);
          e1 = (if t > current_term (node e)
                then persist_term_and_vote R
                       (e\<lparr>node := (node e)\<lparr>current_term := t, voted_for := None, leader_id := None\<rparr>\<rparr>)
                else e);
          e2 = (if was_leader
                then e1\<lparr>node := (node e1)\<lparr>leader_id := None\<rparr>, learners := [], transferring := False\<rparr>
                else e1);
          e3 = e2\<lparr>node := (node e2)\<lparr>role := FOLLOWER\<rparr>\<rparr>;
          e4 = (if was_leader then emit [CallBecomeFollower] e3 else e3)
      in reset_election_timer e4)"

definition init_peer :: "int \<Rightarrow> time \<Rightarrow> string \<Rightarrow> ('s, 'r) engine \<Rightarrow> ('s, 'r) engine" where
  "init_peer next_idx now p e =
     e\<lparr>node := (node e)\<lparr>next_index := dict_set (next_index (node e)) p next_idx,
                        match_index := dict_set (match_index (node e)) p 0\<rparr>,
       last_contact := dict_set (last_contact e) p now\<rparr>"

definition become_leader :: "'s raft_storage \<Rightarrow> time \<Rightarrow> ('s, 'r) engine \<Rightarrow> ('s, 'r) engine" where
  "become_leader R now e =
     (let next_idx = last_log_index (node e) + 1;
          e1 = e\<lparr>node := (node e)\<lparr>role := LEADER, leader_id := Some (node_id e),
                                  next_index := [], match_index := []\<rparr>,
                 leader_addr := self_address e, transferring := False, learners := [],
                 timer_generation := timer_generation e + 1, timer_armed := False,
                 last_contact := [], last_ack_seq := []\<rparr>;
          e2 = fold (init_peer next_idx now) (dict_keys (targets e1)) e1;
          e3 = append_local R now
                 [\<lparr>e_term = current_term (node e2), e_index = next_idx, e_command = noop_command,
                   e_username = [], e_request_id = []\<rparr>]
                 (e2\<lparr>term_start_index := next_idx\<rparr>);
          e4 = advance_commit_index (emit [CallBecomeLeader] e3);
          e5 = e4\<lparr>replicators := []\<rparr>;
          e6 = fold (start_replicator now) (dict_keys (targets e5)) e5
      in emit [SpawnCheckQuorum (current_term (node e6))] e6)"

definition accept_leader ::
  "'s raft_storage \<Rightarrow> time \<Rightarrow> int \<Rightarrow> string \<Rightarrow> string \<Rightarrow> ('s, 'r) engine \<Rightarrow> ('s, 'r) engine" where
  "accept_leader R now t lid addr e =
     (let e1 = (if t > current_term (node e) \<or> role (node e) \<noteq> FOLLOWER
                then become_follower R t e else reset_election_timer e);
          e2 = (if leader_id (node e1) \<noteq> Some lid then e1\<lparr>node := (node e1)\<lparr>leader_id := Some lid\<rparr>\<rparr> else e1);
          e3 = (if addr \<noteq> [] then e2\<lparr>leader_addr := addr\<rparr>
                else case map_of (members e2) lid of
                       None \<Rightarrow> e2
                     | Some m \<Rightarrow> e2\<lparr>leader_addr := raft_address m\<rparr>)
      in e3\<lparr>last_leader_contact := now\<rparr>)"

subsection \<open>Elections\<close>

definition peers_of :: "('s, 'r) engine \<Rightarrow> member list" where
  "peers_of e = filter (\<lambda>m. member_id m \<noteq> node_id e) (dict_values (members e))"

definition become_candidate :: "'s raft_storage \<Rightarrow> time \<Rightarrow> bool \<Rightarrow> ('s, 'r) engine \<Rightarrow> ('s, 'r) engine" where
  "become_candidate R now transfer e =
     (let n = node e;
          e1 = persist_term_and_vote R
                 (e\<lparr>node := n\<lparr>current_term := current_term n + 1, role := CANDIDATE,
                              voted_for := Some (node_id e), leader_id := None\<rparr>\<rparr>);
          e2 = e1\<lparr>votes := dict_set (votes e1) (current_term (node e1)) [node_id e1]\<rparr>
      in if majority e2 \<le> count_votes [node_id e2] e2 then become_leader R now e2
         else
           let e3 = reset_election_timer e2;
               request = \<lparr>vq_term = current_term (node e3), vq_candidate_id = node_id e3,
                          vq_last_log_index = last_log_index (node e3),
                          vq_last_log_term = last_log_term (node e3),
                          vq_pre_vote = False, vq_transfer = transfer\<rparr>
           in emit (map (\<lambda>p. SpawnVote p request) (peers_of e3)) e3)"

definition start_election :: "'s raft_storage \<Rightarrow> time \<Rightarrow> int option \<Rightarrow> ('s, 'r) engine \<Rightarrow> ('s, 'r) engine" where
  "start_election R now generation e =
     (if \<not> running e then e
      else if generation \<noteq> None \<and> generation \<noteq> Some (timer_generation e) then e
      else if role (node e) = LEADER then e
      else if \<not> dict_has (members e) (node_id e) then reset_election_timer e
      else if peers_of e = [] then become_candidate R now False e
      else
        let e1 = reset_election_timer e;
            n = node e1;
            request = \<lparr>vq_term = current_term n + 1, vq_candidate_id = node_id e1,
                       vq_last_log_index = last_log_index n, vq_last_log_term = last_log_term n,
                       vq_pre_vote = True, vq_transfer = False\<rparr>;
            e2 = e1\<lparr>grants := dict_set (grants e1) (timer_generation e1) [node_id e1]\<rparr>
        in emit (map (\<lambda>p. SpawnPreVote p request (timer_generation e2)) (peers_of e2)) e2)"

text \<open>\<open>_request_pre_vote_from\<close> after the response arrived.\<close>

definition pre_vote_reply ::
  "'s raft_storage \<Rightarrow> time \<Rightarrow> member \<Rightarrow> int \<Rightarrow> vote_response \<Rightarrow> ('s, 'r) engine \<Rightarrow> ('s, 'r) engine" where
  "pre_vote_reply R now peer round_id response e =
     (if vr_term response > current_term (node e) then become_follower R (vr_term response) e
      else if round_id \<noteq> timer_generation e \<or> role (node e) = LEADER then e
      else if \<not> vr_granted response then e
      else
        let gs = List.insert (member_id peer) (dict_get (grants e) round_id []);
            e1 = e\<lparr>grants := dict_set (grants e) round_id gs\<rparr>
        in if majority e1 \<le> count_votes gs e1 then become_candidate R now False e1 else e1)"

text \<open>\<open>_request_vote_from\<close> after the response arrived.\<close>

definition vote_reply ::
  "'s raft_storage \<Rightarrow> time \<Rightarrow> member \<Rightarrow> vote_request \<Rightarrow> vote_response \<Rightarrow> ('s, 'r) engine \<Rightarrow> ('s, 'r) engine" where
  "vote_reply R now peer request response e =
     (if vr_term response > current_term (node e) then become_follower R (vr_term response) e
      else if role (node e) \<noteq> CANDIDATE \<or> current_term (node e) \<noteq> vq_term request \<or> \<not> vr_granted response
      then e
      else
        let vs = List.insert (member_id peer) (dict_get (votes e) (vq_term request) []);
            e1 = e\<lparr>votes := dict_set (votes e) (vq_term request) vs\<rparr>
        in if majority e1 \<le> count_votes vs e1 then become_leader R now e1 else e1)"

definition log_ok :: "vote_request \<Rightarrow> ('s, 'r) engine \<Rightarrow> bool" where
  "log_ok req e =
     (vq_last_log_term req > last_log_term (node e) \<or>
      (vq_last_log_term req = last_log_term (node e) \<and> vq_last_log_index req \<ge> last_log_index (node e)))"

definition handle_request_vote ::
  "'s raft_storage \<Rightarrow> time \<Rightarrow> vote_request \<Rightarrow> ('s, 'r) engine \<Rightarrow> ('s, 'r) engine \<times> vote_response" where
  "handle_request_vote R now req e =
     (if vq_pre_vote req
      then (e, \<lparr>vr_term = current_term (node e),
                vr_granted = (vq_term req > current_term (node e) \<and> \<not> in_leader_lease now e \<and> log_ok req e)\<rparr>)
      else if vq_term req > current_term (node e) \<and> \<not> vq_transfer req \<and> in_leader_lease now e
      then (e, \<lparr>vr_term = current_term (node e), vr_granted = False\<rparr>)
      else
        let e1 = (if vq_term req > current_term (node e) then become_follower R (vq_term req) e else e);
            deny = \<lparr>vr_term = current_term (node e1), vr_granted = False\<rparr>
        in if vq_term req < current_term (node e1) then (e1, deny)
           else if voted_for (node e1) \<noteq> None \<and> voted_for (node e1) \<noteq> Some (vq_candidate_id req) then (e1, deny)
           else if \<not> log_ok req e1 then (e1, deny)
           else
             let e2 = reset_election_timer (persist_term_and_vote R
                        (e1\<lparr>node := (node e1)\<lparr>voted_for := Some (vq_candidate_id req)\<rparr>\<rparr>))
             in (e2, \<lparr>vr_term = current_term (node e2), vr_granted = True\<rparr>))"

text \<open>\<open>_check_quorum_loop\<close>: one round; the second component says that the loop goes on.\<close>

definition check_quorum_round ::
  "'s raft_storage \<Rightarrow> time \<Rightarrow> int \<Rightarrow> ('s, 'r) engine \<Rightarrow> ('s, 'r) engine \<times> bool" where
  "check_quorum_round R now t e =
     (if \<not> running e \<or> role (node e) \<noteq> LEADER \<or> current_term (node e) \<noteq> t then (e, False)
      else if \<not> has_quorum_contact now (max_timeout e) e
      then (become_follower R (current_term (node e)) e, False)
      else (e, True))"

definition handle_timeout_now ::
  "'s raft_storage \<Rightarrow> time \<Rightarrow> int \<Rightarrow> ('s, 'r) engine \<Rightarrow> ('s, 'r) engine \<times> int" where
  "handle_timeout_now R now t e =
     (let e1 = (if t \<ge> current_term (node e) \<and> dict_has (members e) (node_id e) \<and> role (node e) \<noteq> LEADER
                then become_candidate R now True e else e)
      in (e1, current_term (node e1)))"

subsection \<open>Starting, restoring, stopping\<close>

definition initial_node :: raft_node where
  "initial_node = \<lparr>current_term = 0, voted_for = None, log = [], role = FOLLOWER, commit_index = 0,
     last_applied = 0, next_index = [], match_index = [], leader_id = None, snapshot_index = 0,
     snapshot_term = 0, snapshot_config = None\<rparr>"

definition restore_persistent_state ::
  "'s raft_storage \<Rightarrow> time \<Rightarrow> ('s, 'r) engine \<Rightarrow> ('s, 'r) engine" where
  "restore_persistent_state R now e =
     (let saved = load_op R (storage e);
          applied = max (p_last_applied saved) (p_snapshot_index saved);
          n = (node e)\<lparr>current_term := p_current_term saved, voted_for := p_voted_for saved,
                       snapshot_index := p_snapshot_index saved, snapshot_term := p_snapshot_term saved,
                       snapshot_config := p_snapshot_config saved, log := p_log saved,
                       commit_index := applied, last_applied := applied\<rparr>;
          e1 = (if snapshot_config n = None
                then e\<lparr>node := n\<lparr>snapshot_config := Some (bootstrap e)\<rparr>,
                       storage := save_snapshot_op R (snapshot_index n) (snapshot_term n) (last_applied n)
                                    (Some (bootstrap e)) (storage e)\<rparr>
                else e\<lparr>node := n\<rparr>)
      in refresh_config now e1)"

text \<open>\<open>RaftEngine(...)\<close>: the constructor on a given storage, not yet started.\<close>

definition new_engine ::
  "'s raft_storage \<Rightarrow> time \<Rightarrow> string \<Rightarrow> string \<Rightarrow> member list \<Rightarrow> time \<times> time \<Rightarrow> int \<Rightarrow> 's \<Rightarrow> ('s, 'r) engine" where
  "new_engine R now nid addr boot timeouts threshold st =
     restore_persistent_state R now
       \<lparr>node_id = nid, self_address = addr, bootstrap = boot, min_timeout = fst timeouts,
        max_timeout = snd timeouts, snapshot_threshold = threshold, node = initial_node, storage = st,
        members = [], config_index = 0, learners = [], term_start_index = 0, last_contact = [],
        send_seq = 0, last_ack_seq = [], last_leader_contact = 0, leader_addr = [],
        transferring = False, snapshot_rx = None, running = False, timer_generation = 0,
        timer_armed = False, replicators = [], next_event = 0, waiters = [], grants = [], votes = [],
        effects = []\<rparr>"

definition start_engine :: "'s raft_storage \<Rightarrow> time \<Rightarrow> ('s, 'r) engine \<Rightarrow> ('s, 'r) engine" where
  "start_engine R now e =
     (let e1 = e\<lparr>running := True\<rparr>;
          alone = (set (dict_keys (members e1)) = {node_id e1})
      in if alone then start_election R now None e1 else reset_election_timer e1)"

definition stop_engine :: "('s, 'r) engine \<Rightarrow> ('s, 'r) engine" where
  "stop_engine e =
     e\<lparr>running := False, timer_generation := timer_generation e + 1, timer_armed := False,
       snapshot_rx := None\<rparr>"

subsection \<open>What each transition leaves alone\<close>

lemma emit_frame [simp]:
  "current_term (node (emit xs e)) = current_term (node e)"
  "voted_for (node (emit xs e)) = voted_for (node e)"
  "log (node (emit xs e)) = log (node e)"
  "role (node (emit xs e)) = role (node e)"
  "commit_index (node (emit xs e)) = commit_index (node e)"
  "last_applied (node (emit xs e)) = last_applied (node e)"
  "leader_id (node (emit xs e)) = leader_id (node e)"
  "snapshot_index (node (emit xs e)) = snapshot_index (node e)"
  "snapshot_term (node (emit xs e)) = snapshot_term (node e)"
  "snapshot_config (node (emit xs e)) = snapshot_config (node e)"
  "next_index (node (emit xs e)) = next_index (node e)"
  "match_index (node (emit xs e)) = match_index (node e)"
  "storage (emit xs e) = storage e"
  "members (emit xs e) = members e"
  "node_id (emit xs e) = node_id e"
  "self_address (emit xs e) = self_address e"
  "bootstrap (emit xs e) = bootstrap e"
  "min_timeout (emit xs e) = min_timeout e"
  "max_timeout (emit xs e) = max_timeout e"
  "snapshot_threshold (emit xs e) = snapshot_threshold e"
  "votes (emit xs e) = votes e"
  "grants (emit xs e) = grants e"
  "running (emit xs e) = running e"
  "config_index (emit xs e) = config_index e"
  "learners (emit xs e) = learners e"
  "term_start_index (emit xs e) = term_start_index e"
  "last_contact (emit xs e) = last_contact e"
  "send_seq (emit xs e) = send_seq e"
  "last_ack_seq (emit xs e) = last_ack_seq e"
  "last_leader_contact (emit xs e) = last_leader_contact e"
  "leader_addr (emit xs e) = leader_addr e"
  "transferring (emit xs e) = transferring e"
  "snapshot_rx (emit xs e) = snapshot_rx e"
  "timer_generation (emit xs e) = timer_generation e"
  "replicators (emit xs e) = replicators e"
  "waiters (emit xs e) = waiters e"
  by (simp_all add: emit_def)

lemma reset_election_timer_frame [simp]:
  "current_term (node (reset_election_timer e)) = current_term (node e)"
  "voted_for (node (reset_election_timer e)) = voted_for (node e)"
  "log (node (reset_election_timer e)) = log (node e)"
  "role (node (reset_election_timer e)) = role (node e)"
  "commit_index (node (reset_election_timer e)) = commit_index (node e)"
  "last_applied (node (reset_election_timer e)) = last_applied (node e)"
  "leader_id (node (reset_election_timer e)) = leader_id (node e)"
  "snapshot_index (node (reset_election_timer e)) = snapshot_index (node e)"
  "snapshot_term (node (reset_election_timer e)) = snapshot_term (node e)"
  "snapshot_config (node (reset_election_timer e)) = snapshot_config (node e)"
  "next_index (node (reset_election_timer e)) = next_index (node e)"
  "match_index (node (reset_election_timer e)) = match_index (node e)"
  "storage (reset_election_timer e) = storage e"
  "members (reset_election_timer e) = members e"
  "node_id (reset_election_timer e) = node_id e"
  "self_address (reset_election_timer e) = self_address e"
  "bootstrap (reset_election_timer e) = bootstrap e"
  "min_timeout (reset_election_timer e) = min_timeout e"
  "max_timeout (reset_election_timer e) = max_timeout e"
  "snapshot_threshold (reset_election_timer e) = snapshot_threshold e"
  "votes (reset_election_timer e) = votes e"
  "grants (reset_election_timer e) = grants e"
  "running (reset_election_timer e) = running e"
  "config_index (reset_election_timer e) = config_index e"
  "learners (reset_election_timer e) = learners e"
  "term_start_index (reset_election_timer e) = term_start_index e"
  "last_contact (reset_election_timer e) = last_contact e"
  "send_seq (reset_election_timer e) = send_seq e"
  "last_ack_seq (reset_election_timer e) = last_ack_seq e"
  "last_leader_contact (reset_election_timer e) = last_leader_contact e"
  "leader_addr (reset_election_timer e) = leader_addr e"
  "transferring (reset_election_timer e) = transferring e"
  "snapshot_rx (reset_election_timer e) = snapshot_rx e"
  "replicators (reset_election_timer e) = replicators e"
  "waiters (reset_election_timer e) = waiters e"
  "effects (reset_election_timer e) = effects e"
  by (simp_all add: reset_election_timer_def)

lemma persist_frame [simp]:
  "current_term (node (persist_term_and_vote R e)) = current_term (node e)"
  "voted_for (node (persist_term_and_vote R e)) = voted_for (node e)"
  "log (node (persist_term_and_vote R e)) = log (node e)"
  "role (node (persist_term_and_vote R e)) = role (node e)"
  "commit_index (node (persist_term_and_vote R e)) = commit_index (node e)"
  "last_applied (node (persist_term_and_vote R e)) = last_applied (node e)"
  "leader_id (node (persist_term_and_vote R e)) = leader_id (node e)"
  "snapshot_index (node (persist_term_and_vote R e)) = snapshot_index (node e)"
  "snapshot_term (node (persist_term_and_vote R e)) = snapshot_term (node e)"
  "snapshot_config (node (persist_term_and_vote R e)) = snapshot_config (node e)"
  "next_index (node (persist_term_and_vote R e)) = next_index (node e)"
  "match_index (node (persist_term_and_vote R e)) = match_index (node e)"
  "members (persist_term_and_vote R e) = members e"
  "node_id (persist_term_and_vote R e) = node_id e"
  "self_address (persist_term_and_vote R e) = self_address e"
  "bootstrap (persist_term_and_vote R e) = bootstrap e"
  "min_timeout (persist_term_and_vote R e) = min_timeout e"
  "max_timeout (persist_term_and_vote R e) = max_timeout e"
  "snapshot_threshold (persist_term_and_vote R e) = snapshot_threshold e"
  "votes (persist_term_and_vote R e) = votes e"
  "grants (persist_term_and_vote R e) = grants e"
  "running (persist_term_and_vote R e) = running e"
  "config_index (persist_term_and_vote R e) = config_index e"
  "learners (persist_term_and_vote R e) = learners e"
  "term_start_index (persist_term_and_vote R e) = term_start_index e"
  "last_contact (persist_term_and_vote R e) = last_contact e"
  "send_seq (persist_term_and_vote R e) = send_seq e"
  "last_ack_seq (persist_term_and_vote R e) = last_ack_seq e"
  "last_leader_contact (persist_term_and_vote R e) = last_leader_contact e"
  "leader_addr (persist_term_and_vote R e) = leader_addr e"
  "transferring (persist_term_and_vote R e) = transferring e"
  "snapshot_rx (persist_term_and_vote R e) = snapshot_rx e"
  "timer_generation (persist_term_and_vote R e) = timer_generation e"
  "replicators (persist_term_and_vote R e) = replicators e"
  "waiters (persist_term_and_vote R e) = waiters e"
  "effects (persist_term_and_vote R e) = effects e"
  by (simp_all add: persist_term_and_vote_def)

lemma start_replicator_frame [simp]:
  "current_term (node (start_replicator now p e)) = current_term (node e)"
  "voted_for (node (start_replicator now p e)) = voted_for (node e)"
  "log (node (start_replicator now p e)) = log (node e)"
  "role (node (start_replicator now p e)) = role (node e)"
  "commit_index (node (start_replicator now p e)) = commit_index (node e)"
  "last_applied (node (start_replicator now p e)) = last_applied (node e)"
  "leader_id (node (start_replicator now p e)) = leader_id (node e)"
  "snapshot_index (node (start_replicator now p e)) = snapshot_index (node e)"
  "snapshot_term (node (start_replicator now p e)) = snapshot_term (node e)"
  "snapshot_config (node (start_replicator now p e)) = snapshot_config (node e)"
  "storage (start_replicator now p e) = storage e"
  "members (start_replicator now p e) = members e"
  "node_id (start_replicator now p e) = node_id e"
  "self_address (start_replicator now p e) = self_address e"
  "bootstrap (start_replicator now p e) = bootstrap e"
  "min_timeout (start_replicator now p e) = min_timeout e"
  "max_timeout (start_replicator now p e) = max_timeout e"
  "snapshot_threshold (start_replicator now p e) = snapshot_threshold e"
  "votes (start_replicator now p e) = votes e"
  "grants (start_replicator now p e) = grants e"
  "running (start_replicator now p e) = running e"
  "config_index (start_replicator now p e) = config_index e"
  "learners (start_replicator now p e) = learners e"
  "term_start_index (start_replicator now p e) = term_start_index e"
  "send_seq (start_replicator now p e) = send_seq e"
  "last_ack_seq (start_replicator now p e) = last_ack_seq e"
  "last_leader_contact (start_replicator now p e) = last_leader_contact e"
  "leader_addr (start_replicator now p e) = leader_addr e"
  "transferring (start_replicator now p e) = transferring e"
  "snapshot_rx (start_replicator now p e) = snapshot_rx e"
  "timer_generation (start_replicator now p e) = timer_generation e"
  "waiters (start_replicator now p e) = waiters e"
  by (simp_all add: start_replicator_def Let_def)

lemma fold_start_replicator_frame [simp]:
  "current_term (node (fold (start_replicator now) ps e)) = current_term (node e)"
  "voted_for (node (fold (start_replicator now) ps e)) = voted_for (node e)"
  "log (node (fold (start_replicator now) ps e)) = log (node e)"
  "role (node (fold (start_replicator now) ps e)) = role (node e)"
  "commit_index (node (fold (start_replicator now) ps e)) = commit_index (node e)"
  "last_applied (node (fold (start_replicator now) ps e)) = last_applied (node e)"
  "leader_id (node (fold (start_replicator now) ps e)) = leader_id (node e)"
  "snapshot_index (node (fold (start_replicator now) ps e)) = snapshot_index (node e)"
  "snapshot_term (node (fold (start_replicator now) ps e)) = snapshot_term (node e)"
  "snapshot_config (node (fold (start_replicator now) ps e)) = snapshot_config (node e)"
  "storage (fold (start_replicator now) ps e) = storage e"
  "members (fold (start_replicator now) ps e) = members e"
  "node_id (fold (start_replicator now) ps e) = node_id e"
  "self_address (fold (start_replicator now) ps e) = self_address e"
  "bootstrap (fold (start_replicator now) ps e) = bootstrap e"
  "min_timeout (fold (start_replicator now) ps e) = min_timeout e"
  "max_timeout (fold (start_replicator now) ps e) = max_timeout e"
  "snapshot_threshold (fold (start_replicator now) ps e) = snapshot_threshold e"
  "votes (fold (start_replicator now) ps e) = votes e"
  "grants (fold (start_replicator now) ps e) = grants e"
  "running (fold (start_replicator now) ps e) = running e"
  "config_index (fold (start_replicator now) ps e) = config_index e"
  "learners (fold (start_replicator now) ps e) = learners e"
  "term_start_index (fold (start_replicator now) ps e) = term_start_index e"
  "send_seq (fold (start_replicator now) ps e) = send_seq e"
  "last_ack_seq (fold (start_replicator now) ps e) = last_ack_seq e"
  "last_leader_contact (fold (start_replicator now) ps e) = last_leader_contact e"
  "leader_addr (fold (start_replicator now) ps e) = leader_addr e"
  "transferring (fold (start_replicator now) ps e) = transferring e"
  "snapshot_rx (fold (start_replicator now) ps e) = snapshot_rx e"
  "timer_generation (fold (start_replicator now) ps e) = timer_generation e"
  "waiters (fold (start_replicator now) ps e) = waiters e"
  by (induction ps arbitrary: e) simp_all

lemma init_peer_frame [simp]:
  "current_term (node (init_peer i now p e)) = current_term (node e)"
  "voted_for (node (init_peer i now p e)) = voted_for (node e)"
  "log (node (init_peer i now p e)) = log (node e)"
  "role (node (init_peer i now p e)) = role (node e)"
  "commit_index (node (init_peer i now p e)) = commit_index (node e)"
  "last_applied (node (init_peer i now p e)) = last_applied (node e)"
  "leader_id (node (init_peer i now p e)) = leader_id (node e)"
  "snapshot_index (node (init_peer i now p e)) = snapshot_index (node e)"
  "snapshot_term (node (init_peer i now p e)) = snapshot_term (node e)"
  "snapshot_config (node (init_peer i now p e)) = snapshot_config (node e)"
  "storage (init_peer i now p e) = storage e"
  "members (init_peer i now p e) = members e"
  "node_id (init_peer i now p e) = node_id e"
  "self_address (init_peer i now p e) = self_address e"
  "bootstrap (init_peer i now p e) = bootstrap e"
  "min_timeout (init_peer i now p e) = min_timeout e"
  "max_timeout (init_peer i now p e) = max_timeout e"
  "snapshot_threshold (init_peer i now p e) = snapshot_threshold e"
  "votes (init_peer i now p e) = votes e"
  "grants (init_peer i now p e) = grants e"
  "running (init_peer i now p e) = running e"
  "config_index (init_peer i now p e) = config_index e"
  "learners (init_peer i now p e) = learners e"
  "term_start_index (init_peer i now p e) = term_start_index e"
  "send_seq (init_peer i now p e) = send_seq e"
  "last_ack_seq (init_peer i now p e) = last_ack_seq e"
  "last_leader_contact (init_peer i now p e) = last_leader_contact e"
  "leader_addr (init_peer i now p e) = leader_addr e"
  "transferring (init_peer i now p e) = transferring e"
  "snapshot_rx (init_peer i now p e) = snapshot_rx e"
  "timer_generation (init_peer i now p e) = timer_generation e"
  "replicators (init_peer i now p e) = replicators e"
  "waiters (init_peer i now p e) = waiters e"
  "effects (init_peer i now p e) = effects e"
  by (simp_all add: init_peer_def)

lemma fold_init_peer_frame [simp]:
  "current_term (node (fold (init_peer i now) ps e)) = current_term (node e)"
  "voted_for (node (fold (init_peer i now) ps e)) = voted_for (node e)"
  "log (node (fold (init_peer i now) ps e)) = log (node e)"
  "role (node (fold (init_peer i now) ps e)) = role (node e)"
  "commit_index (node (fold (init_peer i now) ps e)) = commit_index (node e)"
  "last_applied (node (fold (init_peer i now) ps e)) = last_applied (node e)"
  "leader_id (node (fold (init_peer i now) ps e)) = leader_id (node e)"
  "snapshot_index (node (fold (init_peer i now) ps e)) = snapshot_index (node e)"
  "snapshot_term (node (fold (init_peer i now) ps e)) = snapshot_term (node e)"
  "snapshot_config (node (fold (init_peer i now) ps e)) = snapshot_config (node e)"
  "storage (fold (init_peer i now) ps e) = storage e"
  "members (fold (init_peer i now) ps e) = members e"
  "node_id (fold (init_peer i now) ps e) = node_id e"
  "self_address (fold (init_peer i now) ps e) = self_address e"
  "bootstrap (fold (init_peer i now) ps e) = bootstrap e"
  "min_timeout (fold (init_peer i now) ps e) = min_timeout e"
  "max_timeout (fold (init_peer i now) ps e) = max_timeout e"
  "snapshot_threshold (fold (init_peer i now) ps e) = snapshot_threshold e"
  "votes (fold (init_peer i now) ps e) = votes e"
  "grants (fold (init_peer i now) ps e) = grants e"
  "running (fold (init_peer i now) ps e) = running e"
  "config_index (fold (init_peer i now) ps e) = config_index e"
  "learners (fold (init_peer i now) ps e) = learners e"
  "term_start_index (fold (init_peer i now) ps e) = term_start_index e"
  "send_seq (fold (init_peer i now) ps e) = send_seq e"
  "last_ack_seq (fold (init_peer i now) ps e) = last_ack_seq e"
  "last_leader_contact (fold (init_peer i now) ps e) = last_leader_contact e"
  "leader_addr (fold (init_peer i now) ps e) = leader_addr e"
  "transferring (fold (init_peer i now) ps e) = transferring e"
  "snapshot_rx (fold (init_peer i now) ps e) = snapshot_rx e"
  "timer_generation (fold (init_peer i now) ps e) = timer_generation e"
  "replicators (fold (init_peer i now) ps e) = replicators e"
  "waiters (fold (init_peer i now) ps e) = waiters e"
  "effects (fold (init_peer i now) ps e) = effects e"
  by (induction ps arbitrary: e) simp_all

lemma refresh_config_frame [simp]:
  "current_term (node (refresh_config now e)) = current_term (node e)"
  "voted_for (node (refresh_config now e)) = voted_for (node e)"
  "log (node (refresh_config now e)) = log (node e)"
  "role (node (refresh_config now e)) = role (node e)"
  "commit_index (node (refresh_config now e)) = commit_index (node e)"
  "last_applied (node (refresh_config now e)) = last_applied (node e)"
  "leader_id (node (refresh_config now e)) = leader_id (node e)"
  "snapshot_index (node (refresh_config now e)) = snapshot_index (node e)"
  "snapshot_term (node (refresh_config now e)) = snapshot_term (node e)"
  "snapshot_config (node (refresh_config now e)) = snapshot_config (node e)"
  "storage (refresh_config now e) = storage e"
  "node_id (refresh_config now e) = node_id e"
  "self_address (refresh_config now e) = self_address e"
  "bootstrap (refresh_config now e) = bootstrap e"
  "min_timeout (refresh_config now e) = min_timeout e"
  "max_timeout (refresh_config now e) = max_timeout e"
  "snapshot_threshold (refresh_config now e) = snapshot_threshold e"
  "votes (refresh_config now e) = votes e"
  "grants (refresh_config now e) = grants e"
  "running (refresh_config now e) = running e"
  "term_start_index (refresh_config now e) = term_start_index e"
  "send_seq (refresh_config now e) = send_seq e"
  "last_ack_seq (refresh_config now e) = last_ack_seq e"
  "last_leader_contact (refresh_config now e) = last_leader_contact e"
  "leader_addr (refresh_config now e) = leader_addr e"
  "transferring (refresh_config now e) = transferring e"
  "snapshot_rx (refresh_config now e) = snapshot_rx e"
  "timer_generation (refresh_config now e) = timer_generation e"
  "waiters (refresh_config now e) = waiters e"
  by (simp_all add: refresh_config_def Let_def split: prod.split)

lemma append_local_frame [simp]:
  "current_term (node (append_local R now es e)) = current_term (node e)"
  "voted_for (node (append_local R now es e)) = voted_for (node e)"
  "role (node (append_local R now es e)) = role (node e)"
  "commit_index (node (append_local R now es e)) = commit_index (node e)"
  "last_applied (node (append_local R now es e)) = last_applied (node e)"
  "leader_id (node (append_local R now es e)) = leader_id (node e)"
  "snapshot_index (node (append_local R now es e)) = snapshot_index (node e)"
  "snapshot_term (node (append_local R now es e)) = snapshot_term (node e)"
  "snapshot_config (node (append_local R now es e)) = snapshot_config (node e)"
  "node_id (append_local R now es e) = node_id e"
  "self_address (append_local R now es e) = self_address e"
  "bootstrap (append_local R now es e) = bootstrap e"
  "min_timeout (append_local R now es e) = min_timeout e"
  "max_timeout (append_local R now es e) = max_timeout e"
  "snapshot_threshold (append_local R now es e) = snapshot_threshold e"
  "votes (append_local R now es e) = votes e"
  "grants (append_local R now es e) = grants e"
  "running (append_local R now es e) = running e"
  "term_start_index (append_local R now es e) = term_start_index e"
  "send_seq (append_local R now es e) = send_seq e"
  "last_ack_seq (append_local R now es e) = last_ack_seq e"
  "last_leader_contact (append_local R now es e) = last_leader_contact e"
  "leader_addr (append_local R now es e) = leader_addr e"
  "transferring (append_local R now es e) = transferring e"
  "snapshot_rx (append_local R now es e) = snapshot_rx e"
  "timer_generation (append_local R now es e) = timer_generation e"
  "waiters (append_local R now es e) = waiters e"
  by (simp_all add: append_local_def Let_def)

lemma truncate_local_frame [simp]:
  "current_term (node (truncate_local R now i e)) = current_term (node e)"
  "voted_for (node (truncate_local R now i e)) = voted_for (node e)"
  "role (node (truncate_local R now i e)) = role (node e)"
  "commit_index (node (truncate_local R now i e)) = commit_index (node e)"
  "last_applied (node (truncate_local R now i e)) = last_applied (node e)"
  "leader_id (node (truncate_local R now i e)) = leader_id (node e)"
  "snapshot_index (node (truncate_local R now i e)) = snapshot_index (node e)"
  "snapshot_term (node (truncate_local R now i e)) = snapshot_term (node e)"
  "snapshot_config (node (truncate_local R now i e)) = snapshot_config (node e)"
  "node_id (truncate_local R now i e) = node_id e"
  "self_address (truncate_local R now i e) = self_address e"
  "bootstrap (truncate_local R now i e) = bootstrap e"
  "min_timeout (truncate_local R now i e) = min_timeout e"
  "max_timeout (truncate_local R now i e) = max_timeout e"
  "snapshot_threshold (truncate_local R now i e) = snapshot_threshold e"
  "votes (truncate_local R now i e) = votes e"
  "grants (truncate_local R now i e) = grants e"
  "running (truncate_local R now i e) = running e"
  "term_start_index (truncate_local R now i e) = term_start_index e"
  "send_seq (truncate_local R now i e) = send_seq e"
  "last_ack_seq (truncate_local R now i e) = last_ack_seq e"
  "last_leader_contact (truncate_local R now i e) = last_leader_contact e"
  "leader_addr (truncate_local R now i e) = leader_addr e"
  "transferring (truncate_local R now i e) = transferring e"
  "snapshot_rx (truncate_local R now i e) = snapshot_rx e"
  "timer_generation (truncate_local R now i e) = timer_generation e"
  "waiters (truncate_local R now i e) = waiters e"
  by (simp_all add: truncate_local_def)

lemma advance_commit_index_frame [simp]:
  "current_term (node (advance_commit_index e)) = current_term (node e)"
  "voted_for (node (advance_commit_index e)) = voted_for (node e)"
  "log (node (advance_commit_index e)) = log (node e)"
  "role (node (advance_commit_index e)) = role (node e)"
  "last_applied (node (advance_commit_index e)) = last_applied (node e)"
  "leader_id (node (advance_commit_index e)) = leader_id (node e)"
  "snapshot_index (node (advance_commit_index e)) = snapshot_index (node e)"
  "snapshot_term (node (advance_commit_index e)) = snapshot_term (node e)"
  "snapshot_config (node (advance_commit_index e)) = snapshot_config (node e)"
  "next_index (node (advance_commit_index e)) = next_index (node e)"
  "match_index (node (advance_commit_index e)) = match_index (node e)"
  "storage (advance_commit_index e) = storage e"
  "members (advance_commit_index e) = members e"
  "node_id (advance_commit_index e) = node_id e"
  "self_address (advance_commit_index e) = self_address e"
  "bootstrap (advance_commit_index e) = bootstrap e"
  "min_timeout (advance_commit_index e) = min_timeout e"
  "max_timeout (advance_commit_index e) = max_timeout e"
  "snapshot_threshold (advance_commit_index e) = snapshot_threshold e"
  "votes (advance_commit_index e) = votes e"
  "grants (advance_commit_index e) = grants e"
  "running (advance_commit_index e) = running e"
  "config_index (advance_commit_index e) = config_index e"
  "learners (advance_commit_index e) = learners e"
  "term_start_index (advance_commit_index e) = term_start_index e"
  "last_contact (advance_commit_index e) = last_contact e"
  "send_seq (advance_commit_index e) = send_seq e"
  "last_ack_seq (advance_commit_index e) = last_ack_seq e"
  "last_leader_contact (advance_commit_index e) = last_leader_contact e"
  "leader_addr (advance_commit_index e) = leader_addr e"
  "transferring (advance_commit_index e) = transferring e"
  "snapshot_rx (advance_commit_index e) = snapshot_rx e"
  "timer_generation (advance_commit_index e) = timer_generation e"
  "replicators (advance_commit_index e) = replicators e"
  "waiters (advance_commit_index e) = waiters e"
  "effects (advance_commit_index e) = effects e"
  by (simp_all add: advance_commit_index_def split: option.split)

lemma log_updates [simp]:
  "log (node (append_local R now es e)) = log (node e) @ es"
  "storage (append_local R now es e) = append_op R es (storage e)"
  "log (node (truncate_local R now i e)) = log (truncate_from (node e) i)"
  "storage (truncate_local R now i e) = truncate_from_op R i (storage e)"
  "storage (persist_term_and_vote R e) =
     save_term_and_vote_op R (current_term (node e)) (voted_for (node e)) (storage e)"
  by (simp_all add: append_local_def truncate_local_def persist_term_and_vote_def Let_def)

lemma become_follower_frame [simp]:
  "log (node (become_follower R t e)) = log (node e)"
  "commit_index (node (become_follower R t e)) = commit_index (node e)"
  "last_applied (node (become_follower R t e)) = last_applied (node e)"
  "snapshot_index (node (become_follower R t e)) = snapshot_index (node e)"
  "snapshot_term (node (become_follower R t e)) = snapshot_term (node e)"
  "snapshot_config (node (become_follower R t e)) = snapshot_config (node e)"
  "next_index (node (become_follower R t e)) = next_index (node e)"
  "match_index (node (become_follower R t e)) = match_index (node e)"
  "members (become_follower R t e) = members e"
  "node_id (become_follower R t e) = node_id e"
  "self_address (become_follower R t e) = self_address e"
  "bootstrap (become_follower R t e) = bootstrap e"
  "min_timeout (become_follower R t e) = min_timeout e"
  "max_timeout (become_follower R t e) = max_timeout e"
  "snapshot_threshold (become_follower R t e) = snapshot_threshold e"
  "votes (become_follower R t e) = votes e"
  "grants (become_follower R t e) = grants e"
  "running (become_follower R t e) = running e"
  "config_index (become_follower R t e) = config_index e"
  "term_start_index (become_follower R t e) = term_start_index e"
  "last_contact (become_follower R t e) = last_contact e"
  "send_seq (become_follower R t e) = send_seq e"
  "last_ack_seq (become_follower R t e) = last_ack_seq e"
  "last_leader_contact (become_follower R t e) = last_leader_contact e"
  "leader_addr (become_follower R t e) = leader_addr e"
  "snapshot_rx (become_follower R t e) = snapshot_rx e"
  "replicators (become_follower R t e) = replicators e"
  "waiters (become_follower R t e) = waiters e"
  by (simp_all add: become_follower_def Let_def)

lemma become_leader_frame [simp]:
  "current_term (node (become_leader R now e)) = current_term (node e)"
  "voted_for (node (become_leader R now e)) = voted_for (node e)"
  "last_applied (node (become_leader R now e)) = last_applied (node e)"
  "snapshot_index (node (become_leader R now e)) = snapshot_index (node e)"
  "snapshot_term (node (become_leader R now e)) = snapshot_term (node e)"
  "snapshot_config (node (become_leader R now e)) = snapshot_config (node e)"
  "node_id (become_leader R now e) = node_id e"
  "self_address (become_leader R now e) = self_address e"
  "bootstrap (become_leader R now e) = bootstrap e"
  "min_timeout (become_leader R now e) = min_timeout e"
  "max_timeout (become_leader R now e) = max_timeout e"
  "snapshot_threshold (become_leader R now e) = snapshot_threshold e"
  "votes (become_leader R now e) = votes e"
  "grants (become_leader R now e) = grants e"
  "running (become_leader R now e) = running e"
  "send_seq (become_leader R now e) = send_seq e"
  "last_leader_contact (become_leader R now e) = last_leader_contact e"
  "snapshot_rx (become_leader R now e) = snapshot_rx e"
  "waiters (become_leader R now e) = waiters e"
  by (simp_all add: become_leader_def Let_def)

lemma accept_leader_frame [simp]:
  "log (node (accept_leader R now t lid addr e)) = log (node e)"
  "commit_index (node (accept_leader R now t lid addr e)) = commit_index (node e)"
  "last_applied (node (accept_leader R now t lid addr e)) = last_applied (node e)"
  "snapshot_index (node (accept_leader R now t lid addr e)) = snapshot_index (node e)"
  "snapshot_term (node (accept_leader R now t lid addr e)) = snapshot_term (node e)"
  "snapshot_config (node (accept_leader R now t lid addr e)) = snapshot_config (node e)"
  "next_index (node (accept_leader R now t lid addr e)) = next_index (node e)"
  "match_index (node (accept_leader R now t lid addr e)) = match_index (node e)"
  "members (accept_leader R now t lid addr e) = members e"
  "node_id (accept_leader R now t lid addr e) = node_id e"
  "self_address (accept_leader R now t lid addr e) = self_address e"
  "bootstrap (accept_leader R now t lid addr e) = bootstrap e"
  "min_timeout (accept_leader R now t lid addr e) = min_timeout e"
  "max_timeout (accept_leader R now t lid addr e) = max_timeout e"
  "snapshot_threshold (accept_leader R now t lid addr e) = snapshot_threshold e"
  "votes (accept_leader R now t lid addr e) = votes e"
  "grants (accept_leader R now t lid addr e) = grants e"
  "running (accept_leader R now t lid addr e) = running e"
  "config_index (accept_leader R now t lid addr e) = config_index e"
  "term_start_index (accept_leader R now t lid addr e) = term_start_index e"
  "last_contact (accept_leader R now t lid addr e) = last_contact e"
  "send_seq (accept_leader R now t lid addr e) = send_seq e"
  "last_ack_seq (accept_leader R now t lid addr e) = last_ack_seq e"
  "snapshot_rx (accept_leader R now t lid addr e) = snapshot_rx e"
  "replicators (accept_leader R now t lid addr e) = replicators e"
  "waiters (accept_leader R now t lid addr e) = waiters e"
  by (simp_all add: accept_leader_def Let_def split: option.split)

lemma become_candidate_frame [simp]:
  "last_applied (node (become_candidate R now tr e)) = last_applied (node e)"
  "snapshot_index (node (become_candidate R now tr e)) = snapshot_index (node e)"
  "snapshot_term (node (become_candidate R now tr e)) = snapshot_term (node e)"
  "snapshot_config (node (become_candidate R now tr e)) = snapshot_config (node e)"
  "node_id (become_candidate R now tr e) = node_id e"
  "self_address (become_candidate R now tr e) = self_address e"
  "bootstrap (become_candidate R now tr e) = bootstrap e"
  "min_timeout (become_candidate R now tr e) = min_timeout e"
  "max_timeout (become_candidate R now tr e) = max_timeout e"
  "snapshot_threshold (become_candidate R now tr e) = snapshot_threshold e"
  "grants (become_candidate R now tr e) = grants e"
  "running (become_candidate R now tr e) = running e"
  "send_seq (become_candidate R now tr e) = send_seq e"
  "last_leader_contact (become_candidate R now tr e) = last_leader_contact e"
  "snapshot_rx (become_candidate R now tr e) = snapshot_rx e"
  "waiters (become_candidate R now tr e) = waiters e"
  by (simp_all add: become_candidate_def Let_def)

end
