(* ===== verification/Base64.thy ===== *)
theory Base64
  imports Py_String
begin

section \<open>base64.b64encode and base64.b64decode\<close>

text \<open>
  The two functions of Python's library the snapshot transfer relies on: bytes are chars. The
  decoder is the automaton of \<open>binascii.a2b_base64\<close> in its non-strict mode: \<open>b64_go q l p\<close> has
  read \<open>q\<close> digits of the current group of four, with the bits \<open>l\<close> left over and \<open>p\<close> padding
  signs seen; characters outside the alphabet are skipped.
\<close>

definition b64_char :: "nat \<Rightarrow> char" where
  "b64_char v =
     (if v < 26 then char_of (65 + v)
      else if v < 52 then char_of (71 + v)
      else if v < 62 then char_of (v - 4)
      else if v = 62 then CHR ''+'' else CHR ''/'')"

definition b64_index :: "char \<Rightarrow> nat option" where
  "b64_index c =
     (let n = (of_char c :: nat)
      in if 65 \<le> n \<and> n \<le> 90 then Some (n - 65)
         else if 97 \<le> n \<and> n \<le> 122 then Some (n - 71)
         else if 48 \<le> n \<and> n \<le> 57 then Some (n + 4)
         else if n = 43 then Some 62
         else if n = 47 then Some 63 else None)"

fun b64encode :: "string \<Rightarrow> string" where
  "b64encode [] = []"
| "b64encode [a] =
     (let x = of_char a in [b64_char (x div 4), b64_char (x mod 4 * 16), CHR ''='', CHR ''=''])"
| "b64encode [a, b] =
     (let x = of_char a; y = of_char b
      in [b64_char (x div 4), b64_char (x mod 4 * 16 + y div 16), b64_char (y mod 16 * 4), CHR ''=''])"
| "b64encode (a # b # c # cs) =
     (let x = of_char a; y = of_char b; z = of_char c
      in [b64_char (x div 4), b64_char (x mod 4 * 16 + y div 16), b64_char (y mod 16 * 4 + z div 64),
          b64_char (z mod 64)] @ b64encode cs)"

fun b64_go :: "nat \<Rightarrow> nat \<Rightarrow> nat \<Rightarrow> string \<Rightarrow> py_exn + string" where
  "b64_go q l p [] = (if q = 0 then Inr [] else Inl ValueError)"
| "b64_go q l p (c # cs) =
     (if c = CHR ''='' then
        if 2 \<le> q \<and> 4 \<le> q + p + 1 then Inr []
        else b64_go q l (if 2 \<le> q then p + 1 else p) cs
      else case b64_index c of
        None \<Rightarrow> b64_go q l p cs
      | Some v \<Rightarrow>
          if q = 0 then b64_go 1 v 0 cs
          else if q = 1 then map_sum id ((#) (char_of (l * 4 + v div 16))) (b64_go 2 (v mod 16) 0 cs)
          else if q = 2 then map_sum id ((#) (char_of (l * 16 + v div 4))) (b64_go 3 (v mod 4) 0 cs)
          else map_sum id ((#) (char_of (l * 64 + v))) (b64_go 0 0 0 cs))"

definition b64decode :: "string \<Rightarrow> py_exn + string" where
  "b64decode s = b64_go 0 0 0 s"

lemma b64_index_char [simp]: "v < 64 \<Longrightarrow> b64_index (b64_char v) = Some v"
  by (auto simp: b64_char_def b64_index_def Let_def)

lemma b64_char_pad [simp]: "v < 64 \<Longrightarrow> b64_char v \<noteq> CHR ''=''"
  using b64_index_char [of v] by (auto simp: b64_index_def)

lemma of_char_bound: "(of_char (c :: char) :: nat) < 256"
  using nat_of_char_less_256 [of c] by simp

lemma b64_digits [simp]:
  fixes x y z :: nat
  shows "x < 256 \<Longrightarrow> x div 4 < 64" "y < 256 \<Longrightarrow> x mod 4 * 16 + y div 16 < 64"
    "z < 256 \<Longrightarrow> y mod 16 * 4 + z div 64 < 64" "x mod 4 * 16 < 64" "y mod 16 * 4 < 64"
proof -
  show "x < 256 \<Longrightarrow> x div 4 < 64" by (simp add: div_less_iff_less_mult)
  have m: "x mod 4 < 4" "y mod 16 < 16" by simp_all
  then show "x mod 4 * 16 < 64" "y mod 16 * 4 < 64" by linarith+
  show "x mod 4 * 16 + y div 16 < 64" if "y < 256"
  proof -
    have "y div 16 < 16" using that by (simp add: div_less_iff_less_mult)
    with m show ?thesis by linarith
  qed
  show "y mod 16 * 4 + z div 64 < 64" if "z < 256"
  proof -
    have "z div 64 < 4" using that by (simp add: div_less_iff_less_mult)
    with m show ?thesis by linarith
  qed
qed

lemma b64_bytes [simp]:
  fixes x y z :: nat
  shows "y < 256 \<Longrightarrow> x div 4 * 4 + (x mod 4 * 16 + y div 16) div 16 = x"
    "z < 256 \<Longrightarrow> (x mod 4 * 16 + y div 16) mod 16 * 16 + (y mod 16 * 4 + z div 64) div 4 = y div 16 mod 16 * 16 + y mod 16"
    "(y mod 16 * 4 + z div 64) mod 4 * 64 + z mod 64 = z div 64 mod 4 * 64 + z mod 64"
proof -
  show "x div 4 * 4 + (x mod 4 * 16 + y div 16) div 16 = x" if "y < 256"
  proof -
    have "y div 16 < 16" using that by (simp add: div_less_iff_less_mult)
    then show ?thesis by simp
  qed
  show "(x mod 4 * 16 + y div 16) mod 16 * 16 + (y mod 16 * 4 + z div 64) div 4 = y div 16 mod 16 * 16 + y mod 16" if "z < 256"
  proof -
    have "z div 64 < 4" using that by (simp add: div_less_iff_less_mult)
    then show ?thesis by simp
  qed
  show "(y mod 16 * 4 + z div 64) mod 4 * 64 + z mod 64 = z div 64 mod 4 * 64 + z mod 64"
    by (simp add: mod_simps)
qed

lemma byte_split [simp]:
  "(of_char c :: nat) div 16 div 16 = 0" "(of_char c :: nat) div 64 div 4 = 0"
  "(of_char c :: nat) div 16 mod 16 * 16 + of_char c mod 16 = of_char c"
  "(of_char c :: nat) div 64 mod 4 * 64 + of_char c mod 64 = of_char c"
proof -
  have "(of_char c :: nat) div 16 < 16" "(of_char c :: nat) div 64 < 4"
    using of_char_bound [of c] by (simp_all add: div_less_iff_less_mult)
  then show "(of_char c :: nat) div 16 div 16 = 0" "(of_char c :: nat) div 64 div 4 = 0"
    "(of_char c :: nat) div 16 mod 16 * 16 + of_char c mod 16 = of_char c"
    "(of_char c :: nat) div 64 mod 4 * 64 + of_char c mod 64 = of_char c" by simp_all
qed

theorem b64decode_encode: "b64decode (b64encode s) = Inr s"
  unfolding b64decode_def
proof (induction s rule: b64encode.induct)
  case (2 a)
  then show ?case
    using b64_bytes(1) [of 0 "of_char a"] by (simp add: Let_def)
next
  case (3 a b)
  then show ?case
    using b64_bytes(2) [of 0 "of_char a" "of_char b"] by (simp add: Let_def)
qed (simp_all add: Let_def)

end
