(* ===== verification/Raft_Replication.thy ===== *)
theory Raft_Replication
  imports Raft_Engine Base64
begin

section \<open>raft/node.py: replication, snapshots, applying, reads and membership changes\<close>

text \<open>
  The rest of \<open>RaftEngine\<close>. The loop of a replicator is cut at its blocking calls: the round
  that builds a request (\<open>replicate_round\<close>), the processing of the reply (\<open>entries_reply\<close>,
  \<open>snapshot_reply\<close>, \<open>snapshot_done\<close>). A call that waits on the condition variable
  (\<open>propose\<close>, \<open>read_index\<close>, the membership changes, \<open>transfer_leadership\<close>) is a start function
  and a poll function, run whenever the waiting thread wakes up; its argument \<open>late\<close> says that
  the deadline has passed. A poll returns, raises, or goes on waiting.
\<close>

datatype raft_error =
    NotLeaderError "string option"
  | ProposalError string
  | ConfigChangeError string

datatype ('a, 'w) poll = Return 'a | Raise raft_error | Wait 'w

subsection \<open>The replication messages of raft/rpc.py\<close>

record append_request =
  aq_term :: int
  aq_leader_id :: string
  aq_prev_log_index :: int
  aq_prev_log_term :: "int option"
  aq_entries :: "log_entry list"
  aq_leader_commit :: int
  aq_leader_address :: string

record append_response =
  ar_term :: int
  ar_success :: bool
  ar_match_index :: int
  ar_conflict_index :: int

record snapshot_request =
  sq_term :: int
  sq_leader_id :: string
  sq_last_included_index :: int
  sq_last_included_term :: int
  sq_offset :: int
  sq_data :: string
  sq_done :: bool
  sq_config :: "member list"
  sq_leader_address :: string

record snapshot_response =
  sr_term :: int
  sr_success :: bool

definition max_entries_per_rpc :: int where
  "max_entries_per_rpc = 100"

definition snapshot_chunk_size :: nat where
  "snapshot_chunk_size = 256 * 1024"

subsection \<open>One replicator\<close>

datatype round_action =
    StopReplicator
  | SendEntries member append_request
  | SendSnapshot member
  | ReplicatorKeyError

definition replicate_round ::
  "string \<Rightarrow> int \<Rightarrow> int \<Rightarrow> ('s, 'r) engine \<Rightarrow> ('s, 'r) engine \<times> round_action" where
  "replicate_round peer_id t wakeup e =
     (let n = node e; peer = map_of (targets e) peer_id
      in if \<not> running e \<or> role n \<noteq> LEADER \<or> current_term n \<noteq> t \<or> peer = None
         then ((if map_of (replicators e) peer_id = Some wakeup
                then e\<lparr>replicators := dict_pop (replicators e) peer_id\<rparr> else e), StopReplicator)
         else case map_of (next_index n) peer_id of
                None \<Rightarrow> (e, ReplicatorKeyError)
              | Some next_idx \<Rightarrow>
                  if next_idx > snapshot_index n
                  then (e, SendEntries (the peer)
                          \<lparr>aq_term = t, aq_leader_id = node_id e, aq_prev_log_index = next_idx - 1,
                            aq_prev_log_term = term_at n (next_idx - 1),
                            aq_entries = entries_from n next_idx max_entries_per_rpc,
                            aq_leader_commit = commit_index n, aq_leader_address = self_address e\<rparr>)
                  else (e, SendSnapshot (the peer)))"

text \<open>Is there more to send at once, or does the replicator wait for the next heartbeat?\<close>

definition behind :: "string \<Rightarrow> bool \<Rightarrow> ('s, 'r) engine \<Rightarrow> bool" where
  "behind peer_id reachable e =
     (reachable \<and> role (node e) = LEADER \<and>
      dict_get (next_index (node e)) peer_id 0 \<le> last_log_index (node e))"

definition next_send_seq :: "('s, 'r) engine \<Rightarrow> ('s, 'r) engine \<times> int" where
  "next_send_seq e = (e\<lparr>send_seq := send_seq e + 1\<rparr>, send_seq e + 1)"

definition note_contact :: "time \<Rightarrow> string \<Rightarrow> int \<Rightarrow> ('s, 'r) engine \<Rightarrow> ('s, 'r) engine" where
  "note_contact now p seq e =
     e\<lparr>last_contact := dict_set (last_contact e) p now,
       last_ack_seq := dict_set (last_ack_seq e) p (max (dict_get (last_ack_seq e) p 0) seq)\<rparr>"

definition record_match :: "string \<Rightarrow> int \<Rightarrow> ('s, 'r) engine \<Rightarrow> ('s, 'r) engine" where
  "record_match p i e =
     (let n = node e; m = max (dict_get (match_index n) p 0) i
      in advance_commit_index
           (e\<lparr>node := n\<lparr>match_index := dict_set (match_index n) p m,
                        next_index := dict_set (next_index n) p (m + 1)\<rparr>\<rparr>))"

text \<open>\<open>_send_entries_to\<close> after the response arrived.\<close>

definition entries_reply ::
  "'s raft_storage \<Rightarrow> time \<Rightarrow> member \<Rightarrow> int \<Rightarrow> int \<Rightarrow> append_request \<Rightarrow> append_response \<Rightarrow>
   ('s, 'r) engine \<Rightarrow> ('s, 'r) engine" where
  "entries_reply R now peer t seq request response e =
     (if ar_term response > current_term (node e) then become_follower R (ar_term response) e
      else if role (node e) \<noteq> LEADER \<or> current_term (node e) \<noteq> t then e
      else
        let e1 = note_contact now (member_id peer) seq e; n = node e1
        in if ar_success response
           then record_match (member_id peer)
                  (max (aq_prev_log_index request + int (length (aq_entries request)))
                       (ar_match_index response)) e1
           else
             let hint = (if ar_conflict_index response = 0 then aq_prev_log_index request
                         else ar_conflict_index response)
             in e1\<lparr>node := n\<lparr>next_index := dict_set (next_index n) (member_id peer)
                                            (max 1 (min hint (aq_prev_log_index request)))\<rparr>\<rparr>)"

subsection \<open>Sending a snapshot\<close>

text \<open>
  The frozen part of \<open>_send_snapshot_to\<close>: what is sent is the state machine at \<open>last_applied\<close>
  (the file itself is written outside the engine). \<open>None\<close>: no longer the leader of the term. The
  term of the entry at \<open>last_applied\<close> exists by the engine's invariant.
\<close>

definition snapshot_begin ::
  "int \<Rightarrow> ('s, 'r) engine \<Rightarrow> (int \<times> int \<times> member list) option" where
  "snapshot_begin t e =
     (let n = node e
      in if role n \<noteq> LEADER \<or> current_term n \<noteq> t then None
         else case term_at n (last_applied n) of
                None \<Rightarrow> None
              | Some last_term \<Rightarrow>
                  Some (last_applied n, last_term,
                        case config_at n (last_applied n) of None \<Rightarrow> [] | Some ms \<Rightarrow> ms))"

text \<open>The request for the chunk at \<open>offset\<close> of the snapshot file \<open>content\<close>.\<close>

definition snapshot_chunk ::
  "int \<Rightarrow> int \<times> int \<times> member list \<Rightarrow> string \<Rightarrow> nat \<Rightarrow> ('s, 'r) engine \<Rightarrow> snapshot_request" where
  "snapshot_chunk t snap content off e =
     (let chunk = take snapshot_chunk_size (drop off content); (i, last_term, config) = snap
      in \<lparr>sq_term = t, sq_leader_id = node_id e, sq_last_included_index = i,
          sq_last_included_term = last_term, sq_offset = int off, sq_data = b64encode chunk,
          sq_done = (off + length chunk \<ge> length content), sq_config = config,
          sq_leader_address = self_address e\<rparr>)"

text \<open>After each response: \<open>True\<close> means that the transfer goes on with the next chunk.\<close>

definition snapshot_reply ::
  "'s raft_storage \<Rightarrow> time \<Rightarrow> member \<Rightarrow> int \<Rightarrow> int \<Rightarrow> snapshot_response \<Rightarrow> ('s, 'r) engine \<Rightarrow>
   ('s, 'r) engine \<times> bool" where
  "snapshot_reply R now peer t seq response e =
     (if sr_term response > current_term (node e) then (become_follower R (sr_term response) e, False)
      else if role (node e) \<noteq> LEADER \<or> current_term (node e) \<noteq> t then (e, False)
      else (note_contact now (member_id peer) seq e, sr_success response))"

definition snapshot_done :: "member \<Rightarrow> int \<Rightarrow> int \<Rightarrow> ('s, 'r) engine \<Rightarrow> ('s, 'r) engine" where
  "snapshot_done peer t i e =
     (if role (node e) = LEADER \<and> current_term (node e) = t then record_match (member_id peer) i e else e)"

subsection \<open>Receiving entries\<close>

function conflict_first :: "raft_node \<Rightarrow> int option \<Rightarrow> int \<Rightarrow> int" where
  "conflict_first n t first =
     (if first - 1 > snapshot_index n \<and> term_at n (first - 1) = t then conflict_first n t (first - 1)
      else first)"
  by auto
termination by (relation "measure (\<lambda>(n, t, first). nat (first - snapshot_index n))") auto

declare conflict_first.simps [simp del]

text \<open>
  The loop over the received entries: where our log has to be cut, if at all, and the entries
  that are to be appended.
\<close>

fun scan_entries :: "raft_node \<Rightarrow> log_entry list \<Rightarrow> int option \<times> log_entry list" where
  "scan_entries n [] = (None, [])"
| "scan_entries n (x # xs) =
     (case term_at n (e_index x) of
        None \<Rightarrow> (None, x # xs)
      | Some t \<Rightarrow> if t \<noteq> e_term x then (Some (e_index x), x # xs) else scan_entries n xs)"

definition append_new ::
  "'s raft_storage \<Rightarrow> time \<Rightarrow> log_entry list \<Rightarrow> ('s, 'r) engine \<Rightarrow> ('s, 'r) engine" where
  "append_new R now entries e =
     (let (cut, new) = scan_entries (node e) entries;
          e1 = (case cut of None \<Rightarrow> e | Some i \<Rightarrow> truncate_local R now i e)
      in if new = [] then e1 else append_local R now new e1)"

definition handle_append_entries ::
  "'s raft_storage \<Rightarrow> time \<Rightarrow> append_request \<Rightarrow> ('s, 'r) engine \<Rightarrow> ('s, 'r) engine \<times> append_response" where
  "handle_append_entries R now req e =
     (if aq_term req < current_term (node e)
      then (e, \<lparr>ar_term = current_term (node e), ar_success = False, ar_match_index = 0, ar_conflict_index = 0\<rparr>)
      else
        let e1 = accept_leader R now (aq_term req) (aq_leader_id req) (aq_leader_address req) e;
            n = node e1;
            (entries, prev_index, prev_term) =
              (if aq_prev_log_index req < snapshot_index n
               then (py_drop (snapshot_index n - aq_prev_log_index req) (aq_entries req),
                     snapshot_index n, Some (snapshot_term n))
               else (aq_entries req, aq_prev_log_index req, aq_prev_log_term req));
            fail = (\<lambda>i. \<lparr>ar_term = current_term n, ar_success = False, ar_match_index = 0, ar_conflict_index = i\<rparr>)
        in if prev_index > last_log_index n then (e1, fail (last_log_index n + 1))
           else if term_at n prev_index \<noteq> prev_term
           then (e1, fail (conflict_first n (term_at n prev_index) prev_index))
           else
             let e2 = append_new R now entries e1;
                 last_new = prev_index + int (length entries);
                 e3 = (if aq_leader_commit req > commit_index (node e2)
                       then e2\<lparr>node := (node e2)\<lparr>commit_index :=
                              max (commit_index (node e2)) (min (aq_leader_commit req) last_new)\<rparr>\<rparr>
                       else e2)
             in (e3, \<lparr>ar_term = current_term (node e3), ar_success = True, ar_match_index = last_new,
                      ar_conflict_index = 0\<rparr>))"

subsection \<open>Receiving a snapshot\<close>

text \<open>
  The first critical section of \<open>_handle_install_snapshot\<close> collects the chunks. It answers at
  once, or fails (\<open>base64\<close> raises, no reply is sent), or hands the complete file on.
\<close>

datatype chunk_result =
    Reply snapshot_response
  | NoReply
  | Complete string

definition receive_chunk ::
  "'s raft_storage \<Rightarrow> time \<Rightarrow> snapshot_request \<Rightarrow> ('s, 'r) engine \<Rightarrow> ('s, 'r) engine \<times> chunk_result" where
  "receive_chunk R now req e =
     (if sq_term req < current_term (node e)
      then (e, Reply \<lparr>sr_term = current_term (node e), sr_success = False\<rparr>)
      else
        let e1 = accept_leader R now (sq_term req) (sq_leader_id req) (sq_leader_address req) e;
            reply = (\<lambda>ok. Reply \<lparr>sr_term = current_term (node e1), sr_success = ok\<rparr>)
        in if sq_last_included_index req \<le> last_applied (node e1) then (e1, reply True)
           else
             let rx = (if sq_offset req = 0
                       then Some \<lparr>rx_index = sq_last_included_index req, rx_data = []\<rparr>
                       else case snapshot_rx e1 of
                              None \<Rightarrow> None
                            | Some x \<Rightarrow> if rx_index x \<noteq> sq_last_included_index req \<or>
                                          int (length (rx_data x)) \<noteq> sq_offset req
                                       then None else Some x)
             in case rx of
                  None \<Rightarrow> (e1, reply False)
                | Some x \<Rightarrow>
                    case b64decode (sq_data req) of
                      Inl _ \<Rightarrow> (e1\<lparr>snapshot_rx := Some x\<rparr>, NoReply)
                    | Inr chunk \<Rightarrow>
                        let y = x\<lparr>rx_data := rx_data x @ chunk\<rparr>
                        in if sq_done req then (e1\<lparr>snapshot_rx := None\<rparr>, Complete (rx_data y))
                           else (e1\<lparr>snapshot_rx := Some y\<rparr>, reply True))"

text \<open>The second section: with the apply lock held, is the snapshot still newer than our state?\<close>

definition install_needed :: "snapshot_request \<Rightarrow> ('s, 'r) engine \<Rightarrow> bool" where
  "install_needed req e = (sq_last_included_index req > last_applied (node e))"

text \<open>The third section, once the state machine was restored from the file.\<close>

definition install_snapshot ::
  "'s raft_storage \<Rightarrow> time \<Rightarrow> snapshot_request \<Rightarrow> ('s, 'r) engine \<Rightarrow> ('s, 'r) engine \<times> snapshot_response" where
  "install_snapshot R now req e =
     (let n = node e; i = sq_last_included_index req; t = sq_last_included_term req; config = sq_config req;
          s1 = (if term_at n i \<noteq> Some t then truncate_from_op R (snapshot_index n + 1) (storage e) else storage e);
          c = compact_through n i t (Some config);
          n1 = c\<lparr>commit_index := max (commit_index c) i, last_applied := max (last_applied c) i\<rparr>;
          s2 = save_snapshot_op R (snapshot_index n1) (snapshot_term n1) (last_applied n1) (Some config) s1;
          e1 = refresh_config now (e\<lparr>node := n1, storage := s2\<rparr>)
      in (e1, \<lparr>sr_term = current_term (node e1), sr_success = True\<rparr>))"

text \<open>
  The whole handler, when nothing else runs between its sections: \<open>restore\<close> is \<open>_restore_fn\<close> on
  the state machine \<open>m\<close>. A \<open>None\<close> response: an exception left the handler.
\<close>

definition handle_install_snapshot ::
  "'s raft_storage \<Rightarrow> (string \<Rightarrow> 'm \<Rightarrow> py_exn + 'm) option \<Rightarrow> time \<Rightarrow> snapshot_request \<Rightarrow>
   ('s, 'r) engine \<times> 'm \<Rightarrow> ('s, 'r) engine \<times> 'm \<times> snapshot_response option" where
  "handle_install_snapshot R restore now req em =
     (let (e, m) = em
      in case receive_chunk R now req e of
           (e1, Reply r) \<Rightarrow> (e1, m, Some r)
         | (e1, NoReply) \<Rightarrow> (e1, m, None)
         | (e1, Complete content) \<Rightarrow>
             if \<not> install_needed req e1
             then (e1, m, Some \<lparr>sr_term = current_term (node e1), sr_success = True\<rparr>)
             else case (case restore of None \<Rightarrow> Inr m | Some f \<Rightarrow> f content m) of
                    Inl _ \<Rightarrow> (e1, m, None)
                  | Inr m1 \<Rightarrow>
                      (case install_snapshot R now req e1 of (e2, r) \<Rightarrow> (e2, m1, Some r)))"

subsection \<open>Applying committed entries\<close>

text \<open>
  The two sections of \<open>_apply_loop\<close> before the state machine is called. The first one waits for something to apply
  (\<open>None\<close>), lets the thread end (\<open>False\<close>), or goes on (\<open>True\<close>) to the second one, which runs with the apply lock held and
  chooses the entry.
\<close>

definition apply_wait :: "('s, 'r) engine \<Rightarrow> bool option" where
  "apply_wait e =
     (if running e \<and> last_applied (node e) \<ge> commit_index (node e) then None else Some (running e))"

datatype apply_action =
    ApplierIdle
  | EntryMissing int
  | ApplyEntry int log_entry

definition apply_next :: "('s, 'r) engine \<Rightarrow> apply_action" where
  "apply_next e =
     (let n = node e; i = last_applied n + 1
      in if i > commit_index n then ApplierIdle
         else case entry_at n i of None \<Rightarrow> EntryMissing i | Some x \<Rightarrow> ApplyEntry i x)"

datatype 'r apply_outcome = Result 'r | Stopped | Retrying

text \<open>
  \<open>_apply_with_retry\<close>: the state machine \<open>f\<close> may raise, and then has changed \<open>m\<close> to whatever it
  had done by then. The list holds what each test of \<open>_running\<close> reads; \<open>Retrying\<close>: the loop is
  not over when the list is.
\<close>

fun retry_apply ::
  "(log_entry \<Rightarrow> 'm \<Rightarrow> (py_exn + 'r) \<times> 'm) \<Rightarrow> bool list \<Rightarrow> log_entry \<Rightarrow> 'm \<Rightarrow> 'r apply_outcome \<times> 'm" where
  "retry_apply f [] x m = (Retrying, m)"
| "retry_apply f (up # ups) x m =
     (if \<not> up then (Stopped, m)
      else case f x m of
             (Inr r, m1) \<Rightarrow> (Result r, m1)
           | (Inl _, m1) \<Rightarrow> retry_apply f ups x m1)"

definition apply_with_retry ::
  "(log_entry \<Rightarrow> 'm \<Rightarrow> (py_exn + 'r) \<times> 'm) option \<Rightarrow> 'r \<Rightarrow> bool list \<Rightarrow> log_entry \<Rightarrow> 'm \<Rightarrow>
   'r apply_outcome \<times> 'm" where
  "apply_with_retry f none ups x m =
     (case f of
        None \<Rightarrow> (Result none, m)
      | Some g \<Rightarrow>
          if e_command x = noop_command \<or> config_of (e_command x) \<noteq> None then (Result none, m)
          else retry_apply g ups x m)"

text \<open>\<open>_maybe_snapshot\<close>. The term of the last applied entry exists by the engine's invariant.\<close>

definition maybe_snapshot :: "'s raft_storage \<Rightarrow> ('s, 'r) engine \<Rightarrow> ('s, 'r) engine" where
  "maybe_snapshot R e =
     (let n = node e; i = last_applied n
      in if snapshot_threshold e = 0 then e
         else if i - snapshot_index n < snapshot_threshold e then e
         else case term_at n i of
                None \<Rightarrow> e
              | Some t \<Rightarrow>
                  e\<lparr>node := compact_through n i t (config_at n i),
                    storage := save_snapshot_op R i t i (config_at n i) (storage e)\<rparr>)"

text \<open>The critical section after entry \<open>i\<close> was applied with this result.\<close>

definition apply_done ::
  "'s raft_storage \<Rightarrow> int \<Rightarrow> log_entry \<Rightarrow> 'r \<Rightarrow> ('s, 'r) engine \<Rightarrow> ('s, 'r) engine" where
  "apply_done R i x r e =
     (let e1 = e\<lparr>node := (node e)\<lparr>last_applied := max (last_applied (node e)) i\<rparr>\<rparr>;
          e2 = (if dict_has (waiters e1) i
                then e1\<lparr>waiters := dict_set (waiters e1) i (Applied (e_term x) r)\<rparr> else e1);
          e3 = (if config_of (e_command x) \<noteq> None \<and> role (node e2) = LEADER \<and>
                   \<not> dict_has (members e2) (node_id e2) \<and> last_applied (node e2) \<ge> config_index e2
                then become_follower R (current_term (node e2)) e2 else e2)
      in maybe_snapshot R e3)"

subsection \<open>propose, submit\<close>

definition propose_start ::
  "'s raft_storage \<Rightarrow> time \<Rightarrow> string \<Rightarrow> string \<Rightarrow> string \<Rightarrow> ('s, 'r) engine \<Rightarrow>
   ('s, 'r) engine \<times> (raft_error + log_entry)" where
  "propose_start R now cmd user rid e =
     (let n = node e
      in if \<not> running e \<or> transferring e then (e, Inl (NotLeaderError None))
         else if role n \<noteq> LEADER then (e, Inl (NotLeaderError (leader_id n)))
         else
           let x = \<lparr>e_term = current_term n, e_index = last_log_index n + 1, e_command = cmd,
                    e_username = user, e_request_id = rid\<rparr>;
               e1 = append_local R now [x] e;
               e2 = e1\<lparr>waiters := dict_set (waiters e1) (e_index x) Pending\<rparr>
           in (advance_commit_index e2, Inr x))"

definition propose_poll ::
  "bool \<Rightarrow> log_entry \<Rightarrow> ('s, 'r) engine \<Rightarrow> ('s, 'r) engine \<times> ('r, unit) poll" where
  "propose_poll late x e =
     (let n = node e; gone = e\<lparr>waiters := dict_pop (waiters e) (e_index x)\<rparr>
      in case dict_get (waiters e) (e_index x) Pending of
           Applied t r \<Rightarrow>
             (gone, if t \<noteq> e_term x then Raise (ProposalError ''write was replaced by a new leader, retry'')
                    else Return r)
         | Pending \<Rightarrow>
             if role n \<noteq> LEADER \<or> current_term n \<noteq> e_term x
             then (gone, Raise (NotLeaderError (leader_id n)))
             else if late \<or> \<not> running e
             then (gone, Raise (ProposalError ''timed out waiting for a majority of nodes''))
             else (e, Wait ()))"

record forward_request =
  fq_command :: string
  fq_username :: string
  fq_request_id :: string
  fq_timeout :: time

record 'r forward_response =
  fr_ok :: bool
  fr_result :: "'r option"
  fr_error :: string

text \<open>One round of \<open>submit\<close>: what it does on this node, and what it makes of a forwarded reply.\<close>

datatype submit_action =
    SubmitRaise raft_error
  | ProposeHere
  | ForwardTo string forward_request
  | TryAgain

definition submit_round ::
  "string \<Rightarrow> string \<Rightarrow> string \<Rightarrow> time \<Rightarrow> ('s, 'r) engine \<Rightarrow> submit_action" where
  "submit_round cmd user rid remaining e =
     (let n = node e; addr = (case leader_id n of None \<Rightarrow> [] | Some l \<Rightarrow> if l = [] then [] else leader_addr e)
      in if remaining \<le> 0
         then SubmitRaise (if leader_id n = None then NotLeaderError None
                           else ProposalError ''timed out waiting for the leader'')
         else if role n = LEADER then ProposeHere
         else if addr \<noteq> []
         then ForwardTo addr \<lparr>fq_command = cmd, fq_username = user, fq_request_id = rid, fq_timeout = remaining\<rparr>
         else TryAgain)"

definition submit_reply :: "'r forward_response option \<Rightarrow> ('r option, unit) poll" where
  "submit_reply response =
     (case response of
        None \<Rightarrow> Wait ()
      | Some r \<Rightarrow>
          if fr_ok r then Return (fr_result r)
          else if fr_error r \<noteq> ''not_leader'' then Raise (ProposalError (fr_error r))
          else Wait ())"

text \<open>\<open>_handle_forward\<close>: the timeout it proposes with, and its answer to the outcome.\<close>

definition forward_timeout :: "forward_request \<Rightarrow> time" where
  "forward_timeout req = min (max (fq_timeout req) 100000) 30000000"

definition forward_answer :: "raft_error + 'r \<Rightarrow> 'r forward_response option" where
  "forward_answer outcome =
     (case outcome of
        Inr r \<Rightarrow> Some \<lparr>fr_ok = True, fr_result = Some r, fr_error = []\<rparr>
      | Inl (NotLeaderError _) \<Rightarrow> Some \<lparr>fr_ok = False, fr_result = None, fr_error = ''not_leader''\<rparr>
      | Inl (ProposalError msg) \<Rightarrow> Some \<lparr>fr_ok = False, fr_result = None, fr_error = msg\<rparr>
      | Inl (ConfigChangeError _) \<Rightarrow> None)"

subsection \<open>Linearizable reads\<close>

text \<open>\<open>_require_leader\<close> and \<open>_wait_leader\<close>: \<open>None\<close> lets the caller go on, or wait.\<close>

definition require_leader :: "('s, 'r) engine \<Rightarrow> raft_error option" where
  "require_leader e =
     (if \<not> running e \<or> role (node e) \<noteq> LEADER
      then Some (NotLeaderError (if role (node e) = LEADER then None else leader_id (node e)))
      else None)"

definition wait_leader :: "bool \<Rightarrow> int \<Rightarrow> string \<Rightarrow> ('s, 'r) engine \<Rightarrow> raft_error option" where
  "wait_leader late t msg e =
     (let n = node e
      in if \<not> running e \<or> role n \<noteq> LEADER \<or> current_term n \<noteq> t
         then Some (NotLeaderError (if leader_id n = Some (node_id e) then None else leader_id n))
         else if late then Some (ProposalError msg)
         else None)"

definition wait_or_raise :: "raft_error option \<Rightarrow> 'w \<Rightarrow> ('a, 'w) poll" where
  "wait_or_raise err w = (case err of None \<Rightarrow> Wait w | Some x \<Rightarrow> Raise x)"

text \<open>
  \<open>_confirm_read_index\<close>: the request number at the start, the term, and the read index once the
  leader's own no-op is committed.
\<close>

record read_wait =
  rw_start :: int
  rw_term :: int
  rw_index :: "int option"

definition read_start :: "('s, 'r) engine \<Rightarrow> raft_error + read_wait" where
  "read_start e =
     (case require_leader e of
        Some err \<Rightarrow> Inl err
      | None \<Rightarrow> Inr \<lparr>rw_start = send_seq e, rw_term = current_term (node e), rw_index = None\<rparr>)"

definition read_acks :: "int \<Rightarrow> ('s, 'r) engine \<Rightarrow> nat" where
  "read_acks start e =
     length (filter (\<lambda>m. m = node_id e \<or> dict_get (last_ack_seq e) m 0 > start) (dict_keys (members e)))"

definition read_poll :: "bool \<Rightarrow> read_wait \<Rightarrow> ('s, 'r) engine \<Rightarrow> (int, read_wait) poll" where
  "read_poll late w e =
     (let stop = wait_leader late (rw_term w) ''timed out confirming leadership'' e;
          index = (case rw_index w of
                     Some i \<Rightarrow> Some i
                   | None \<Rightarrow> if commit_index (node e) < term_start_index e then None
                             else Some (commit_index (node e)))
      in case index of
           None \<Rightarrow> wait_or_raise stop w
         | Some i \<Rightarrow>
             if majority e \<le> read_acks (rw_start w) e then Return i
             else wait_or_raise stop (w\<lparr>rw_index := Some i\<rparr>))"

record read_response =
  rr_term :: int
  rr_success :: bool
  rr_index :: int

definition read_answer :: "raft_error + int \<Rightarrow> ('s, 'r) engine \<Rightarrow> read_response option" where
  "read_answer outcome e =
     (case outcome of
        Inr i \<Rightarrow> Some \<lparr>rr_term = current_term (node e), rr_success = True, rr_index = i\<rparr>
      | Inl (ConfigChangeError _) \<Rightarrow> None
      | Inl _ \<Rightarrow> Some \<lparr>rr_term = current_term (node e), rr_success = False, rr_index = 0\<rparr>)"

text \<open>\<open>_remote_read_index\<close>: whom to ask, and the index the answer gives.\<close>

definition remote_read_target :: "('s, 'r) engine \<Rightarrow> raft_error + string" where
  "remote_read_target e =
     (case leader_id (node e) of
        None \<Rightarrow> Inl (NotLeaderError None)
      | Some l \<Rightarrow> if l = [] \<or> leader_addr e = [] then Inl (NotLeaderError None) else Inr (leader_addr e))"

definition remote_read_reply :: "read_response option \<Rightarrow> raft_error + int" where
  "remote_read_reply response =
     (case response of
        None \<Rightarrow> Inl (NotLeaderError None)
      | Some r \<Rightarrow> if rr_success r then Inr (rr_index r) else Inl (NotLeaderError None))"

definition wait_applied :: "bool \<Rightarrow> int \<Rightarrow> ('s, 'r) engine \<Rightarrow> (unit, unit) poll" where
  "wait_applied late i e =
     (if last_applied (node e) \<ge> i then Return ()
      else if late \<or> \<not> running e then Raise (ProposalError ''timed out catching up with the leader'')
      else Wait ())"

subsection \<open>Membership changes\<close>

text \<open>\<open>_wait_config_idle\<close>, for a caller that led term \<open>t\<close> when it began to wait.\<close>

definition config_idle :: "('s, 'r) engine \<Rightarrow> bool" where
  "config_idle e = (commit_index (node e) \<ge> max (term_start_index e) (config_index e))"

definition config_wait :: "bool \<Rightarrow> int \<Rightarrow> ('s, 'r) engine \<Rightarrow> (unit, unit) poll" where
  "config_wait late t e =
     (if config_idle e then Return ()
      else wait_or_raise (wait_leader late t ''another membership change is still in progress'' e) ())"

datatype change_start = Refused raft_error | AlreadyDone | Begin int

definition add_member_start :: "member \<Rightarrow> ('s, 'r) engine \<Rightarrow> change_start" where
  "add_member_start m e =
     (case require_leader e of
        Some err \<Rightarrow> Refused err
      | None \<Rightarrow>
          case map_of (members e) (member_id m) of
            Some old \<Rightarrow>
              if old = m then AlreadyDone
              else Refused (ConfigChangeError (member_id m @ '' is already a member with different addresses''))
          | None \<Rightarrow> Begin (current_term (node e)))"

text \<open>Once no change is pending: the new member becomes a learner and gets a replicator.\<close>

definition add_learner :: "time \<Rightarrow> member \<Rightarrow> ('s, 'r) engine \<Rightarrow> ('s, 'r) engine" where
  "add_learner now m e =
     start_replicator now (member_id m) (e\<lparr>learners := dict_set (learners e) (member_id m) m\<rparr>)"

definition catch_up_poll ::
  "bool \<Rightarrow> int \<Rightarrow> member \<Rightarrow> ('s, 'r) engine \<Rightarrow> ('s, 'r) engine \<times> (string, unit) poll" where
  "catch_up_poll late t m e =
     (if last_log_index (node e) - dict_get (match_index (node e)) (member_id m) 0 > max_entries_per_rpc
      then case wait_leader late t (member_id m @ '' did not catch up in time'') e of
             None \<Rightarrow> (e, Wait ())
           | Some err \<Rightarrow> (e\<lparr>learners := dict_pop (learners e) (member_id m)\<rparr>, Raise err)
      else (e, Return (config_command (dict_values (members e) @ [m]))))"

definition add_member_finish :: "member \<Rightarrow> ('s, 'r) engine \<Rightarrow> ('s, 'r) engine" where
  "add_member_finish m e =
     (if dict_has (members e) (member_id m) then e
      else e\<lparr>learners := dict_pop (learners e) (member_id m)\<rparr>)"

definition remove_member_start :: "string \<Rightarrow> ('s, 'r) engine \<Rightarrow> change_start" where
  "remove_member_start i e =
     (case require_leader e of
        Some err \<Rightarrow> Refused err
      | None \<Rightarrow>
          if \<not> dict_has (members e) i then Refused (ConfigChangeError (i @ '' is not a member''))
          else if length (members e) = 1 then Refused (ConfigChangeError ''cannot remove the last member'')
          else Begin (current_term (node e)))"

definition remove_command :: "string \<Rightarrow> ('s, 'r) engine \<Rightarrow> string" where
  "remove_command i e = config_command (filter (\<lambda>m. member_id m \<noteq> i) (dict_values (members e)))"

subsection \<open>Leadership transfer\<close>

text \<open>\<open>max(voters, key=...)\<close>: the first voter with the largest match index.\<close>

fun best_match :: "(string, int) dict \<Rightarrow> string \<Rightarrow> string list \<Rightarrow> string" where
  "best_match d b [] = b"
| "best_match d b (p # ps) =
     (if dict_get d p 0 > dict_get d b 0 then best_match d p ps else best_match d b ps)"

definition transfer_start :: "('s, 'r) engine \<Rightarrow> ('s, 'r) engine \<times> (int \<times> string) option" where
  "transfer_start e =
     (let n = node e
      in case filter (\<lambda>m. m \<noteq> node_id e) (dict_keys (members e)) of
           [] \<Rightarrow> (e, None)
         | p # ps \<Rightarrow>
             if role n \<noteq> LEADER then (e, None)
             else (e\<lparr>transferring := True\<rparr>, Some (current_term n, best_match (match_index n) p ps)))"

text \<open>Waiting for the target to catch up; it gives up with
  \<open>None\<close>, or returns the address \<open>TimeoutNow\<close> is sent to.\<close>

definition transfer_poll ::
  "bool \<Rightarrow> int \<Rightarrow> string \<Rightarrow> ('s, 'r) engine \<Rightarrow> (py_exn + string option, unit) poll" where
  "transfer_poll late t target e =
     (let n = node e
      in if dict_get (match_index n) target 0 < last_log_index n
         then (if role n \<noteq> LEADER \<or> current_term n \<noteq> t \<or> late then Return (Inr None) else Wait ())
         else Return (case map_of (members e) target of
                        None \<Rightarrow> Inl KeyError
                      | Some m \<Rightarrow> Inr (Some (raft_address m))))"

definition transfer_wait :: "bool \<Rightarrow> ('s, 'r) engine \<Rightarrow> (bool, unit) poll" where
  "transfer_wait late e =
     (if role (node e) \<noteq> LEADER then Return True else if late then Return False else Wait ())"

definition transfer_end :: "('s, 'r) engine \<Rightarrow> ('s, 'r) engine" where
  "transfer_end e = e\<lparr>transferring := False\<rparr>"

subsection \<open>Queries\<close>

definition get_leader :: "('s, 'r) engine \<Rightarrow> string option" where
  "get_leader e = (if role (node e) = LEADER then Some (node_id e) else leader_id (node e))"

definition peer_addresses :: "('s, 'r) engine \<Rightarrow> string list" where
  "peer_addresses e = map (raft_address \<circ> snd) (filter (\<lambda>(k, _). k \<noteq> node_id e) (members e))"

definition members_list :: "('s, 'r) engine \<Rightarrow> member list" where
  "members_list e = sort_members (dict_values (members e))"

definition find_member :: "string \<Rightarrow> ('s, 'r) engine \<Rightarrow> member option" where
  "find_member i e =
     (case map_of (members e) i of None \<Rightarrow> map_of (learners e) i | Some m \<Rightarrow> Some m)"

fun role_value :: "raft_state \<Rightarrow> string" where
  "role_value FOLLOWER = ''follower''"
| "role_value CANDIDATE = ''candidate''"
| "role_value LEADER = ''leader''"

definition opt_json :: "string option \<Rightarrow> json" where
  "opt_json x = (case x of None \<Rightarrow> JNull | Some s \<Rightarrow> JStr s)"

definition status :: "('s, 'r) engine \<Rightarrow> (string \<times> json) list" where
  "status e =
     (let n = node e; ms = str_join '','' (sort_strings (dict_keys (members e)))
      in [(''node'', JStr (node_id e)), (''role'', JStr (role_value (role n))),
          (''term'', JInt (current_term n)), (''leader'', opt_json (get_leader e)),
          (''commit'', JInt (commit_index n)), (''applied'', JInt (last_applied n)),
          (''last_log'', JInt (last_log_index n)), (''snapshot'', JInt (snapshot_index n)),
          (''members'', JStr (if ms = [] then ''-'' else ms))])"

subsection \<open>What the helpers leave alone\<close>

lemma note_contact_frame [simp]:
  "current_term (node (note_contact now p s e)) = current_term (node e)"
  "voted_for (node (note_contact now p s e)) = voted_for (node e)"
  "log (node (note_contact now p s e)) = log (node e)"
  "role (node (note_contact now p s e)) = role (node e)"
  "commit_index (node (note_contact now p s e)) = commit_index (node e)"
  "last_applied (node (note_contact now p s e)) = last_applied (node e)"
  "leader_id (node (note_contact now p s e)) = leader_id (node e)"
  "snapshot_index (node (note_contact now p s e)) = snapshot_index (node e)"
  "snapshot_term (node (note_contact now p s e)) = snapshot_term (node e)"
  "snapshot_config (node (note_contact now p s e)) = snapshot_config (node e)"
  "next_index (node (note_contact now p s e)) = next_index (node e)"
  "match_index (node (note_contact now p s e)) = match_index (node e)"
  "storage (note_contact now p s e) = storage e"
  "members (note_contact now p s e) = members e"
  "node_id (note_contact now p s e) = node_id e"
  "self_address (note_contact now p s e) = self_address e"
  "bootstrap (note_contact now p s e) = bootstrap e"
  "min_timeout (note_contact now p s e) = min_timeout e"
  "max_timeout (note_contact now p s e) = max_timeout e"
  "snapshot_threshold (note_contact now p s e) = snapshot_threshold e"
  "votes (note_contact now p s e) = votes e"
  "grants (note_contact now p s e) = grants e"
  "running (note_contact now p s e) = running e"
  "config_index (note_contact now p s e) = config_index e"
  "learners (note_contact now p s e) = learners e"
  "term_start_index (note_contact now p s e) = term_start_index e"
  "send_seq (note_contact now p s e) = send_seq e"
  "last_leader_contact (note_contact now p s e) = last_leader_contact e"
  "leader_addr (note_contact now p s e) = leader_addr e"
  "transferring (note_contact now p s e) = transferring e"
  "snapshot_rx (note_contact now p s e) = snapshot_rx e"
  "timer_generation (note_contact now p s e) = timer_generation e"
  "replicators (note_contact now p s e) = replicators e"
  "waiters (note_contact now p s e) = waiters e"
  "effects (note_contact now p s e) = effects e"
  by (simp_all add: note_contact_def)

lemma record_match_frame [simp]:
  "current_term (node (record_match p i e)) = current_term (node e)"
  "voted_for (node (record_match p i e)) = voted_for (node e)"
  "log (node (record_match p i e)) = log (node e)"
  "role (node (record_match p i e)) = role (node e)"
  "last_applied (node (record_match p i e)) = last_applied (node e)"
  "leader_id (node (record_match p i e)) = leader_id (node e)"
  "snapshot_index (node (record_match p i e)) = snapshot_index (node e)"
  "snapshot_term (node (record_match p i e)) = snapshot_term (node e)"
  "snapshot_config (node (record_match p i e)) = snapshot_config (node e)"
  "storage (record_match p i e) = storage e"
  "members (record_match p i e) = members e"
  "node_id (record_match p i e) = node_id e"
  "self_address (record_match p i e) = self_address e"
  "bootstrap (record_match p i e) = bootstrap e"
  "min_timeout (record_match p i e) = min_timeout e"
  "max_timeout (record_match p i e) = max_timeout e"
  "snapshot_threshold (record_match p i e) = snapshot_threshold e"
  "votes (record_match p i e) = votes e"
  "grants (record_match p i e) = grants e"
  "running (record_match p i e) = running e"
  "config_index (record_match p i e) = config_index e"
  "learners (record_match p i e) = learners e"
  "term_start_index (record_match p i e) = term_start_index e"
  "last_contact (record_match p i e) = last_contact e"
  "send_seq (record_match p i e) = send_seq e"
  "last_ack_seq (record_match p i e) = last_ack_seq e"
  "last_leader_contact (record_match p i e) = last_leader_contact e"
  "leader_addr (record_match p i e) = leader_addr e"
  "transferring (record_match p i e) = transferring e"
  "snapshot_rx (record_match p i e) = snapshot_rx e"
  "timer_generation (record_match p i e) = timer_generation e"
  "replicators (record_match p i e) = replicators e"
  "waiters (record_match p i e) = waiters e"
  "effects (record_match p i e) = effects e"
  by (simp_all add: record_match_def Let_def)

lemma append_new_frame [simp]:
  "current_term (node (append_new R now es e)) = current_term (node e)"
  "voted_for (node (append_new R now es e)) = voted_for (node e)"
  "role (node (append_new R now es e)) = role (node e)"
  "commit_index (node (append_new R now es e)) = commit_index (node e)"
  "last_applied (node (append_new R now es e)) = last_applied (node e)"
  "leader_id (node (append_new R now es e)) = leader_id (node e)"
  "snapshot_index (node (append_new R now es e)) = snapshot_index (node e)"
  "snapshot_term (node (append_new R now es e)) = snapshot_term (node e)"
  "snapshot_config (node (append_new R now es e)) = snapshot_config (node e)"
  "node_id (append_new R now es e) = node_id e"
  "self_address (append_new R now es e) = self_address e"
  "bootstrap (append_new R now es e) = bootstrap e"
  "min_timeout (append_new R now es e) = min_timeout e"
  "max_timeout (append_new R now es e) = max_timeout e"
  "snapshot_threshold (append_new R now es e) = snapshot_threshold e"
  "votes (append_new R now es e) = votes e"
  "grants (append_new R now es e) = grants e"
  "running (append_new R now es e) = running e"
  "term_start_index (append_new R now es e) = term_start_index e"
  "send_seq (append_new R now es e) = send_seq e"
  "last_ack_seq (append_new R now es e) = last_ack_seq e"
  "last_leader_contact (append_new R now es e) = last_leader_contact e"
  "leader_addr (append_new R now es e) = leader_addr e"
  "transferring (append_new R now es e) = transferring e"
  "snapshot_rx (append_new R now es e) = snapshot_rx e"
  "timer_generation (append_new R now es e) = timer_generation e"
  "waiters (append_new R now es e) = waiters e"
  by (simp_all add: append_new_def Let_def split: prod.split option.split)

lemma maybe_snapshot_frame [simp]:
  "current_term (node (maybe_snapshot R e)) = current_term (node e)"
  "voted_for (node (maybe_snapshot R e)) = voted_for (node e)"
  "role (node (maybe_snapshot R e)) = role (node e)"
  "commit_index (node (maybe_snapshot R e)) = commit_index (node e)"
  "last_applied (node (maybe_snapshot R e)) = last_applied (node e)"
  "leader_id (node (maybe_snapshot R e)) = leader_id (node e)"
  "next_index (node (maybe_snapshot R e)) = next_index (node e)"
  "match_index (node (maybe_snapshot R e)) = match_index (node e)"
  "members (maybe_snapshot R e) = members e"
  "node_id (maybe_snapshot R e) = node_id e"
  "self_address (maybe_snapshot R e) = self_address e"
  "bootstrap (maybe_snapshot R e) = bootstrap e"
  "min_timeout (maybe_snapshot R e) = min_timeout e"
  "max_timeout (maybe_snapshot R e) = max_timeout e"
  "snapshot_threshold (maybe_snapshot R e) = snapshot_threshold e"
  "votes (maybe_snapshot R e) = votes e"
  "grants (maybe_snapshot R e) = grants e"
  "running (maybe_snapshot R e) = running e"
  "config_index (maybe_snapshot R e) = config_index e"
  "learners (maybe_snapshot R e) = learners e"
  "term_start_index (maybe_snapshot R e) = term_start_index e"
  "last_contact (maybe_snapshot R e) = last_contact e"
  "send_seq (maybe_snapshot R e) = send_seq e"
  "last_ack_seq (maybe_snapshot R e) = last_ack_seq e"
  "last_leader_contact (maybe_snapshot R e) = last_leader_contact e"
  "leader_addr (maybe_snapshot R e) = leader_addr e"
  "transferring (maybe_snapshot R e) = transferring e"
  "snapshot_rx (maybe_snapshot R e) = snapshot_rx e"
  "timer_generation (maybe_snapshot R e) = timer_generation e"
  "replicators (maybe_snapshot R e) = replicators e"
  "waiters (maybe_snapshot R e) = waiters e"
  "effects (maybe_snapshot R e) = effects e"
  by (simp_all add: maybe_snapshot_def Let_def split: option.split)

lemma add_learner_frame [simp]:
  "current_term (node (add_learner now m e)) = current_term (node e)"
  "voted_for (node (add_learner now m e)) = voted_for (node e)"
  "log (node (add_learner now m e)) = log (node e)"
  "role (node (add_learner now m e)) = role (node e)"
  "commit_index (node (add_learner now m e)) = commit_index (node e)"
  "last_applied (node (add_learner now m e)) = last_applied (node e)"
  "leader_id (node (add_learner now m e)) = leader_id (node e)"
  "snapshot_index (node (add_learner now m e)) = snapshot_index (node e)"
  "snapshot_term (node (add_learner now m e)) = snapshot_term (node e)"
  "snapshot_config (node (add_learner now m e)) = snapshot_config (node e)"
  "storage (add_learner now m e) = storage e"
  "members (add_learner now m e) = members e"
  "node_id (add_learner now m e) = node_id e"
  "self_address (add_learner now m e) = self_address e"
  "bootstrap (add_learner now m e) = bootstrap e"
  "min_timeout (add_learner now m e) = min_timeout e"
  "max_timeout (add_learner now m e) = max_timeout e"
  "snapshot_threshold (add_learner now m e) = snapshot_threshold e"
  "votes (add_learner now m e) = votes e"
  "grants (add_learner now m e) = grants e"
  "running (add_learner now m e) = running e"
  "config_index (add_learner now m e) = config_index e"
  "term_start_index (add_learner now m e) = term_start_index e"
  "send_seq (add_learner now m e) = send_seq e"
  "last_ack_seq (add_learner now m e) = last_ack_seq e"
  "last_leader_contact (add_learner now m e) = last_leader_contact e"
  "leader_addr (add_learner now m e) = leader_addr e"
  "transferring (add_learner now m e) = transferring e"
  "snapshot_rx (add_learner now m e) = snapshot_rx e"
  "timer_generation (add_learner now m e) = timer_generation e"
  "waiters (add_learner now m e) = waiters e"
  by (simp_all add: add_learner_def)

end
