(* ===== verification/Raft_Events.thy ===== *)
theory Raft_Events
  imports Raft_Replication
begin

section \<open>The critical sections of one engine as events\<close>

text \<open>
  \<open>event\<close> has one constructor for every critical section of \<open>RaftEngine\<close> that changes the state;
  \<open>run_event\<close> runs it. Whatever the threads, the network and the clients do, an engine goes
  through a sequence of events. \<open>valid_event\<close> says what the caller of a section guarantees: a
  replication request carries consecutive entries, a snapshot is installed and an entry is
  applied under the apply lock. Shown here, for every event: terms never decrease and a vote is
  never changed within its term (\<open>tv_le\<close>); the storage mirrors the node and
  \<open>snapshot_index \<le> last_applied \<le> commit_index\<close> (\<open>engine_ok\<close>); what the event can change
  of the role, the votes and the membership.
\<close>

datatype 'r event =
    EvStart
  | EvStop
  | EvElectionTimeout int
  | EvPreVoteReply member int vote_response
  | EvVoteReply member vote_request vote_response
  | EvRequestVote vote_request
  | EvCheckQuorum int
  | EvTimeoutNow int
  | EvReplicate string int int
  | EvNumber
  | EvEntriesReply member int int append_request append_response
  | EvSnapshotReply member int int snapshot_response
  | EvSnapshotDone member int int
  | EvAppend append_request
  | EvChunk snapshot_request
  | EvInstall snapshot_request
  | EvApplied int log_entry 'r
  | EvPropose string string string
  | EvProposePoll bool log_entry
  | EvAddLearner member
  | EvCatchUp bool int member
  | EvAddFinish member
  | EvTransferStart
  | EvTransferEnd

fun run_event :: "'s raft_storage \<Rightarrow> time \<Rightarrow> 'r event \<Rightarrow> ('s, 'r) engine \<Rightarrow> ('s, 'r) engine" where
  "run_event R now EvStart e = start_engine R now e"
| "run_event R now EvStop e = stop_engine e"
| "run_event R now (EvElectionTimeout g) e = start_election R now (Some g) e"
| "run_event R now (EvPreVoteReply p g v) e = pre_vote_reply R now p g v e"
| "run_event R now (EvVoteReply p q v) e = vote_reply R now p q v e"
| "run_event R now (EvRequestVote q) e = fst (handle_request_vote R now q e)"
| "run_event R now (EvCheckQuorum t) e = fst (check_quorum_round R now t e)"
| "run_event R now (EvTimeoutNow t) e = fst (handle_timeout_now R now t e)"
| "run_event R now (EvReplicate p t w) e = fst (replicate_round p t w e)"
| "run_event R now EvNumber e = fst (next_send_seq e)"
| "run_event R now (EvEntriesReply p t s q a) e = entries_reply R now p t s q a e"
| "run_event R now (EvSnapshotReply p t s a) e = fst (snapshot_reply R now p t s a e)"
| "run_event R now (EvSnapshotDone p t i) e = snapshot_done p t i e"
| "run_event R now (EvAppend q) e = fst (handle_append_entries R now q e)"
| "run_event R now (EvChunk q) e = fst (receive_chunk R now q e)"
| "run_event R now (EvInstall q) e = fst (install_snapshot R now q e)"
| "run_event R now (EvApplied i x r) e = apply_done R i x r e"
| "run_event R now (EvPropose c u r) e = fst (propose_start R now c u r e)"
| "run_event R now (EvProposePoll l x) e = fst (propose_poll l x e)"
| "run_event R now (EvAddLearner m) e = add_learner now m e"
| "run_event R now (EvCatchUp l t m) e = fst (catch_up_poll l t m e)"
| "run_event R now (EvAddFinish m) e = add_member_finish m e"
| "run_event R now EvTransferStart e = fst (transfer_start e)"
| "run_event R now EvTransferEnd e = transfer_end e"

fun valid_event :: "'r event \<Rightarrow> ('s, 'r) engine \<Rightarrow> bool" where
  "valid_event (EvAppend q) e = consecutive (aq_prev_log_index q + 1) (aq_entries q)"
| "valid_event (EvInstall q) e = install_needed q e"
| "valid_event (EvApplied i x r) e = (i = last_applied (node e) + 1 \<and> i \<le> commit_index (node e))"
| "valid_event ev e = True"

subsection \<open>Terms and votes\<close>

definition tv_le :: "int \<times> string option \<Rightarrow> int \<times> string option \<Rightarrow> bool" where
  "tv_le a b = (fst a < fst b \<or> (fst a = fst b \<and> (snd a = None \<or> snd a = snd b)))"

abbreviation tv :: "('s, 'r) engine \<Rightarrow> int \<times> string option" where
  "tv e \<equiv> (current_term (node e), voted_for (node e))"

lemma tv_le_refl [simp, intro]: "tv_le a a"
  by (simp add: tv_le_def)

lemma tv_le_trans: "tv_le a b \<Longrightarrow> tv_le b c \<Longrightarrow> tv_le a c"
  by (auto simp: tv_le_def)

lemma become_follower_tv [simp]:
  "current_term (node (become_follower R t e)) = max t (current_term (node e))"
  "voted_for (node (become_follower R t e)) = (if t > current_term (node e) then None else voted_for (node e))"
  "role (node (become_follower R t e)) = FOLLOWER"
  by (simp_all add: become_follower_def Let_def)

lemma accept_leader_tv [simp]:
  "current_term (node (accept_leader R now t l a e)) = max t (current_term (node e))"
  "voted_for (node (accept_leader R now t l a e)) = (if t > current_term (node e) then None else voted_for (node e))"
  "role (node (accept_leader R now t l a e)) = FOLLOWER"
  by (simp_all add: accept_leader_def Let_def split: option.split)

lemma become_leader_role [simp]: "role (node (become_leader R now e)) = LEADER"
  by (simp add: become_leader_def Let_def)

lemma become_candidate_tv [simp]:
  "current_term (node (become_candidate R now tr e)) = current_term (node e) + 1"
  "voted_for (node (become_candidate R now tr e)) = Some (node_id e)"
  "votes (become_candidate R now tr e) = dict_set (votes e) (current_term (node e) + 1) [node_id e]"
  by (simp_all add: become_candidate_def Let_def)

lemmas event_sections =
  start_engine_def stop_engine_def pre_vote_reply_def vote_reply_def
  handle_request_vote_def check_quorum_round_def handle_timeout_now_def replicate_round_def
  next_send_seq_def entries_reply_def snapshot_reply_def snapshot_done_def
  handle_append_entries_def receive_chunk_def install_snapshot_def apply_done_def
  propose_start_def propose_poll_def catch_up_poll_def add_member_finish_def
  transfer_start_def transfer_end_def

lemma run_event_tv: "tv_le (tv e) (tv (run_event R now ev e))"
  by (cases ev) (auto simp: event_sections start_election_def Let_def tv_le_def max_def
     split: option.split list.split waiter.split prod.split chunk_result.split sum.split)

subsection \<open>The storage mirrors the node\<close>

definition engine_ok :: "'s raft_storage \<Rightarrow> ('s \<Rightarrow> bool) \<Rightarrow> ('s, 'r) engine \<Rightarrow> bool" where
  "engine_ok R ok e =
     (mirrors R ok (node e) (storage e) \<and> p_last_applied (load_op R (storage e)) \<le> last_applied (node e) \<and>
      snapshot_index (node e) \<le> last_applied (node e) \<and> last_applied (node e) \<le> commit_index (node e))"

text \<open>What the storage holds of a node.\<close>

definition core :: "raft_node \<Rightarrow> int \<times> string option \<times> log_entry list \<times> int \<times> int \<times> member list option" where
  "core n = (current_term n, voted_for n, log n, snapshot_index n, snapshot_term n, snapshot_config n)"

lemma mirrors_core: "mirrors R ok n s \<Longrightarrow> core n' = core n \<Longrightarrow> mirrors R ok n' s"
  by (auto simp: mirrors_def core_def wf_log_def)

lemma commit_advances: "commit_index (node e) \<le> commit_index (node (advance_commit_index e))"
proof -
  have "scan_commit e is = Some i \<Longrightarrow> i \<in> set is" for "is" i
    by (induction "is") (auto split: if_splits)
  from this [of "rev [commit_index (node e) + 1 .. last_log_index (node e)]"] show ?thesis
    by (fastforce simp: advance_commit_index_def split: option.split)
qed

lemma become_follower_storage [simp]:
  "storage (become_follower R t e) =
     (if t > current_term (node e) then save_term_and_vote_op R t None (storage e) else storage e)"
  by (simp add: become_follower_def Let_def)

lemma accept_leader_storage [simp]:
  "storage (accept_leader R now t l a e) =
     (if t > current_term (node e) then save_term_and_vote_op R t None (storage e) else storage e)"
  by (simp add: accept_leader_def Let_def split: option.split)

lemma become_leader_log:
  defines "noop \<equiv> \<lambda>e. \<lparr>e_term = current_term (node e), e_index = last_log_index (node e) + 1,
             e_command = noop_command, e_username = [], e_request_id = []\<rparr>"
  shows "log (node (become_leader R now e)) = log (node e) @ [noop e]"
    and "storage (become_leader R now e) = append_op R [noop e] (storage e)"
    and "commit_index (node e) \<le> commit_index (node (become_leader R now e))"
  by (simp_all add: become_leader_def Let_def noop_def last_log_index_def
      order_trans [OF _ commit_advances])

context raft_storage_laws
begin

text \<open>The stored \<open>last_applied\<close> changes only with a snapshot.\<close>

lemma stored_applied:
  assumes "mirrors R stored_ok n s"
  shows "p_last_applied (load_op R (save_term_and_vote_op R t v s)) = p_last_applied (load_op R s)"
    and "consecutive (last_log_index n + 1) es \<Longrightarrow>
      p_last_applied (load_op R (append_op R es s)) = p_last_applied (load_op R s)"
    and "snapshot_index n < i \<Longrightarrow> p_last_applied (load_op R (truncate_from_op R i s)) = p_last_applied (load_op R s)"
    and "snapshot_index n \<le> i \<Longrightarrow> p_last_applied (load_op R (save_snapshot_op R i t' a c s)) = a"
proof -
  note l = assms [unfolded mirrors_def]
  show "p_last_applied (load_op R (append_op R es s)) = p_last_applied (load_op R s)"
    if c: "consecutive (last_log_index n + 1) es"
  proof (cases es)
    case (Cons x xs)
    then have "e_index x = last_log_index n + 1" using c by (auto simp: consecutive_def)
    then show ?thesis using load_append [of s x xs] c Cons l
      by (simp add: p_last_index_def last_log_index_def)
  qed (simp add: append_Nil)
qed (use assms load_term_vote load_truncate load_snapshot in \<open>simp_all add: mirrors_def\<close>)

abbreviation "eok \<equiv> engine_ok R stored_ok"

lemma eok_frame:
  "eok e \<Longrightarrow> core (node e') = core (node e) \<Longrightarrow> storage e' = storage e \<Longrightarrow>
   last_applied (node e') = last_applied (node e) \<Longrightarrow> commit_index (node e') \<ge> commit_index (node e) \<Longrightarrow> eok e'"
  unfolding engine_ok_def using mirrors_core [of R stored_ok "node e" "storage e" "node e'"]
  by (auto simp: core_def)

lemma eok_persist:
  "eok e \<Longrightarrow> core (node e') = core ((node e)\<lparr>current_term := t, voted_for := v\<rparr>) \<Longrightarrow>
   storage e' = save_term_and_vote_op R t v (storage e) \<Longrightarrow>
   last_applied (node e') = last_applied (node e) \<Longrightarrow> commit_index (node e') \<ge> commit_index (node e) \<Longrightarrow> eok e'"
  unfolding engine_ok_def
  using mirrors_core [OF mirrors_term_vote [of "node e" "storage e" v t], of "node e'"]
    stored_applied(1) [of "node e" "storage e" t v]
  by (auto simp: core_def)

lemma eok_append:
  "eok e \<Longrightarrow> consecutive (last_log_index (node e) + 1) es \<Longrightarrow>
   core (node e') = core ((node e)\<lparr>log := log (node e) @ es\<rparr>) \<Longrightarrow>
   storage e' = append_op R es (storage e) \<Longrightarrow>
   last_applied (node e') = last_applied (node e) \<Longrightarrow> commit_index (node e') \<ge> commit_index (node e) \<Longrightarrow> eok e'"
  unfolding engine_ok_def
  using mirrors_core [OF mirrors_append [of "node e" "storage e" es], of "node e'"]
    stored_applied(2) [of "node e" "storage e" es]
  by (auto simp: core_def)

lemma eok_truncate:
  "eok e \<Longrightarrow> snapshot_index (node e) < i \<Longrightarrow>
   core (node e') = core (truncate_from (node e) i) \<Longrightarrow>
   storage e' = truncate_from_op R i (storage e) \<Longrightarrow>
   last_applied (node e') = last_applied (node e) \<Longrightarrow> commit_index (node e') \<ge> commit_index (node e) \<Longrightarrow> eok e'"
  unfolding engine_ok_def
  using mirrors_core [OF mirrors_truncate [of "node e" "storage e" i], of "node e'"]
    stored_applied(3) [of "node e" "storage e" i]
  by (auto simp: core_def)

lemma eok_become_follower: "eok e \<Longrightarrow> eok (become_follower R t e)"
  by (cases "t > current_term (node e)")
    (auto intro: eok_frame [of e] eok_persist [of e _ None t] simp: core_def)

lemma eok_accept_leader: "eok e \<Longrightarrow> eok (accept_leader R now t l a e)"
  by (cases "t > current_term (node e)")
    (auto intro: eok_frame [of e] eok_persist [of e _ None t] simp: core_def)

lemma eok_become_leader: "eok e \<Longrightarrow> eok (become_leader R now e)"
  by (rule eok_append [of e]) (auto simp: core_def become_leader_log consecutive_def)

lemma eok_become_candidate: "eok e \<Longrightarrow> eok (become_candidate R now tr e)"
proof -
  assume e: "eok e"
  let ?e1 = "persist_term_and_vote R (e\<lparr>node := (node e)\<lparr>current_term := current_term (node e) + 1, role := CANDIDATE,
                              voted_for := Some (node_id e), leader_id := None\<rparr>\<rparr>)"
  let ?e2 = "?e1\<lparr>votes := dict_set (votes ?e1) (current_term (node ?e1)) [node_id ?e1]\<rparr>"
  have e2: "eok ?e2"
    by (rule eok_persist [OF e, of _ "Some (node_id e)" "current_term (node e) + 1"]) (simp_all add: core_def)
  show ?thesis
    unfolding become_candidate_def Let_def
    by (auto intro!: eok_become_leader e2 intro: eok_frame [OF e2] simp: core_def)
qed

end
subsection \<open>Scanning the received entries\<close>

lemma consecutive_Cons: "consecutive i (x # xs) \<longleftrightarrow> e_index x = i \<and> consecutive (i + 1) xs"
proof -
  have "(\<forall>k < Suc (length xs). e_index ((x # xs) ! k) = i + int k) \<longleftrightarrow>
    e_index x = i \<and> (\<forall>k < length xs. e_index (xs ! k) = i + 1 + int k)"
    by (simp add: All_less_Suc2 algebra_simps)
  then show ?thesis by (simp add: consecutive_def)
qed

lemma scan_entries_spec:
  fixes cut :: "int option" and new :: "log_entry list"
  assumes "consecutive i es" and "snapshot_index n < i" and "i \<le> last_log_index n + 1"
    and "scan_entries n es = (cut, new)"
  shows "\<exists>k \<le> length es. new = drop k es \<and> i + int k \<le> last_log_index n + 1 \<and>
    (\<forall>j < k. term_at n (i + int j) = Some (e_term (es ! j))) \<and>
    (case cut of
       None \<Rightarrow> k = length es \<or> i + int k = last_log_index n + 1
     | Some c \<Rightarrow> c = i + int k \<and> k < length es \<and> c \<le> last_log_index n \<and>
                 term_at n c \<noteq> Some (e_term (es ! k)))"
  using assms
proof (induction es arbitrary: i)
  case Nil
  then show ?case by auto
next
  case (Cons x xs)
  then have x: "e_index x = i" "consecutive (i + 1) xs" by (simp_all add: consecutive_Cons)
  show ?case
  proof (cases "term_at n i = Some (e_term x)")
    case True
    then have "i \<le> last_log_index n" using term_at_None [of n i] by auto
    moreover have "scan_entries n xs = (cut, new)" using Cons.prems True x by simp
    ultimately obtain k where k: "k \<le> length xs" "new = drop k xs" "i + 1 + int k \<le> last_log_index n + 1"
      "\<forall>j < k. term_at n (i + 1 + int j) = Some (e_term (xs ! j))"
      "case cut of None \<Rightarrow> k = length xs \<or> i + 1 + int k = last_log_index n + 1
       | Some c \<Rightarrow> c = i + 1 + int k \<and> k < length xs \<and> c \<le> last_log_index n \<and> term_at n c \<noteq> Some (e_term (xs ! k))"
      using Cons.IH [OF x(2)] Cons.prems by auto
    have "\<forall>j < Suc k. term_at n (i + int j) = Some (e_term ((x # xs) ! j))"
      using True k(4) by (simp add: All_less_Suc2 algebra_simps)
    then show ?thesis using k by (intro exI [of _ "Suc k"]) (auto split: option.splits simp: algebra_simps)
  next
    case False
    then have "i \<le> last_log_index n \<or> i = last_log_index n + 1" using Cons.prems by linarith
    then show ?thesis
      using False Cons.prems x term_at_None [of n i]
      by (intro exI [of _ 0]) (auto split: option.splits if_splits)
  qed
qed

text \<open>What \<open>append_new\<close> makes of the log: our entries before the first new one, and the new ones.\<close>

lemma append_new_log:
  assumes "consecutive i es" and "snapshot_index (node e) < i" and "i \<le> last_log_index (node e) + 1"
  obtains k where "k \<le> length es" and "i + int k \<le> last_log_index (node e) + 1"
    and "\<forall>j < k. term_at (node e) (i + int j) = Some (e_term (es ! j))"
    and "log (node (append_new R now es e)) =
      (if k = length es then log (node e)
       else take (nat (i + int k - snapshot_index (node e) - 1)) (log (node e)) @ drop k es)"
    and "k < length es \<Longrightarrow> i + int k \<le> last_log_index (node e) \<Longrightarrow> term_at (node e) (i + int k) \<noteq> Some (e_term (es ! k))"
proof -
  obtain cut new where s: "scan_entries (node e) es = (cut, new)" by (cases "scan_entries (node e) es")
  obtain k where k: "k \<le> length es" "new = drop k es" "i + int k \<le> last_log_index (node e) + 1"
    "\<forall>j < k. term_at (node e) (i + int j) = Some (e_term (es ! j))"
    "case cut of None \<Rightarrow> k = length es \<or> i + int k = last_log_index (node e) + 1
     | Some c \<Rightarrow> c = i + int k \<and> k < length es \<and> c \<le> last_log_index (node e) \<and> term_at (node e) c \<noteq> Some (e_term (es ! k))"
    using scan_entries_spec [OF assms s] by blast
  have "log (node (append_new R now es e)) =
      (if k = length es then log (node e)
       else take (nat (i + int k - snapshot_index (node e) - 1)) (log (node e)) @ drop k es)"
    using k assms(2)
    by (auto simp: append_new_def s Let_def last_log_index_def truncate_from_log split: option.splits)
  moreover have "k < length es \<Longrightarrow> i + int k \<le> last_log_index (node e) \<Longrightarrow>
      term_at (node e) (i + int k) \<noteq> Some (e_term (es ! k))"
    using k(5) by (cases cut) auto
  ultimately show ?thesis using that [OF k(1,3,4)] by blast
qed

context raft_storage_laws
begin

lemma eok_append_new:
  assumes e: "eok e" and es: "consecutive i es" "snapshot_index (node e) < i" "i \<le> last_log_index (node e) + 1"
  shows "eok (append_new R now es e)"
proof -
  obtain cut new where s: "scan_entries (node e) es = (cut, new)" by (cases "scan_entries (node e) es")
  obtain k where k: "k \<le> length es" "new = drop k es" "i + int k \<le> last_log_index (node e) + 1"
    "case cut of None \<Rightarrow> k = length es \<or> i + int k = last_log_index (node e) + 1
     | Some c \<Rightarrow> c = i + int k \<and> k < length es \<and> c \<le> last_log_index (node e) \<and> term_at (node e) c \<noteq> Some (e_term (es ! k))"
    using scan_entries_spec [OF es s] by blast
  let ?e1 = "case cut of None \<Rightarrow> e | Some c \<Rightarrow> truncate_local R now c e"
  have e1: "eok ?e1"
    using e k(4) es(2) eok_truncate [OF e, of "i + int k" "truncate_local R now (i + int k) e"]
    by (auto simp: core_def split: option.split)
  have c: "consecutive (i + int k) new" using es(1) k(2) by (simp add: consecutive_drop)
  have l: "i + int k = last_log_index (node ?e1) + 1" if "new \<noteq> []"
    using k that es(2) last_log_index_truncate [of "node e" "i + int k"]
    by (auto simp: in_log_def last_log_index_def split: option.splits)
  show ?thesis
  proof (cases "new = []")
    case True
    with e1 show ?thesis by (simp add: append_new_def s Let_def)
  next
    case False
    have "eok (append_local R now new ?e1)"
      using c l [OF False] by (intro eok_append [OF e1]) (auto simp: core_def)
    with False show ?thesis by (simp add: append_new_def s Let_def)
  qed
qed

lemma eok_maybe_snapshot: "eok e \<Longrightarrow> eok (maybe_snapshot R e)"
  unfolding engine_ok_def maybe_snapshot_def Let_def
  by (auto intro: mirrors_compact simp: stored_applied(4) split: option.split)

end

context raft_storage_laws
begin

lemma eok_start_election: "eok e \<Longrightarrow> eok (start_election R now g e)"
  by (auto simp: start_election_def Let_def core_def intro!: eok_become_candidate intro: eok_frame [of e])

lemma eok_handle_request_vote:
  assumes "eok e"
  shows "eok (fst (handle_request_vote R now q e))"
proof -
  define e1 where "e1 = (if vq_term q > current_term (node e) then become_follower R (vq_term q) e else e)"
  have e1: "eok e1" using assms by (simp add: e1_def eok_become_follower)
  have "eok (reset_election_timer (persist_term_and_vote R
                        (e1\<lparr>node := (node e1)\<lparr>voted_for := Some (vq_candidate_id q)\<rparr>\<rparr>)))"
    by (rule eok_persist [OF e1]) (simp_all add: core_def)
  then show ?thesis
    using assms e1 by (simp add: handle_request_vote_def Let_def e1_def [symmetric])
qed

lemma eok_commit: "eok e \<Longrightarrow> eok (e\<lparr>node := (node e)\<lparr>commit_index := max (commit_index (node e)) i\<rparr>\<rparr>)"
  by (erule eok_frame) (simp_all add: core_def)

lemma eok_handle_append_entries:
  assumes e: "eok e" and q: "consecutive (aq_prev_log_index q + 1) (aq_entries q)"
  shows "eok (fst (handle_append_entries R now q e))"
proof (cases "aq_term q < current_term (node e)")
  case True
  with e show ?thesis by (simp add: handle_append_entries_def)
next
  case False
  define e1 where "e1 = accept_leader R now (aq_term q) (aq_leader_id q) (aq_leader_address q) e"
  have e1: "eok e1" using e by (simp add: e1_def eok_accept_leader)
  obtain entries prev pt where d: "(if aq_prev_log_index q < snapshot_index (node e1)
      then (py_drop (snapshot_index (node e1) - aq_prev_log_index q) (aq_entries q),
            snapshot_index (node e1), Some (snapshot_term (node e1)))
      else (aq_entries q, aq_prev_log_index q, aq_prev_log_term q)) = (entries, prev, pt)"
    by (metis prod_cases3)
  have c: "consecutive (prev + 1) entries" "snapshot_index (node e1) < prev + 1"
    using d q consecutive_drop [OF q, of "nat (snapshot_index (node e1) - aq_prev_log_index q)"]
    by (auto split: if_splits simp: py_drop_nonneg algebra_simps)
  let ?e2 = "append_new R now entries e1"
  have e2: "eok ?e2" if "\<not> prev > last_log_index (node e1)"
    using that c by (intro eok_append_new [OF e1]) auto
  then have "eok (?e2\<lparr>node := (node ?e2)\<lparr>commit_index := max (commit_index (node ?e2)) i\<rparr>\<rparr>)"
    if "\<not> prev > last_log_index (node e1)" for i using that by (intro eok_commit) simp
  with e2 show ?thesis
    using False e1 unfolding handle_append_entries_def Let_def e1_def [symmetric] d by simp
qed

lemma eok_receive_chunk: "eok e \<Longrightarrow> eok (fst (receive_chunk R now q e))"
proof -
  assume e: "eok e"
  define e1 where "e1 = accept_leader R now (sq_term q) (sq_leader_id q) (sq_leader_address q) e"
  have e1: "eok e1" using e by (simp add: e1_def eok_accept_leader)
  then have "eok (e1\<lparr>snapshot_rx := x\<rparr>)" for x by (rule eok_frame) (simp_all add: core_def)
  with e e1 show ?thesis
    unfolding receive_chunk_def Let_def e1_def [symmetric]
    by (simp split: option.split sum.split)
qed

lemma eok_install_snapshot:
  assumes e: "eok e" and q: "install_needed q e"
  shows "eok (fst (install_snapshot R now q e))"
proof -
  let ?i = "sq_last_included_index q" and ?t = "sq_last_included_term q" and ?c = "sq_config q"
  let ?s1 = "if term_at (node e) ?i \<noteq> Some ?t then truncate_from_op R (snapshot_index (node e) + 1) (storage e) else storage e"
  let ?n = "compact_through (node e) ?i ?t (Some ?c)"
  have i: "snapshot_index (node e) \<le> ?i" "last_applied (node e) < ?i"
    using e q by (auto simp: engine_ok_def install_needed_def)
  have m: "mirrors R stored_ok ?n (save_snapshot_op R ?i ?t ?i (Some ?c) ?s1)"
    using e i(1) by (intro mirrors_install) (simp_all add: engine_ok_def)
  have "mirrors R stored_ok (node e) (storage e)" using e by (simp add: engine_ok_def)
  then have a: "p_last_applied (load_op R (save_snapshot_op R ?i ?t ?i (Some ?c) ?s1)) = ?i"
    using i(1) stored_applied(4) [of "node e" "storage e" ?i ?t ?i]
      stored_applied(4) [OF mirrors_truncate [of "node e" "storage e" "snapshot_index (node e) + 1"], of ?i ?t ?i] by auto
  show ?thesis
    using e i a m unfolding engine_ok_def install_snapshot_def Let_def
    by (simp add: mirrors_core [OF m] core_def max_absorb2 del: if_split)
qed

lemma eok_apply_done:
  assumes e: "eok e" and i: "i = last_applied (node e) + 1" "i \<le> commit_index (node e)"
  shows "eok (apply_done R i x r e)"
proof -
  have e1: "eok (e\<lparr>node := (node e)\<lparr>last_applied := max (last_applied (node e)) i\<rparr>\<rparr>)"
    using e i unfolding engine_ok_def by (auto intro: mirrors_core simp: core_def)
  then have "eok (e\<lparr>node := (node e)\<lparr>last_applied := max (last_applied (node e)) i\<rparr>, waiters := w\<rparr>)" for w
    by (rule eok_frame) (simp_all add: core_def)
  with e1 show ?thesis
    by (auto simp: apply_done_def Let_def intro!: eok_maybe_snapshot eok_become_follower)
qed

lemma eok_record_match: "eok e \<Longrightarrow> eok (record_match p i e)"
  by (rule eok_frame [of e]) (auto simp: core_def record_match_def Let_def intro: order_trans [OF _ commit_advances])

lemma eok_note_contact: "eok e \<Longrightarrow> eok (note_contact now p s e)"
  by (rule eok_frame [of e]) (auto simp: core_def)

lemma eok_propose_start: "eok e \<Longrightarrow> eok (fst (propose_start R now c u r e))"
  by (cases "running e \<and> \<not> transferring e \<and> role (node e) = LEADER")
    (auto simp: propose_start_def Let_def core_def consecutive_def intro!: eok_append [of e]
      intro: order_trans [OF _ commit_advances])

lemma eok_run_event: "eok e \<Longrightarrow> valid_event ev e \<Longrightarrow> eok (run_event R now ev e)"
proof (cases ev)
  case EvStart
  assume e: "eok e"
  then have "eok (e\<lparr>running := True\<rparr>)" by (rule eok_frame) (simp_all add: core_def)
  then show ?thesis using EvStart
    by (auto simp: start_engine_def Let_def core_def intro!: eok_start_election intro: eok_frame [OF e])
next
  case (EvSnapshotReply p t s a)
  assume "eok e" with EvSnapshotReply show ?thesis
    by (simp add: snapshot_reply_def eok_become_follower eok_note_contact)
next
  case (EvEntriesReply p t s q a)
  assume "eok e" 
  with EvEntriesReply show ?thesis
    by (auto simp: entries_reply_def Let_def eok_become_follower eok_record_match eok_note_contact core_def
        intro: eok_frame [OF eok_note_contact [of e now "member_id p" s]])
next
  case (EvPreVoteReply p g v)
  assume e: "eok e"
  then have "eok (e\<lparr>grants := x\<rparr>)" for x by (rule eok_frame) (simp_all add: core_def)
  with e EvPreVoteReply show ?thesis
    by (simp add: pre_vote_reply_def Let_def eok_become_follower eok_become_candidate)
next
  case (EvVoteReply p q v)
  assume e: "eok e"
  then have "eok (e\<lparr>votes := x\<rparr>)" for x by (rule eok_frame) (simp_all add: core_def)
  with e EvVoteReply show ?thesis
    by (simp add: vote_reply_def Let_def eok_become_follower eok_become_leader)
qed (auto simp: eok_start_election eok_handle_request_vote eok_handle_append_entries eok_receive_chunk
    eok_install_snapshot eok_apply_done eok_propose_start check_quorum_round_def eok_become_follower
    handle_timeout_now_def Let_def eok_become_candidate snapshot_done_def eok_record_match core_def
    stop_engine_def replicate_round_def next_send_seq_def propose_poll_def catch_up_poll_def
    add_member_finish_def transfer_start_def transfer_end_def
    intro: eok_frame [of e] split: option.splits list.splits waiter.splits)

end

subsection \<open>Identity, votes, leadership\<close>

lemma run_event_id [simp]:
  "node_id (run_event R now ev e) = node_id e"
  "self_address (run_event R now ev e) = self_address e"
  "bootstrap (run_event R now ev e) = bootstrap e"
  "min_timeout (run_event R now ev e) = min_timeout e"
  "max_timeout (run_event R now ev e) = max_timeout e"
  "snapshot_threshold (run_event R now ev e) = snapshot_threshold e"
  by (cases ev; simp add: event_sections start_election_def Let_def
     split: option.split list.split waiter.split prod.split chunk_result.split sum.split)+

text \<open>The votes recorded for a term.\<close>

definition votes_at :: "('s, 'r) engine \<Rightarrow> int \<Rightarrow> string set" where
  "votes_at e t = set (dict_get (votes e) t [])"

lemma become_leader_members [simp]: "members (become_leader R now e) = members e"
  by (simp add: become_leader_def Let_def append_local_def)

lemma become_candidate_members [simp]: "members (become_candidate R now tr e) = members e"
  by (simp add: become_candidate_def Let_def)

lemma votes_at_simps [simp]:
  "votes_at (become_follower R t e) u = votes_at e u"
  "votes_at (become_leader R now e) u = votes_at e u"
  "votes_at (become_candidate R now tr e) u =
     (if u = current_term (node e) + 1 then {node_id e} else votes_at e u)"
  "votes_at (e\<lparr>votes := dict_set (votes e) t vs\<rparr>) u = (if u = t then set vs else votes_at e u)"
  by (auto simp: votes_at_def dict_get_def)

fun may_vote :: "'r event \<Rightarrow> bool" where
  "may_vote EvStart = True"
| "may_vote (EvElectionTimeout g) = True"
| "may_vote (EvPreVoteReply p g v) = True"
| "may_vote (EvVoteReply p q v) = True"
| "may_vote (EvTimeoutNow t) = True"
| "may_vote ev = False"

lemma run_event_quiet:
  assumes "\<not> may_vote ev"
  shows "votes (run_event R now ev e) = votes e"
    and "role (node (run_event R now ev e)) = LEADER \<longleftrightarrow>
      role (node e) = LEADER \<and> role (node (run_event R now ev e)) \<noteq> FOLLOWER"
    and "role (node (run_event R now ev e)) \<noteq> FOLLOWER \<Longrightarrow>
      current_term (node (run_event R now ev e)) = current_term (node e)"
  using assms
  by (cases ev; auto simp: event_sections Let_def
     split: option.splits list.splits waiter.splits prod.splits chunk_result.splits sum.splits if_splits)+

lemma start_election_cases:
  "(start_election R now g e = become_candidate R now False e \<and> role (node e) \<noteq> LEADER) \<or>
   (votes (start_election R now g e) = votes e \<and> role (node (start_election R now g e)) = role (node e) \<and>
    tv (start_election R now g e) = tv e \<and> members (start_election R now g e) = members e)"
  by (simp add: start_election_def Let_def)

text \<open>
  A vote enters the vote set of a term only as the candidate's own vote or with a granted reply,
  and no vote is lost within a term.
\<close>

lemma run_event_votes:
  assumes "v \<in> votes_at (run_event R now ev e) t"
  shows "v \<in> votes_at e t \<or>
    (t = current_term (node (run_event R now ev e)) \<and> v = node_id e \<and>
     voted_for (node (run_event R now ev e)) = Some v) \<or>
    (\<exists>p q r. ev = EvVoteReply p q r \<and> t = vq_term q \<and> v = member_id p \<and> vr_granted r)"
proof (cases "may_vote ev")
  case False
  then show ?thesis using assms by (simp add: votes_at_def run_event_quiet)
next
  case True
  from True show ?thesis
  proof (cases ev)
    case EvStart
    show ?thesis using assms EvStart start_election_cases [of R now None "e\<lparr>running := True\<rparr>"]
      by (auto simp: start_engine_def Let_def votes_at_def split: if_splits)
  next
    case (EvElectionTimeout g)
    show ?thesis using assms EvElectionTimeout start_election_cases [of R now "Some g" e]
      by (auto simp: votes_at_def split: if_splits)
  qed (use assms in \<open>auto simp: pre_vote_reply_def vote_reply_def handle_timeout_now_def Let_def votes_at_def split: if_splits\<close>)
qed

lemma run_event_keeps_votes:
  assumes "t \<le> current_term (node e)"
  shows "votes_at e t \<subseteq> votes_at (run_event R now ev e) t"
proof (cases "may_vote ev")
  case False
  then show ?thesis by (simp add: votes_at_def run_event_quiet)
next
  case True
  from True show ?thesis
  proof (cases ev)
    case EvStart
    show ?thesis using assms EvStart start_election_cases [of R now None "e\<lparr>running := True\<rparr>"]
      by (auto simp: start_engine_def Let_def votes_at_def split: if_splits)
  next
    case (EvElectionTimeout g)
    show ?thesis using assms EvElectionTimeout start_election_cases [of R now "Some g" e]
      by (auto simp: votes_at_def split: if_splits)
  qed (use assms in \<open>auto simp: pre_vote_reply_def vote_reply_def handle_timeout_now_def Let_def votes_at_def\<close>)
qed

text \<open>A set of node ids is a majority of a membership.\<close>

definition quorum :: "(string, member) dict \<Rightarrow> string set \<Rightarrow> bool" where
  "quorum ms vs = (length ms div 2 + 1 \<le> length (filter (\<lambda>m. m \<in> vs) (dict_keys ms)))"

lemma majority_quorum: "majority e \<le> count_votes vs e \<longleftrightarrow> quorum (members e) (set vs)"
  by (simp add: majority_def count_votes_def quorum_def)

text \<open>An engine leads only the term it was already leading, or one it has a majority of votes for.\<close>

lemma run_event_leads:
  fixes R :: "'s raft_storage" and e :: "('s, 'r) engine"
  assumes "role (node (run_event R now ev e)) = LEADER"
  shows "(role (node e) = LEADER \<and> current_term (node (run_event R now ev e)) = current_term (node e)) \<or>
    quorum (members e) (votes_at (run_event R now ev e) (current_term (node (run_event R now ev e))))"
proof (cases "may_vote ev")
  case False
  then show ?thesis using assms by (metis run_event_quiet(2,3))
next
  case True
  have cand: "quorum (members e') {node_id e'}" if "role (node (become_candidate R now tr e')) = LEADER" for tr and e' :: "('s, 'r) engine"
    using that majority_quorum [of e' "[node_id e']"]
    by (auto simp: become_candidate_def Let_def majority_def count_votes_def split: if_splits)
  from True show ?thesis
  proof (cases ev)
    case EvStart
    show ?thesis using assms EvStart start_election_cases [of R now None "e\<lparr>running := True\<rparr>"] cand [of False "e\<lparr>running := True\<rparr>"]
      by (auto simp: start_engine_def Let_def split: if_splits)
  next
    case (EvElectionTimeout g)
    show ?thesis using assms EvElectionTimeout start_election_cases [of R now "Some g" e] cand [of False e]
      by auto
  next
    case (EvPreVoteReply p g v)
    show ?thesis using assms EvPreVoteReply cand [of False "e\<lparr>grants := _\<rparr>"]
      by (auto simp: pre_vote_reply_def Let_def split: if_splits)
  next
    case (EvVoteReply p q v)
    show ?thesis using assms EvVoteReply
      by (auto simp: vote_reply_def Let_def majority_quorum split: if_splits)
  next
    case (EvTimeoutNow t)
    show ?thesis using assms EvTimeoutNow cand [of True e]
      by (auto simp: handle_timeout_now_def Let_def split: if_splits)
  qed auto
qed

subsection \<open>A fixed membership\<close>

text \<open>
  With no CONFIG entry in the log, the membership is the one of the snapshot. \<open>plain_event\<close>: no
  CONFIG entry arrives, and an installed snapshot carries the same membership.
\<close>

definition plain :: "log_entry \<Rightarrow> bool" where
  "plain x = (config_of (e_command x) = None)"

definition fixed_config :: "member list \<Rightarrow> ('s, 'r) engine \<Rightarrow> bool" where
  "fixed_config ms e =
     (list_all plain (log (node e)) \<and> snapshot_config (node e) = Some ms \<and> members e = members_dict ms)"

fun plain_event :: "member list \<Rightarrow> 'r event \<Rightarrow> bool" where
  "plain_event ms (EvAppend q) = list_all plain (aq_entries q)"
| "plain_event ms (EvInstall q) = (sq_config q = ms)"
| "plain_event ms (EvPropose c u r) = (config_of c = None)"
| "plain_event ms ev = True"

lemma newest_config_plain: "list_all plain es \<Longrightarrow> newest_config es = None"
  by (induction es) (auto simp: plain_def)

lemma dict_eq_refl [simp]: "dict_ok d \<Longrightarrow> dict_eq d d"
  by (simp add: dict_eq_map_of)

lemma dict_ok_members_dict [simp]: "dict_ok (members_dict ms)"
proof -
  have "dict_ok d \<Longrightarrow> dict_ok (fold (\<lambda>(k, v) d. dict_set d k v) kvs d)" for d :: "(string, member) dict" and kvs
    by (induction kvs arbitrary: d) auto
  then show ?thesis by (simp add: members_dict_def dict_merge_def)
qed

lemma refresh_config_plain [simp]:
  assumes "list_all plain (log (node e))" and "snapshot_config (node e) = Some ms" and "members e = members_dict ms"
  shows "members (refresh_config now e) = members_dict ms"
proof -
  have "list_all plain (rev (log (node e)))" using assms(1) by (simp add: list_all_iff)
  then have "latest_config (node e) = (snapshot_index (node e), Some ms)"
    using assms(2) by (simp add: latest_config_def newest_config_plain)
  then show ?thesis using assms(3) by (simp add: refresh_config_def Let_def dict_ok_members_dict)
qed

lemma config_at_plain:
  assumes "list_all plain (log n)"
  shows "config_at n i = snapshot_config n"
proof -
  have "list_all plain (filter (\<lambda>e. e_index e \<le> i) (rev (log n)))" using assms by (simp add: list_all_iff)
  then show ?thesis by (simp add: config_at_def newest_config_plain)
qed

lemma fixed_config_frame:
  "fixed_config ms e \<Longrightarrow> log (node e') = log (node e) \<Longrightarrow> snapshot_config (node e') = snapshot_config (node e) \<Longrightarrow>
   members e' = members e \<Longrightarrow> fixed_config ms e'"
  by (simp add: fixed_config_def)

lemma fixed_append_local:
  "fixed_config ms e \<Longrightarrow> list_all plain es \<Longrightarrow> fixed_config ms (append_local R now es e)"
  by (auto simp: fixed_config_def append_local_def Let_def plain_def list_all_iff list_ex_iff)

lemma fixed_truncate_local: "fixed_config ms e \<Longrightarrow> fixed_config ms (truncate_local R now i e)"
proof -
  assume a: "fixed_config ms e"
  have "set (log (truncate_from (node e) i)) \<subseteq> set (log (node e))"
    by (auto simp: truncate_from_def py_take_def dest: in_set_takeD)
  with a have "list_all plain (log (truncate_from (node e) i))" by (auto simp: fixed_config_def list_all_iff)
  with a show ?thesis by (simp add: fixed_config_def truncate_local_def)
qed

lemma fixed_append_new:
  assumes "fixed_config ms e" and "list_all plain es"
  shows "fixed_config ms (append_new R now es e)"
proof -
  have "set new \<subseteq> set xs" if "scan_entries n xs = (c, new)" for n xs c new
    using that by (induction n xs rule: scan_entries.induct) (auto split: option.splits if_splits)
  then have "list_all plain (snd (scan_entries (node e) es))"
    using assms(2) by (metis list_all_iff subsetD prod.collapse)
  then show ?thesis
    using assms(1) by (auto simp: append_new_def Let_def split: prod.splits option.split
        intro!: fixed_append_local fixed_truncate_local)
qed

lemma fixed_compact:
  assumes "fixed_config ms e"
  shows "list_all plain (log (compact_through (node e) i t c))"
    and "snapshot_config (compact_through (node e) i t (Some ms)) = Some ms"
  using assms by (auto simp: fixed_config_def compact_through_def Let_def py_drop_def list_all_iff dest: in_set_dropD)

lemma fixed_maybe_snapshot: "fixed_config ms e \<Longrightarrow> fixed_config ms (maybe_snapshot R e)"
  using fixed_compact [of ms e]
  by (auto simp: maybe_snapshot_def Let_def config_at_plain fixed_config_def split: option.split)

lemma fixed_become_candidate:
  "fixed_config ms e \<Longrightarrow> fixed_config ms (become_candidate R now tr e)"
  by (auto simp: fixed_config_def become_candidate_def become_leader_log Let_def plain_def)

lemma fixed_become_leader:
  "fixed_config ms e \<Longrightarrow> fixed_config ms (become_leader R now e)"
  by (simp add: fixed_config_def become_leader_log plain_def)

lemma fixed_run_event:
  assumes "fixed_config ms e" and "plain_event ms ev"
  shows "fixed_config ms (run_event R now ev e)"
proof (cases ev)
  case (EvAppend q)
  have "list_all plain (py_drop i es)" if "list_all plain es" for i es
    using that by (auto simp: list_all_iff py_drop_def dest: in_set_dropD)
  then have p: "list_all plain (py_drop i (aq_entries q))" for i using assms(2) EvAppend by simp
  have "fixed_config ms (accept_leader R now t l a e)" for t l a
    using assms(1) by (rule fixed_config_frame) simp_all
  note n = fixed_append_new [OF this]
  then have "fixed_config ms ((append_new R now es (accept_leader R now t l a e))\<lparr>node := (node (append_new R now es (accept_leader R now t l a e)))\<lparr>commit_index := c\<rparr>\<rparr>)"
    if "list_all plain es" for es t l a c using that by (intro fixed_config_frame [OF n]) simp_all
  with n p assms EvAppend show ?thesis
    by (auto simp: handle_append_entries_def Let_def intro: fixed_config_frame [OF assms(1)])
next
  case (EvInstall q)
  then show ?thesis using assms fixed_compact [OF assms(1)]
    by (auto simp: install_snapshot_def Let_def fixed_config_def)
next
  case (EvPropose c u r)
  then have "fixed_config ms (append_local R now [x] e)" if "e_command x = c" for x
    using assms that by (intro fixed_append_local) (simp_all add: plain_def)
  then show ?thesis using EvPropose assms(1)
    by (auto simp: propose_start_def Let_def fixed_config_def)
qed (use assms in \<open>auto simp: event_sections start_election_def Let_def fixed_become_candidate fixed_become_leader
       fixed_maybe_snapshot intro: fixed_config_frame [of ms e]
     intro!: fixed_become_candidate fixed_become_leader fixed_maybe_snapshot 
     split: option.split list.split waiter.split prod.split chunk_result.split sum.split\<close>)

end
