(* ===== verification/Raft_Cluster.thy ===== *)
theory Raft_Cluster
  imports Raft_Events
begin

section \<open>A cluster of engines: election safety\<close>

text \<open>
  The state is one engine per node id and the messages of the network. A message once sent may be
  delivered late, twice, or never; a node may crash at any moment between two critical sections
  and restart from its storage; timers fire at any time. The membership is fixed: no CONFIG entry
  is proposed. \<open>snapshots_in\<close>: the snapshots whose last chunk a node has received; it installs them
  later, when the apply lock is free. \<open>cast\<close> is a ghost variable: every vote any node ever stored.
  The result: in any reachable state, two leaders of the same term are the same node.
\<close>

subsection \<open>Quorums\<close>

locale quorums =
  fixes is_quorum :: "'n set \<Rightarrow> bool"
  assumes meet: "is_quorum A \<Longrightarrow> is_quorum B \<Longrightarrow> A \<inter> B \<noteq> {}"
begin

text \<open>If every voter has one choice, two choices backed by quorums are the same.\<close>

lemma one_choice:
  assumes "is_quorum A" and "is_quorum B"
    and "\<And>v. v \<in> A \<Longrightarrow> choice v x" and "\<And>v. v \<in> B \<Longrightarrow> choice v y"
    and "\<And>v. choice v x \<Longrightarrow> choice v y \<Longrightarrow> x = y"
  shows "x = y"
  using meet [OF assms(1,2)] assms(3-5) by blast

end

lemma filter_overlap:
  "length xs < length (filter P xs) + length (filter Q xs) \<Longrightarrow> \<exists>x \<in> set xs. P x \<and> Q x"
  by (induction xs) (auto split: if_splits)

lemma quorum_meet: "quorum ms A \<Longrightarrow> quorum ms B \<Longrightarrow> A \<inter> B \<noteq> {}"
  using filter_overlap [of "dict_keys ms" "\<lambda>m. m \<in> A" "\<lambda>m. m \<in> B"]
  by (fastforce simp: quorum_def)

interpretation member_quorums: quorums "quorum ms" for ms
  by unfold_locales (rule quorum_meet)

lemma quorum_mono: "quorum ms A \<Longrightarrow> A \<subseteq> B \<Longrightarrow> quorum ms B"
proof -
  assume "A \<subseteq> B"
  then have "length (filter (\<lambda>m. m \<in> A) ks) \<le> length (filter (\<lambda>m. m \<in> B) ks)" for ks
    by (induction ks) auto
  then show "quorum ms A \<Longrightarrow> quorum ms B" unfolding quorum_def by (meson order_trans)
qed

subsection \<open>The network and the steps\<close>

record ('s, 'r) cluster =
  engines :: "string \<Rightarrow> ('s, 'r) engine"
  rpcs :: "(string \<times> effect) set"
  prevote_answers :: "(string \<times> member \<times> int \<times> vote_response) set"
  vote_answers :: "(string \<times> member \<times> vote_request \<times> vote_response) set"
  append_msgs :: "(string \<times> member \<times> append_request) set"
  append_answers :: "(string \<times> member \<times> append_request \<times> append_response) set"
  snapshot_msgs :: "(string \<times> member \<times> snapshot_request) set"
  snapshot_answers :: "(string \<times> member \<times> snapshot_request \<times> snapshot_response) set"
  snapshots_in :: "(string \<times> member \<times> snapshot_request) set"
  cast :: "(string \<times> int \<times> string) set"

text \<open>Node \<open>i\<close> moves to \<open>e\<close>: its new threads may send, and its vote, if any, is on record.\<close>

definition put :: "string \<Rightarrow> ('s, 'r) engine \<Rightarrow> ('s, 'r) cluster \<Rightarrow> ('s, 'r) cluster" where
  "put i e c =
     c\<lparr>engines := (engines c)(i := e),
       rpcs := rpcs c \<union> Pair i ` set (effects e),
       cast := cast c \<union> (case voted_for (node e) of None \<Rightarrow> {} | Some v \<Rightarrow> {(i, current_term (node e), v)})\<rparr>"

text \<open>The sections a node runs without a message of a peer; \<open>TimeoutNow\<close> may come at any time.\<close>

fun internal_event :: "'r event \<Rightarrow> bool" where
  "internal_event (EvPreVoteReply p g v) = False"
| "internal_event (EvVoteReply p q v) = False"
| "internal_event (EvRequestVote q) = False"
| "internal_event (EvReplicate p t w) = False"
| "internal_event (EvEntriesReply p t s q a) = False"
| "internal_event (EvSnapshotReply p t s a) = False"
| "internal_event (EvSnapshotDone p t i) = False"
| "internal_event (EvAppend q) = False"
| "internal_event (EvChunk q) = False"
| "internal_event (EvInstall q) = False"
| "internal_event ev = True"

definition restart :: "'s raft_storage \<Rightarrow> time \<Rightarrow> ('s, 'r) engine \<Rightarrow> ('s, 'r) engine" where
  "restart R now e =
     new_engine R now (node_id e) (self_address e) (bootstrap e) (min_timeout e, max_timeout e)
       (snapshot_threshold e) (storage e)"

inductive cstep :: "'s raft_storage \<Rightarrow> ('s, 'r) cluster \<Rightarrow> ('s, 'r) cluster \<Rightarrow> bool"
  for R :: "'s raft_storage" where
  Internal:
    "internal_event ev \<Longrightarrow> valid_event ev (engines c i) \<Longrightarrow> plain_event [] ev \<Longrightarrow>
     cstep R c (put i (run_event R now ev (engines c i)) c)"
| Crash: "cstep R c (put i (restart R now (engines c i)) c)"
| AskPreVote:
    "(i, SpawnPreVote p q g) \<in> rpcs c \<Longrightarrow> j = member_id p \<Longrightarrow>
     handle_request_vote R now q (engines c j) = (e, r) \<Longrightarrow>
     cstep R c ((put j e c)\<lparr>prevote_answers := insert (i, p, g, r) (prevote_answers c)\<rparr>)"
| PreVoteReply:
    "(i, p, g, r) \<in> prevote_answers c \<Longrightarrow>
     cstep R c (put i (pre_vote_reply R now p g r (engines c i)) c)"
| AskVote:
    "(i, SpawnVote p q) \<in> rpcs c \<Longrightarrow> j = member_id p \<Longrightarrow>
     handle_request_vote R now q (engines c j) = (e, r) \<Longrightarrow>
     cstep R c ((put j e c)\<lparr>vote_answers := insert (i, p, q, r) (vote_answers c)\<rparr>)"
| VoteReply:
    "(i, p, q, r) \<in> vote_answers c \<Longrightarrow>
     cstep R c (put i (vote_reply R now p q r (engines c i)) c)"
| Replicate:
    "(i, SpawnReplicator pid t w) \<in> rpcs c \<Longrightarrow> replicate_round pid t w (engines c i) = (e, act) \<Longrightarrow>
     cstep R c ((put i e c)\<lparr>append_msgs := append_msgs c \<union>
       (case act of SendEntries p q \<Rightarrow> {(i, p, q)} | _ \<Rightarrow> {})\<rparr>)"
| Append:
    "(i, p, q) \<in> append_msgs c \<Longrightarrow> j = member_id p \<Longrightarrow>
     handle_append_entries R now q (engines c j) = (e, r) \<Longrightarrow>
     cstep R c ((put j e c)\<lparr>append_answers := insert (i, p, q, r) (append_answers c)\<rparr>)"
| AppendReply:
    "(i, p, q, r) \<in> append_answers c \<Longrightarrow>
     cstep R c (put i (entries_reply R now p (aq_term q) seq q r (engines c i)) c)"
| SendSnapshot:
    "(i, SpawnReplicator pid t w) \<in> rpcs c \<Longrightarrow> replicate_round pid t w (engines c i) = (e, SendSnapshot p) \<Longrightarrow>
     snapshot_begin t (engines c i) = Some snap \<Longrightarrow>
     cstep R c (c\<lparr>snapshot_msgs := snapshot_msgs c \<union>
       {(i, p, snapshot_chunk t snap content off (engines c i)) | off. True}\<rparr>)"
| Chunk:
    "(i, p, q) \<in> snapshot_msgs c \<Longrightarrow> j = member_id p \<Longrightarrow>
     receive_chunk R now q (engines c j) = (e, res) \<Longrightarrow>
     cstep R c ((put j e c)\<lparr>snapshot_answers := snapshot_answers c \<union>
         (case res of Reply r \<Rightarrow> {(i, p, q, r)} | _ \<Rightarrow> {}),
       snapshots_in := snapshots_in c \<union> (case res of Complete f \<Rightarrow> {(i, p, q)} | _ \<Rightarrow> {})\<rparr>)"
| Install:
    "(i, p, q) \<in> snapshots_in c \<Longrightarrow> j = member_id p \<Longrightarrow> install_needed q (engines c j) \<Longrightarrow>
     install_snapshot R now q (engines c j) = (e, r) \<Longrightarrow>
     cstep R c ((put j e c)\<lparr>snapshot_answers := insert (i, p, q, r) (snapshot_answers c)\<rparr>)"
| SnapshotReply:
    "(i, p, q, r) \<in> snapshot_answers c \<Longrightarrow>
     snapshot_reply R now p (sq_term q) seq r (engines c i) = (e, go_on) \<Longrightarrow> cstep R c (put i e c)"
| SnapshotDone:
    "(i, p, q, r) \<in> snapshot_answers c \<Longrightarrow> sq_done q \<Longrightarrow> sr_success r \<Longrightarrow> sr_term r \<le> sq_term q \<Longrightarrow>
     cstep R c (put i (snapshot_done p (sq_term q) (sq_last_included_index q) (engines c i)) c)"

text \<open>The engines at first start: every node has an empty storage and the same bootstrap list.\<close>

definition first_cluster ::
  "'s raft_storage \<Rightarrow> time \<Rightarrow> (string \<Rightarrow> string) \<Rightarrow> member list \<Rightarrow> time \<times> time \<Rightarrow> int \<Rightarrow> (string \<Rightarrow> 's) \<Rightarrow>
   ('s, 'r) cluster" where
  "first_cluster R now addr ms timeouts threshold st =
     \<lparr>engines = \<lambda>i. new_engine R now i (addr i) ms timeouts threshold (st i), rpcs = {},
      prevote_answers = {}, vote_answers = {}, append_msgs = {}, append_answers = {},
      snapshot_msgs = {}, snapshot_answers = {}, snapshots_in = {}, cast = {}\<rparr>"

inductive reachable ::
  "'s raft_storage \<Rightarrow> ('s \<Rightarrow> bool) \<Rightarrow> member list \<Rightarrow> ('s, 'r) cluster \<Rightarrow> bool"
  for R :: "'s raft_storage" and ok :: "'s \<Rightarrow> bool" and ms :: "member list" where
  Init: "(\<And>i. ok (st i) \<and> load_op R (st i) = fresh_pstate) \<Longrightarrow>
     reachable R ok ms (first_cluster R now addr ms timeouts threshold st)"
| Step: "reachable R ok ms c \<Longrightarrow> cstep R c c' \<Longrightarrow> reachable R ok ms c'"

subsection \<open>The requests an engine sends\<close>

definition vote_rpcs :: "('s, 'r) engine \<Rightarrow> (member \<times> vote_request) set" where
  "vote_rpcs e = {(p, q). SpawnVote p q \<in> set (effects e)}"

lemma vote_rpcs_simps [simp]:
  "vote_rpcs (emit [CallBecomeLeader] e) = vote_rpcs e"
  "vote_rpcs (emit [CallBecomeFollower] e) = vote_rpcs e"
  "vote_rpcs (emit [SpawnCheckQuorum t] e) = vote_rpcs e"
  "vote_rpcs (emit [SpawnReplicator p t w] e) = vote_rpcs e"
  "vote_rpcs (reset_election_timer e) = vote_rpcs e"
  "vote_rpcs (persist_term_and_vote R e) = vote_rpcs e"
  "vote_rpcs (advance_commit_index e) = vote_rpcs e"
  "vote_rpcs (fold (init_peer i now) ps e) = vote_rpcs e"
  "vote_rpcs (note_contact now p' s e) = vote_rpcs e"
  by (auto simp: vote_rpcs_def emit_def reset_election_timer_def)

lemma vote_rpcs_update [simp]:
  "vote_rpcs (e\<lparr>node := x0\<rparr>) = vote_rpcs e"
  "vote_rpcs (e\<lparr>storage := x1\<rparr>) = vote_rpcs e"
  "vote_rpcs (e\<lparr>members := x2\<rparr>) = vote_rpcs e"
  "vote_rpcs (e\<lparr>config_index := x3\<rparr>) = vote_rpcs e"
  "vote_rpcs (e\<lparr>learners := x4\<rparr>) = vote_rpcs e"
  "vote_rpcs (e\<lparr>term_start_index := x5\<rparr>) = vote_rpcs e"
  "vote_rpcs (e\<lparr>last_contact := x6\<rparr>) = vote_rpcs e"
  "vote_rpcs (e\<lparr>send_seq := x7\<rparr>) = vote_rpcs e"
  "vote_rpcs (e\<lparr>last_ack_seq := x8\<rparr>) = vote_rpcs e"
  "vote_rpcs (e\<lparr>last_leader_contact := x9\<rparr>) = vote_rpcs e"
  "vote_rpcs (e\<lparr>leader_addr := x10\<rparr>) = vote_rpcs e"
  "vote_rpcs (e\<lparr>transferring := x11\<rparr>) = vote_rpcs e"
  "vote_rpcs (e\<lparr>snapshot_rx := x12\<rparr>) = vote_rpcs e"
  "vote_rpcs (e\<lparr>running := x13\<rparr>) = vote_rpcs e"
  "vote_rpcs (e\<lparr>timer_generation := x14\<rparr>) = vote_rpcs e"
  "vote_rpcs (e\<lparr>timer_armed := x15\<rparr>) = vote_rpcs e"
  "vote_rpcs (e\<lparr>replicators := x16\<rparr>) = vote_rpcs e"
  "vote_rpcs (e\<lparr>next_event := x17\<rparr>) = vote_rpcs e"
  "vote_rpcs (e\<lparr>waiters := x18\<rparr>) = vote_rpcs e"
  "vote_rpcs (e\<lparr>grants := x19\<rparr>) = vote_rpcs e"
  "vote_rpcs (e\<lparr>votes := x20\<rparr>) = vote_rpcs e"
  by (simp_all add: vote_rpcs_def)

lemma vote_rpcs_start_replicator [simp]: "vote_rpcs (start_replicator now p e) = vote_rpcs e"
  by (auto simp: vote_rpcs_def start_replicator_def Let_def emit_def)

lemma vote_rpcs_fold [simp]: "vote_rpcs (fold (start_replicator now) ps e) = vote_rpcs e"
  by (induction ps arbitrary: e) simp_all

lemma vote_rpcs_refresh [simp]: "vote_rpcs (refresh_config now e) = vote_rpcs e"
  by (simp add: refresh_config_def Let_def split: prod.split)

lemma vote_rpcs_log [simp]:
  "vote_rpcs (append_local R now es e) = vote_rpcs e"
  "vote_rpcs (truncate_local R now i e) = vote_rpcs e"
  "vote_rpcs (append_new R now es e) = vote_rpcs e"
  by (simp_all add: append_local_def truncate_local_def append_new_def Let_def split: prod.split option.split)

lemma vote_rpcs_roles [simp]:
  "vote_rpcs (become_follower R t e) = vote_rpcs e"
  "vote_rpcs (become_leader R now e) = vote_rpcs e"
  "vote_rpcs (accept_leader R now t l a e) = vote_rpcs e"
  "vote_rpcs (record_match p i e) = vote_rpcs e"
  "vote_rpcs (maybe_snapshot R e) = vote_rpcs e"
  "vote_rpcs (add_learner now m e) = vote_rpcs e"
  by (simp_all add: become_follower_def become_leader_def accept_leader_def record_match_def maybe_snapshot_def
      add_learner_def Let_def split: option.split)

definition own_request :: "('s, 'r) engine \<Rightarrow> vote_request \<Rightarrow> bool" where
  "own_request e q = (vq_candidate_id q = node_id e \<and> \<not> vq_pre_vote q)"

lemma vote_rpcs_emit_votes:
  "(p, q) \<in> vote_rpcs (emit (map (\<lambda>p. SpawnVote p r) ps) e) \<longleftrightarrow> (p, q) \<in> vote_rpcs e \<or> (p \<in> set ps \<and> q = r)"
  by (auto simp: vote_rpcs_def emit_def)

lemma vote_rpcs_candidate:
  "(p, q) \<in> vote_rpcs (become_candidate R now tr e) \<Longrightarrow> (p, q) \<in> vote_rpcs e \<or> own_request e q"
  by (auto simp: become_candidate_def Let_def vote_rpcs_emit_votes own_request_def split: if_splits)

lemma vote_rpcs_pre_vote [simp]:
  "vote_rpcs (emit (map (\<lambda>p. SpawnPreVote p q g) ps) e) = vote_rpcs e"
  by (auto simp: vote_rpcs_def emit_def)

lemma vote_rpcs_start_election:
  "(p, q) \<in> vote_rpcs (start_election R now g e) \<Longrightarrow> (p, q) \<in> vote_rpcs e \<or> own_request e q"
  by (auto simp: start_election_def Let_def split: if_splits dest: vote_rpcs_candidate)

lemma vote_rpcs_run_event:
  assumes "(p, q) \<in> vote_rpcs (run_event R now ev e)"
  shows "(p, q) \<in> vote_rpcs e \<or> own_request e q"
  using assms
  by (cases ev) (auto simp: event_sections Let_def own_request_def
      dest!: vote_rpcs_start_election vote_rpcs_candidate
      split: option.splits list.splits waiter.splits prod.splits chunk_result.splits sum.splits if_splits)

lemma granted_vote:
  assumes "handle_request_vote R now q e = (e', r)" and "vr_granted r" and "\<not> vq_pre_vote q"
  shows "voted_for (node e') = Some (vq_candidate_id q)" and "current_term (node e') = vq_term q"
  using assms by (auto simp: handle_request_vote_def Let_def max_def split: if_splits)

lemma entries_from_log:
  assumes "snapshot_index n < i"
  shows "entries_from n i max_entries_per_rpc = drop (nat (i - snapshot_index n - 1)) (take (nat (i - snapshot_index n - 1) + 100) (log n))"
proof -
  have "nat (i - snapshot_index n - 1 + 100) = nat (i - snapshot_index n - 1) + 100" using assms by linarith
  then show ?thesis
    using assms by (simp only: entries_from_def Let_def max_entries_per_rpc_def) (simp add: py_slice_nonneg)
qed

lemma entries_from_consecutive:
  assumes "wf_log n" and "snapshot_index n < i"
  shows "consecutive i (entries_from n i max_entries_per_rpc)"
proof -
  have "consecutive (snapshot_index n + 1) (log n)" using assms(1) by (simp add: wf_log_def consecutive_def)
  then have "consecutive (snapshot_index n + 1 + int (nat (i - snapshot_index n - 1)))
    (drop (nat (i - snapshot_index n - 1)) (take (nat (i - snapshot_index n - 1) + 100) (log n)))"
    by (intro consecutive_drop consecutive_take)
  with assms(2) show ?thesis by (simp add: entries_from_log)
qed

text \<open>What a leader sends is a piece of its own log.\<close>

lemma replicate_round_request:
  assumes "replicate_round pid t w e = (e', SendEntries p q)" and "wf_log (node e)"
  shows "consecutive (aq_prev_log_index q + 1) (aq_entries q)" and "set (aq_entries q) \<subseteq> set (log (node e))"
    and "aq_term q = t" and "current_term (node e) = t" and "role (node e) = LEADER"
proof -
  obtain i where i: "snapshot_index (node e) < i" "aq_prev_log_index q = i - 1"
    "aq_entries q = entries_from (node e) i max_entries_per_rpc" "aq_term q = t"
    "current_term (node e) = t" "role (node e) = LEADER"
    using assms(1) by (auto simp: replicate_round_def Let_def split: if_splits option.splits)
  then show "consecutive (aq_prev_log_index q + 1) (aq_entries q)" "aq_term q = t"
    "current_term (node e) = t" "role (node e) = LEADER"
    using entries_from_consecutive [OF assms(2) i(1)] by simp_all
  show "set (aq_entries q) \<subseteq> set (log (node e))"
    using i by (auto simp: entries_from_log dest: in_set_dropD in_set_takeD)
qed

lemma replicate_round_event: "replicate_round pid t w e = (e', act) \<Longrightarrow> e' = run_event R now (EvReplicate pid t w) e"
  by simp

lemma snapshot_begin_config:
  assumes "snapshot_begin t e = Some (i, lt, config)" and "fixed_config ms e"
  shows "config = ms"
  using assms by (auto simp: snapshot_begin_def Let_def fixed_config_def config_at_plain split: if_splits option.splits)

lemma snapshot_chunk_config [simp]: "sq_config (snapshot_chunk t (i, lt, config) content off e) = config"
  by (simp add: snapshot_chunk_def Let_def)

subsection \<open>The invariant\<close>

definition node_inv :: "'s raft_storage \<Rightarrow> ('s \<Rightarrow> bool) \<Rightarrow> member list \<Rightarrow> string \<Rightarrow> ('s, 'r) engine \<Rightarrow> bool" where
  "node_inv R ok ms i e = (node_id e = i \<and> engine_ok R ok e \<and> fixed_config ms e)"

definition votes_inv :: "member list \<Rightarrow> (string \<times> int \<times> string) set \<Rightarrow> string \<Rightarrow> ('s, 'r) engine \<Rightarrow> bool" where
  "votes_inv ms cs i e =
     ((\<forall>t v. (i, t, v) \<in> cs \<longrightarrow> t < current_term (node e) \<or> (t = current_term (node e) \<and> voted_for (node e) = Some v)) \<and>
      (\<forall>t x y. (i, t, x) \<in> cs \<longrightarrow> (i, t, y) \<in> cs \<longrightarrow> x = y) \<and>
      (\<forall>v. voted_for (node e) = Some v \<longrightarrow> (i, current_term (node e), v) \<in> cs) \<and>
      (\<forall>t. \<forall>v \<in> votes_at e t. (v, t, i) \<in> cs) \<and>
      (role (node e) = LEADER \<longrightarrow> quorum (members_dict ms) (votes_at e (current_term (node e)))))"

definition wire_inv :: "member list \<Rightarrow> ('s, 'r) cluster \<Rightarrow> bool" where
  "wire_inv ms c =
     ((\<forall>i p q. (i, SpawnVote p q) \<in> rpcs c \<longrightarrow> vq_candidate_id q = i \<and> \<not> vq_pre_vote q) \<and>
      (\<forall>i p q r. (i, p, q, r) \<in> vote_answers c \<longrightarrow> vq_candidate_id q = i \<and>
         (vr_granted r \<longrightarrow> (member_id p, vq_term q, i) \<in> cast c)) \<and>
      (\<forall>i p q. (i, p, q) \<in> append_msgs c \<longrightarrow>
         consecutive (aq_prev_log_index q + 1) (aq_entries q) \<and> list_all plain (aq_entries q)) \<and>
      (\<forall>i p q. (i, p, q) \<in> snapshot_msgs c \<longrightarrow> sq_config q = ms) \<and> snapshots_in c \<subseteq> snapshot_msgs c)"

definition cluster_inv :: "'s raft_storage \<Rightarrow> ('s \<Rightarrow> bool) \<Rightarrow> member list \<Rightarrow> ('s, 'r) cluster \<Rightarrow> bool" where
  "cluster_inv R ok ms c =
     ((\<forall>i. node_inv R ok ms i (engines c i) \<and> votes_inv ms (cast c) i (engines c i) \<and>
           (\<forall>p q. (p, q) \<in> vote_rpcs (engines c i) \<longrightarrow> own_request (engines c i) q)) \<and>
      wire_inv ms c)"

text \<open>A node's step keeps the invariant when its votes can be accounted for.\<close>

definition vote_ok :: "(string \<times> int \<times> string) set \<Rightarrow> ('s, 'r) engine \<Rightarrow> 'r event \<Rightarrow> bool" where
  "vote_ok cs e ev = (\<forall>p q r. ev = EvVoteReply p q r \<longrightarrow> vr_granted r \<longrightarrow> (member_id p, vq_term q, node_id e) \<in> cs)"

lemma votes_inv_run_event:
  fixes R :: "'s raft_storage" and now :: time and e :: "('s, 'r) engine"
  assumes e: "votes_inv ms cs (node_id e) e" and m: "members e = members_dict ms" and v: "vote_ok cs e ev"
  defines "e' \<equiv> run_event R now ev e"
  defines "cs' \<equiv> cs \<union> (case voted_for (node e') of None \<Rightarrow> {} | Some v \<Rightarrow> {(node_id e, current_term (node e'), v)})"
  shows "votes_inv ms cs' (node_id e) e'"
proof -
  have tv: "tv_le (tv e) (tv e')" unfolding e'_def by (rule run_event_tv)
  have 1: "t < current_term (node e') \<or> (t = current_term (node e') \<and> voted_for (node e') = Some v)"
    if "(node_id e, t, v) \<in> cs'" for t v
  proof (cases "(node_id e, t, v) \<in> cs")
    case True
    then have "t < current_term (node e) \<or> (t = current_term (node e) \<and> voted_for (node e) = Some v)"
      using e by (simp add: votes_inv_def)
    with tv show ?thesis by (auto simp: tv_le_def)
  next
    case False
    with that show ?thesis by (auto simp: cs'_def split: option.splits)
  qed
  have 0: "x = y" if "(node_id e, t, x) \<in> cs'" "(node_id e, t, y) \<in> cs'" for t x y
  proof (cases "t = current_term (node e')")
    case True
    with 1 [OF that(1)] 1 [OF that(2)] show ?thesis by simp
  next
    case False
    then have "(node_id e, t, x) \<in> cs" "(node_id e, t, y) \<in> cs" using that by (auto simp: cs'_def split: option.splits)
    with e show ?thesis unfolding votes_inv_def by blast
  qed
  have 2: "(node_id e, current_term (node e'), v) \<in> cs'" if "voted_for (node e') = Some v" for v
    using that by (simp add: cs'_def)
  have 3: "(v, t, node_id e) \<in> cs'" if "v \<in> votes_at e' t" for v t
    using run_event_votes [OF that [unfolded e'_def]] e v
    by (auto simp: votes_inv_def cs'_def e'_def [symmetric] vote_ok_def)
  have 4: "quorum (members_dict ms) (votes_at e' (current_term (node e')))" if "role (node e') = LEADER"
    using run_event_leads [OF that [unfolded e'_def]]
  proof (elim disjE conjE)
    assume "role (node e) = LEADER" and t: "current_term (node (run_event R now ev e)) = current_term (node e)"
    then have "quorum (members_dict ms) (votes_at e (current_term (node e)))" using e by (simp add: votes_inv_def)
    then show ?thesis using t by (simp add: e'_def quorum_mono [OF _ run_event_keeps_votes])
  qed (simp add: m e'_def)
  from 1 2 3 4 show ?thesis unfolding votes_inv_def by (blast intro: 0)
qed

lemma votes_inv_other:
  assumes "votes_inv ms cs j e" and "j \<noteq> i"
  shows "votes_inv ms (cs \<union> (case x of None \<Rightarrow> {} | Some v \<Rightarrow> {(i, t, v)})) j e"
  using assms by (auto simp: votes_inv_def split: option.split)

subsection \<open>Restarts\<close>

lemma vote_rpcs_none: "effects e = [] \<Longrightarrow> vote_rpcs e = {}"
  by (simp add: vote_rpcs_def)

lemma restored_fields:
  fixes R :: "'s raft_storage" and e' :: "('s, 'r) engine"
  assumes "mirrors R ok n s" and "snapshot_config n = Some ms"
    and "e' = new_engine R now i addr boot timeouts threshold s"
  shows "core (node e') = core n" and "storage e' = s" and "node_id e' = i"
    and "role (node e') = FOLLOWER" and "votes e' = []" and "vote_rpcs e' = {}"
    and "last_applied (node e') = max (p_last_applied (load_op R s)) (snapshot_index n)"
    and "commit_index (node e') = last_applied (node e')"
  using assms
  by (simp_all add: new_engine_def restore_persistent_state_def Let_def mirrors_def core_def vote_rpcs_none initial_node_def)

lemma restored_members:
  fixes R :: "'s raft_storage"
  assumes "mirrors R ok n s" and "snapshot_config n = Some ms" and "list_all plain (log n)"
  shows "members (new_engine R now i addr boot timeouts threshold s :: ('s, 'r) engine) = members_dict ms"
proof -
  have "list_all plain (rev (log n))" using assms(3) by (simp add: list_all_iff)
  then have "latest_config n' = (snapshot_index n', Some ms)"
    if "log n' = log n" "snapshot_config n' = Some ms" for n'
    using that by (simp add: latest_config_def newest_config_plain)
  then show ?thesis
    using assms by (simp add: new_engine_def restore_persistent_state_def Let_def mirrors_def refresh_config_def dict_eq_map_of)
qed

lemma restart_ok:
  fixes e :: "('s, 'r) engine"
  assumes "engine_ok R ok e" and "fixed_config ms e"
  shows "engine_ok R ok (restart R now e)" and "fixed_config ms (restart R now e)"
    and "node_id (restart R now e) = node_id e" and "role (node (restart R now e)) = FOLLOWER"
    and "tv (restart R now e) = tv e" and "votes_at (restart R now e) t = {}" and "vote_rpcs (restart R now e) = {}"
proof -
  have m: "mirrors R ok (node e) (storage e)" and s: "snapshot_config (node e) = Some ms"
    and p: "list_all plain (log (node e))"
    using assms by (simp_all add: engine_ok_def fixed_config_def)
  note f = restored_fields [OF m s restart_def [of R now e, unfolded atomize_eq]]
  have c: "core (node (restart R now e)) = core (node e)" using f(1) by (simp add: restart_def)
  then show "engine_ok R ok (restart R now e)"
    using f m by (simp add: engine_ok_def restart_def mirrors_core) (simp add: core_def)
  show "fixed_config ms (restart R now e)"
    using c p s restored_members [OF m s p] by (simp add: fixed_config_def core_def restart_def)
  show "tv (restart R now e) = tv e" using c by (simp add: core_def)
  show "node_id (restart R now e) = node_id e" "role (node (restart R now e)) = FOLLOWER"
    "votes_at (restart R now e) t = {}" "vote_rpcs (restart R now e) = {}"
    using f by (simp_all add: restart_def votes_at_def)
qed

subsection \<open>Every step keeps the invariant\<close>

lemma wire_inv_put:
  assumes "wire_inv ms c" and "\<And>p q. (p, q) \<in> vote_rpcs e \<Longrightarrow> own_request e q" and "node_id e = i"
  shows "wire_inv ms (put i e c)"
  using assms by (auto simp: wire_inv_def put_def vote_rpcs_def own_request_def)

lemma put_wires [simp]:
  "prevote_answers (put i e c) = prevote_answers c" "vote_answers (put i e c) = vote_answers c"
  "append_msgs (put i e c) = append_msgs c" "append_answers (put i e c) = append_answers c"
  "snapshot_msgs (put i e c) = snapshot_msgs c" "snapshot_answers (put i e c) = snapshot_answers c"
  "snapshots_in (put i e c) = snapshots_in c"
  "engines (put i e c) j = (if j = i then e else engines c j)"
  by (simp_all add: put_def)

lemma cast_put: "cast c \<subseteq> cast (put i e c)"
  by (simp add: put_def)

lemma cluster_inv_put:
  assumes c: "cluster_inv R ok ms c" and n: "node_inv R ok ms i e" and v: "votes_inv ms (cast (put i e c)) i e"
    and q: "\<And>p q. (p, q) \<in> vote_rpcs e \<Longrightarrow> own_request e q"
  shows "cluster_inv R ok ms (put i e c)"
proof -
  have "votes_inv ms (cast (put i e c)) j (engines c j)" if "j \<noteq> i" for j
    using c that by (simp add: put_def cluster_inv_def votes_inv_other)
  then show ?thesis
    using c n v q wire_inv_put [of ms c e i]
    unfolding cluster_inv_def by (auto simp: put_def node_inv_def)
qed

lemma plain_internal: "plain_event [] ev \<Longrightarrow> internal_event ev \<Longrightarrow> plain_event ms ev"
  by (cases ev) auto

lemma vote_ok_other: "(\<And>p q r. ev \<noteq> EvVoteReply p q r) \<Longrightarrow> vote_ok cs e ev"
  by (simp add: vote_ok_def)

context raft_storage_laws
begin

abbreviation "cinv \<equiv> cluster_inv R stored_ok"

lemma cinv_node:
  assumes "cinv ms c"
  shows "node_id (engines c i) = i" and "eok (engines c i)" and "fixed_config ms (engines c i)"
    and "votes_inv ms (cast c) i (engines c i)" and "members (engines c i) = members_dict ms"
    and "(p, q) \<in> vote_rpcs (engines c i) \<Longrightarrow> own_request (engines c i) q"
    and "wf_log (node (engines c i))" and "wire_inv ms c"
  using assms by (simp_all add: cluster_inv_def node_inv_def fixed_config_def engine_ok_def mirrors_def)

lemma cinv_event:
  assumes c: "cinv ms c" and ev: "valid_event ev (engines c i)" "plain_event ms ev" "vote_ok (cast c) (engines c i) ev"
    and e: "e = run_event R now ev (engines c i)"
  shows "cinv ms (put i e c)"
proof (rule cluster_inv_put [OF c])
  note n = cinv_node [OF c]
  show "node_inv R stored_ok ms i e"
    using n(1-3) [of i] ev e by (simp add: node_inv_def eok_run_event fixed_run_event)
  show "votes_inv ms (cast (put i e c)) i e"
    using votes_inv_run_event [of ms "cast c" "engines c i" ev R now, unfolded n(1)] n(4,5) [of i] ev e by (simp add: put_def)
  show "own_request e q" if "(p, q) \<in> vote_rpcs e" for p q
    using vote_rpcs_run_event [OF that [unfolded e]] n(1,6) by (auto simp: own_request_def e)
qed

lemma cinv_crash:
  assumes c: "cinv ms c"
  shows "cinv ms (put i (restart R now (engines c i)) c)"
proof (rule cluster_inv_put [OF c])
  note n = cinv_node [OF c]
  note r = restart_ok [OF n(2,3), of now]
  show "node_inv R stored_ok ms i (restart R now (engines c i))" using n r by (simp add: node_inv_def)
  show "votes_inv ms (cast (put i (restart R now (engines c i)) c)) i (restart R now (engines c i))"
  proof -
    have "cast (put i (restart R now (engines c i)) c) = cast c"
      using n(4) [of i] r(5) [of i] by (auto simp: put_def votes_inv_def split: option.split)
    then show ?thesis using n(4) [of i] r(4-6) [of i] unfolding votes_inv_def by simp
  qed
  show "own_request (restart R now (engines c i)) q" if "(p, q) \<in> vote_rpcs (restart R now (engines c i))" for p q
    using that r by simp
qed

lemma cinv_wires:
  assumes "cinv ms c" and "wire_inv ms c'" and "engines c' = engines c" and "cast c' = cast c"
  shows "cinv ms c'"
  using assms by (simp add: cluster_inv_def)

theorem cinv_step: "cstep R c c' \<Longrightarrow> cinv ms c \<Longrightarrow> cinv ms c'"
proof (induction rule: cstep.induct)
  case (Internal ev c i now)
  then show ?case by (intro cinv_event) (auto intro: plain_internal vote_ok_other)
next
  case (Crash c i now)
  then show ?case by (rule cinv_crash)
next
  case (AskPreVote i p q g c j now e r)
  then have "cinv ms (put j e c)"
    by (intro cinv_event [where ev = "EvRequestVote q" and now = now]) (auto intro: vote_ok_other)
  then show ?case by (rule cinv_wires) (use cinv_node(8) [OF \<open>cinv ms (put j e c)\<close>] in \<open>simp_all add: wire_inv_def\<close>)
next
  case (PreVoteReply i p g r c now)
  then show ?case by (intro cinv_event [where ev = "EvPreVoteReply p g r" and now = now]) (auto intro: vote_ok_other)
next
  case (AskVote i p q c j now e r)
  then have put: "cinv ms (put j e c)"
    by (intro cinv_event [where ev = "EvRequestVote q" and now = now]) (auto intro: vote_ok_other)
  have q: "vq_candidate_id q = i" "\<not> vq_pre_vote q" using AskVote cinv_node(8) [of ms c] by (auto simp: wire_inv_def)
  have "(member_id p, vq_term q, i) \<in> cast (put j e c)" if "vr_granted r"
    using granted_vote [OF AskVote(3) that q(2)] AskVote(2) q(1) by (simp add: put_def)
  then show ?case using cinv_node(8) [OF put] q by (intro cinv_wires [OF put]) (auto simp: wire_inv_def)
next
  case (VoteReply i p q r c now)
  then have "vote_ok (cast c) (engines c i) (EvVoteReply p q r)"
    using cinv_node(1) [of ms c i] cinv_node(8) [of ms c] by (auto simp: vote_ok_def wire_inv_def)
  with VoteReply show ?case by (intro cinv_event [where ev = "EvVoteReply p q r" and now = now]) auto
next
  case (Replicate i pid t w c e act)
  then have put: "cinv ms (put i e c)"
    by (intro cinv_event [where ev = "EvReplicate pid t w" and now = undefined]) (auto intro: vote_ok_other)
  have "consecutive (aq_prev_log_index q + 1) (aq_entries q) \<and> list_all plain (aq_entries q)"
    if "act = SendEntries p q" for p q
    using replicate_round_request [of pid t w "engines c i" e p q] Replicate that cinv_node(3,7) [of ms c i]
    by (auto simp: fixed_config_def list_all_iff)
  then show ?case using cinv_node(8) [OF put]
    by (intro cinv_wires [OF put]) (auto simp: wire_inv_def split: round_action.split)
next
  case (Append i p q c j now e r)
  then have "consecutive (aq_prev_log_index q + 1) (aq_entries q) \<and> list_all plain (aq_entries q)"
    using cinv_node(8) [of ms c] by (auto simp: wire_inv_def)
  with Append have put: "cinv ms (put j e c)"
    by (intro cinv_event [where ev = "EvAppend q" and now = now]) (auto intro: vote_ok_other)
  then show ?case using cinv_node(8) [OF put] by (intro cinv_wires [OF put]) (simp_all add: wire_inv_def)
next
  case (AppendReply i p q r c now seq)
  then show ?case
    by (intro cinv_event [where ev = "EvEntriesReply p (aq_term q) seq q r" and now = now]) (auto intro: vote_ok_other)
next
  case (SendSnapshot i pid t w c e p snap content)
  obtain k lt config where snap: "snap = (k, lt, config)" by (cases snap) auto
  then have "config = ms" using snapshot_begin_config SendSnapshot cinv_node(3) by metis
  then show ?case using cinv_node(8) [OF SendSnapshot(4)] snap
    by (intro cinv_wires [OF SendSnapshot(4)]) (auto simp: wire_inv_def)
next
  case (Chunk i p q c j now e res)
  then have put: "cinv ms (put j e c)"
    by (intro cinv_event [where ev = "EvChunk q" and now = now]) (auto intro: vote_ok_other)
  then show ?case using cinv_node(8) [OF put] Chunk(1)
    by (intro cinv_wires [OF put]) (auto simp: wire_inv_def split: chunk_result.split)
next
  case (Install i p q c j now e r)
  then have "sq_config q = ms" using cinv_node(8) [of ms c] by (auto simp: wire_inv_def)
  with Install have put: "cinv ms (put j e c)"
    by (intro cinv_event [where ev = "EvInstall q" and now = now]) (auto intro: vote_ok_other)
  then show ?case using cinv_node(8) [OF put] by (intro cinv_wires [OF put]) (simp_all add: wire_inv_def)
next
  case (SnapshotReply i p q r c now seq e go_on)
  then show ?case
    by (intro cinv_event [where ev = "EvSnapshotReply p (sq_term q) seq r" and now = now]) (auto intro: vote_ok_other)
next
  case (SnapshotDone i p q r c)
  then show ?case
    by (intro cinv_event [where ev = "EvSnapshotDone p (sq_term q) (sq_last_included_index q)" and now = undefined])
      (auto intro: vote_ok_other)
qed

lemma cinv_first:
  assumes "\<And>i. stored_ok (st i) \<and> load_op R (st i) = fresh_pstate"
  shows "cinv ms (first_cluster R now addr ms timeouts threshold st :: ('s, 'r) cluster)"
proof -
  have e: "engine_ok R stored_ok e \<and> fixed_config ms e \<and> node_id e = i \<and> role (node e) = FOLLOWER \<and>
      voted_for (node e) = None \<and> votes e = [] \<and> vote_rpcs e = {}"
    if "e = (new_engine R now i (addr i) ms timeouts threshold (st i) :: ('s, 'r) engine)" for e i
  proof -
    have s: "stored_ok (st i)" "load_op R (st i) = fresh_pstate" using assms by blast+
    have m: "stored_ok (save_snapshot_op R 0 0 0 (Some ms) (st i))"
      "load_op R (save_snapshot_op R 0 0 0 (Some ms) (st i)) = fresh_pstate\<lparr>p_snapshot_config := Some ms\<rparr>"
      using s snapshot_ok [of "st i" 0 0 0 "Some ms"] load_snapshot [of "st i" 0 0 0 "Some ms"]
      by (simp_all add: fresh_pstate_def)
    have "members e = members_dict ms"
      using s that by (simp add: new_engine_def restore_persistent_state_def Let_def refresh_config_def
          fresh_pstate_def latest_config_def dict_eq_map_of)
    then show ?thesis
      using s m that
      by (simp add: new_engine_def restore_persistent_state_def Let_def fresh_pstate_def engine_ok_def
          fixed_config_def mirrors_def wf_log_def initial_node_def vote_rpcs_none)
  qed
  show ?thesis
    unfolding cluster_inv_def first_cluster_def using e
    by (simp add: node_inv_def votes_inv_def votes_at_def wire_inv_def)
qed

theorem cinv_reachable: "reachable R stored_ok ms c \<Longrightarrow> cinv ms c"
  by (induction rule: reachable.induct) (auto intro: cinv_first cinv_step)

end

subsection \<open>Election safety\<close>

context raft_storage_laws
begin

lemma cinv_votes:
  assumes "cinv ms c"
  shows "role (node (engines c i)) = LEADER \<Longrightarrow>
      quorum (members_dict ms) (votes_at (engines c i) (current_term (node (engines c i))))"
    and "v \<in> votes_at (engines c i) t \<Longrightarrow> (v, t, i) \<in> cast c"
    and "(v, t, x) \<in> cast c \<Longrightarrow> (v, t, y) \<in> cast c \<Longrightarrow> x = y"
proof -
  show "role (node (engines c i)) = LEADER \<Longrightarrow>
      quorum (members_dict ms) (votes_at (engines c i) (current_term (node (engines c i))))"
    and "v \<in> votes_at (engines c i) t \<Longrightarrow> (v, t, i) \<in> cast c"
    using cinv_node(4) [OF assms, of i] by (simp_all add: votes_inv_def)
  show "(v, t, x) \<in> cast c \<Longrightarrow> (v, t, y) \<in> cast c \<Longrightarrow> x = y"
    using cinv_node(4) [OF assms, of v] unfolding votes_inv_def by blast
qed

lemma cinv_one_leader:
  assumes c: "cinv ms c" and "role (node (engines c i)) = LEADER" "role (node (engines c j)) = LEADER"
    and t: "current_term (node (engines c i)) = current_term (node (engines c j))"
  shows "i = j"
proof (rule member_quorums.one_choice [where choice = "\<lambda>v x. (v, current_term (node (engines c j)), x) \<in> cast c"])
  show "quorum (members_dict ms) (votes_at (engines c i) (current_term (node (engines c j))))"
    using cinv_votes(1) [OF c assms(2)] by (simp only: t)
  show "quorum (members_dict ms) (votes_at (engines c j) (current_term (node (engines c j))))"
    by (rule cinv_votes(1) [OF c assms(3)])
qed (fact cinv_votes(2,3) [OF c])+

end

text \<open>C2: election safety. In any reachable state of a cluster with a fixed membership, over any storage that keeps the
  laws, two nodes that lead the same term are the same node.\<close>

theorem election_safety:
  assumes "raft_storage_laws R ok" and "reachable R ok ms c"
    and "role (node (engines c i)) = LEADER" and "role (node (engines c j)) = LEADER"
    and "current_term (node (engines c i)) = current_term (node (engines c j))"
  shows "i = j"
  by (rule raft_storage_laws.cinv_one_leader [OF assms(1) raft_storage_laws.cinv_reachable [OF assms(1,2)] assms(3-5)])

text \<open>C8: a node never stores two different votes for the same term.\<close>

theorem one_vote_per_term:
  assumes "raft_storage_laws R ok" and "reachable R ok ms c"
    and "(v, t, x) \<in> cast c" and "(v, t, y) \<in> cast c"
  shows "x = y"
  by (rule raft_storage_laws.cinv_votes(3) [OF assms(1) raft_storage_laws.cinv_reachable [OF assms(1,2)] assms(3,4)])

subsection \<open>A run: three nodes elect a leader\<close>

definition trio_members :: "member list" where
  "trio_members =
     [\<lparr>member_id = ''a'', raft_address = ''h:1'', client_address = ''h:11''\<rparr>,
      \<lparr>member_id = ''b'', raft_address = ''h:2'', client_address = ''h:12''\<rparr>,
      \<lparr>member_id = ''c'', raft_address = ''h:3'', client_address = ''h:13''\<rparr>]"

definition trio0 :: "(mem_storage, unit) cluster" where
  "trio0 = first_cluster memory_storage 0 (\<lambda>i. ''h:1'') trio_members (1500000, 3000000) 1000 (\<lambda>i. mem_init)"

definition trio1 :: "(mem_storage, unit) cluster" where
  "trio1 = put ''a'' (run_event memory_storage 0 EvStart (engines trio0 ''a'')) trio0"

definition trio2 :: "(mem_storage, unit) cluster" where
  "trio2 = put ''a'' (run_event memory_storage 2000000 (EvElectionTimeout 1) (engines trio1 ''a'')) trio1"

definition ask_b :: "bool \<Rightarrow> vote_request" where
  "ask_b pre = \<lparr>vq_term = 1, vq_candidate_id = ''a'', vq_last_log_index = 0, vq_last_log_term = 0,
                vq_pre_vote = pre, vq_transfer = False\<rparr>"

definition trio3 :: "(mem_storage, unit) cluster" where
  "trio3 = (let (e, r) = handle_request_vote memory_storage 2000000 (ask_b True) (engines trio2 ''b'')
            in (put ''b'' e trio2)\<lparr>prevote_answers := {(''a'', trio_members ! 1, 2, r)}\<rparr>)"

definition trio4 :: "(mem_storage, unit) cluster" where
  "trio4 = put ''a'' (pre_vote_reply memory_storage 2000000 (trio_members ! 1) 2
             \<lparr>vr_term = 0, vr_granted = True\<rparr> (engines trio3 ''a'')) trio3"

definition trio5 :: "(mem_storage, unit) cluster" where
  "trio5 = (let (e, r) = handle_request_vote memory_storage 2000000 (ask_b False) (engines trio4 ''b'')
            in (put ''b'' e trio4)\<lparr>vote_answers := {(''a'', trio_members ! 1, ask_b False, r)}\<rparr>)"

definition trio6 :: "(mem_storage, unit) cluster" where
  "trio6 = put ''a'' (vote_reply memory_storage 2000000 (trio_members ! 1) (ask_b False)
             \<lparr>vr_term = 1, vr_granted = True\<rparr> (engines trio5 ''a'')) trio5"

lemma trio_runs:
  "(''a'', SpawnPreVote (trio_members ! 1) (ask_b True) 2) \<in> rpcs trio2"
  "(''a'', trio_members ! 1, 2, \<lparr>vr_term = 0, vr_granted = True\<rparr>) \<in> prevote_answers trio3"
  "(''a'', SpawnVote (trio_members ! 1) (ask_b False)) \<in> rpcs trio4"
  "(''a'', trio_members ! 1, ask_b False, \<lparr>vr_term = 1, vr_granted = True\<rparr>) \<in> vote_answers trio5"
  "role (node (engines trio6 ''a'')) = LEADER"
  by code_simp+

lemma trio_reachable: "reachable memory_storage mem_ok trio_members trio6"
proof -
  have "reachable memory_storage mem_ok trio_members trio0"
    unfolding trio0_def by (rule reachable.Init) (simp add: mem_init_def mem_load_def fresh_pstate_def mem_ok_def mem_last_def)
  moreover have "cstep memory_storage trio0 trio1"
    unfolding trio1_def by (rule cstep.Internal) simp_all
  moreover have "cstep memory_storage trio1 trio2"
    unfolding trio2_def by (rule cstep.Internal) simp_all
  moreover have "cstep memory_storage trio2 trio3"
  proof -
    have b: "''b'' = member_id (trio_members ! 1)" "prevote_answers trio2 = {}" by code_simp+
    obtain e r where h: "handle_request_vote memory_storage 2000000 (ask_b True) (engines trio2 ''b'') = (e, r)" by (cases "handle_request_vote memory_storage 2000000 (ask_b True) (engines trio2 ''b'')")
    show ?thesis using cstep.AskPreVote [OF trio_runs(1) b(1) h] b(2) by (simp add: trio3_def h)
  qed
  moreover have "cstep memory_storage trio3 trio4"
    unfolding trio4_def by (rule cstep.PreVoteReply [OF trio_runs(2)])
  moreover have "cstep memory_storage trio4 trio5"
  proof -
    have b: "''b'' = member_id (trio_members ! 1)" "vote_answers trio4 = {}" by code_simp+
    obtain e r where h: "handle_request_vote memory_storage 2000000 (ask_b False) (engines trio4 ''b'') = (e, r)" by (cases "handle_request_vote memory_storage 2000000 (ask_b False) (engines trio4 ''b'')")
    show ?thesis using cstep.AskVote [OF trio_runs(3) b(1) h] b(2) by (simp add: trio5_def h)
  qed
  moreover have "cstep memory_storage trio5 trio6"
    unfolding trio6_def by (rule cstep.VoteReply [OF trio_runs(4)])
  ultimately show ?thesis by (meson reachable.Step)
qed

lemma election_safety_witness:
  "role (node (engines trio6 ''a'')) = LEADER \<and> (''a'' :: string) = ''a''"
  using trio_runs(5) election_safety [OF mem.raft_storage_laws_axioms trio_reachable trio_runs(5) trio_runs(5) refl]
  by simp

lemma trio_votes: "(''b'', 1, ''a'') \<in> cast trio6" by code_simp

lemma one_vote_per_term_witness: "(''b'', 1, ''a'') \<in> cast trio6 \<and> (''a'' :: string) = ''a''"
  using trio_votes one_vote_per_term [OF mem.raft_storage_laws_axioms trio_reachable trio_votes trio_votes] by simp

end
