(* ===== verification/Raft_Logs.thy ===== *)
theory Raft_Logs
  imports Raft_Cluster "HOL-Library.Sublist"
begin

section \<open>Histories of a cluster\<close>

text \<open>
  The ghost state of the safety proof. \<open>H T\<close> is the log of the leader of term \<open>T\<close>, from index 1, as
  far as it has grown; \<open>A v T\<close> is how far node \<open>v\<close> has acknowledged that log. Every log in the cluster,
  compacted or not, is a prefix of some \<open>H T\<close>: the one of the term of its last entry. This theory is
  about such lists only; \<open>Raft_Safety\<close> finds the lists in the engines and messages of a cluster.
\<close>

type_synonym history = "int \<Rightarrow> log_entry list"
type_synonym acks = "string \<Rightarrow> int \<Rightarrow> nat"

definition lterm :: "log_entry list \<Rightarrow> int" where
  "lterm L = (if L = [] then 0 else e_term (last L))"

definition hist :: "history \<Rightarrow> log_entry list \<Rightarrow> bool" where
  "hist H L = prefix L (H (lterm L))"

definition wf_history :: "history \<Rightarrow> bool" where
  "wf_history H =
     ((\<forall>T L. prefix L (H T) \<longrightarrow> hist H L) \<and>
      (\<forall>T. \<forall>k < length (H T). e_index (H T ! k) = int k + 1 \<and> 1 \<le> e_term (H T ! k) \<and> e_term (H T ! k) \<le> T))"

text \<open>The first \<open>k\<close> entries are the same.\<close>

definition agree :: "log_entry list \<Rightarrow> nat \<Rightarrow> log_entry list \<Rightarrow> bool" where
  "agree L k X = (k \<le> length L \<and> k \<le> length X \<and> take k L = take k X)"

definition acked :: "history \<Rightarrow> acks \<Rightarrow> string \<Rightarrow> int \<Rightarrow> nat \<Rightarrow> bool" where
  "acked H A v T k = (1 \<le> k \<and> k \<le> A v T \<and> k \<le> length (H T) \<and> e_term (H T ! (k - 1)) = T)"

text \<open>
  What \<open>v\<close> acknowledged in terms before \<open>T0\<close> is in \<open>L\<close>, unless a leader of a term in between lacks it.
\<close>

definition kept :: "history \<Rightarrow> acks \<Rightarrow> string \<Rightarrow> int \<Rightarrow> log_entry list \<Rightarrow> bool" where
  "kept H A v T0 L =
     (\<forall>T k. T < T0 \<longrightarrow> acked H A v T k \<longrightarrow>
        agree L k (H T) \<or> (\<exists>T'. T < T' \<and> T' < T0 \<and> H T' \<noteq> [] \<and> \<not> agree (H T') k (H T)))"

definition committed :: "member list \<Rightarrow> history \<Rightarrow> acks \<Rightarrow> int \<Rightarrow> nat \<Rightarrow> bool" where
  "committed ms H A T k = (\<exists>Q. quorum (members_dict ms) Q \<and> (\<forall>v \<in> Q. acked H A v T k))"

definition grows :: "history \<Rightarrow> history \<Rightarrow> bool" where
  "grows H H' = (\<forall>T. \<exists>ys. H' T = H T @ ys \<and> (H T \<noteq> [] \<longrightarrow> (\<forall>y \<in> set ys. e_term y = T)))"

subsection \<open>Agreement\<close>

lemma agree_sym: "agree L k X = agree X k L"
  by (auto simp: agree_def)

lemma agree_trans: "agree L k X \<Longrightarrow> agree X k Y \<Longrightarrow> agree L k Y"
  by (simp add: agree_def)

lemma agree_less:
  assumes "agree L k X" and "j \<le> k"
  shows "agree L j X"
proof -
  have "take j (take k L) = take j (take k X)" using assms(1) by (simp add: agree_def)
  then have "take j L = take j X" using assms(2) by (simp only: take_take min_absorb1)
  then show ?thesis using assms by (simp add: agree_def)
qed

lemma agree_append: "k \<le> length L \<Longrightarrow> k \<le> length X \<Longrightarrow> agree (L @ ys) k (X @ zs) = agree L k X"
  by (simp add: agree_def)

lemma agree_prefix: "agree L k X \<Longrightarrow> prefix L L' \<Longrightarrow> prefix X X' \<Longrightarrow> agree L' k X'"
  by (auto simp: agree_def elim!: prefixE)

lemma agree_same: "prefix L X \<Longrightarrow> k \<le> length L \<Longrightarrow> agree L k X"
  by (auto simp: agree_def elim!: prefixE)

lemma agree_nth: "agree L k X \<Longrightarrow> j < k \<Longrightarrow> L ! j = X ! j"
  by (metis agree_def nth_take)

lemma agree_take: "agree L k X \<Longrightarrow> take k L = take k X"
  by (simp add: agree_def)

lemma lterm_take: "0 < k \<Longrightarrow> k \<le> length L \<Longrightarrow> lterm (take k L) = e_term (L ! (k - 1))"
  by (cases k) (auto simp: lterm_def last_conv_nth)

lemma lterm_append [simp]: "lterm (L @ [x]) = e_term x"
  by (simp add: lterm_def)

lemma lterm_Nil [simp]: "lterm [] = 0"
  by (simp add: lterm_def)

subsection \<open>Log matching\<close>

lemma hist_Nil [simp]: "hist H []"
  by (simp add: hist_def)

lemma hist_prefix: "wf_history H \<Longrightarrow> hist H L \<Longrightarrow> prefix P L \<Longrightarrow> hist H P"
  unfolding wf_history_def hist_def by (meson prefix_order.trans)

lemma hist_take: "wf_history H \<Longrightarrow> hist H L \<Longrightarrow> hist H (take k L)"
  by (erule hist_prefix [OF _ _ take_is_prefix])

lemma hist_history: "wf_history H \<Longrightarrow> hist H (H T)"
  unfolding wf_history_def by (meson prefix_order.refl)

lemma hist_match:
  assumes "wf_history H" and "hist H L" and "hist H X" and "k \<le> length L" and "k \<le> length X"
    and "lterm (take k L) = lterm (take k X)"
  shows "agree L k X"
proof -
  have "prefix (take k L) (H (lterm (take k X)))" "prefix (take k X) (H (lterm (take k X)))"
    using hist_take [OF assms(1,2), of k] hist_take [OF assms(1,3), of k] unfolding hist_def assms(6) by blast+
  then obtain ys zs where "take k L @ ys = take k X @ zs" by (metis prefixE)
  then have "take k L = take k X" using assms(4,5) by (simp add: append_eq_append_conv)
  then show ?thesis using assms by (simp add: agree_def)
qed

lemma history_entry:
  assumes "wf_history H" and "k < length (H T)"
  shows "e_index (H T ! k) = int k + 1" and "1 \<le> e_term (H T ! k)" and "e_term (H T ! k) \<le> T"
  using assms by (simp_all add: wf_history_def)

lemma hist_entry:
  assumes "wf_history H" and "hist H L" and "k < length L"
  shows "e_index (L ! k) = int k + 1" and "1 \<le> e_term (L ! k)" and "e_term (L ! k) \<le> lterm L"
proof -
  have "L ! k = H (lterm L) ! k" "k < length (H (lterm L))"
    using assms by (auto simp: hist_def nth_append elim!: prefixE)
  then show "e_index (L ! k) = int k + 1" "1 \<le> e_term (L ! k)" "e_term (L ! k) \<le> lterm L"
    using history_entry [OF assms(1)] by simp_all
qed

lemma lterm_pos: "wf_history H \<Longrightarrow> hist H L \<Longrightarrow> L \<noteq> [] \<Longrightarrow> 1 \<le> lterm L"
  using hist_entry(2) [of H L "length L - 1"] by (simp add: lterm_def last_conv_nth)

lemma lterm_history:
  assumes "wf_history H" and "prefix L (H T)" and "L \<noteq> []"
  shows "lterm L \<le> T"
proof -
  obtain zs where z: "H T = L @ zs" using assms(2) by (auto elim: prefixE)
  then have "length L - 1 < length (H T)" using assms(3) by (cases L) auto
  from history_entry(3) [OF assms(1) this] show ?thesis
    using assms(3) z by (simp add: lterm_def last_conv_nth nth_append)
qed

subsection \<open>Growth\<close>

lemma grows_refl [simp]: "grows H H"
  by (simp add: grows_def)

lemma grows_prefix: "grows H H' \<Longrightarrow> prefix (H T) (H' T)"
  unfolding grows_def by (metis prefixI)

lemma grows_trans:
  assumes "grows H H'" and "grows H' H''"
  shows "grows H H''"
  unfolding grows_def
proof
  fix T
  obtain ys where y: "H' T = H T @ ys" "H T \<noteq> [] \<longrightarrow> (\<forall>y \<in> set ys. e_term y = T)"
    using assms(1) unfolding grows_def by blast
  obtain zs where z: "H'' T = H' T @ zs" "H' T \<noteq> [] \<longrightarrow> (\<forall>y \<in> set zs. e_term y = T)"
    using assms(2) unfolding grows_def by blast
  show "\<exists>xs. H'' T = H T @ xs \<and> (H T \<noteq> [] \<longrightarrow> (\<forall>y \<in> set xs. e_term y = T))"
    using y z by (intro exI [of _ "ys @ zs"]) auto
qed

lemma grows_nonempty: "grows H H' \<Longrightarrow> H T \<noteq> [] \<Longrightarrow> H' T \<noteq> []"
  unfolding grows_def by (metis append_is_Nil_conv)

lemma hist_grows: "hist H L \<Longrightarrow> grows H H' \<Longrightarrow> hist H' L"
  unfolding hist_def by (meson grows_prefix prefix_order.trans)

lemma acked_grows:
  assumes "acked H A v T k" and "grows H H'" and "A v T \<le> A' v T"
  shows "acked H' A' v T k"
  using assms(1,3) grows_prefix [OF assms(2), of T]
  by (auto simp: acked_def nth_append elim!: prefixE)

lemma acked_before:
  assumes "acked H' A' v T k" and "grows H H'" and "A' v T = A v T" and "A v T \<le> length (H T)"
  shows "acked H A v T k"
proof -
  obtain zs where z: "H' T = H T @ zs" using grows_prefix [OF assms(2), of T] by (auto elim: prefixE)
  have "k \<le> length (H T)" "k - 1 < length (H T)" using assms(1,3,4) by (auto simp: acked_def)
  then show ?thesis using assms(1,3) z by (simp add: acked_def nth_append)
qed

lemma lacks_grows:
  assumes "acked H A v T k" and "T < T'" and "H T' \<noteq> []" and "\<not> agree (H T') k (H T)" and g: "grows H H'"
  shows "\<not> agree (H' T') k (H' T)"
proof
  assume a: "agree (H' T') k (H' T)"
  have k: "1 \<le> k" "k \<le> length (H T)" "e_term (H T ! (k - 1)) = T" using assms(1) by (simp_all add: acked_def)
  obtain ys where y: "H' T' = H T' @ ys" "\<forall>y \<in> set ys. e_term y = T'" using g assms(3) unfolding grows_def by metis
  obtain zs where z: "H' T = H T @ zs" using g unfolding grows_def by metis
  show False
  proof (cases "k \<le> length (H T')")
    case True
    then show False using a assms(4) k y z by (simp add: agree_append)
  next
    case False
    have e: "H' T' ! (k - 1) = H T ! (k - 1)" using agree_nth [OF a, of "k - 1"] k z by (simp add: nth_append)
    have "k - 1 - length (H T') < length ys" using a y False k by (auto simp: agree_def)
    moreover have "\<not> k - 1 < length (H T')" using False by linarith
    ultimately have "H' T' ! (k - 1) \<in> set ys" using y by (simp add: nth_append)
    then show False using y(2) e k(3) assms(2) by auto
  qed
qed

lemma kept_grows:
  assumes L: "kept H A v T0 L" and g: "grows H H'" and p: "prefix L L'"
    and A: "\<And>T. T < T0 \<Longrightarrow> A' v T = A v T \<and> A v T \<le> length (H T)"
  shows "kept H' A' v T0 L'"
  unfolding kept_def
proof (intro allI impI)
  fix T k
  assume T: "T < T0" and "acked H' A' v T k"
  then have a: "acked H A v T k" using acked_before g A by blast
  then have "agree L k (H T) \<or> (\<exists>T'. T < T' \<and> T' < T0 \<and> H T' \<noteq> [] \<and> \<not> agree (H T') k (H T))"
    using L T unfolding kept_def by blast
  then show "agree L' k (H' T) \<or> (\<exists>T'. T < T' \<and> T' < T0 \<and> H' T' \<noteq> [] \<and> \<not> agree (H' T') k (H' T))"
    using agree_prefix [OF _ p grows_prefix [OF g]] lacks_grows [OF a] grows_nonempty [OF g] g by blast
qed

lemma committed_grows:
  "committed ms H A T k \<Longrightarrow> grows H H' \<Longrightarrow> (\<And>v. A v T \<le> A' v T) \<Longrightarrow> committed ms H' A' T k"
  unfolding committed_def using acked_grows by blast

lemma committed_length: "committed ms H A T k \<Longrightarrow> 1 \<le> k \<and> k \<le> length (H T)"
  unfolding committed_def acked_def using quorum_meet by blast

subsection \<open>Leader completeness\<close>

definition elected_logs :: "member list \<Rightarrow> history \<Rightarrow> acks \<Rightarrow> bool" where
  "elected_logs ms H A =
     (\<forall>T. H T \<noteq> [] \<longrightarrow> (\<exists>Q. quorum (members_dict ms) Q \<and> (\<forall>v \<in> Q. kept H A v T (H T))))"

text \<open>A log that a majority of voters could vote for holds what was committed in earlier terms.\<close>

lemma committed_in_log:
  assumes el: "elected_logs ms H A" and c: "committed ms H A T k"
    and "quorum (members_dict ms) Q" and "\<forall>v \<in> Q. kept H A v T0 L" and "T < T0"
  shows "agree L k (H T)"
  using assms(3-5)
proof (induction "nat (T0 - T)" arbitrary: Q T0 L rule: less_induct)
  case less
  obtain Q' where Q': "quorum (members_dict ms) Q'" "\<forall>v \<in> Q'. acked H A v T k" using c by (auto simp: committed_def)
  obtain v where v: "v \<in> Q" "v \<in> Q'" using quorum_meet [OF less.prems(1) Q'(1)] by blast
  have "agree (H T') k (H T)" if T': "T < T'" "T' < T0" "H T' \<noteq> []" for T'
  proof -
    obtain Q1 where "quorum (members_dict ms) Q1" "\<forall>v \<in> Q1. kept H A v T' (H T')"
      using el T'(3) unfolding elected_logs_def by blast
    moreover have "nat (T' - T) < nat (T0 - T)" using T' by linarith
    ultimately show ?thesis using less.hyps T'(1) by blast
  qed
  then show ?case using less.prems(2,3) v Q'(2) unfolding kept_def by blast
qed

lemma leader_holds_committed:
  assumes "elected_logs ms H A" and "committed ms H A T k" and "T \<le> T'" and "H T' \<noteq> []"
  shows "agree (H T') k (H T)"
proof (cases "T = T'")
  case True
  then show ?thesis using committed_length [OF assms(2)] by (simp add: agree_def)
next
  case False
  then show ?thesis using assms committed_in_log [OF assms(1,2)] unfolding elected_logs_def by force
qed

end
