(* ===== verification/Raft_Rpc.thy ===== *)
theory Raft_Rpc
  imports Raft_Replication
begin

section \<open>raft/rpc.py: the messages as JSON lines\<close>

text \<open>
  A message is the JSON object of its dataclass on one line. Decoding calls the dataclass with the
  object's members as keyword arguments: an unknown or a missing name is a \<open>TypeError\<close>. The messages modelled
  are those whose members have the annotated types, as every message has that \<open>encode\<close> makes of a dataclass. Python does
  not check the types: a member of another type goes on into the handler, which may raise after it changed the state.
  \<open>arg\<close> gives up on such a message with a \<open>TypeError\<close>, and no property here says anything about it. \<open>ForwardRequest\<close> carries a float, so its text is a parameter of what uses it.
  The members of a snapshot's configuration are built when the message is decoded.
\<close>

subsection \<open>Calling a dataclass\<close>

definition sbind :: "'e + 'a \<Rightarrow> ('a \<Rightarrow> 'e + 'b) \<Rightarrow> 'e + 'b" where
  "sbind r f = (case r of Inl e \<Rightarrow> Inl e | Inr x \<Rightarrow> f x)"

lemma sbind_simps [simp]: "sbind (Inl e) f = Inl e" "sbind (Inr x) f = f x"
  by (simp_all add: sbind_def)

definition keyword_args :: "string list \<Rightarrow> string list \<Rightarrow> json \<Rightarrow> py_exn + (string, json) dict" where
  "keyword_args required optional j =
     (case j of
        JObj kvs \<Rightarrow>
          if list_all (\<lambda>(k, v). k \<in> set required \<or> k \<in> set optional) kvs \<and> list_all (dict_has kvs) required
          then Inr kvs else Inl TypeError
      | _ \<Rightarrow> Inl TypeError)"

definition arg :: "(json \<Rightarrow> 'a option) \<Rightarrow> 'a option \<Rightarrow> string \<Rightarrow> (string, json) dict \<Rightarrow> py_exn + 'a" where
  "arg f d k kvs =
     (case map_of kvs k of
        None \<Rightarrow> (case d of None \<Rightarrow> Inl TypeError | Some x \<Rightarrow> Inr x)
      | Some j \<Rightarrow> (case f j of None \<Rightarrow> Inl TypeError | Some x \<Rightarrow> Inr x))"

fun j_int :: "json \<Rightarrow> int option" where
  "j_int (JInt i) = Some i"
| "j_int _ = None"

fun j_bool :: "json \<Rightarrow> bool option" where
  "j_bool (JBool b) = Some b"
| "j_bool _ = None"

fun j_str :: "json \<Rightarrow> string option" where
  "j_str (JStr s) = Some s"
| "j_str _ = None"

fun j_opt_int :: "json \<Rightarrow> int option option" where
  "j_opt_int JNull = Some None"
| "j_opt_int (JInt i) = Some (Some i)"
| "j_opt_int _ = None"

definition int_or_null :: "int option \<Rightarrow> json" where
  "int_or_null x = (case x of None \<Rightarrow> JNull | Some i \<Rightarrow> JInt i)"

lemma j_opt_int_or_null [simp]: "j_opt_int (int_or_null x) = Some x"
  by (cases x) (simp_all add: int_or_null_def)

text \<open>\<open>(json.dumps(asdict(obj)) + "\n").encode()\<close>.\<close>

definition newline :: char where
  "newline = CHR 0x0A"

definition encode :: "json \<Rightarrow> string" where
  "encode j = dumps j @ [newline]"

subsection \<open>The messages\<close>

definition entry_dict :: "log_entry \<Rightarrow> json" where
  "entry_dict x = JObj [(''term'', JInt (e_term x)), (''index'', JInt (e_index x)), (''command'', JStr (e_command x)),
     (''username'', JStr (e_username x)), (''request_id'', JStr (e_request_id x))]"

definition entry_from_dict :: "json \<Rightarrow> py_exn + log_entry" where
  "entry_from_dict j =
     sbind (keyword_args [''term'', ''index'', ''command'', ''username''] [''request_id''] j) (\<lambda>d.
     sbind (arg j_int None ''term'' d) (\<lambda>t.
     sbind (arg j_int None ''index'' d) (\<lambda>i.
     sbind (arg j_str None ''command'' d) (\<lambda>c.
     sbind (arg j_str None ''username'' d) (\<lambda>u.
     sbind (arg j_str (Some []) ''request_id'' d) (\<lambda>r.
       Inr \<lparr>e_term = t, e_index = i, e_command = c, e_username = u, e_request_id = r\<rparr>))))))"

fun entries_from_dicts :: "json list \<Rightarrow> py_exn + log_entry list" where
  "entries_from_dicts [] = Inr []"
| "entries_from_dicts (j # js) =
     sbind (entry_from_dict j) (\<lambda>x. sbind (entries_from_dicts js) (\<lambda>xs. Inr (x # xs)))"

definition vote_request_dict :: "vote_request \<Rightarrow> json" where
  "vote_request_dict q = JObj [(''term'', JInt (vq_term q)), (''candidate_id'', JStr (vq_candidate_id q)),
     (''last_log_index'', JInt (vq_last_log_index q)), (''last_log_term'', JInt (vq_last_log_term q)),
     (''pre_vote'', JBool (vq_pre_vote q)), (''transfer'', JBool (vq_transfer q))]"

definition decode_request_vote_req :: "string \<Rightarrow> py_exn + vote_request" where
  "decode_request_vote_req s =
     sbind (loads s) (\<lambda>j.
     sbind (keyword_args [''term'', ''candidate_id'', ''last_log_index'', ''last_log_term''] [''pre_vote'', ''transfer''] j) (\<lambda>d.
     sbind (arg j_int None ''term'' d) (\<lambda>t.
     sbind (arg j_str None ''candidate_id'' d) (\<lambda>c.
     sbind (arg j_int None ''last_log_index'' d) (\<lambda>i.
     sbind (arg j_int None ''last_log_term'' d) (\<lambda>lt.
     sbind (arg j_bool (Some False) ''pre_vote'' d) (\<lambda>p.
     sbind (arg j_bool (Some False) ''transfer'' d) (\<lambda>tr.
       Inr \<lparr>vq_term = t, vq_candidate_id = c, vq_last_log_index = i, vq_last_log_term = lt,
            vq_pre_vote = p, vq_transfer = tr\<rparr>))))))))"

definition vote_response_dict :: "vote_response \<Rightarrow> json" where
  "vote_response_dict r = JObj [(''term'', JInt (vr_term r)), (''vote_granted'', JBool (vr_granted r))]"

definition decode_request_vote_resp :: "string \<Rightarrow> py_exn + vote_response" where
  "decode_request_vote_resp s =
     sbind (loads s) (\<lambda>j.
     sbind (keyword_args [''term'', ''vote_granted''] [] j) (\<lambda>d.
     sbind (arg j_int None ''term'' d) (\<lambda>t.
     sbind (arg j_bool None ''vote_granted'' d) (\<lambda>g. Inr \<lparr>vr_term = t, vr_granted = g\<rparr>))))"

definition append_request_dict :: "append_request \<Rightarrow> json" where
  "append_request_dict q = JObj [(''term'', JInt (aq_term q)), (''leader_id'', JStr (aq_leader_id q)),
     (''prev_log_index'', JInt (aq_prev_log_index q)), (''prev_log_term'', int_or_null (aq_prev_log_term q)),
     (''entries'', JArr (map entry_dict (aq_entries q))), (''leader_commit'', JInt (aq_leader_commit q)),
     (''leader_address'', JStr (aq_leader_address q))]"

text \<open>\<open>d["entries"]\<close> is read before the dataclass is called.\<close>

definition decode_append_entries_req :: "string \<Rightarrow> py_exn + append_request" where
  "decode_append_entries_req s =
     sbind (loads s) (\<lambda>j.
     case j of
       JObj kvs \<Rightarrow>
         (case map_of kvs ''entries'' of
            None \<Rightarrow> Inl KeyError
          | Some (JArr es) \<Rightarrow>
              sbind (entries_from_dicts es) (\<lambda>entries.
              sbind (keyword_args [''term'', ''leader_id'', ''prev_log_index'', ''prev_log_term'', ''entries'', ''leader_commit'']
                       [''leader_address''] j) (\<lambda>d.
              sbind (arg j_int None ''term'' d) (\<lambda>t.
              sbind (arg j_str None ''leader_id'' d) (\<lambda>l.
              sbind (arg j_int None ''prev_log_index'' d) (\<lambda>pi.
              sbind (arg j_opt_int None ''prev_log_term'' d) (\<lambda>pt.
              sbind (arg j_int None ''leader_commit'' d) (\<lambda>lc.
              sbind (arg j_str (Some []) ''leader_address'' d) (\<lambda>a.
                Inr \<lparr>aq_term = t, aq_leader_id = l, aq_prev_log_index = pi, aq_prev_log_term = pt,
                     aq_entries = entries, aq_leader_commit = lc, aq_leader_address = a\<rparr>))))))))
          | Some _ \<Rightarrow> Inl TypeError)
     | _ \<Rightarrow> Inl TypeError)"

definition append_response_dict :: "append_response \<Rightarrow> json" where
  "append_response_dict r = JObj [(''term'', JInt (ar_term r)), (''success'', JBool (ar_success r)),
     (''match_index'', JInt (ar_match_index r)), (''conflict_index'', JInt (ar_conflict_index r))]"

definition decode_append_entries_resp :: "string \<Rightarrow> py_exn + append_response" where
  "decode_append_entries_resp s =
     sbind (loads s) (\<lambda>j.
     sbind (keyword_args [''term'', ''success''] [''match_index'', ''conflict_index''] j) (\<lambda>d.
     sbind (arg j_int None ''term'' d) (\<lambda>t.
     sbind (arg j_bool None ''success'' d) (\<lambda>ok.
     sbind (arg j_int (Some 0) ''match_index'' d) (\<lambda>m.
     sbind (arg j_int (Some 0) ''conflict_index'' d) (\<lambda>c.
       Inr \<lparr>ar_term = t, ar_success = ok, ar_match_index = m, ar_conflict_index = c\<rparr>))))))"

definition snapshot_request_dict :: "snapshot_request \<Rightarrow> json" where
  "snapshot_request_dict q = JObj [(''term'', JInt (sq_term q)), (''leader_id'', JStr (sq_leader_id q)),
     (''last_included_index'', JInt (sq_last_included_index q)), (''last_included_term'', JInt (sq_last_included_term q)),
     (''offset'', JInt (sq_offset q)), (''data'', JStr (sq_data q)), (''done'', JBool (sq_done q)),
     (''config'', JArr (map member_to_dict (sq_config q))), (''leader_address'', JStr (sq_leader_address q))]"

text \<open>\<open>[Member.from_dict(d) for d in (req.config or [])]\<close>.\<close>

definition config_arg :: "(string, json) dict \<Rightarrow> py_exn + member list" where
  "config_arg d =
     (case map_of d ''config'' of
        None \<Rightarrow> Inr []
      | Some JNull \<Rightarrow> Inr []
      | Some (JArr ms) \<Rightarrow> members_from_dicts ms
      | Some _ \<Rightarrow> Inl TypeError)"

definition decode_install_snapshot_req :: "string \<Rightarrow> py_exn + snapshot_request" where
  "decode_install_snapshot_req s =
     sbind (loads s) (\<lambda>j.
     sbind (keyword_args [''term'', ''leader_id'', ''last_included_index'', ''last_included_term'', ''offset'', ''data'', ''done'']
              [''config'', ''leader_address''] j) (\<lambda>d.
     sbind (arg j_int None ''term'' d) (\<lambda>t.
     sbind (arg j_str None ''leader_id'' d) (\<lambda>l.
     sbind (arg j_int None ''last_included_index'' d) (\<lambda>i.
     sbind (arg j_int None ''last_included_term'' d) (\<lambda>lt.
     sbind (arg j_int None ''offset'' d) (\<lambda>off.
     sbind (arg j_str None ''data'' d) (\<lambda>dt.
     sbind (arg j_bool None ''done'' d) (\<lambda>dn.
     sbind (config_arg d) (\<lambda>ms.
     sbind (arg j_str (Some []) ''leader_address'' d) (\<lambda>a.
       Inr \<lparr>sq_term = t, sq_leader_id = l, sq_last_included_index = i, sq_last_included_term = lt,
            sq_offset = off, sq_data = dt, sq_done = dn, sq_config = ms, sq_leader_address = a\<rparr>)))))))))))"

definition snapshot_response_dict :: "snapshot_response \<Rightarrow> json" where
  "snapshot_response_dict r = JObj [(''term'', JInt (sr_term r)), (''success'', JBool (sr_success r))]"

definition decode_install_snapshot_resp :: "string \<Rightarrow> py_exn + snapshot_response" where
  "decode_install_snapshot_resp s =
     sbind (loads s) (\<lambda>j.
     sbind (keyword_args [''term''] [''success''] j) (\<lambda>d.
     sbind (arg j_int None ''term'' d) (\<lambda>t.
     sbind (arg j_bool (Some True) ''success'' d) (\<lambda>ok. Inr \<lparr>sr_term = t, sr_success = ok\<rparr>))))"

record read_request =
  rq_term :: int
  rq_node_id :: string

definition read_request_dict :: "read_request \<Rightarrow> json" where
  "read_request_dict q = JObj [(''term'', JInt (rq_term q)), (''node_id'', JStr (rq_node_id q))]"

definition decode_read_index_req :: "string \<Rightarrow> py_exn + read_request" where
  "decode_read_index_req s =
     sbind (loads s) (\<lambda>j.
     sbind (keyword_args [''term'', ''node_id''] [] j) (\<lambda>d.
     sbind (arg j_int None ''term'' d) (\<lambda>t.
     sbind (arg j_str None ''node_id'' d) (\<lambda>i. Inr \<lparr>rq_term = t, rq_node_id = i\<rparr>))))"

definition read_response_dict :: "read_response \<Rightarrow> json" where
  "read_response_dict r = JObj [(''term'', JInt (rr_term r)), (''success'', JBool (rr_success r)), (''index'', JInt (rr_index r))]"

definition decode_read_index_resp :: "string \<Rightarrow> py_exn + read_response" where
  "decode_read_index_resp s =
     sbind (loads s) (\<lambda>j.
     sbind (keyword_args [''term'', ''success''] [''index''] j) (\<lambda>d.
     sbind (arg j_int None ''term'' d) (\<lambda>t.
     sbind (arg j_bool None ''success'' d) (\<lambda>ok.
     sbind (arg j_int (Some 0) ''index'' d) (\<lambda>i. Inr \<lparr>rr_term = t, rr_success = ok, rr_index = i\<rparr>)))))"

definition forward_response_dict :: "json forward_response \<Rightarrow> json" where
  "forward_response_dict r = JObj [(''ok'', JBool (fr_ok r)),
     (''result'', case fr_result r of None \<Rightarrow> JNull | Some j \<Rightarrow> j), (''error'', JStr (fr_error r))]"

text \<open>\<open>result\<close> of any type; \<open>None\<close> and \<open>null\<close> are the same value.\<close>

definition decode_forward_resp :: "string \<Rightarrow> py_exn + json forward_response" where
  "decode_forward_resp s =
     sbind (loads s) (\<lambda>j.
     sbind (keyword_args [''ok''] [''result'', ''error''] j) (\<lambda>d.
     sbind (arg j_bool None ''ok'' d) (\<lambda>ok.
     sbind (arg j_str (Some []) ''error'' d) (\<lambda>e.
       Inr \<lparr>fr_ok = ok,
            fr_result = (case map_of d ''result'' of None \<Rightarrow> None | Some JNull \<Rightarrow> None | Some r \<Rightarrow> Some r),
            fr_error = e\<rparr>))))"

record timeout_now_request =
  tq_term :: int
  tq_leader_id :: string

definition timeout_now_request_dict :: "timeout_now_request \<Rightarrow> json" where
  "timeout_now_request_dict q = JObj [(''term'', JInt (tq_term q)), (''leader_id'', JStr (tq_leader_id q))]"

definition decode_timeout_now_req :: "string \<Rightarrow> py_exn + timeout_now_request" where
  "decode_timeout_now_req s =
     sbind (loads s) (\<lambda>j.
     sbind (keyword_args [''term'', ''leader_id''] [] j) (\<lambda>d.
     sbind (arg j_int None ''term'' d) (\<lambda>t.
     sbind (arg j_str None ''leader_id'' d) (\<lambda>l. Inr \<lparr>tq_term = t, tq_leader_id = l\<rparr>))))"

definition timeout_now_response_dict :: "int \<Rightarrow> json" where
  "timeout_now_response_dict t = JObj [(''term'', JInt t)]"

definition decode_timeout_now_resp :: "string \<Rightarrow> py_exn + int" where
  "decode_timeout_now_resp s =
     sbind (loads s) (\<lambda>j. sbind (keyword_args [''term''] [] j) (arg j_int None ''term''))"

subsection \<open>Reading back\<close>

lemma loads_encode: "wf_json j \<Longrightarrow> loads (encode j) = Inr j"
proof -
  assume j: "wf_json j"
  have "parse_value (Suc (length (encode j))) (dumps j @ [newline]) = Some (j, [newline])"
    by (rule reads_backD [OF reads_back_wf [OF j]])
      (simp_all add: encode_def number_continues_def newline_def is_decimal_def)
  moreover have "skip_space (encode j) = encode j" using skip_space_dumps [of j "[newline]"] by (simp add: encode_def)
  ultimately show ?thesis
    by (simp add: loads_def encode_def newline_def is_json_space_def del: parse_value.simps)
qed

named_theorems rpc

lemmas [rpc] = keyword_args_def arg_def dict_has_def

lemma entry_round_trip [rpc, simp]: "entry_from_dict (entry_dict x) = Inr x"
  by (simp add: entry_from_dict_def entry_dict_def rpc)

lemma entries_round_trip [rpc, simp]: "entries_from_dicts (map entry_dict xs) = Inr xs"
  by (induction xs) simp_all

lemma wf_dicts:
  "wf_json (vote_request_dict q)" "wf_json (vote_response_dict vr)" "wf_json (append_request_dict aq)"
  "wf_json (append_response_dict ar)" "wf_json (snapshot_request_dict sq)" "wf_json (snapshot_response_dict sr)"
  "wf_json (read_request_dict rq)" "wf_json (read_response_dict rr)" "wf_json (timeout_now_request_dict tq)"
  "wf_json (timeout_now_response_dict t)"
  by (simp_all add: vote_request_dict_def vote_response_dict_def append_request_dict_def append_response_dict_def
      snapshot_request_dict_def snapshot_response_dict_def read_request_dict_def read_response_dict_def
      timeout_now_request_dict_def timeout_now_response_dict_def entry_dict_def member_to_dict_def list_all_iff
      int_or_null_def split: option.split)

lemma vote_request_round_trip: "decode_request_vote_req (encode (vote_request_dict q)) = Inr q"
  by (simp add: decode_request_vote_req_def loads_encode [OF wf_dicts(1)]) (simp add: vote_request_dict_def rpc)

lemma vote_response_round_trip: "decode_request_vote_resp (encode (vote_response_dict r)) = Inr r"
  by (simp add: decode_request_vote_resp_def loads_encode [OF wf_dicts(2)]) (simp add: vote_response_dict_def rpc)

lemma append_request_round_trip: "decode_append_entries_req (encode (append_request_dict q)) = Inr q"
  by (simp add: decode_append_entries_req_def loads_encode [OF wf_dicts(3)]) (simp add: append_request_dict_def rpc)

lemma append_response_round_trip: "decode_append_entries_resp (encode (append_response_dict r)) = Inr r"
  by (simp add: decode_append_entries_resp_def loads_encode [OF wf_dicts(4)]) (simp add: append_response_dict_def rpc)

lemma snapshot_request_round_trip: "decode_install_snapshot_req (encode (snapshot_request_dict q)) = Inr q"
  by (simp add: decode_install_snapshot_req_def loads_encode [OF wf_dicts(5)])
    (simp add: snapshot_request_dict_def rpc config_arg_def members_dicts_round_trip)

lemma snapshot_response_round_trip: "decode_install_snapshot_resp (encode (snapshot_response_dict r)) = Inr r"
  by (simp add: decode_install_snapshot_resp_def loads_encode [OF wf_dicts(6)]) (simp add: snapshot_response_dict_def rpc)

lemma read_request_round_trip: "decode_read_index_req (encode (read_request_dict q)) = Inr q"
  by (simp add: decode_read_index_req_def loads_encode [OF wf_dicts(7)]) (simp add: read_request_dict_def rpc)

lemma read_response_round_trip: "decode_read_index_resp (encode (read_response_dict r)) = Inr r"
  by (simp add: decode_read_index_resp_def loads_encode [OF wf_dicts(8)]) (simp add: read_response_dict_def rpc)

lemma timeout_now_request_round_trip: "decode_timeout_now_req (encode (timeout_now_request_dict q)) = Inr q"
  by (simp add: decode_timeout_now_req_def loads_encode [OF wf_dicts(9)]) (simp add: timeout_now_request_dict_def rpc)

lemma timeout_now_response_round_trip: "decode_timeout_now_resp (encode (timeout_now_response_dict t)) = Inr t"
  by (simp add: decode_timeout_now_resp_def loads_encode [OF wf_dicts(10)]) (simp add: timeout_now_response_dict_def rpc)

lemma forward_response_round_trip:
  assumes "fr_result r \<noteq> Some JNull" and "\<forall>j. fr_result r = Some j \<longrightarrow> wf_json j"
  shows "decode_forward_resp (encode (forward_response_dict r)) = Inr r"
proof -
  have "wf_json (forward_response_dict r)" using assms(2) by (auto simp: forward_response_dict_def split: option.split)
  then show ?thesis using assms(1)
    by (simp add: decode_forward_resp_def loads_encode)
      (auto simp: forward_response_dict_def rpc split: option.split json.split)
qed

subsection \<open>One message is one line\<close>

definition one_line :: "string \<Rightarrow> bool" where
  "one_line s = (newline \<notin> set s)"

lemma one_line_append [simp]: "one_line (s @ t) \<longleftrightarrow> one_line s \<and> one_line t"
  by (simp add: one_line_def)

lemma one_line_Cons: "one_line (c # s) \<longleftrightarrow> c \<noteq> newline \<and> one_line s"
  by (auto simp: one_line_def)

lemma one_line_escape: "one_line (escape_char c)"
proof -
  have hex: "hex_char n \<noteq> newline" if "n < 16" for n
  proof
    assume "hex_char n = newline"
    then have "(of_char (hex_char n) :: nat) = of_char newline" by simp
    then show False using that by (simp add: hex_char_def newline_def split: if_splits)
  qed
  have "c \<noteq> newline" if "(of_char c :: nat) \<noteq> 10" using that by (auto simp: newline_def)
  moreover have "(of_char c :: nat) div 16 < 16" using nat_of_char_less_256 [of c] by linarith
  then have "hex_char (of_char c div 16) \<noteq> newline" "hex_char (of_char c mod 16) \<noteq> newline"
    using hex [of "of_char c div 16"] hex [of "of_char c mod 16"] by simp_all
  moreover have "newline \<noteq> CHR ''n''" "newline \<noteq> CHR ''r''" "newline \<noteq> CHR ''t''" "newline \<noteq> CHR ''f''"
    "newline \<noteq> CHR ''b''" "newline \<noteq> CHR ''u''" "newline \<noteq> CHR ''0''" "newline \<noteq> backslash" "newline \<noteq> quote_char"
    by (simp_all add: newline_def backslash_def quote_char_def)
  ultimately show ?thesis by (auto simp: escape_char_def Let_def one_line_def)
qed

lemma one_line_dump_string: "one_line (dump_string s)"
proof -
  have "one_line (concat (map escape_char s))"
    by (induction s) (simp_all add: one_line_escape, simp add: one_line_def)
  then show ?thesis by (simp add: dump_string_def one_line_Cons) (simp add: one_line_def quote_char_def newline_def)
qed

lemma one_line_join: "one_line sep \<Longrightarrow> \<forall>s \<in> set ss. one_line s \<Longrightarrow> one_line (str_join sep ss)"
proof (induction ss)
  case Nil
  then show ?case by (simp add: one_line_def)
next
  case (Cons s ss)
  then show ?case by (cases ss) simp_all
qed

lemma one_line_int: "one_line (show_int i)"
proof -
  have "one_line (show_nat n)" for n
  proof -
    have "\<not> is_decimal newline" by (simp add: newline_def is_decimal_def)
    then show ?thesis using show_nat_decimal [of newline n] by (auto simp: one_line_def)
  qed
  then show ?thesis by (simp add: show_int_def one_line_Cons newline_def)
qed

lemma one_line_dumps: "one_line (dumps j)"
proof (induction j)
  case (JArr xs)
  have "one_line (str_join '', '' (map dumps xs))"
    by (rule one_line_join) (use JArr in \<open>auto simp: one_line_def newline_def\<close>)
  then show ?case by (simp add: one_line_Cons) (simp add: one_line_def newline_def)
next
  case (JObj kvs)
  have "one_line (str_join '', '' (map (\<lambda>(k, v). dump_string k @ '': '' @ dumps v) kvs))"
    by (rule one_line_join) (use JObj one_line_dump_string in \<open>auto simp: one_line_def newline_def\<close>)
  then show ?case by (simp add: one_line_Cons) (simp add: one_line_def newline_def)
qed (simp_all add: one_line_int one_line_dump_string, simp_all add: one_line_def newline_def)

subsection \<open>Serving one connection\<close>

text \<open>\<open>readline\<close>: the line with its newline, and what follows it.\<close>

definition read_text_line :: "string \<Rightarrow> string \<times> string" where
  "read_text_line s =
     (let l = takeWhile (\<lambda>c. c \<noteq> newline) s
      in case dropWhile (\<lambda>c. c \<noteq> newline) s of [] \<Rightarrow> (l, []) | c # cs \<Rightarrow> (l @ [c], cs))"

text \<open>
  What \<open>_handle_rpc\<close> does with the bytes of one connection. A handler that blocks (\<open>ReadIndex\<close>,
  \<open>Forward\<close>) is taken to its first wait; \<open>read_poll\<close> and \<open>propose_poll\<close> go on from there, and
  \<open>read_answer\<close> and \<open>forward_answer\<close> give the reply. \<open>NoAnswer\<close>: the connection is closed without one. The answer is
  what the handler gives; that \<open>sendall\<close> fails after the handler has run, so that the caller does not get it, is the
  loss of a message, which the theories on clusters allow for.
\<close>

datatype rpc_outcome =
    NoAnswer
  | Answer string
  | AwaitRead read_wait
  | AwaitPropose forward_request log_entry

definition read_answer_text :: "read_response option \<Rightarrow> rpc_outcome" where
  "read_answer_text r = (case r of None \<Rightarrow> NoAnswer | Some x \<Rightarrow> Answer (encode (read_response_dict x)))"

definition forward_answer_text :: "json forward_response option \<Rightarrow> rpc_outcome" where
  "forward_answer_text r = (case r of None \<Rightarrow> NoAnswer | Some x \<Rightarrow> Answer (encode (forward_response_dict x)))"

text \<open>The table \<open>handlers\<close> and the call of the handler it names.\<close>

definition dispatch_rpc ::
  "'s raft_storage \<Rightarrow> (string \<Rightarrow> py_exn + forward_request) \<Rightarrow> (string \<Rightarrow> 'm \<Rightarrow> py_exn + 'm) option \<Rightarrow> time \<Rightarrow>
   string \<Rightarrow> string \<Rightarrow> ('s, json) engine \<times> 'm \<Rightarrow> (('s, json) engine \<times> 'm) \<times> rpc_outcome" where
  "dispatch_rpc R decode_forward restore now msg_type payload em =
     (let (e, m) = em in
         if msg_type = ''RequestVote'' then
           (case decode_request_vote_req payload of
              Inl _ \<Rightarrow> (em, NoAnswer)
            | Inr q \<Rightarrow> (case handle_request_vote R now q e of (e1, r) \<Rightarrow> ((e1, m), Answer (encode (vote_response_dict r)))))
         else if msg_type = ''AppendEntries'' then
           (case decode_append_entries_req payload of
              Inl _ \<Rightarrow> (em, NoAnswer)
            | Inr q \<Rightarrow> (case handle_append_entries R now q e of (e1, r) \<Rightarrow> ((e1, m), Answer (encode (append_response_dict r)))))
         else if msg_type = ''InstallSnapshot'' then
           (case decode_install_snapshot_req payload of
              Inl _ \<Rightarrow> (em, NoAnswer)
            | Inr q \<Rightarrow>
                (case handle_install_snapshot R restore now q em of
                   (e1, m1, None) \<Rightarrow> ((e1, m1), NoAnswer)
                 | (e1, m1, Some r) \<Rightarrow> ((e1, m1), Answer (encode (snapshot_response_dict r)))))
         else if msg_type = ''ReadIndex'' then
           (case decode_read_index_req payload of
              Inl _ \<Rightarrow> (em, NoAnswer)
            | Inr q \<Rightarrow>
                (case read_start e of
                   Inl err \<Rightarrow> (em, read_answer_text (read_answer (Inl err) e))
                 | Inr w \<Rightarrow> (em, AwaitRead w)))
         else if msg_type = ''Forward'' then
           (case decode_forward payload of
              Inl _ \<Rightarrow> (em, NoAnswer)
            | Inr q \<Rightarrow>
                (case propose_start R now (fq_command q) (fq_username q) (fq_request_id q) e of
                   (e1, Inl err) \<Rightarrow> ((e1, m), forward_answer_text (forward_answer (Inl err)))
                 | (e1, Inr x) \<Rightarrow> ((e1, m), AwaitPropose q x)))
         else if msg_type = ''TimeoutNow'' then
           (case decode_timeout_now_req payload of
              Inl _ \<Rightarrow> (em, NoAnswer)
            | Inr q \<Rightarrow> (case handle_timeout_now R now (tq_term q) e of (e1, t) \<Rightarrow> ((e1, m), Answer (encode (timeout_now_response_dict t)))))
         else (em, NoAnswer))"

definition handle_rpc ::
  "'s raft_storage \<Rightarrow> (string \<Rightarrow> py_exn + forward_request) \<Rightarrow> (string \<Rightarrow> 'm \<Rightarrow> py_exn + 'm) option \<Rightarrow> time \<Rightarrow> string \<Rightarrow>
   ('s, json) engine \<times> 'm \<Rightarrow> (('s, json) engine \<times> 'm) \<times> rpc_outcome" where
  "handle_rpc R decode_forward restore now input em =
     (let (line1, rest) = read_text_line input; (line2, _) = read_text_line rest;
          msg_type = str_strip line1; payload = str_strip line2
      in if \<not> running (fst em) \<or> msg_type = [] \<or> payload = [] then (em, NoAnswer)
         else dispatch_rpc R decode_forward restore now msg_type payload em)"

subsection \<open>Calling a peer\<close>

definition rpc_text :: "string \<Rightarrow> json \<Rightarrow> string" where
  "rpc_text msg_type j = msg_type @ [newline] @ encode j"

text \<open>
  \<open>_call\<close>: the transport takes host, port and request to the bytes that came back, or \<open>None\<close> when
  connecting, sending or waiting failed.
\<close>

definition rpc_call ::
  "string list \<Rightarrow> (string \<Rightarrow> int \<Rightarrow> string \<Rightarrow> string option) \<Rightarrow> (string \<Rightarrow> py_exn + 'a) \<Rightarrow>
   string \<Rightarrow> string \<Rightarrow> json \<Rightarrow> 'a option" where
  "rpc_call blocked transport decode address msg_type j =
     (if address \<in> set blocked then None
      else if CHR '':'' \<notin> set address then None
      else
        let (host, _, port) = str_rpartition (CHR '':'') address
        in case py_int port of
             Inl _ \<Rightarrow> None
           | Inr p \<Rightarrow>
               (case transport host p (rpc_text msg_type j) of
                  None \<Rightarrow> None
                | Some reply \<Rightarrow>
                    let (line, _) = read_text_line reply
                    in if line = [] then None
                       else (case decode line of Inl _ \<Rightarrow> None | Inr r \<Rightarrow> Some r)))"

lemma read_text_line_append: "one_line s \<Longrightarrow> read_text_line (s @ newline # t) = (s @ [newline], t)"
  by (simp add: read_text_line_def one_line_def takeWhile_append dropWhile_append Let_def)

lemma strip_object: "str_strip (dumps (JObj kvs) @ [newline]) = dumps (JObj kvs)"
  by (simp add: str_strip_def is_space_def newline_def)

definition plain_word :: "string \<Rightarrow> bool" where
  "plain_word w = (w \<noteq> [] \<and> list_all (\<lambda>c. \<not> is_space c) w)"

lemma strip_word: "plain_word w \<Longrightarrow> str_strip (w @ [newline]) = w"
proof -
  assume w: "plain_word w"
  then have ns: "\<forall>c \<in> set w. \<not> is_space c" and "w \<noteq> []" by (auto simp: plain_word_def list_all_iff)
  have d: "dropWhile is_space xs = xs" if "\<forall>c \<in> set xs. \<not> is_space c" for xs
    using that by (cases xs) auto
  have "dropWhile is_space (w @ [newline]) = w @ [newline]" using ns \<open>w \<noteq> []\<close> by (cases w) auto
  moreover have "is_space newline" by (simp add: is_space_def newline_def)
  ultimately show ?thesis using d [of "rev w"] ns by (simp add: str_strip_def)
qed

lemma plain_word_line: "plain_word w \<Longrightarrow> one_line w"
  by (auto simp: plain_word_def one_line_def list_all_iff is_space_def newline_def)

lemma plain_words [simp]: "plain_word ''RequestVote''" "plain_word ''AppendEntries''" "plain_word ''InstallSnapshot''"
  "plain_word ''ReadIndex''" "plain_word ''Forward''" "plain_word ''TimeoutNow''"
  by (simp_all add: plain_word_def is_space_def)

lemma strip_encode:
  "str_strip (encode (JObj kvs)) = dumps (JObj kvs)" "dumps (JObj kvs) \<noteq> []"
  using strip_object [of kvs] by (simp_all add: encode_def)

lemma handle_rpc_text:
  assumes "running e" and "plain_word w" and "j = JObj kvs"
  shows "handle_rpc R df restore now (rpc_text w j) (e, m) = dispatch_rpc R df restore now w (dumps j) (e, m)"
proof -
  have "read_text_line (rpc_text w j) = (w @ [newline], encode j)" "read_text_line (encode j) = (encode j, [])"
    using read_text_line_append [OF plain_word_line [OF assms(2)], of "encode j"]
      read_text_line_append [OF one_line_dumps, of j "[]"]
    by (simp_all add: rpc_text_def encode_def)
  moreover have "w \<noteq> []" using assms(2) by (simp add: plain_word_def)
  ultimately show ?thesis
    using assms(1) strip_word [OF assms(2)] strip_encode [of kvs] by (simp add: handle_rpc_def assms(3) Let_def)
qed

lemma handle_rpc_requests:
  assumes "running e"
  shows "handle_rpc R df restore now (rpc_text ''RequestVote'' (vote_request_dict vq)) (e, m) =
      dispatch_rpc R df restore now ''RequestVote'' (dumps (vote_request_dict vq)) (e, m)"
    and "handle_rpc R df restore now (rpc_text ''AppendEntries'' (append_request_dict aq)) (e, m) =
      dispatch_rpc R df restore now ''AppendEntries'' (dumps (append_request_dict aq)) (e, m)"
    and "handle_rpc R df restore now (rpc_text ''TimeoutNow'' (timeout_now_request_dict tq)) (e, m) =
      dispatch_rpc R df restore now ''TimeoutNow'' (dumps (timeout_now_request_dict tq)) (e, m)"
  by (rule handle_rpc_text [OF assms plain_words(1) vote_request_dict_def])
    (rule handle_rpc_text [OF assms plain_words(2) append_request_dict_def],
     rule handle_rpc_text [OF assms plain_words(6) timeout_now_request_dict_def])

lemma decode_dumps:
  "decode_request_vote_req (dumps (vote_request_dict vq)) = Inr vq"
  "decode_append_entries_req (dumps (append_request_dict aq)) = Inr aq"
  "decode_timeout_now_req (dumps (timeout_now_request_dict tq)) = Inr tq"
  using vote_request_round_trip [of vq] append_request_round_trip [of aq] timeout_now_request_round_trip [of tq]
  by (simp_all only: decode_request_vote_req_def decode_append_entries_req_def decode_timeout_now_req_def
      loads_encode [OF wf_dicts(1)] loads_dumps [OF wf_dicts(1)] loads_encode [OF wf_dicts(3)]
      loads_dumps [OF wf_dicts(3)] loads_encode [OF wf_dicts(9)] loads_dumps [OF wf_dicts(9)])

text \<open>
  C28: the wire adds nothing. A RequestVote, AppendEntries or TimeoutNow request that a node writes on a
  connection reaches the peer's handler as it was, and the peer's answer is read back as it was
  given.
\<close>

theorem rpc_over_the_wire:
  assumes "running e"
  shows "handle_rpc R df restore now (rpc_text ''RequestVote'' (vote_request_dict vq)) (e, m) =
           ((fst (handle_request_vote R now vq e), m), Answer (encode (vote_response_dict (snd (handle_request_vote R now vq e))))) \<and>
         handle_rpc R df restore now (rpc_text ''AppendEntries'' (append_request_dict aq)) (e, m) =
           ((fst (handle_append_entries R now aq e), m), Answer (encode (append_response_dict (snd (handle_append_entries R now aq e))))) \<and>
         handle_rpc R df restore now (rpc_text ''TimeoutNow'' (timeout_now_request_dict tq)) (e, m) =
           ((fst (handle_timeout_now R now (tq_term tq) e), m),
            Answer (encode (timeout_now_response_dict (snd (handle_timeout_now R now (tq_term tq) e))))) \<and>
         decode_request_vote_resp (encode (vote_response_dict vr)) = Inr vr \<and>
         decode_append_entries_resp (encode (append_response_dict ar)) = Inr ar \<and>
         decode_timeout_now_resp (encode (timeout_now_response_dict t)) = Inr t"
  unfolding handle_rpc_requests [OF assms] dispatch_rpc_def Let_def prod.case decode_dumps
  by (simp add: vote_response_round_trip append_response_round_trip timeout_now_response_round_trip case_prod_beta)

definition demo_engine :: "(mem_storage, json) engine" where
  "demo_engine = start_engine memory_storage 0 (new_engine memory_storage 0 ''a'' ''h:1''
     [\<lparr>member_id = ''a'', raft_address = ''h:1'', client_address = []\<rparr>,
      \<lparr>member_id = ''b'', raft_address = ''h:2'', client_address = []\<rparr>] (1500000, 3000000) 1000 mem_init)"

lemma demo_engine_running: "running demo_engine"
  by (simp add: demo_engine_def start_engine_def Let_def start_election_def)

theorem rpc_over_the_wire_witness:
  "snd (handle_rpc memory_storage (\<lambda>_. Inl TypeError) None 0
     (rpc_text ''RequestVote'' (vote_request_dict \<lparr>vq_term = 1, vq_candidate_id = ''b'', vq_last_log_index = 0,
        vq_last_log_term = 0, vq_pre_vote = True, vq_transfer = False\<rparr>)) (demo_engine, ())) =
   Answer (encode (vote_response_dict \<lparr>vr_term = 0, vr_granted = True\<rparr>))"
proof -
  let ?q = "\<lparr>vq_term = 1, vq_candidate_id = ''b'', vq_last_log_index = 0, vq_last_log_term = 0, vq_pre_vote = True, vq_transfer = False\<rparr>"
  have "snd (handle_request_vote memory_storage 0 ?q demo_engine) = \<lparr>vr_term = 0, vr_granted = True\<rparr>" by code_simp
  then show ?thesis
    using rpc_over_the_wire [OF demo_engine_running, of memory_storage "\<lambda>_. Inl TypeError" None 0 ?q "()"] by simp
qed

end
