(* ===== verification/Raft_Theorems.thy ===== *)
theory Raft_Theorems
  imports Raft_Cluster Raft_Rpc
begin

section \<open>Properties of one Raft node\<close>

text \<open>
  What holds of every run of one engine, whatever the other nodes, the network and the clients do,
  and what its replication, snapshot and read sections compute.
\<close>

subsection \<open>Runs\<close>

fun run_events :: "'s raft_storage \<Rightarrow> (time \<times> 'r event) list \<Rightarrow> ('s, 'r) engine \<Rightarrow> ('s, 'r) engine" where
  "run_events R [] e = e"
| "run_events R ((now, ev) # evs) e = run_events R evs (run_event R now ev e)"

fun valid_run :: "'s raft_storage \<Rightarrow> (time \<times> 'r event) list \<Rightarrow> ('s, 'r) engine \<Rightarrow> bool" where
  "valid_run R [] e = True"
| "valid_run R ((now, ev) # evs) e = (valid_event ev e \<and> valid_run R evs (run_event R now ev e))"

lemma run_events_tv: "tv_le (tv e) (tv (run_events R evs e))"
proof (induction R evs e rule: run_events.induct)
  case (2 R now ev evs e)
  then show ?case using tv_le_trans [OF run_event_tv] by simp
qed simp

text \<open>
  C26: whatever happens to a node, its term never falls, and while the term stays the same, a vote
  that was given is not changed.
\<close>

theorem terms_never_fall:
  "current_term (node e) \<le> current_term (node (run_events R evs e)) \<and>
   (current_term (node (run_events R evs e)) = current_term (node e) \<longrightarrow> voted_for (node e) \<noteq> None \<longrightarrow>
      voted_for (node (run_events R evs e)) = voted_for (node e))"
  using run_events_tv [of e R evs] by (auto simp: tv_le_def)


text \<open>A node has a configuration, whatever happens to it.\<close>

lemma config_at_known: "snapshot_config n \<noteq> None \<Longrightarrow> config_at n i \<noteq> None"
  by (simp add: config_at_def split: option.split)

fun keeps_config :: "'r event \<Rightarrow> bool" where
  "keeps_config (EvInstall q) = False"
| "keeps_config (EvApplied i x r) = False"
| "keeps_config ev = True"

lemma run_event_keeps_config:
  "keeps_config ev \<Longrightarrow> snapshot_config (node (run_event R now ev e)) = snapshot_config (node e)"
  by (cases ev; simp add: event_sections start_election_def Let_def become_candidate_def
     split: option.split list.split waiter.split prod.split chunk_result.split sum.split)

lemma run_event_config:
  assumes "snapshot_config (node e) \<noteq> None"
  shows "snapshot_config (node (run_event R now ev e)) \<noteq> None"
proof (cases "keeps_config ev")
  case True
  then show ?thesis using assms by (simp add: run_event_keeps_config)
next
  case False
  have keeps: "snapshot_config (node (maybe_snapshot R e')) \<noteq> None" if "snapshot_config (node e') \<noteq> None" for e'
    using that config_at_known [OF that, of "last_applied (node e')"]
    by (auto simp: maybe_snapshot_def compact_through_def Let_def split: option.split)
  from False show ?thesis
  proof (cases ev)
    case (EvApplied i x r)
    show ?thesis unfolding EvApplied run_event.simps apply_done_def Let_def
      by (rule keeps) (use assms in simp)
  qed (simp_all add: install_snapshot_def compact_through_def Let_def)
qed

lemma run_events_config:
  "snapshot_config (node e) \<noteq> None \<Longrightarrow> snapshot_config (node (run_events R evs e)) \<noteq> None"
proof (induction evs arbitrary: e)
  case (Cons p evs)
  obtain now ev where "p = (now, ev)" by fastforce
  then show ?case using Cons.IH [OF run_event_config [OF Cons.prems]] by simp
qed simp

context raft_storage_laws
begin

lemma eok_run_events: "eok e \<Longrightarrow> valid_run R evs e \<Longrightarrow> eok (run_events R evs e)"
proof (induction evs arbitrary: e)
  case (Cons p evs)
  obtain now ev where "p = (now, ev)" by fastforce
  then show ?case using Cons by (simp add: eok_run_event)
qed simp

lemma new_engine_ok:
  assumes "stored_ok s"
  shows "eok (new_engine R now i addr boot timeouts threshold s)"
    and "snapshot_config (node (new_engine R now i addr boot timeouts threshold s)) \<noteq> None"
proof -
  let ?p = "load_op R s"
  let ?s = "save_snapshot_op R (p_snapshot_index ?p) (p_snapshot_term ?p) (max (p_last_applied ?p) (p_snapshot_index ?p)) (Some boot) s"
  have s: "stored_ok ?s" "load_op R ?s = ?p\<lparr>p_last_applied := max (p_last_applied ?p) (p_snapshot_index ?p), p_snapshot_config := Some boot\<rparr>"
    using snapshot_ok [OF assms, of "p_snapshot_index ?p"] load_snapshot [OF assms, of "p_snapshot_index ?p"] by simp_all
  have w: "wf_pstate ?p" using assms by (rule load_wf)
  show "eok (new_engine R now i addr boot timeouts threshold s)"
    using s assms w by (auto simp: new_engine_def restore_persistent_state_def Let_def engine_ok_def mirrors_def
        wf_log_def wf_pstate_def consecutive_def initial_node_def)
  show "snapshot_config (node (new_engine R now i addr boot timeouts threshold s)) \<noteq> None"
    by (auto simp: new_engine_def restore_persistent_state_def Let_def)
qed

lemma restart_after_run:
  fixes e :: "('s, 'r) engine"
  assumes "stored_ok s" and "valid_run R evs (new_engine R now0 i addr boot timeouts threshold s)"
  defines "e \<equiv> run_events R evs (new_engine R now0 i addr boot timeouts threshold s)"
  shows "core (node (restart R now e)) = core (node e)" and "role (node (restart R now e)) = FOLLOWER"
    and "storage (restart R now e) = storage e"
proof -
  have "eok e" unfolding e_def by (rule eok_run_events [OF new_engine_ok(1) [OF assms(1)] assms(2)])
  then have m: "mirrors R stored_ok (node e) (storage e)" by (simp add: engine_ok_def)
  have "snapshot_config (node e) \<noteq> None" unfolding e_def by (rule run_events_config [OF new_engine_ok(2) [OF assms(1)]])
  then obtain ms where c: "snapshot_config (node e) = Some ms" by blast
  show "core (node (restart R now e)) = core (node e)" "role (node (restart R now e)) = FOLLOWER"
    "storage (restart R now e) = storage e"
    using restored_fields [OF m c restart_def [of R now e, unfolded atomize_eq]] by blast+
qed

end

text \<open>
  C11: nothing that a node must remember is lost by a crash between two critical sections. A node
  that is restarted from its storage, after any run from any stored state, has the term, the vote,
  the log and the snapshot boundary with the membership it had, and is a follower.
\<close>

theorem restart_restores:
  fixes R :: "'s raft_storage" and evs :: "(time \<times> 'r event) list"
  assumes "raft_storage_laws R ok" and "ok s"
    and "valid_run R evs (new_engine R now0 i addr boot timeouts threshold s)"
  shows "let e = run_events R evs (new_engine R now0 i addr boot timeouts threshold s);
             n = node e; r = node (restart R now e)
         in current_term r = current_term n \<and> voted_for r = voted_for n \<and> log r = log n \<and>
            snapshot_index r = snapshot_index n \<and> snapshot_term r = snapshot_term n \<and>
            snapshot_config r = snapshot_config n \<and> role r = FOLLOWER"
  using raft_storage_laws.restart_after_run [OF assms, of now] by (simp add: core_def Let_def)

subsection \<open>Elections\<close>

text \<open>
  What can happen to a node that is not leader, in term \<open>t\<close>, while no candidate and no leader of its own or a later
  term reaches it: its timer expires, its pre-votes are answered, others ask it for pre-votes, clients propose, and
  late messages and answers of earlier terms come in.
\<close>

fun unsupported :: "int \<Rightarrow> 'r event \<Rightarrow> bool" where
  "unsupported t (EvElectionTimeout g) = True"
| "unsupported t (EvPreVoteReply p g v) = (vr_term v \<le> t)"
| "unsupported t (EvVoteReply p q v) = (vr_term v \<le> t \<and> (vr_granted v \<longrightarrow> vq_term q \<noteq> t))"
| "unsupported t (EvRequestVote q) = (vq_pre_vote q \<or> vq_term q < t)"
| "unsupported t (EvTimeoutNow u) = (u < t)"
| "unsupported t (EvCheckQuorum u) = True"
| "unsupported t (EvReplicate p u w) = True"
| "unsupported t (EvEntriesReply p u s q a) = (ar_term a \<le> t)"
| "unsupported t (EvSnapshotReply p u s a) = (sr_term a \<le> t)"
| "unsupported t (EvSnapshotDone p u i) = True"
| "unsupported t (EvAppend q) = (aq_term q < t)"
| "unsupported t (EvChunk q) = (sq_term q < t)"
| "unsupported t (EvPropose c u r) = True"
| "unsupported t (EvProposePoll l x) = True"
| "unsupported t ev = False"

text \<open>Who granted a pre-vote of round \<open>g\<close>.\<close>

fun granters :: "int \<Rightarrow> (time \<times> 'r event) list \<Rightarrow> string list" where
  "granters g [] = []"
| "granters g ((now, ev) # evs) =
     (case ev of EvPreVoteReply p h v \<Rightarrow> if h = g \<and> vr_granted v then [member_id p] else [] | _ \<Rightarrow> []) @ granters g evs"

definition supporters :: "int \<Rightarrow> (time \<times> 'r event) list \<Rightarrow> ('s, 'r) engine \<Rightarrow> string list" where
  "supporters g evs e = node_id e # dict_get (grants e) g [] @ granters g evs"

lemma count_votes_mono:
  "set vs \<subseteq> set ws \<Longrightarrow> members e = members f \<Longrightarrow> count_votes vs e \<le> count_votes ws f"
proof -
  assume s: "set vs \<subseteq> set ws" and m: "members e = members f"
  have "filter (\<lambda>m. m \<in> set vs) xs = filter (\<lambda>m. m \<in> set vs) (filter (\<lambda>m. m \<in> set ws) xs)" for xs
    using s by (induction xs) auto
  then show ?thesis unfolding count_votes_def m by (metis length_filter_le)
qed

lemma unsupported_step:
  assumes "unsupported (current_term (node e)) ev" and "peers_of e \<noteq> []" and "role (node e) \<noteq> LEADER"
    and "\<And>g. count_votes (supporters g [(now, ev)] e) e < majority e"
  shows "node (run_event R now ev e) = node e \<and> storage (run_event R now ev e) = storage e \<and>
    members (run_event R now ev e) = members e \<and> node_id (run_event R now ev e) = node_id e \<and>
    (\<forall>g. set (dict_get (grants (run_event R now ev e)) g []) \<subseteq> set (supporters g [(now, ev)] e))"
proof (cases ev)
  case (EvElectionTimeout g)
  then show ?thesis using assms(2,3)
    by (auto simp: start_election_def Let_def reset_election_timer_def emit_def supporters_def)
next
  case (EvPreVoteReply p g v)
  define gs where "gs = List.insert (member_id p) (dict_get (grants e) g [])"
  have "count_votes gs (e\<lparr>grants := dict_set (grants e) g gs\<rparr>) < majority e" if "vr_granted v"
  proof -
    have "set gs \<subseteq> set (supporters g [(now, ev)] e)" using that EvPreVoteReply by (auto simp: gs_def supporters_def)
    then have "count_votes gs (e\<lparr>grants := dict_set (grants e) g gs\<rparr>) \<le> count_votes (supporters g [(now, ev)] e) e"
      by (rule count_votes_mono) simp
    then show ?thesis using assms(4) [of g] by simp
  qed
  then have "\<not> majority (e\<lparr>grants := dict_set (grants e) g gs\<rparr>) \<le> count_votes gs (e\<lparr>grants := dict_set (grants e) g gs\<rparr>)"
    if "vr_granted v" using that by (simp add: majority_def)
  then show ?thesis using assms(1) EvPreVoteReply
    by (auto simp: pre_vote_reply_def Let_def supporters_def gs_def)
qed (use assms in \<open>auto simp: event_sections Let_def supporters_def in_leader_lease_def split: waiter.splits\<close>)


subsection \<open>Proposals\<close>

fun keeps_waiters :: "'r event \<Rightarrow> bool" where
  "keeps_waiters (EvApplied i x r) = False"
| "keeps_waiters (EvPropose c u r) = False"
| "keeps_waiters (EvProposePoll l x) = False"
| "keeps_waiters ev = True"

lemma run_event_keeps_waiters: "keeps_waiters ev \<Longrightarrow> waiters (run_event R now ev e) = waiters e"
  by (cases ev; simp add: event_sections start_election_def Let_def become_candidate_def
     split: option.split list.split waiter.split prod.split chunk_result.split sum.split)

lemma waiters_maybe_snapshot [simp]: "waiters (maybe_snapshot R e) = waiters e"
  by (simp add: maybe_snapshot_def Let_def split: option.split)

lemma run_event_waiters:
  assumes "map_of (waiters (run_event R now ev e)) i = Some (Applied t r)"
  shows "map_of (waiters e) i = Some (Applied t r) \<or> (\<exists>x. ev = EvApplied i x r \<and> e_term x = t)"
proof (cases "keeps_waiters ev")
  case True
  then show ?thesis using assms by (simp add: run_event_keeps_waiters)
next
  case False
  then show ?thesis
  proof (cases ev)
    case (EvApplied j x r')
    then show ?thesis using assms by (auto simp: apply_done_def Let_def split: if_splits)
  next
    case (EvPropose c u rid)
    then show ?thesis using assms by (auto simp: propose_start_def Let_def split: if_splits)
  next
    case (EvProposePoll l x)
    then show ?thesis using assms
      by (auto simp: propose_poll_def Let_def split: waiter.splits if_splits)
  qed simp_all
qed

lemma run_events_waiters:
  assumes "map_of (waiters (run_events R evs e)) i = Some (Applied t r)"
  shows "map_of (waiters e) i = Some (Applied t r) \<or> (\<exists>now x. (now, EvApplied i x r) \<in> set evs \<and> e_term x = t)"
  using assms
proof (induction evs arbitrary: e)
  case (Cons p evs)
  obtain now ev where p: "p = (now, ev)" by fastforce
  with Cons.IH [of "run_event R now ev e"] Cons.prems
  show ?case using run_event_waiters [of R now ev e i t r] by auto
qed simp

text \<open>
  C14: a write is acknowledged only after it was applied. When \<open>propose\<close> returns a result for the
  entry it appended, the node has applied, since then, an entry with that index and that term, and
  the result is that of its application.
\<close>

theorem acknowledged_is_applied:
  assumes "propose_start R now c u rid e0 = (e1, Inr x)"
    and "propose_poll late x (run_events R evs e1) = (e2, Return r)"
  shows "\<exists>now y. (now, EvApplied (e_index x) y r) \<in> set evs \<and> e_term y = e_term x \<and>
    e_command x = c \<and> e_username x = u \<and> e_request_id x = rid \<and> e_index x = last_log_index (node e0) + 1"
proof -
  have x: "e_command x = c \<and> e_username x = u \<and> e_request_id x = rid \<and> e_index x = last_log_index (node e0) + 1"
    and p: "map_of (waiters e1) (e_index x) = Some Pending"
    using assms(1) by (auto simp: propose_start_def Let_def split: if_splits)
  have "map_of (waiters (run_events R evs e1)) (e_index x) = Some (Applied (e_term x) r)"
    using assms(2) by (auto simp: propose_poll_def Let_def dict_get_def split: waiter.splits if_splits option.splits)
  then show ?thesis using run_events_waiters [of R evs e1 "e_index x" "e_term x" r] p x by auto
qed


subsection \<open>Runs of a node\<close>

definition lone_engine :: "(mem_storage, int) engine" where
  "lone_engine = new_engine memory_storage 0 ''a'' ''h:1''
     [\<lparr>member_id = ''a'', raft_address = ''h:1'', client_address = []\<rparr>] (1500000, 3000000) 1000 mem_init"

text \<open>A lone node starts, leads, and is given two writes; it applies its no-op and the first one.\<close>

definition lone_run :: "(time \<times> int event) list" where
  "lone_run = [(0, EvStart), (0, EvPropose ''SET k v'' ''u'' ''c:1''), (0, EvPropose ''SET k w'' ''u'' ''c:2''),
     (0, EvApplied 1 \<lparr>e_term = 1, e_index = 1, e_command = noop_command, e_username = [], e_request_id = []\<rparr> 0),
     (0, EvApplied 2 \<lparr>e_term = 1, e_index = 2, e_command = ''SET k v'', e_username = ''u'', e_request_id = ''c:1''\<rparr> 7)]"

lemma mem_init_ok: "mem_ok mem_init"
  by (simp add: mem_ok_def mem_init_def mem_last_def)

theorem restart_restores_witness:
  "voted_for (node (restart memory_storage 5 (run_events memory_storage lone_run lone_engine))) = Some ''a'' \<and>
   length (log (node (restart memory_storage 5 (run_events memory_storage lone_run lone_engine)))) = 3"
proof -
  have "valid_run memory_storage lone_run lone_engine" by code_simp
  moreover have "voted_for (node (run_events memory_storage lone_run lone_engine)) = Some ''a'' \<and>
      length (log (node (run_events memory_storage lone_run lone_engine))) = 3" by code_simp
  ultimately show ?thesis
    using restart_restores [OF mem.raft_storage_laws_axioms mem_init_ok, of lone_run 0 "''a''" "''h:1''" _ "(1500000, 3000000)" 1000 5]
    by (simp add: lone_engine_def Let_def)
qed

text \<open>A node of five asks for pre-votes twice and gets one each time; a client proposes in between.\<close>

definition five_engine :: "(mem_storage, int) engine" where
  "five_engine = start_engine memory_storage 0 (new_engine memory_storage 0 ''a'' ''h:1''
     (map (\<lambda>i. \<lparr>member_id = i, raft_address = i, client_address = []\<rparr>) [''a'', ''b'', ''c'', ''d'', ''e''])
     (1500000, 3000000) 1000 mem_init)"

definition cut_off_run :: "(time \<times> int event) list" where
  "cut_off_run = [(2, EvElectionTimeout 1),
     (3, EvPreVoteReply \<lparr>member_id = ''b'', raft_address = ''b'', client_address = []\<rparr> 2 \<lparr>vr_term = 0, vr_granted = True\<rparr>),
     (4, EvPropose ''SET k v'' ''u'' ''c:1''), (5, EvElectionTimeout 2),
     (6, EvPreVoteReply \<lparr>member_id = ''c'', raft_address = ''c'', client_address = []\<rparr> 3 \<lparr>vr_term = 0, vr_granted = True\<rparr>)]"


theorem acknowledged_is_applied_witness:
  "\<exists>now y. (now, EvApplied 2 y 7) \<in> set (drop 2 lone_run) \<and> e_term y = 1"
proof -
  let ?e0 = "run_event memory_storage 0 EvStart lone_engine"
  let ?x = "\<lparr>e_term = 1, e_index = 2, e_command = ''SET k v'', e_username = ''u'', e_request_id = ''c:1''\<rparr>"
  let ?p = "propose_start memory_storage 0 ''SET k v'' ''u'' ''c:1'' ?e0"
  have 1: "snd ?p = Inr ?x" by code_simp
  then have p: "?p = (fst ?p, Inr ?x)" by (metis prod.collapse)
  have 2: "snd (propose_poll False ?x (run_events memory_storage (drop 2 lone_run) (fst ?p))) = Return 7" by code_simp
  then have q: "propose_poll False ?x (run_events memory_storage (drop 2 lone_run) (fst ?p)) =
      (fst (propose_poll False ?x (run_events memory_storage (drop 2 lone_run) (fst ?p))), Return 7)"
    by (metis prod.collapse)
  show ?thesis using acknowledged_is_applied [OF p q] by auto
qed

subsection \<open>Committing\<close>

lemma scan_commit_Some:
  assumes "scan_commit e is = Some i"
  shows "i \<in> set is \<and> term_at (node e) i = Some (current_term (node e)) \<and> majority e \<le> replicas i e"
  using assms by (induction "is") (auto split: if_splits)

text \<open>Scanned downwards: what is not found has no majority, or lies below an entry of another term.\<close>

lemma scan_commit_rest:
  assumes "sorted_wrt (>) is" and "\<And>i j. i \<in> set is \<Longrightarrow> j \<in> set is \<Longrightarrow> i \<le> j \<Longrightarrow>
      term_at (node e) i = Some (current_term (node e)) \<Longrightarrow> term_at (node e) j = Some (current_term (node e))"
    and "j \<in> set is" and "term_at (node e) j = Some (current_term (node e))" and "majority e \<le> replicas j e"
  shows "\<exists>i. scan_commit e is = Some i \<and> j \<le> i"
  using assms
proof (induction "is")
  case (Cons k ks)
  have k: "\<forall>i \<in> set ks. i < k" using Cons.prems(1) by simp
  have tk: "term_at (node e) k = Some (current_term (node e))"
    using Cons.prems(2) [of j k] Cons.prems(3,4) k by force
  show ?case
  proof (cases "majority e \<le> replicas k e")
    case True
    then show ?thesis using tk Cons.prems(3) k by force
  next
    case False
    then have "j \<in> set ks" using Cons.prems(3,5) by auto
    then have "\<exists>i. scan_commit e ks = Some i \<and> j \<le> i"
      using Cons.prems by (intro Cons.IH) auto
    then show ?thesis using False tk by simp
  qed
qed simp

text \<open>The terms of a log never decrease and do not exceed the current term.\<close>

definition terms_sorted :: "raft_node \<Rightarrow> bool" where
  "terms_sorted n =
     (\<forall>i j s t. i \<le> j \<longrightarrow> term_at n i = Some s \<longrightarrow> term_at n j = Some t \<longrightarrow> s \<le> t \<and> t \<le> current_term n)"

text \<open>
  \<open>advance_commit_index\<close> moves the commit index to the last entry of the leader's own term that a majority of the
  members stores, if there is a new one, and changes nothing else.
\<close>

lemma advance_commit_to:
  assumes "role (node e) = LEADER" and "terms_sorted (node e)"
  shows "advance_commit_index e = e\<lparr>node := (node e)\<lparr>commit_index :=
     Max (insert (commit_index (node e))
            {i. commit_index (node e) < i \<and> i \<le> last_log_index (node e) \<and>
                term_at (node e) i = Some (current_term (node e)) \<and> majority e \<le> replicas i e})\<rparr>\<rparr>"
    (is "_ = e\<lparr>node := (node e)\<lparr>commit_index := Max (insert ?c ?S)\<rparr>\<rparr>")
proof -
  let ?is = "rev [?c + 1 .. last_log_index (node e)]"
  have S: "?S \<subseteq> set ?is" "finite ?S" by (auto intro: finite_subset [of _ "set ?is"])
  have sorted: "sorted_wrt (>) ?is"
    by (simp add: sorted_wrt_rev)
  have up: "term_at (node e) j = Some (current_term (node e))"
    if "i \<in> set ?is" "j \<in> set ?is" "i \<le> j" "term_at (node e) i = Some (current_term (node e))" for i j
  proof -
    have "i \<le> last_log_index (node e)" "snapshot_index (node e) \<le> i" "j \<le> last_log_index (node e)"
      using that term_at_None [of "node e" i] by auto
    then have "term_at (node e) j \<noteq> None" using \<open>i \<le> j\<close> term_at_None [of "node e" j] by simp
    then obtain t where "term_at (node e) j = Some t" by blast
    moreover from this have "current_term (node e) \<le> t \<and> t \<le> current_term (node e)"
      using assms(2) that(3,4) unfolding terms_sorted_def by blast
    ultimately show ?thesis by simp
  qed
  show ?thesis
  proof (cases "scan_commit e ?is")
    case None
    have "?S = {}" using scan_commit_rest [OF sorted up] None by force
    then have "Max (insert ?c ?S) = ?c" by (simp only: Max_singleton)
    then show ?thesis using None assms(1) by (simp add: advance_commit_index_def)
  next
    case (Some i)
    have i: "i \<in> ?S" using scan_commit_Some [OF Some] by auto
    have "j \<le> i" if "j \<in> ?S" for j
      using scan_commit_rest [OF sorted up, where j = j] that Some by force
    then have "Max (insert ?c ?S) = i" using i S(2) by (intro Max_eqI) auto
    then show ?thesis using Some assms(1) by (simp add: advance_commit_index_def)
  qed
qed

definition lone_leader :: "(mem_storage, int) engine" where
  "lone_leader = (let e = run_events memory_storage (take 2 lone_run) lone_engine
     in e\<lparr>node := (node e)\<lparr>commit_index := 0\<rparr>\<rparr>)"

subsection \<open>Receiving entries\<close>

lemma entry_at_log:
  "entry_at n j = (if snapshot_index n < j \<and> j \<le> last_log_index n
     then Some (log n ! nat (j - snapshot_index n - 1)) else None)"
  using entry_at_nth [of n j] entry_at_None [of n j] by (auto simp: in_log_def last_log_index_def)

text \<open>
  What \<open>append_new\<close> makes of the log: the first \<open>k\<close> entries agree with ours, and if that is not all
  of them, the rest replaces whatever we have from there on.
\<close>

lemma append_new_entries:
  fixes R :: "'s raft_storage" and now :: time and e :: "('s, 'r) engine"
  assumes "consecutive i es" and "snapshot_index (node e) < i" and "i \<le> last_log_index (node e) + 1"
  defines "n \<equiv> node e" and "n' \<equiv> node (append_new R now es e)"
  obtains k where "k \<le> length es" and "\<forall>j < k. term_at n (i + int j) = Some (e_term (es ! j))"
    and "k = length es \<longrightarrow> log n' = log n"
    and "k < length es \<longrightarrow> last_log_index n' = i + int (length es) - 1"
    and "k < length es \<longrightarrow> (\<forall>j. entry_at n' j = (if j < i + int k then entry_at n j
           else if j < i + int (length es) then Some (es ! nat (j - i)) else None))"
    and "k < length es \<and> i + int k \<le> last_log_index n \<longrightarrow> term_at n (i + int k) \<noteq> Some (e_term (es ! k))"
proof -
  obtain k where k: "k \<le> length es" "i + int k \<le> last_log_index n + 1"
    "\<forall>j < k. term_at n (i + int j) = Some (e_term (es ! j))"
    "log n' = (if k = length es then log n else take (nat (i + int k - snapshot_index n - 1)) (log n) @ drop k es)"
    "k < length es \<Longrightarrow> i + int k \<le> last_log_index n \<Longrightarrow> term_at n (i + int k) \<noteq> Some (e_term (es ! k))"
    unfolding n_def n'_def using append_new_log [OF assms(1-3), of R now] by metis
  have s: "snapshot_index n' = snapshot_index n" by (simp add: n_def n'_def)
  let ?m = "nat (i + int k - snapshot_index n - 1)"
  have m: "?m \<le> length (log n)" "int ?m = i + int k - snapshot_index n - 1"
    using assms(2) k(2) by (auto simp: n_def last_log_index_def)
  have l: "last_log_index n' = i + int (length es) - 1" if "k < length es"
    using that k(4) m s by (simp add: last_log_index_def)
  have "entry_at n' j = (if j < i + int k then entry_at n j
      else if j < i + int (length es) then Some (es ! nat (j - i)) else None)" if "k < length es" for j
  proof (cases "j < i + int k")
    case True
    have "log n' ! nat (j - snapshot_index n - 1) = log n ! nat (j - snapshot_index n - 1)" if "snapshot_index n < j"
      using that True k(4) \<open>k < length es\<close> m by (simp add: nth_append)
    moreover have "j \<le> last_log_index n" "j \<le> last_log_index n'" using True k(2) l \<open>k < length es\<close> by simp_all
    ultimately show ?thesis using True s by (simp add: entry_at_log)
  next
    case False
    have "log n' ! nat (j - snapshot_index n - 1) = es ! nat (j - i)" if "j < i + int (length es)"
    proof -
      have e: "nat (j - snapshot_index n - 1) = ?m + nat (j - i - int k)" "nat (j - i) = k + nat (j - i - int k)"
        using False m(2) by linarith+
      have "log n' ! (?m + nat (j - i - int k)) = drop k es ! nat (j - i - int k)"
        using k(4) \<open>k < length es\<close> m(1) by (simp add: nth_append)
      then show ?thesis using k(1) by (simp add: e)
    qed
    moreover have "snapshot_index n < j" using False assms(2) by (simp add: n_def)
    ultimately show ?thesis using False s l \<open>k < length es\<close> by (simp add: entry_at_log)
  qed
  then show ?thesis using that [OF k(1,3)] k(4,5) l by simp
qed

text \<open>
  The entries of a request that lie above our snapshot, and where they begin.
\<close>

definition fresh_part :: "append_request \<Rightarrow> raft_node \<Rightarrow> log_entry list \<times> int \<times> int option" where
  "fresh_part q n =
     (if aq_prev_log_index q < snapshot_index n
      then (py_drop (snapshot_index n - aq_prev_log_index q) (aq_entries q), snapshot_index n, Some (snapshot_term n))
      else (aq_entries q, aq_prev_log_index q, aq_prev_log_term q))"

lemma fresh_part_entries:
  assumes "fresh_part q n = (es, p, pt)" and "consecutive (aq_prev_log_index q + 1) (aq_entries q)"
  shows "p = max (aq_prev_log_index q) (snapshot_index n)" and "consecutive (p + 1) es"
    and "es = drop (nat (p - aq_prev_log_index q)) (aq_entries q)"
  using assms consecutive_drop [OF assms(2), of "nat (snapshot_index n - aq_prev_log_index q)"]
  by (auto simp: fresh_part_def py_drop_nonneg algebra_simps split: if_splits)

lemma append_entries_success:
  fixes e :: "('s, 'r) engine"
  assumes "handle_append_entries R now q e = (e', r)" and "ar_success r" and "fresh_part q (node e) = (es, p, pt)"
  shows "\<exists>(e1 :: ('s, 'r) engine) c. node e' = (node (append_new R now es e1))\<lparr>commit_index := c\<rparr> \<and>
      log (node e1) = log (node e) \<and> snapshot_index (node e1) = snapshot_index (node e) \<and>
      snapshot_term (node e1) = snapshot_term (node e) \<and> p \<le> last_log_index (node e) \<and>
      term_at (node e) p = pt \<and> commit_index (node e) \<le> c \<and>
      c \<le> max (commit_index (node e)) (p + int (length es)) \<and> ar_match_index r = p + int (length es)"
proof -
  have q: "\<not> aq_term q < current_term (node e)" using assms(1,2) by (auto simp: handle_append_entries_def)
  let ?e1 = "accept_leader R now (aq_term q) (aq_leader_id q) (aq_leader_address q) e"
  have f: "fresh_part q (node ?e1) = (es, p, pt)" using assms(3) by (auto simp: fresh_part_def split: if_splits)
  have l: "last_log_index (node ?e1) = last_log_index (node e)" "term_at (node ?e1) i = term_at (node e) i" for i
    by (simp_all add: last_log_index_def term_at_entry entry_at_log)
  have "p \<le> last_log_index (node e)" "term_at (node e) p = pt"
    using assms(1,2) q f unfolding handle_append_entries_def Let_def fresh_part_def [symmetric]
    by (auto simp: l split: if_splits)
  moreover from this have "node e' = (node (append_new R now es ?e1))\<lparr>commit_index := commit_index (node e')\<rparr> \<and>
      commit_index (node e) \<le> commit_index (node e') \<and>
      commit_index (node e') \<le> max (commit_index (node e)) (p + int (length es)) \<and> ar_match_index r = p + int (length es)"
    using assms(1) q f unfolding handle_append_entries_def Let_def fresh_part_def [symmetric]
    by (auto simp: l split: if_splits)
  ultimately show ?thesis by (intro exI [of _ ?e1] exI [of _ "commit_index (node e')"]) simp
qed


lemma log_same:
  assumes "log n = log m" and "snapshot_index n = snapshot_index m" and "snapshot_term n = snapshot_term m"
  shows "entry_at n i = entry_at m i" and "term_at n i = term_at m i" and "last_log_index n = last_log_index m"
  using assms by (simp_all add: term_at_entry entry_at_log last_log_index_def)

text \<open>
  C9: what a node that accepts a request makes of its log. As long as the entries of the request have the terms that it
  holds at their indexes, it keeps its own (which log matching, C5, shows to be the same entries); from the first one that
  it lacks or contradicts, it holds exactly the entries of the request, and its log ends with them. What comes before
  the request is kept, and a late or repeated request whose entries it has already changes nothing. Its commit index
  does not exceed what the request has shown to match. A node that refuses keeps its log and commit index.
\<close>

theorem append_entries_consistency:
  fixes R :: "'s raft_storage" and e e' :: "('s, 'r) engine"
  assumes "handle_append_entries R now q e = (e', r)"
    and "consecutive (aq_prev_log_index q + 1) (aq_entries q)" and "aq_entries q = es" and "aq_prev_log_index q = p"
  shows "if ar_success r
    then (\<forall>k < length es. snapshot_index (node e) < p + 1 + int k \<longrightarrow>
        (if \<exists>j \<le> k. snapshot_index (node e) < p + 1 + int j \<and> term_at (node e) (p + 1 + int j) \<noteq> Some (e_term (es ! j))
         then entry_at (node e') (p + 1 + int k) = Some (es ! k) \<and> last_log_index (node e') = p + int (length es)
         else entry_at (node e') (p + 1 + int k) = entry_at (node e) (p + 1 + int k)) \<and>
        term_at (node e') (p + 1 + int k) = Some (e_term (es ! k))) \<and>
      (\<forall>i \<le> p. entry_at (node e') i = entry_at (node e) i) \<and>
      ((\<forall>k < length es. snapshot_index (node e) < p + 1 + int k \<longrightarrow> term_at (node e) (p + 1 + int k) = Some (e_term (es ! k))) \<longrightarrow>
        log (node e') = log (node e)) \<and>
      commit_index (node e) \<le> commit_index (node e') \<and>
      commit_index (node e') \<le> max (commit_index (node e)) (ar_match_index r) \<and>
      ar_match_index r \<le> last_log_index (node e')
    else log (node e') = log (node e) \<and> commit_index (node e') = commit_index (node e)"
proof (cases "ar_success r")
  case False
  then show ?thesis using assms(1)
    unfolding handle_append_entries_def Let_def by (auto split: if_splits)
next
  case True
  obtain fs a at where f: "fresh_part q (node e) = (fs, a, at)" by (metis prod_cases3)
  note fp = fresh_part_entries [OF f assms(2)]
  obtain e1 :: "('s, 'r) engine" and c where e1: "node e' = (node (append_new R now fs e1))\<lparr>commit_index := c\<rparr>"
    "log (node e1) = log (node e)" "snapshot_index (node e1) = snapshot_index (node e)"
    "snapshot_term (node e1) = snapshot_term (node e)" "a \<le> last_log_index (node e)" "term_at (node e) a = at"
    "commit_index (node e) \<le> c" "c \<le> max (commit_index (node e)) (a + int (length fs))"
    "ar_match_index r = a + int (length fs)"
    using append_entries_success [OF assms(1) True f] by blast
  let ?n1 = "node e1" and ?n2 = "node (append_new R now fs e1)"
  note same = log_same [OF e1(2-4)]
  have same2: "term_at (node e') i = term_at ?n2 i" "entry_at (node e') i = entry_at ?n2 i"
    "last_log_index (node e') = last_log_index ?n2" for i
    using e1(1) log_same [of "node e'" ?n2] by simp_all
  have sn: "snapshot_index ?n2 = snapshot_index ?n1" "snapshot_term ?n2 = snapshot_term ?n1" by simp_all
  have b: "snapshot_index ?n1 < a + 1" "a + 1 \<le> last_log_index ?n1 + 1" using fp(1) e1(3,5) same by simp_all
  obtain k where k: "k \<le> length fs" "\<forall>j < k. term_at ?n1 (a + 1 + int j) = Some (e_term (fs ! j))"
    "k = length fs \<longrightarrow> log ?n2 = log ?n1"
    "k < length fs \<longrightarrow> last_log_index ?n2 = a + 1 + int (length fs) - 1"
    "k < length fs \<longrightarrow> (\<forall>j. entry_at ?n2 j = (if j < a + 1 + int k then entry_at ?n1 j
           else if j < a + 1 + int (length fs) then Some (fs ! nat (j - (a + 1))) else None))"
    "k < length fs \<and> a + 1 + int k \<le> last_log_index ?n1 \<longrightarrow> term_at ?n1 (a + 1 + int k) \<noteq> Some (e_term (fs ! k))"
    by (rule append_new_entries [OF fp(2) b, of R now])
  have new: "term_at ?n2 (a + 1 + int j) = Some (e_term (fs ! j))" if "j < length fs" for j
  proof (cases "k = length fs")
    case True
    then show ?thesis using k(2,3) that log_same(2) [OF _ sn] by simp
  next
    case False
    show ?thesis
    proof (cases "j < k")
      case True
      then show ?thesis using k(1,2,5) False b(1) by (simp add: term_at_entry sn)
    next
      case j: False
      then show ?thesis using k(1,5) False that b(1) by (simp add: term_at_entry sn)
    qed
  qed
  have old: "entry_at ?n2 i = entry_at ?n1 i" if "i \<le> a" for i
    using k(1,3,5) that log_same(1) [OF _ sn] by (cases "k = length fs") auto
  let ?d = "nat (a - p)"
  have fs: "fs = drop ?d es" "0 \<le> a - p" using fp(1,3) assms(3,4) by simp_all
  have at: "\<exists>j. m = j + ?d \<and> j < length fs \<and> p + 1 + int m = a + 1 + int j \<and> es ! m = fs ! j"
    if "m < length es" "snapshot_index (node e) < p + 1 + int m" for m
  proof -
    have "?d \<le> m" using that fp(1) assms(4) by auto
    then show ?thesis using that fs by (intro exI [of _ "m - ?d"]) auto
  qed
  have exact: "if \<exists>j \<le> m. snapshot_index (node e) < p + 1 + int j \<and> term_at (node e) (p + 1 + int j) \<noteq> Some (e_term (es ! j))
         then entry_at (node e') (p + 1 + int m) = Some (es ! m) \<and> last_log_index (node e') = p + int (length es)
         else entry_at (node e') (p + 1 + int m) = entry_at (node e) (p + 1 + int m)"
    if m: "m < length es" "snapshot_index (node e) < p + 1 + int m" for m
  proof -
    obtain j where j: "m = j + ?d" "j < length fs" "p + 1 + int m = a + 1 + int j" "es ! m = fs ! j" using at [OF m] by blast
    show ?thesis
    proof (cases "k \<le> j")
      case True
      then have kf: "k < length fs" using j(2) by simp
      then have "k + ?d \<le> m" "p + 1 + int (k + ?d) = a + 1 + int k" "es ! (k + ?d) = fs ! k"
        using True j(1) fs by (simp_all add: add.commute)
      moreover have "term_at (node e) (a + 1 + int k) \<noteq> Some (e_term (fs ! k))"
        using k(6) kf term_at_None [of "node e" "a + 1 + int k"] by (auto simp: same)
      moreover have "snapshot_index (node e) < a + 1 + int k" using fp(1) by simp
      ultimately have "\<exists>i \<le> m. snapshot_index (node e) < p + 1 + int i \<and> term_at (node e) (p + 1 + int i) \<noteq> Some (e_term (es ! i))"
        by (intro exI [of _ "k + ?d"]) metis
      moreover have "entry_at (node e') (a + 1 + int j) = Some (fs ! j)"
        using k(5) kf True j(2) by (simp add: same2)
      with j(3,4) have "entry_at (node e') (p + 1 + int m) = Some (es ! m)" by metis
      moreover have "last_log_index (node e') = p + int (length es)"
        using k(4) kf fs by (simp add: same2)
      ultimately show ?thesis by simp
    next
      case False
      have "term_at (node e) (p + 1 + int i) = Some (e_term (es ! i))"
        if i: "i \<le> m" "snapshot_index (node e) < p + 1 + int i" for i
      proof -
        have "i < length es" using i(1) m(1) by simp
        then obtain l where l: "i = l + ?d" "p + 1 + int i = a + 1 + int l" "es ! i = fs ! l" using at [OF _ i(2)] by blast
        then have "l < k" using i(1) j(1) False by simp
        then have "term_at (node e) (a + 1 + int l) = Some (e_term (fs ! l))" using k(2) by (simp add: same)
        with l(2,3) show ?thesis by metis
      qed
      moreover have "entry_at (node e') (p + 1 + int m) = entry_at (node e) (p + 1 + int m)"
      proof (cases "k = length fs")
        case True
        then show ?thesis using k(3) log_same(1) [OF _ sn] by (simp add: same same2)
      next
        case kf: False
        then show ?thesis using k(1,5) False j(3) by (simp add: same same2)
      qed
      ultimately show ?thesis by auto
    qed
  qed
  have 1: "term_at (node e') (p + 1 + int k) = Some (e_term (es ! k))"
    if "k < length es" "snapshot_index (node e) < p + 1 + int k" for k
    using at [OF that] new same2(1) by metis
  have 2: "entry_at (node e') i = entry_at (node e) i" if "i \<le> p" for i
    using old [of i] that fp(1) assms(4) by (simp add: same same2)
  have 3: "log (node e') = log (node e)"
    if all: "\<forall>k < length es. snapshot_index (node e) < p + 1 + int k \<longrightarrow> term_at (node e) (p + 1 + int k) = Some (e_term (es ! k))"
  proof -
    have fs: "term_at (node e) (a + 1 + int j) = Some (e_term (fs ! j))" if "j < length fs" for j
    proof -
      have "j + nat (a - p) < length es" "fs ! j = es ! (j + nat (a - p))" "p + 1 + int (j + nat (a - p)) = a + 1 + int j"
        using that fp(1,3) assms(3,4) by (auto simp: add.commute)
      moreover have "snapshot_index (node e) < a + 1 + int j" using fp(1) by simp
      ultimately show ?thesis using all by metis
    qed
    have "k = length fs"
    proof (rule ccontr)
      assume "k \<noteq> length fs"
      then have "k < length fs" using k(1) by simp
      moreover have "a + 1 + int k \<le> last_log_index ?n1"
        using fs [OF \<open>k < length fs\<close>] term_at_None [of "node e" "a + 1 + int k"] by (simp add: same)
      ultimately show False using k(6) fs [of k] by (simp add: same)
    qed
    then show ?thesis using k(3) e1(1,2) by simp
  qed
  have 4: "a + int (length fs) \<le> last_log_index (node e')"
  proof (cases "length fs")
    case 0
    have "log ?n2 = log ?n1" using k(1,3) 0 by simp
    then show ?thesis using 0 e1(5) log_same(3) [OF _ sn] by (simp add: same same2)
  next
    case (Suc m)
    then have "term_at ?n2 (a + 1 + int m) \<noteq> None" using new [of m] by simp
    then show ?thesis using Suc term_at_None [of ?n2 "a + 1 + int m"] by (simp add: same2)
  qed
  have entries: "\<forall>k < length es. snapshot_index (node e) < p + 1 + int k \<longrightarrow>
        (if \<exists>j \<le> k. snapshot_index (node e) < p + 1 + int j \<and> term_at (node e) (p + 1 + int j) \<noteq> Some (e_term (es ! j))
         then entry_at (node e') (p + 1 + int k) = Some (es ! k) \<and> last_log_index (node e') = p + int (length es)
         else entry_at (node e') (p + 1 + int k) = entry_at (node e) (p + 1 + int k)) \<and>
        term_at (node e') (p + 1 + int k) = Some (e_term (es ! k))"
    using exact 1 by blast
  have before: "\<forall>i \<le> p. entry_at (node e') i = entry_at (node e) i" using 2 by blast
  have commits: "commit_index (node e) \<le> commit_index (node e') \<and>
      commit_index (node e') \<le> max (commit_index (node e)) (ar_match_index r) \<and> ar_match_index r \<le> last_log_index (node e')"
    using 4 e1(7,8,9) by (simp add: e1(1))
  show ?thesis unfolding if_P [OF True] using 3 by (intro conjI [OF entries conjI [OF before conjI [OF impI commits]]])
qed


subsection \<open>When a request is refused\<close>

lemma conflict_first_spec:
  assumes "snapshot_index n \<le> p"
  shows "conflict_first n t p \<le> p \<and> snapshot_index n \<le> conflict_first n t p \<and>
    (\<forall>j. conflict_first n t p \<le> j \<and> j < p \<longrightarrow> term_at n j = t) \<and>
    (conflict_first n t p - 1 \<le> snapshot_index n \<or> term_at n (conflict_first n t p - 1) \<noteq> t)"
  using assms
proof (induction n t p rule: conflict_first.induct)
  case (1 n t p)
  show ?case
  proof (cases "p - 1 > snapshot_index n \<and> term_at n (p - 1) = t")
    case True
    have c: "conflict_first n t p = conflict_first n t (p - 1)" using True by (subst conflict_first.simps) simp
    have "term_at n j = t" if "conflict_first n t (p - 1) \<le> j" "j < p" for j
    proof (cases "j = p - 1")
      case False
      then show ?thesis using 1(1) [OF True] True that by auto
    qed (use True in simp)
    then show ?thesis using 1(1) [OF True] True by (auto simp: c)
  next
    case False
    from False have "conflict_first n t p = p"
      by (subst conflict_first.simps, subst if_not_P) (assumption, rule refl)
    then show ?thesis using 1(2) False by auto
  qed
qed

text \<open>
  C23: a refusal tells the leader where to go on. The hint of a node that refuses entries after index \<open>p\<close> is the index
  after the end of its log, if that is before \<open>p\<close>; otherwise it is the first entry above its snapshot of the whole run of
  entries, up to \<open>p\<close>, that have the term it holds at \<open>p\<close>. A leader of that term then goes back at least one index, to the
  hint, and never below 1.
\<close>

theorem refusal_moves_back:
  fixes R :: "'s raft_storage" and e e' :: "('s, 'r) engine" and l :: "('t, 'q) engine"
  assumes "handle_append_entries R now q e = (e', r)" and "\<not> ar_success r"
    and "current_term (node e) \<le> aq_term q" and "aq_prev_log_index q = p" and "snapshot_index (node e) \<le> p" and "0 < p"
    and "role (node l) = LEADER" and "current_term (node l) = aq_term q" and "0 \<le> snapshot_index (node e)"
  shows "ar_conflict_index r \<le> p \<and>
    (if last_log_index (node e) < p then ar_conflict_index r = last_log_index (node e) + 1
     else (\<forall>j. ar_conflict_index r \<le> j \<and> j \<le> p \<longrightarrow> term_at (node e) j = term_at (node e) p) \<and>
       (ar_conflict_index r - 1 \<le> snapshot_index (node e) \<or>
        term_at (node e) (ar_conflict_index r - 1) \<noteq> term_at (node e) p)) \<and>
    (\<exists>i. map_of (next_index (node (entries_reply S now' peer (aq_term q) seq q r l))) (member_id peer) = Some i \<and>
       1 \<le> i \<and> i \<le> p \<and> (ar_conflict_index r \<noteq> 0 \<longrightarrow> i = ar_conflict_index r))"
proof -
  let ?e1 = "accept_leader R now (aq_term q) (aq_leader_id q) (aq_leader_address q) e"
  have same: "last_log_index (node ?e1) = last_log_index (node e)" "term_at (node ?e1) i = term_at (node e) i" for i
    by (rule log_same; simp)+
  have r: "ar_term r = aq_term q \<and> (if p > last_log_index (node e) then ar_conflict_index r = last_log_index (node e) + 1
    else ar_conflict_index r = conflict_first (node ?e1) (term_at (node e) p) p)"
    using assms(1-5) by (auto simp: handle_append_entries_def Let_def same split: if_splits)
  let ?c = "conflict_first (node ?e1) (term_at (node e) p) p"
  have s: "snapshot_index (node ?e1) = snapshot_index (node e)" by simp
  have c: "?c \<le> p" "0 \<le> ?c" "\<And>j. ?c \<le> j \<Longrightarrow> j < p \<Longrightarrow> term_at (node e) j = term_at (node e) p"
    "?c - 1 \<le> snapshot_index (node e) \<or> term_at (node e) (?c - 1) \<noteq> term_at (node e) p"
  proof -
    note f = conflict_first_spec [of "node ?e1" p "term_at (node e) p", unfolded s same, OF assms(5)]
    show "?c \<le> p" using f by blast
    show "0 \<le> ?c" using f assms(9) by linarith
    show "\<And>j. ?c \<le> j \<Longrightarrow> j < p \<Longrightarrow> term_at (node e) j = term_at (node e) p" using f by blast
    show "?c - 1 \<le> snapshot_index (node e) \<or> term_at (node e) (?c - 1) \<noteq> term_at (node e) p" using f by blast
  qed
  have cases: "ar_conflict_index r = last_log_index (node e) + 1 \<and> last_log_index (node e) < p \<or> ar_conflict_index r = ?c"
    using r by (simp split: if_splits)
  have "0 \<le> last_log_index (node e)" using assms(9) by (simp add: last_log_index_def)
  then have bound: "ar_conflict_index r \<le> p" "0 \<le> ar_conflict_index r" using cases c by linarith+
  let ?i = "max 1 (min (if ar_conflict_index r = 0 then p else ar_conflict_index r) p)"
  have hint: "if last_log_index (node e) < p then ar_conflict_index r = last_log_index (node e) + 1
     else (\<forall>j. ar_conflict_index r \<le> j \<and> j \<le> p \<longrightarrow> term_at (node e) j = term_at (node e) p) \<and>
       (ar_conflict_index r - 1 \<le> snapshot_index (node e) \<or> term_at (node e) (ar_conflict_index r - 1) \<noteq> term_at (node e) p)"
  proof (cases "last_log_index (node e) < p")
    case False
    then have f: "ar_conflict_index r = ?c" using r by simp
    have "term_at (node e) j = term_at (node e) p" if "?c \<le> j" "j \<le> p" for j
      using c(3) [of j] that by (cases "j = p") simp_all
    then have "\<forall>j. ?c \<le> j \<and> j \<le> p \<longrightarrow> term_at (node e) j = term_at (node e) p" by blast
    with c(4) show ?thesis unfolding f if_not_P [OF False] by blast
  qed (use r in simp)
  have n: "map_of (next_index (node (entries_reply S now' peer (aq_term q) seq q r l))) (member_id peer) = Some ?i"
    using r assms(2,4,7,8) by (simp add: entries_reply_def Let_def)
  have i: "1 \<le> ?i \<and> ?i \<le> p \<and> (ar_conflict_index r \<noteq> 0 \<longrightarrow> ?i = ar_conflict_index r)"
    using bound assms(6) by simp
  have ex: "\<exists>i. map_of (next_index (node (entries_reply S now' peer (aq_term q) seq q r l))) (member_id peer) = Some i \<and>
       1 \<le> i \<and> i \<le> p \<and> (ar_conflict_index r \<noteq> 0 \<longrightarrow> i = ar_conflict_index r)"
    by (rule exI [of _ ?i]) (rule conjI [OF n i])
  show ?thesis by (rule conjI [OF bound(1) conjI [OF hint ex]])
qed

definition demo_append :: "int \<Rightarrow> append_request" where
  "demo_append p = \<lparr>aq_term = 1, aq_leader_id = ''b'', aq_prev_log_index = p, aq_prev_log_term = Some 0,
     aq_entries = [\<lparr>e_term = 1, e_index = p + 1, e_command = noop_command, e_username = [], e_request_id = []\<rparr>],
     aq_leader_commit = 1, aq_leader_address = ''h:2''\<rparr>"

theorem append_entries_consistency_witness:
  "ar_success (snd (handle_append_entries memory_storage 0 (demo_append 0) demo_engine)) \<and>
   term_at (node (fst (handle_append_entries memory_storage 0 (demo_append 0) demo_engine))) 1 = Some 1"
proof -
  let ?h = "handle_append_entries memory_storage 0 (demo_append 0) demo_engine"
  have h: "?h = (fst ?h, snd ?h)" by simp
  have "ar_success (snd ?h)" "snapshot_index (node demo_engine) = 0" by code_simp+
  moreover have "consecutive (aq_prev_log_index (demo_append 0) + 1) (aq_entries (demo_append 0))"
    by (simp add: demo_append_def consecutive_def)
  ultimately show ?thesis using append_entries_consistency [OF h, of _ 0]
    by (simp add: demo_append_def)
qed

theorem refusal_moves_back_witness:
  "map_of (next_index (node (entries_reply memory_storage 0 \<lparr>member_id = ''b'', raft_address = [], client_address = []\<rparr> 1 1
      (demo_append 5) (snd (handle_append_entries memory_storage 0 (demo_append 5) demo_engine)) lone_leader))) ''b'' = Some 1"
proof -
  let ?h = "handle_append_entries memory_storage 0 (demo_append 5) demo_engine"
  let ?b = "\<lparr>member_id = ''b'', raft_address = [], client_address = []\<rparr>"
  have h: "?h = (fst ?h, snd ?h)" by simp
  have "\<not> ar_success (snd ?h)" "snapshot_index (node demo_engine) = 0" "current_term (node demo_engine) = 0"
    "ar_conflict_index (snd ?h) = 1" "role (node lone_leader) = LEADER" "current_term (node lone_leader) = 1"
    by code_simp+
  then show ?thesis using refusal_moves_back [OF h, of 5 lone_leader memory_storage 0 ?b 1]
    by (simp add: demo_append_def)
qed

subsection \<open>Sending a snapshot\<close>

text \<open>
  The loop of \<open>_send_snapshot_to\<close> over the chunks of the file, when every message arrives: the
  leader's engine, the follower's engine, and the file that the follower hands to its state machine.
\<close>

lemma chunk_advances:
  "\<not> sq_done (snapshot_chunk t snap content off l) \<Longrightarrow>
   length content - (off + length (take snapshot_chunk_size (drop off content))) < length content - off"
  by (auto simp: snapshot_chunk_def Let_def snapshot_chunk_size_def min_def split: prod.splits if_splits)

function transfer_loop ::
  "'s raft_storage \<Rightarrow> 't raft_storage \<Rightarrow> time \<Rightarrow> member \<Rightarrow> int \<Rightarrow> int \<Rightarrow> int \<times> int \<times> member list \<Rightarrow> string \<Rightarrow> nat \<Rightarrow>
   ('s, 'r) engine \<Rightarrow> ('t, 'q) engine \<Rightarrow> ('s, 'r) engine \<times> ('t, 'q) engine \<times> string option" where
  "transfer_loop R S now peer t seq snap content off l e =
     (let q = snapshot_chunk t snap content off l
      in case receive_chunk S now q e of
           (e1, NoReply) \<Rightarrow> (l, e1, None)
         | (e1, Complete file) \<Rightarrow> (l, e1, Some file)
         | (e1, Reply r) \<Rightarrow>
             (case snapshot_reply R now peer t seq r l of
                (l1, go_on) \<Rightarrow>
                  if \<not> go_on \<or> sq_done q then (l1, e1, None)
                  else transfer_loop R S now peer t seq snap content
                         (off + length (take snapshot_chunk_size (drop off content))) l1 e1))"
  by pat_completeness auto
termination
  by (relation "measure (\<lambda>(R, S, now, peer, t, seq, snap, content, off, l, e). length content - off)")
    (use chunk_advances in auto)

declare transfer_loop.simps [simp del]

lemma receive_next_chunk:
  fixes e :: "('t, 'q) engine"
  assumes "current_term (node e) \<le> t" and "last_applied (node e) < i" and "off \<le> length content"
    and "off = 0 \<or> snapshot_rx e = Some \<lparr>rx_index = i, rx_data = take off content\<rparr>"
  defines "m \<equiv> off + length (take snapshot_chunk_size (drop off content))"
  obtains e1 :: "('t, 'q) engine" where "current_term (node e1) = t" and "last_applied (node e1) = last_applied (node e)"
    and "m < length content \<longrightarrow> snapshot_rx e1 = Some \<lparr>rx_index = i, rx_data = take m content\<rparr>"
    and "receive_chunk S now (snapshot_chunk t (i, lt, ms) content off l) e =
      (e1, if m \<ge> length content then Complete content else Reply \<lparr>sr_term = t, sr_success = True\<rparr>)"
proof -
  let ?q = "snapshot_chunk t (i, lt, ms) content off l"
  let ?e1 = "accept_leader S now t (sq_leader_id ?q) (sq_leader_address ?q) e"
  have q: "sq_term ?q = t" "sq_last_included_index ?q = i" "sq_offset ?q = int off" "sq_done ?q = (m \<ge> length content)"
    "sq_data ?q = b64encode (take snapshot_chunk_size (drop off content))"
    by (simp_all add: snapshot_chunk_def Let_def m_def)
  have rx: "(if sq_offset ?q = 0 then Some \<lparr>rx_index = i, rx_data = []\<rparr>
      else case snapshot_rx ?e1 of None \<Rightarrow> None
        | Some x \<Rightarrow> if rx_index x \<noteq> i \<or> int (length (rx_data x)) \<noteq> sq_offset ?q then None else Some x) =
      Some \<lparr>rx_index = i, rx_data = take off content\<rparr>"
    using assms(3,4) by (auto simp: q)
  have app: "take off content @ take snapshot_chunk_size (drop off content) = take m content"
    by (simp add: m_def take_add [symmetric] min_def)
  have t: "current_term (node ?e1) = t" "last_applied (node ?e1) = last_applied (node e)"
    using assms(1) by simp_all
  show ?thesis
  proof (rule that [of "if m \<ge> length content then ?e1\<lparr>snapshot_rx := None\<rparr>
      else ?e1\<lparr>snapshot_rx := Some \<lparr>rx_index = i, rx_data = take m content\<rparr>\<rparr>"], goal_cases)
    case 4
    have "\<not> sq_term ?q < current_term (node e)" "\<not> i \<le> last_applied (node ?e1)" using assms(1,2) q by simp_all
    then show ?case
      unfolding receive_chunk_def Let_def q(1,2) t rx q(4,5) option.case b64decode_encode
      by (auto simp: app)
  qed (use t in auto)
qed


lemma transfer_from:
  fixes e :: "('t, 'q) engine" and l :: "('s, 'r) engine"
  assumes "role (node l) = LEADER" and "current_term (node l) = t"
    and "current_term (node e) \<le> t" and "last_applied (node e) < i" and "off \<le> length content"
    and "off = 0 \<or> snapshot_rx e = Some \<lparr>rx_index = i, rx_data = take off content\<rparr>"
  shows "snd (snd (transfer_loop R S now peer t seq (i, lt, ms) content off l e)) = Some content"
  using assms
proof (induction "length content - off" arbitrary: off l e rule: less_induct)
  case less
  let ?m = "off + length (take snapshot_chunk_size (drop off content))"
  let ?q = "snapshot_chunk t (i, lt, ms) content off l"
  obtain e1 :: "('t, 'q) engine" where e1: "current_term (node e1) = t" "last_applied (node e1) = last_applied (node e)"
    "?m < length content \<longrightarrow> snapshot_rx e1 = Some \<lparr>rx_index = i, rx_data = take ?m content\<rparr>"
    "receive_chunk S now ?q e =
      (e1, if ?m \<ge> length content then Complete content else Reply \<lparr>sr_term = t, sr_success = True\<rparr>)"
    by (rule receive_next_chunk [OF less.prems(3-6)])
  show ?case
  proof (cases "?m \<ge> length content")
    case True
    then show ?thesis using e1(4) [unfolded if_P [OF True]] by (subst transfer_loop.simps) (simp add: Let_def)
  next
    case False
    define l1 where "l1 = note_contact now (member_id peer) seq l"
    have nd: "\<not> sq_done ?q" using False by (simp add: snapshot_chunk_def Let_def)
    have reply: "snapshot_reply R now peer t seq \<lparr>sr_term = t, sr_success = True\<rparr> l = (l1, True)"
      using less.prems(1,2) by (simp add: snapshot_reply_def l1_def)
    have "transfer_loop R S now peer t seq (i, lt, ms) content off l e =
        transfer_loop R S now peer t seq (i, lt, ms) content ?m l1 e1"
      using e1(4) [unfolded if_not_P [OF False]] nd reply by (subst transfer_loop.simps) (simp add: Let_def)
    also have "snd (snd \<dots>) = Some content"
    proof (rule less.hyps)
      show "length content - ?m < length content - off" by (rule chunk_advances [OF nd])
    qed (use less.prems e1 False in \<open>simp_all add: l1_def\<close>)
    finally show ?thesis .
  qed
qed

text \<open>
  C22: a snapshot arrives as it was sent. When a leader streams a file of any length to a follower that
  is behind it, and every message arrives, the loop ends and the follower's chunks make up exactly
  the file, which it hands to its state machine.
\<close>

theorem snapshot_arrives:
  fixes e :: "('t, 'q) engine" and l :: "('s, 'r) engine"
  assumes "role (node l) = LEADER" and "current_term (node l) = t"
    and "current_term (node e) \<le> t" and "last_applied (node e) < i"
  shows "snd (snd (transfer_loop R S now peer t seq (i, lt, ms) content 0 l e)) = Some content"
  by (rule transfer_from [OF assms]) simp_all

theorem snapshot_arrives_witness:
  "snd (snd (transfer_loop memory_storage memory_storage 0 undefined 1 1 (2, 1, []) ''file'' 0 lone_leader demo_engine)) = Some ''file''"
proof -
  have "role (node lone_leader) = LEADER" "current_term (node lone_leader) = 1"
    "current_term (node demo_engine) = 0" "last_applied (node demo_engine) = 0" by code_simp+
  then show ?thesis by (intro snapshot_arrives) simp_all
qed

subsection \<open>Membership and compaction\<close>

text \<open>
  C27: a membership written to the log is read back as it was, in the order of the node ids; no
  other command, and not the no-op of a new leader, is taken for a membership.
\<close>

theorem config_command_round_trip:
  "parse_config (config_command ms) = Inr (Some (sort_members ms)) \<and> set (sort_members ms) = set ms \<and>
   sorted_wrt string_le (map member_id (sort_members ms)) \<and> parse_config noop_command = Inr None \<and>
   (parse_config c = Inr None \<or> (\<exists>s. c = config_word @ '' '' @ s))"
proof -
  have "\<not> str_startswith noop_command (config_word @ '' '')"
    by (simp add: noop_command_def str_startswith_def config_word_def)
  then have "parse_config noop_command = Inr None" by (simp add: parse_config_def)
  moreover have "str_startswith c (config_word @ '' '') \<Longrightarrow> \<exists>s. c = config_word @ '' '' @ s"
    by (metis str_startswith_def append.assoc append_take_drop_id)
  then have "parse_config c = Inr None \<or> (\<exists>s. c = config_word @ '' '' @ s)"
    by (cases "str_startswith c (config_word @ '' '')") (simp_all add: parse_config_def)
  ultimately show ?thesis
    using sorted_sort_members [of ms] by (simp add: parse_config_command set_sort_members sorted_wrt_map)
qed

text \<open>
  C25: compaction forgets only what it may. Folding the entries up to \<open>i\<close> into a snapshot keeps
  every entry after \<open>i\<close>, the term at \<open>i\<close>, the last index and term that decide elections, and the membership in effect.
\<close>

theorem compaction_keeps:
  assumes "wf_log n" and "term_at n i = Some t"
  defines "n' \<equiv> compact_through n i t None"
  shows "(\<forall>j > i. entry_at n' j = entry_at n j) \<and> (\<forall>j \<ge> i. term_at n' j = term_at n j) \<and>
    last_log_index n' = last_log_index n \<and> last_log_term n' = last_log_term n \<and>
    snd (latest_config n') = snd (latest_config n) \<and> wf_log n'"
proof -
  have e: "entry_at n' j = entry_at n j" if "i < j" for j unfolding n'_def by (rule entry_at_compact [OF assms(2) that])
  have l: "last_log_index n' = last_log_index n" unfolding n'_def by (rule compact_log_match(2) [OF assms(2)])
  have i: "snapshot_index n \<le> i" "i \<le> last_log_index n" using assms(2) term_at_None [of n i] by auto
  have t: "term_at n' j = term_at n j" if "i \<le> j" for j
    using e [of j] that assms(2) i by (cases "j = i") (auto simp: n'_def term_at_entry)
  have "Some (last_log_term n') = Some (last_log_term n)"
    using t [OF i(2)] by (simp only: l last_log_term_at [symmetric])
  then show ?thesis using e t l compact_keeps_latest_config [OF assms(1,2)] wf_log_compact [OF assms(1)]
    by (simp add: n'_def)
qed

theorem compaction_keeps_witness:
  "last_log_index (compact_through (node lone_leader) 1 1 None) = 2 \<and> last_log_term (compact_through (node lone_leader) 1 1 None) = 1"
proof -
  have "term_at (node lone_leader) 1 = Some 1 \<and> last_log_index (node lone_leader) = 2 \<and> last_log_term (node lone_leader) = 1"
    by code_simp
  moreover have "length (log (node lone_leader)) = 2 \<and> snapshot_index (node lone_leader) = 0 \<and>
      e_index (log (node lone_leader) ! 0) = 1 \<and> e_index (log (node lone_leader) ! 1) = 2" by code_simp
  then have "wf_log (node lone_leader)" by (auto simp: wf_log_def less_Suc_eq numeral_2_eq_2)
  ultimately show ?thesis using compaction_keeps [of "node lone_leader" 1 1] by simp
qed

lemma terms_never_fall_witness:
  "voted_for (node lone_leader) \<noteq> None \<and>
   voted_for (node (run_events memory_storage [(0, EvStop)] lone_leader)) = voted_for (node lone_leader)"
proof -
  have "voted_for (node lone_leader) \<noteq> None"
    "current_term (node (run_events memory_storage [(0, EvStop)] lone_leader)) = current_term (node lone_leader)"
    by code_simp+
  then show ?thesis using terms_never_fall [of lone_leader memory_storage "[(0, EvStop)]"] by simp
qed

subsection \<open>Progress\<close>

lemma commit_advances_candidate: "commit_index (node e) \<le> commit_index (node (become_candidate R now tr e))"
  unfolding become_candidate_def Let_def
  by (auto intro: order_trans [OF _ become_leader_log(3)])

lemma commit_advances_append: "commit_index (node e) \<le> commit_index (node (fst (handle_append_entries R now q e)))"
  by (auto simp: handle_append_entries_def Let_def)

lemma commit_advances_match: "commit_index (node e) \<le> commit_index (node (record_match p i e))"
  unfolding record_match_def Let_def by (rule order_trans [OF _ commit_advances]) simp

lemma commit_advances_applied:
  "commit_index (node (apply_done R i x r e)) = commit_index (node e)"
  "last_applied (node (apply_done R i x r e)) = max (last_applied (node e)) i"
  by (simp_all add: apply_done_def Let_def)

lemma run_event_commit: "commit_index (node e) \<le> commit_index (node (run_event R now ev e))"
proof (cases ev)
  case EvStart
  then show ?thesis using commit_advances_candidate [of "e\<lparr>running := True\<rparr>" R now False]
    by (simp add: start_engine_def start_election_def Let_def)
next
  case (EvElectionTimeout g)
  then show ?thesis using commit_advances_candidate [of e R now False] by (simp add: start_election_def Let_def)
next
  case (EvPreVoteReply p g v)
  then show ?thesis
    by (auto simp: pre_vote_reply_def Let_def intro: order_trans [OF _ commit_advances_candidate])
next
  case (EvVoteReply p q v)
  then show ?thesis by (auto simp: vote_reply_def Let_def intro: order_trans [OF _ become_leader_log(3)])
next
  case (EvEntriesReply p t s q a)
  then show ?thesis
    by (auto simp: entries_reply_def Let_def intro: order_trans [OF _ commit_advances_match])
next
  case (EvSnapshotDone p t i)
  then show ?thesis by (auto simp: snapshot_done_def intro: commit_advances_match)
next
  case (EvAppend q)
  then show ?thesis by (simp add: commit_advances_append)
next
  case (EvApplied i x r)
  then show ?thesis by (simp add: commit_advances_applied)
next
  case (EvPropose c u r)
  then show ?thesis by (auto simp: propose_start_def Let_def intro: order_trans [OF _ commit_advances])
next
  case (EvTimeoutNow t)
  then show ?thesis by (auto simp: handle_timeout_now_def Let_def intro: commit_advances_candidate)
qed (simp_all add: event_sections Let_def
     split: option.split list.split waiter.split prod.split chunk_result.split sum.split)

fun keeps_applied :: "'r event \<Rightarrow> bool" where
  "keeps_applied (EvInstall q) = False"
| "keeps_applied (EvApplied i x r) = False"
| "keeps_applied ev = True"

lemma run_event_applied:
  "last_applied (node e) \<le> last_applied (node (run_event R now ev e)) \<and>
   (keeps_applied ev \<longrightarrow> last_applied (node (run_event R now ev e)) = last_applied (node e))"
  by (cases ev; simp add: event_sections start_election_def Let_def
     split: option.split list.split waiter.split prod.split chunk_result.split sum.split)


lemma run_events_commit:
  "commit_index (node e) \<le> commit_index (node (run_events R evs e)) \<and>
   last_applied (node e) \<le> last_applied (node (run_events R evs e))"
proof (induction evs arbitrary: e)
  case (Cons p evs)
  obtain now ev where p: "p = (now, ev)" by fastforce
  have "commit_index (node e) \<le> commit_index (node (run_event R now ev e))"
    "last_applied (node e) \<le> last_applied (node (run_event R now ev e))"
    using run_event_commit [of e R now ev] run_event_applied [of e R now ev] by blast+
  then show ?case using Cons.IH [of "run_event R now ev e"] p by simp
qed simp

text \<open>The indexes of the entries that are applied in a run, in order.\<close>

fun applied_indexes :: "(time \<times> 'r event) list \<Rightarrow> int list" where
  "applied_indexes [] = []"
| "applied_indexes ((now, EvApplied i x r) # evs) = i # applied_indexes evs"
| "applied_indexes (p # evs) = applied_indexes evs"

fun installs :: "'r event \<Rightarrow> bool" where
  "installs (EvInstall q) = True"
| "installs ev = False"

lemma applied_indexes_Cons:
  "applied_indexes ((now, ev) # evs) = (case ev of EvApplied i x r \<Rightarrow> [i] | _ \<Rightarrow> []) @ applied_indexes evs"
  by (cases ev) simp_all

lemma applied_step:
  assumes "\<not> installs ev" and "valid_event ev e"
  shows "(case ev of EvApplied i x r \<Rightarrow> [i] | _ \<Rightarrow> []) = [last_applied (node e) + 1 .. last_applied (node (run_event R now ev e))]"
proof (cases "keeps_applied ev")
  case True
  then have "last_applied (node (run_event R now ev e)) = last_applied (node e)" using run_event_applied [of e R now ev] by blast
  moreover have "(case ev of EvApplied i x r \<Rightarrow> [i] | _ \<Rightarrow> []) = ([] :: int list)" using True by (cases ev) simp_all
  ultimately show ?thesis by simp
next
  case False
  then show ?thesis using assms by (cases ev) (simp_all add: commit_advances_applied)
qed

lemma upto_append: "a \<le> b \<Longrightarrow> b \<le> c \<Longrightarrow> [a + 1 .. b] @ [b + 1 .. c] = [a + 1 .. (c :: int)]"
  by (cases "a = b") (auto simp: upto_split2 [of "a + 1" b c])

lemma run_events_append: "run_events R (xs @ ys) e = run_events R ys (run_events R xs e)"
  by (induction R xs e rule: run_events.induct) simp_all

lemma valid_run_append: "valid_run R (xs @ ys) e \<longleftrightarrow> valid_run R xs e \<and> valid_run R ys (run_events R xs e)"
  by (induction R xs e rule: valid_run.induct) simp_all

lemma applied_indexes_append: "applied_indexes (xs @ ys) = applied_indexes xs @ applied_indexes ys"
  by (induction xs rule: applied_indexes.induct) simp_all

lemma applied_consecutive:
  assumes "valid_run R evs e" and "\<forall>(now, ev) \<in> set evs. \<not> installs ev"
  shows "applied_indexes evs = [last_applied (node e) + 1 .. last_applied (node (run_events R evs e))]"
  using assms
proof (induction evs arbitrary: e)
  case (Cons p evs)
  obtain now ev where p: "p = (now, ev)" by fastforce
  let ?e1 = "run_event R now ev e"
  have le: "last_applied (node e) \<le> last_applied (node ?e1)" "last_applied (node ?e1) \<le> last_applied (node (run_events R evs ?e1))"
    using run_event_applied [of e R now ev] run_events_commit [of ?e1 R evs] by blast+
  have "applied_indexes (p # evs) = [last_applied (node e) + 1 .. last_applied (node ?e1)] @
      [last_applied (node ?e1) + 1 .. last_applied (node (run_events R evs ?e1))]"
    using Cons p applied_step [of ev e R now] by (simp add: applied_indexes_Cons)
  also have "\<dots> = [last_applied (node e) + 1 .. last_applied (node (run_events R evs ?e1))]"
    by (rule upto_append [OF le])
  finally show ?case by (simp add: p)
qed simp

text \<open>Also when snapshots are installed, no index is applied twice or out of order.\<close>

lemma applied_rises:
  assumes "valid_run R evs e"
  shows "sorted_wrt (<) (last_applied (node e) # applied_indexes evs)"
  using assms
proof (induction evs arbitrary: e)
  case (Cons p evs)
  obtain now ev where p: "p = (now, ev)" by fastforce
  let ?e1 = "run_event R now ev e"
  have le: "last_applied (node e) \<le> last_applied (node ?e1)" using run_event_applied [of e R now ev] by blast
  have IH: "sorted_wrt (<) (last_applied (node ?e1) # applied_indexes evs)"
    by (rule Cons.IH) (use Cons.prems p in simp)
  show ?case
  proof (cases "keeps_applied ev \<or> installs ev")
    case True
    then have "applied_indexes (p # evs) = applied_indexes evs" using p by (cases ev) simp_all
    then show ?thesis using IH le by auto
  next
    case False
    then obtain i x r where ev: "ev = EvApplied i x r" by (cases ev) simp_all
    then have i: "i = last_applied (node e) + 1" using Cons.prems p by simp
    then have "last_applied (node ?e1) = i" using ev by (simp add: commit_advances_applied)
    then show ?thesis using IH i p ev by auto
  qed
qed simp

text \<open>
  \<open>_apply_loop\<close> among everything else that happens to the engine. A turn of the loop says what the other threads do
  while the applier waits, until it holds the apply lock, and while the state machine applies the entry, and how
  that ends (\<open>_apply_with_retry\<close>). Nobody else applies entries; a snapshot is installed only if it is newer than what was
  applied (\<open>install_needed\<close>), and never while the applier holds the apply lock. The loop yields the engine and the
  events in the order in which they happened.
\<close>

fun other_event :: "'r event \<Rightarrow> bool" where
  "other_event (EvApplied i x r) = False"
| "other_event (EvAppend q) = consecutive (aq_prev_log_index q + 1) (aq_entries q)"
| "other_event ev = True"

fun others :: "'s raft_storage \<Rightarrow> (time \<times> 'r event) list \<Rightarrow> ('s, 'r) engine \<Rightarrow> (time \<times> 'r event) list" where
  "others R [] e = []"
| "others R ((now, ev) # evs) e =
     (if (case ev of EvInstall q \<Rightarrow> install_needed q e | _ \<Rightarrow> True)
      then (now, ev) # others R evs (run_event R now ev e) else others R evs e)"

record 'r turn =
  t_waiting :: "(time \<times> 'r event) list"
  t_locking :: "(time \<times> 'r event) list"
  t_applying :: "(time \<times> 'r event) list"
  t_outcome :: "'r apply_outcome"

definition turn_ok :: "'r turn \<Rightarrow> bool" where
  "turn_ok t = (list_all (\<lambda>(now, ev). other_event ev) (t_waiting t @ t_locking t @ t_applying t) \<and>
     list_all (\<lambda>(now, ev). \<not> installs ev) (t_applying t))"

fun apply_loop ::
  "'s raft_storage \<Rightarrow> 'r turn list \<Rightarrow> ('s, 'r) engine \<Rightarrow> ('s, 'r) engine \<times> (time \<times> 'r event) list" where
  "apply_loop R [] e = (e, [])"
| "apply_loop R (t # ts) e =
     (let a = others R (t_waiting t) e; e0 = run_events R a e
      in case apply_wait e0 of
           None \<Rightarrow> (case apply_loop R ts e0 of (e', l) \<Rightarrow> (e', a @ l))
         | Some False \<Rightarrow> (e0, a)
         | Some True \<Rightarrow>
             let b = others R (t_locking t) e0; e1 = run_events R b e0
             in case apply_next e1 of
                  ApplyEntry i x \<Rightarrow>
                    let c = others R (t_applying t) e1; e2 = run_events R c e1
                    in (case t_outcome t of
                          Result r \<Rightarrow>
                            (case apply_loop R ts (apply_done R i x r e2) of
                               (e', l) \<Rightarrow> (e', a @ b @ c @ (0, EvApplied i x r) # l))
                        | _ \<Rightarrow> (e2, a @ b @ c))
                | _ \<Rightarrow> (case apply_loop R ts e1 of (e', l) \<Rightarrow> (e', a @ b @ l)))"

lemma others_run:
  assumes "list_all (\<lambda>(now, ev). other_event ev) evs"
  shows "valid_run R (others R evs e) e" and "set (others R evs e) \<subseteq> set evs"
proof -
  have "valid_run R (others R evs e) e \<and> set (others R evs e) \<subseteq> set evs"
    using assms
  proof (induction R evs e rule: others.induct)
    case (2 R now ev evs e)
    show ?case
    proof (cases "case ev of EvInstall q \<Rightarrow> install_needed q e | _ \<Rightarrow> True")
      case True
      then have "valid_event ev e" using 2(3) by (cases ev) simp_all
      then show ?thesis using 2(1) [OF True] 2(3) True by auto
    next
      case False
      then show ?thesis using 2(2) [OF False] 2(3) by auto
    qed
  qed simp
  then show "valid_run R (others R evs e) e" and "set (others R evs e) \<subseteq> set evs" by blast+
qed

lemma no_installs_applied:
  "\<forall>(now, ev) \<in> set evs. other_event ev \<and> \<not> installs ev \<Longrightarrow>
   last_applied (node (run_events R evs e)) = last_applied (node e)"
proof (induction R evs e rule: run_events.induct)
  case (2 R now ev evs e)
  then have "keeps_applied ev" by (cases ev) auto
  then show ?case using 2 run_event_applied [of e R now ev] by auto
qed simp

text \<open>An applied entry was the committed entry at its index at some moment of the run before.\<close>

definition chosen :: "'s raft_storage \<Rightarrow> (time \<times> 'r event) list \<Rightarrow> ('s, 'r) engine \<Rightarrow> int \<Rightarrow> log_entry \<Rightarrow> bool" where
  "chosen R tr e i x =
     (\<exists>pre post. tr = pre @ post \<and> i \<le> commit_index (node (run_events R pre e)) \<and> entry_at (node (run_events R pre e)) i = Some x)"

lemma chosen_later: "chosen R l (run_events R a e) i x \<Longrightarrow> chosen R (a @ l) e i x"
  unfolding chosen_def by (metis append.assoc run_events_append)

lemma turn_applies:
  fixes R :: "'s raft_storage" and e1 :: "('s, 'r) engine" and r :: 'r
  assumes "turn_ok t" and "apply_next e1 = ApplyEntry i x"
  defines "c \<equiv> others R (t_applying t) e1"
  shows "valid_run R c e1" and "valid_event (EvApplied i x r) (run_events R c e1)"
    and "\<forall>(now, ev) \<in> set c. other_event ev" and "i \<le> commit_index (node e1)" and "entry_at (node e1) i = Some x"
proof -
  have ok: "list_all (\<lambda>(now, ev). other_event ev) (t_applying t)" "\<forall>(now, ev) \<in> set (t_applying t). \<not> installs ev"
    using assms(1) by (auto simp: turn_ok_def list_all_iff)
  note o = others_run [OF ok(1), of R e1]
  show "valid_run R c e1" unfolding c_def by (rule o(1))
  show others: "\<forall>(now, ev) \<in> set c. other_event ev" using o(2) ok(1) by (auto simp: c_def list_all_iff)
  show n: "i \<le> commit_index (node e1)" "entry_at (node e1) i = Some x"
    using assms(2) by (auto simp: apply_next_def Let_def split: if_splits option.splits)
  have "i = last_applied (node e1) + 1"
    using assms(2) by (auto simp: apply_next_def Let_def split: if_splits option.splits)
  moreover have "last_applied (node (run_events R c e1)) = last_applied (node e1)"
    using others ok(2) o(2) by (intro no_installs_applied) (auto simp: c_def)
  moreover have "commit_index (node e1) \<le> commit_index (node (run_events R c e1))" using run_events_commit by blast
  ultimately show "valid_event (EvApplied i x r) (run_events R c e1)" using n(1) by simp
qed

text \<open>What the loop guarantees of the events of a run: it is the caller that \<open>valid_event\<close> speaks of.\<close>

definition loop_sound :: "'s raft_storage \<Rightarrow> ('s, 'r) engine \<Rightarrow> ('s, 'r) engine \<times> (time \<times> 'r event) list \<Rightarrow> bool" where
  "loop_sound R e out = (fst out = run_events R (snd out) e \<and> valid_run R (snd out) e \<and>
     (\<forall>now i x r. (now, EvApplied i x r) \<in> set (snd out) \<longrightarrow> chosen R (snd out) e i x))"

lemma loop_sound_others:
  assumes "list_all (\<lambda>(now, ev). other_event ev) evs" and "loop_sound R (run_events R (others R evs e) e) out"
  shows "loop_sound R e (fst out, others R evs e @ snd out)"
proof -
  have ok: "\<forall>(now, ev) \<in> set (others R evs e). other_event ev"
    using others_run(2) [OF assms(1), of R e] assms(1) by (auto simp: list_all_iff)
  have "(now, EvApplied i x r) \<notin> set (others R evs e)" for now i x r
    using bspec [OF ok, of "(now, EvApplied i x r)"] by auto
  moreover have "chosen R (others R evs e @ snd out) e i x" if "(now, EvApplied i x r) \<in> set (snd out)" for now i x r
    by (rule chosen_later) (use assms(2) that in \<open>auto simp: loop_sound_def\<close>)
  ultimately show ?thesis
    using assms(2) others_run(1) [OF assms(1), of R e]
    by (auto simp: loop_sound_def run_events_append valid_run_append)
qed

lemma loop_sound_applied:
  assumes "turn_ok t" and "apply_next e1 = ApplyEntry i x"
    and "loop_sound R (apply_done R i x r (run_events R (others R (t_applying t) e1) e1)) out"
  shows "loop_sound R e1 (fst out, others R (t_applying t) e1 @ (0, EvApplied i x r) # snd out)"
proof -
  note t = turn_applies [OF assms(1,2)]
  let ?c = "others R (t_applying t) e1"
  have "chosen R (?c @ (0, EvApplied i x r) # snd out) e1 i x"
    using t(4,5) unfolding chosen_def by (metis append_Nil run_events.simps(1))
  moreover have "(now, EvApplied j y s) \<notin> set ?c" for now j y s using bspec [OF t(3), of "(now, EvApplied j y s)"] by auto
  moreover have "chosen R (?c @ (0, EvApplied i x r) # snd out) e1 j y" if "(now, EvApplied j y s) \<in> set (snd out)" for now j y s
    using chosen_later [of R "snd out" "?c @ [(0, EvApplied i x r)]" e1 j y] that assms(3)
    by (auto simp: loop_sound_def run_events_append)
  ultimately show ?thesis
    using assms(3) t(1,2) by (auto simp: loop_sound_def run_events_append valid_run_append)
qed

lemma loop_sound_Nil: "loop_sound R e (e, [])"
  by (simp add: loop_sound_def)

lemma apply_loop_sound:
  assumes "list_all turn_ok ts"
  shows "loop_sound R e (apply_loop R ts e)"
  using assms
proof (induction ts arbitrary: e)
  case Nil
  then show ?case by (simp add: loop_sound_Nil)
next
  case (Cons t ts)
  have ok: "turn_ok t" "list_all turn_ok ts" using Cons.prems by simp_all
  have o: "list_all (\<lambda>(now, ev). other_event ev) (t_waiting t)" "list_all (\<lambda>(now, ev). other_event ev) (t_locking t)"
    "list_all (\<lambda>(now, ev). other_event ev) (t_applying t)"
    using ok(1) by (auto simp: turn_ok_def)
  define a where "a = others R (t_waiting t) e"
  define e0 where "e0 = run_events R a e"
  define b where "b = others R (t_locking t) e0"
  define e1 where "e1 = run_events R b e0"
  define c where "c = others R (t_applying t) e1"
  define e2 where "e2 = run_events R c e1"
  note defs = a_def [symmetric] e0_def [symmetric] b_def [symmetric] e1_def [symmetric] c_def [symmetric] e2_def [symmetric]
  have wait: "loop_sound R e (fst out, a @ snd out)" if "loop_sound R e0 out" for out
    using loop_sound_others [OF o(1), of R e out] that by (simp add: a_def e0_def)
  have lock: "loop_sound R e (fst out, a @ b @ snd out)" if "loop_sound R e1 out" for out
    using wait [of "(fst out, b @ snd out)"] loop_sound_others [OF o(2), of R e0 out] that by (simp add: b_def e1_def)
  show ?case
  proof (cases "apply_wait e0")
    case None
    then show ?thesis using wait [OF Cons.IH [OF ok(2)]] by (simp add: defs Let_def case_prod_beta)
  next
    case (Some go)
    show ?thesis
    proof (cases go)
      case False
      then show ?thesis using Some wait [OF loop_sound_Nil] by (simp add: defs Let_def)
    next
      case True
      show ?thesis
      proof (cases "apply_next e1")
        case ApplierIdle
        then show ?thesis using Some True lock [OF Cons.IH [OF ok(2)]] by (simp add: defs Let_def case_prod_beta)
      next
        case (EntryMissing i)
        then show ?thesis using Some True lock [OF Cons.IH [OF ok(2)]] by (simp add: defs Let_def case_prod_beta)
      next
        case (ApplyEntry i x)
        have stop: "loop_sound R e (e2, a @ b @ c)"
          using lock [of "(e2, c)"] loop_sound_others [OF o(3), of R e1 "(e2, [])"] loop_sound_Nil [of R e2]
          by (simp add: c_def e2_def)
        show ?thesis
        proof (cases "t_outcome t")
          case (Result r)
          have "loop_sound R e1 (fst (apply_loop R ts (apply_done R i x r e2)),
              c @ (0, EvApplied i x r) # snd (apply_loop R ts (apply_done R i x r e2)))"
            using loop_sound_applied [OF ok(1) ApplyEntry, of R r] Cons.IH [OF ok(2)] by (simp add: c_def e2_def)
          then show ?thesis using lock Some True ApplyEntry Result
            by (fastforce simp: defs Let_def case_prod_beta)
        qed (use stop Some True ApplyEntry in \<open>simp_all add: defs Let_def\<close>)
      qed
    qed
  qed
qed

text \<open>
  C13: a node applies every entry once and in the order of the log. Whatever else happens to the engine meanwhile, the
  indexes that the apply loop chooses rise strictly, and without an installed snapshot they are exactly those from the one
  after \<open>last_applied\<close> on, without a gap or a repetition; each applied entry carries its index and was at that moment in
  the log there, not above the commit index; \<open>last_applied\<close> never exceeds the commit index, and neither ever
  falls. So the loop is a valid caller of \<open>apply_done\<close> (\<open>valid_run\<close>), as the other properties assume of a run.
\<close>

theorem applied_in_order:
  assumes "engine_ok R ok e" and "raft_storage_laws R ok" and "list_all turn_ok turns" and "apply_loop R turns e = (e', trace)"
  shows "e' = run_events R trace e \<and> valid_run R trace e \<and>
    sorted_wrt (<) (last_applied (node e) # applied_indexes trace) \<and>
    ((\<forall>(now, ev) \<in> set trace. \<not> installs ev) \<longrightarrow> applied_indexes trace = [last_applied (node e) + 1 .. last_applied (node e')]) \<and>
    (\<forall>now i x r. (now, EvApplied i x r) \<in> set trace \<longrightarrow> e_index x = i \<and>
       (\<exists>pre post. trace = pre @ post \<and> i \<le> commit_index (node (run_events R pre e)) \<and>
          entry_at (node (run_events R pre e)) i = Some x)) \<and>
    last_applied (node e') \<le> commit_index (node e') \<and> commit_index (node e) \<le> commit_index (node e')"
proof -
  have run: "e' = run_events R trace e" "valid_run R trace e"
    and ch: "\<And>now i x r. (now, EvApplied i x r) \<in> set trace \<Longrightarrow> chosen R trace e i x"
    using apply_loop_sound [OF assms(3), of R e] by (auto simp: assms(4) loop_sound_def)
  have 1: "e_index x = i \<and> (\<exists>pre post. trace = pre @ post \<and> i \<le> commit_index (node (run_events R pre e)) \<and>
      entry_at (node (run_events R pre e)) i = Some x)" if t: "(now, EvApplied i x r) \<in> set trace" for now i x r
  proof -
    obtain pre post where pre: "trace = pre @ post" "i \<le> commit_index (node (run_events R pre e))"
      "entry_at (node (run_events R pre e)) i = Some x"
      using ch [OF t] unfolding chosen_def by blast
    have "engine_ok R ok (run_events R pre e)"
      by (rule raft_storage_laws.eok_run_events [OF assms(2,1)]) (use run(2) pre(1) in \<open>simp add: valid_run_append\<close>)
    then have "wf_log (node (run_events R pre e))" by (simp add: engine_ok_def mirrors_def)
    then have "e_index x = i" using pre(3) by (rule entry_at_index)
    then show ?thesis using pre by blast
  qed
  have 2: "last_applied (node e') \<le> commit_index (node e')"
    using raft_storage_laws.eok_run_events [OF assms(2,1) run(2)] by (simp add: engine_ok_def run(1))
  have 3: "commit_index (node e) \<le> commit_index (node e')" using run_events_commit [of e R trace] by (simp add: run(1))
  have 4: "(\<forall>(now, ev) \<in> set trace. \<not> installs ev) \<longrightarrow> applied_indexes trace = [last_applied (node e) + 1 .. last_applied (node e')]"
    using applied_consecutive [OF run(2)] by (simp add: run(1))
  show ?thesis using run applied_rises [OF run(2)] 1 2 3 4 by blast
qed

text \<open>The lone node again, with its applier: it is given a second write while it applies its no-op.\<close>

definition lone_turns :: "int turn list" where
  "lone_turns = [\<lparr>t_waiting = [(0, EvStart)], t_locking = [(0, EvPropose ''SET k v'' ''u'' ''c:1'')],
       t_applying = [(0, EvPropose ''SET k w'' ''u'' ''c:2'')], t_outcome = Result 0\<rparr>,
     \<lparr>t_waiting = [], t_locking = [], t_applying = [], t_outcome = Result 7\<rparr>]"

theorem applied_in_order_witness:
  "applied_indexes (snd (apply_loop memory_storage lone_turns lone_engine)) = [1, 2] \<and>
   last_applied (node (fst (apply_loop memory_storage lone_turns lone_engine))) = 2"
proof -
  let ?l = "apply_loop memory_storage lone_turns lone_engine"
  have l: "?l = (fst ?l, snd ?l)" by simp
  have "last_applied (node lone_engine) = 0" "last_applied (node (fst ?l)) = 2" by code_simp+
  moreover have "list_all (\<lambda>(now, ev). \<not> installs ev) (snd ?l)" by code_simp
  then have "\<forall>(now, ev) \<in> set (snd ?l). \<not> installs ev" by (simp add: list_all_iff)
  moreover have "engine_ok memory_storage mem_ok lone_engine"
    unfolding lone_engine_def by (rule mem.new_engine_ok(1) [OF mem_init_ok])
  moreover have "list_all turn_ok lone_turns" by (simp add: lone_turns_def turn_ok_def)
  ultimately show ?thesis
    using applied_in_order [OF _ mem.raft_storage_laws_axioms _ l] by (simp add: upto.simps)
qed

subsection \<open>Reads\<close>

text \<open>An answer of a peer to a request with this number.\<close>

fun answers :: "string \<Rightarrow> int \<Rightarrow> 'r event \<Rightarrow> bool" where
  "answers m s (EvEntriesReply p t seq q a) = (member_id p = m \<and> seq = s)"
| "answers m s (EvSnapshotReply p t seq a) = (member_id p = m \<and> seq = s)"
| "answers m s ev = False"

fun keeps_acks :: "'r event \<Rightarrow> bool" where
  "keeps_acks EvStart = False"
| "keeps_acks (EvElectionTimeout g) = False"
| "keeps_acks (EvPreVoteReply p g v) = False"
| "keeps_acks (EvVoteReply p q v) = False"
| "keeps_acks (EvTimeoutNow t) = False"
| "keeps_acks (EvEntriesReply p t seq q a) = False"
| "keeps_acks (EvSnapshotReply p t seq a) = False"
| "keeps_acks ev = True"

lemma run_event_keeps_acks: "keeps_acks ev \<Longrightarrow> last_ack_seq (run_event R now ev e) = last_ack_seq e"
  by (cases ev; simp add: event_sections Let_def
     split: option.split list.split waiter.split prod.split chunk_result.split sum.split)

lemma become_leader_acks: "last_ack_seq (become_leader R now e) = []"
  by (simp add: become_leader_def Let_def)

lemma become_candidate_acks: "last_ack_seq (become_candidate R now tr e) \<in> {[], last_ack_seq e}"
  by (simp add: become_candidate_def Let_def become_leader_acks)

lemma note_contact_acks:
  "dict_get (last_ack_seq (note_contact now p s e)) m 0 =
     (if m = p then max (dict_get (last_ack_seq e) m 0) s else dict_get (last_ack_seq e) m 0)"
  by (simp add: note_contact_def dict_get_set)


lemma run_event_acks:
  assumes "0 \<le> b" and "b < dict_get (last_ack_seq (run_event R now ev e)) m 0"
  shows "b < dict_get (last_ack_seq e) m 0 \<or> (\<exists>s > b. answers m s ev)"
proof -
  have nil: "xs \<in> {[], last_ack_seq e} \<Longrightarrow> b < dict_get xs m 0 \<Longrightarrow> b < dict_get (last_ack_seq e) m 0" for xs
    using assms(1) by auto
  have cand: "b < dict_get (last_ack_seq (become_candidate R now tr e')) m 0 \<Longrightarrow> last_ack_seq e' = last_ack_seq e \<Longrightarrow>
      b < dict_get (last_ack_seq e) m 0" for tr e'
    using nil [of "last_ack_seq (become_candidate R now tr e')"] become_candidate_acks [of R now tr e'] by simp
  show ?thesis
  proof (cases "keeps_acks ev")
    case True
    then show ?thesis using assms(2) by (simp add: run_event_keeps_acks)
  next
    case False
    then show ?thesis
    proof (cases ev)
      case EvStart
      then show ?thesis using assms(2) cand [of False "e\<lparr>running := True\<rparr>"]
        by (auto simp: start_engine_def start_election_def Let_def split: if_splits)
    next
      case (EvElectionTimeout g)
      then show ?thesis using assms(2) cand [of False e] by (auto simp: start_election_def Let_def split: if_splits)
    next
      case (EvPreVoteReply p g v)
      then show ?thesis using assms(2) by (auto simp: pre_vote_reply_def Let_def split: if_splits dest: cand)
    next
      case (EvVoteReply p q v)
      then show ?thesis using assms by (auto simp: vote_reply_def Let_def become_leader_acks split: if_splits)
    next
      case (EvTimeoutNow t)
      then show ?thesis using assms(2) cand [of True e] by (auto simp: handle_timeout_now_def Let_def split: if_splits)
    next
      case (EvEntriesReply p t s q a)
      then show ?thesis using assms(2)
        by (auto simp: entries_reply_def Let_def note_contact_acks less_max_iff_disj split: if_splits)
    next
      case (EvSnapshotReply p t s a)
      then show ?thesis using assms(2)
        by (auto simp: snapshot_reply_def note_contact_acks less_max_iff_disj split: if_splits)
    qed simp_all
  qed
qed

lemma run_events_acks:
  assumes "0 \<le> b" and "b < dict_get (last_ack_seq (run_events R evs e)) m 0"
  shows "b < dict_get (last_ack_seq e) m 0 \<or> (\<exists>xs now ev ys s. evs = xs @ (now, ev) # ys \<and> b < s \<and> answers m s ev)"
  using assms
proof (induction evs arbitrary: e)
  case (Cons p evs)
  obtain now ev where p: "p = (now, ev)" by fastforce
  then have "b < dict_get (last_ack_seq (run_event R now ev e)) m 0 \<or>
      (\<exists>xs now ev ys s. evs = xs @ (now, ev) # ys \<and> b < s \<and> answers m s ev)"
    using Cons.IH [of "run_event R now ev e"] Cons.prems by simp
  then show ?case
  proof
    assume "b < dict_get (last_ack_seq (run_event R now ev e)) m 0"
    then have "b < dict_get (last_ack_seq e) m 0 \<or> (\<exists>s > b. answers m s ev)" by (rule run_event_acks [OF assms(1)])
    then show ?thesis unfolding p by (metis append_Nil)
  next
    assume "\<exists>xs now ev ys s. evs = xs @ (now, ev) # ys \<and> b < s \<and> answers m s ev"
    then show ?thesis unfolding p by (metis append_Cons)
  qed
qed simp

text \<open>
  The requests are numbered by \<open>_next_send_seq\<close> before they are sent: an answer carries a number that was given out
  before.
\<close>

fun reply_number :: "'r event \<Rightarrow> int option" where
  "reply_number (EvEntriesReply p t seq q a) = Some seq"
| "reply_number (EvSnapshotReply p t seq a) = Some seq"
| "reply_number ev = None"

fun numbered :: "'s raft_storage \<Rightarrow> (time \<times> 'r event) list \<Rightarrow> ('s, 'r) engine \<Rightarrow> bool" where
  "numbered R [] e = True"
| "numbered R ((now, ev) # evs) e =
     ((case reply_number ev of None \<Rightarrow> True | Some s \<Rightarrow> s \<le> send_seq e) \<and> numbered R evs (run_event R now ev e))"

lemma numbered_append: "numbered R (xs @ ys) e \<longleftrightarrow> numbered R xs e \<and> numbered R ys (run_events R xs e)"
  by (induction R xs e rule: numbered.induct) simp_all

lemma answers_number: "answers m s ev \<Longrightarrow> reply_number ev = Some s"
  by (cases ev) simp_all

lemma run_event_send_seq: "send_seq e \<le> send_seq (run_event R now ev e)"
  by (cases ev; simp add: event_sections start_election_def Let_def become_candidate_def
     split: option.split list.split waiter.split prod.split chunk_result.split sum.split)

definition acks_numbered :: "('s, 'r) engine \<Rightarrow> bool" where
  "acks_numbered e = (0 \<le> send_seq e \<and> (\<forall>m. dict_get (last_ack_seq e) m 0 \<le> send_seq e))"

lemma acks_numbered_run: "numbered R evs e \<Longrightarrow> acks_numbered e \<Longrightarrow> acks_numbered (run_events R evs e)"
proof (induction R evs e rule: numbered.induct)
  case (2 R now ev evs e)
  let ?e1 = "run_event R now ev e"
  have s: "0 \<le> send_seq e" "send_seq e \<le> send_seq ?e1" using 2(3) run_event_send_seq by (auto simp: acks_numbered_def)
  have "\<not> (\<exists>s > send_seq e. answers m s ev)" for m using 2(2) answers_number by fastforce
  then have "dict_get (last_ack_seq ?e1) m 0 \<le> send_seq e" for m
    using run_event_acks [OF s(1), of R now ev e m] 2(3) unfolding acks_numbered_def by (meson not_less)
  then have "acks_numbered ?e1" using s unfolding acks_numbered_def by (meson order_trans)
  then show ?case using 2 by simp
qed simp

lemma acks_numbered_new: "acks_numbered (new_engine R now i addr boot timeouts threshold s)"
  by (simp add: acks_numbered_def new_engine_def restore_persistent_state_def Let_def refresh_config_def initial_node_def
      split: prod.split)

text \<open>
  The waiting of \<open>_confirm_read_index\<close>: between two polls the events of one list happen.
\<close>

fun read_loop ::
  "'s raft_storage \<Rightarrow> (time \<times> 'r event) list list \<Rightarrow> read_wait \<Rightarrow> ('s, 'r) engine \<Rightarrow> ('s, 'r) engine \<times> (int, read_wait) poll" where
  "read_loop R [] w e = (e, read_poll True w e)"
| "read_loop R (evs # rest) w e =
     (case read_poll False w e of
        Wait w1 \<Rightarrow> read_loop R rest w1 (run_events R evs e)
      | r \<Rightarrow> (e, r))"

lemma read_poll_Return:
  assumes "read_poll late w e = Return i"
  shows "majority e \<le> read_acks (rw_start w) e"
    and "rw_index w = Some i \<or> (rw_index w = None \<and> i = commit_index (node e) \<and> term_start_index e \<le> i)"
  using assms by (auto simp: read_poll_def wait_or_raise_def Let_def split: option.splits if_splits)

lemma read_poll_Wait:
  assumes "read_poll late w e = Wait w1"
  shows "rw_start w1 = rw_start w" and "rw_index w1 = rw_index w \<or>
    (rw_index w1 = Some (commit_index (node e)) \<and> term_start_index e \<le> commit_index (node e))"
  using assms by (auto simp: read_poll_def wait_or_raise_def Let_def split: option.splits if_splits)

lemma filter_more: "(\<And>x. P x \<Longrightarrow> Q x) \<Longrightarrow> length (filter P xs) \<le> length (filter Q xs)"
  by (induction xs) auto

text \<open>A read index: the commit index at some moment, when the entry that the leader wrote for its own term was committed.\<close>

definition index_taken :: "'s raft_storage \<Rightarrow> (time \<times> 'r event) list \<Rightarrow> ('s, 'r) engine \<Rightarrow> int \<Rightarrow> bool" where
  "index_taken R evs e i =
     (\<exists>xs ys. evs = xs @ ys \<and> i = commit_index (node (run_events R xs e)) \<and> term_start_index (run_events R xs e) \<le> i)"

lemma index_taken_later: "index_taken R xs e i \<Longrightarrow> index_taken R (xs @ ys) e i"
  unfolding index_taken_def by (metis append.assoc)

lemma index_taken_now: "i = commit_index (node (run_events R xs e)) \<Longrightarrow> term_start_index (run_events R xs e) \<le> i \<Longrightarrow> index_taken R xs e i"
  unfolding index_taken_def by (metis append_Nil2)

lemma read_loop_Return:
  assumes "read_loop R segs w (run_events R past e0) = (e, Return i)"
    and "\<forall>j. rw_index w = Some j \<longrightarrow> index_taken R past e0 j"
  shows "\<exists>evs rest. evs @ rest = past @ concat segs \<and> e = run_events R evs e0 \<and> index_taken R evs e0 i \<and>
    majority e \<le> read_acks (rw_start w) e"
  using assms
proof (induction segs arbitrary: w past)
  case Nil
  then have p: "e = run_events R past e0" "read_poll True w (run_events R past e0) = Return i" by auto
  show ?case using read_poll_Return [OF p(2)] Nil.prems(2) p(1)
    by (intro exI [of _ past] exI [of _ "[]"]) (auto intro: index_taken_now)
next
  case (Cons evs rest)
  show ?case
  proof (cases "read_poll False w (run_events R past e0)")
    case (Return j)
    then have p: "e = run_events R past e0" "read_poll False w (run_events R past e0) = Return i" using Cons.prems(1) by auto
    show ?thesis using read_poll_Return [OF p(2)] Cons.prems(2) p(1)
      by (intro exI [of _ past] exI [of _ "concat (evs # rest)"]) (auto intro: index_taken_now)
  next
    case (Raise x)
    then show ?thesis using Cons.prems(1) by simp
  next
    case (Wait w1)
    have "read_loop R rest w1 (run_events R (past @ evs) e0) = (e, Return i)"
      using Cons.prems(1) Wait by (simp add: run_events_append)
    moreover have "index_taken R past e0 j" if "rw_index w1 = Some j" for j
      using read_poll_Wait [OF Wait] Cons.prems(2) that by (auto intro: index_taken_now)
    then have "\<forall>j. rw_index w1 = Some j \<longrightarrow> index_taken R (past @ evs) e0 j" using index_taken_later by blast
    ultimately have "\<exists>es r. es @ r = (past @ evs) @ concat rest \<and> e = run_events R es e0 \<and> index_taken R es e0 i \<and>
        majority e \<le> read_acks (rw_start w1) e"
      by (rule Cons.IH)
    then show ?thesis using read_poll_Wait(1) [OF Wait] by simp
  qed
qed

text \<open>
  C12: a read is answered only when leadership was confirmed after it began. When \<open>_confirm_read_index\<close> returns an index, in any
  run of a new engine in which answers carry numbers that were given out, it began on a running leader; the index was
  the commit index at some moment of the read, not below the node's commit index at its beginning nor above the one at
  its end, and by then the leader's entry for its own term was committed; and a majority of the members, the node
  itself included, is the node and members that answered, during the read, a request numbered after the read began.
\<close>

theorem reads_are_confirmed:
  assumes "e0 = run_events R evs0 (new_engine R now0 nid addr boot timeouts threshold st)"
    and "numbered R (evs0 @ concat segs) (new_engine R now0 nid addr boot timeouts threshold st)"
    and "read_start e0 = Inr w" and "read_loop R segs w e0 = (e, Return i)"
  shows "running e0 \<and> role (node e0) = LEADER \<and> commit_index (node e0) \<le> i \<and> i \<le> commit_index (node e) \<and>
    (\<exists>evs rest. evs @ rest = concat segs \<and> e = run_events R evs e0 \<and>
      (\<exists>xs ys. evs = xs @ ys \<and> i = commit_index (node (run_events R xs e0)) \<and> term_start_index (run_events R xs e0) \<le> i) \<and>
      length (members e) < 2 * length (filter (\<lambda>m. m = node_id e \<or>
        (\<exists>xs now ev ys s. evs = xs @ (now, ev) # ys \<and> answers m s ev \<and> send_seq e0 < s \<and> s \<le> send_seq (run_events R xs e0)))
        (dict_keys (members e))))"
proof -
  have w: "w = \<lparr>rw_start = send_seq e0, rw_term = current_term (node e0), rw_index = None\<rparr>" "running e0" "role (node e0) = LEADER"
    using assms(3) by (auto simp: read_start_def require_leader_def split: if_splits)
  have num: "acks_numbered e0" "numbered R (concat segs) e0"
  proof -
    note n = assms(2) [unfolded numbered_append, folded assms(1)]
    show "numbered R (concat segs) e0" using n by (rule conjunct2)
    show "acks_numbered e0" unfolding assms(1) by (rule acks_numbered_run [OF conjunct1 [OF n] acks_numbered_new])
  qed
  have "\<forall>j. rw_index w = Some j \<longrightarrow> index_taken R [] e0 j" by (simp add: w(1))
  then obtain evs rest where r: "evs @ rest = concat segs" "e = run_events R evs e0" "index_taken R evs e0 i"
    "majority e \<le> read_acks (send_seq e0) e"
    using read_loop_Return [of R segs w "[]" e0] assms(4) w(1) by auto
  obtain xs ys where t: "evs = xs @ ys" "i = commit_index (node (run_events R xs e0))" "term_start_index (run_events R xs e0) \<le> i"
    using r(3) unfolding index_taken_def by blast
  have "commit_index (node e0) \<le> i" "i \<le> commit_index (node e)"
    using run_events_commit [of e0 R xs] run_events_commit [of "run_events R xs e0" R ys] t(1,2) r(2) by (simp_all add: run_events_append)
  note bounds = this
  have late: "\<exists>xs now ev ys s. evs = xs @ (now, ev) # ys \<and> answers m s ev \<and> send_seq e0 < s \<and> s \<le> send_seq (run_events R xs e0)"
    if ack: "send_seq e0 < dict_get (last_ack_seq e) m 0" for m
  proof -
    have "\<not> send_seq e0 < dict_get (last_ack_seq e0) m 0" using num(1) by (simp add: acks_numbered_def not_less)
    then obtain xs now ev ys s where a: "evs = xs @ (now, ev) # ys" "send_seq e0 < s" "answers m s ev"
      using run_events_acks [of "send_seq e0" R evs e0 m] num(1) ack r(2) unfolding acks_numbered_def by blast
    have "numbered R ((now, ev) # ys) (run_events R xs e0)"
      using num(2) unfolding r(1) [symmetric] a(1) numbered_append by blast
    then have "s \<le> send_seq (run_events R xs e0)" using answers_number [OF a(3)] by simp
    then show ?thesis using a by blast
  qed
  have "read_acks (send_seq e0) e \<le> length (filter (\<lambda>m. m = node_id e \<or>
      (\<exists>xs now ev ys s. evs = xs @ (now, ev) # ys \<and> answers m s ev \<and> send_seq e0 < s \<and> s \<le> send_seq (run_events R xs e0)))
      (dict_keys (members e)))"
    unfolding read_acks_def by (rule filter_more) (use late in blast)
  then have "length (members e) < 2 * length (filter (\<lambda>m. m = node_id e \<or>
      (\<exists>xs now ev ys s. evs = xs @ (now, ev) # ys \<and> answers m s ev \<and> send_seq e0 < s \<and> s \<le> send_seq (run_events R xs e0)))
      (dict_keys (members e)))"
    using r(4) unfolding majority_def by linarith
  then show ?thesis using w(2,3) bounds r(1,2) t by blast
qed

text \<open>
  A leader of three, elected by \<open>b\<close>, whose entry \<open>b\<close> has stored: a read waits until \<open>c\<close> has answered a request
  that was numbered after it.
\<close>

definition peer_of :: "string \<Rightarrow> member" where
  "peer_of i = \<lparr>member_id = i, raft_address = i, client_address = []\<rparr>"

definition three_engine :: "(mem_storage, int) engine" where
  "three_engine = new_engine memory_storage 0 ''a'' ''a'' (map peer_of [''a'', ''b'', ''c'']) (1500000, 3000000) 1000 mem_init"

definition three_run :: "(time \<times> int event) list" where
  "three_run =
     (let q = \<lparr>vq_term = 1, vq_candidate_id = ''a'', vq_last_log_index = 0, vq_last_log_term = 0, vq_pre_vote = False, vq_transfer = False\<rparr>;
          a = \<lparr>aq_term = 1, aq_leader_id = ''a'', aq_prev_log_index = 0, aq_prev_log_term = Some 0,
                aq_entries = [\<lparr>e_term = 1, e_index = 1, e_command = noop_command, e_username = [], e_request_id = []\<rparr>],
                aq_leader_commit = 0, aq_leader_address = ''a''\<rparr>
      in [(0, EvStart), (1, EvElectionTimeout 1), (2, EvPreVoteReply (peer_of ''b'') 2 \<lparr>vr_term = 0, vr_granted = True\<rparr>),
          (3, EvVoteReply (peer_of ''b'') q \<lparr>vr_term = 1, vr_granted = True\<rparr>), (4, EvNumber),
          (5, EvEntriesReply (peer_of ''b'') 1 1 a \<lparr>ar_term = 1, ar_success = True, ar_match_index = 1, ar_conflict_index = 0\<rparr>)])"

definition three_reads :: "(time \<times> int event) list list" where
  "three_reads =
     (let a = \<lparr>aq_term = 1, aq_leader_id = ''a'', aq_prev_log_index = 1, aq_prev_log_term = Some 1, aq_entries = [],
                aq_leader_commit = 1, aq_leader_address = ''a''\<rparr>
      in [[(6, EvNumber)], [(7, EvEntriesReply (peer_of ''c'') 1 2 a \<lparr>ar_term = 1, ar_success = False, ar_match_index = 0, ar_conflict_index = 1\<rparr>)],
          [(8, EvNumber)]])"

theorem reads_are_confirmed_witness:
  "let e0 = run_events memory_storage three_run three_engine; w = \<lparr>rw_start = 1, rw_term = 1, rw_index = None\<rparr>
   in snd (read_loop memory_storage three_reads w e0) = Return 1 \<and>
      snd (read_loop memory_storage (take 1 three_reads) w e0) \<noteq> Return 1 \<and> commit_index (node e0) \<le> 1"
proof -
  let ?e = "run_events memory_storage three_run three_engine" and ?w = "\<lparr>rw_start = 1, rw_term = 1, rw_index = None\<rparr>"
  have s: "read_start ?e = Inr ?w" by code_simp
  have r: "snd (read_loop memory_storage three_reads ?w ?e) = Return 1"
    "snd (read_loop memory_storage (take 1 three_reads) ?w ?e) \<noteq> Return 1" by code_simp+
  then have l: "read_loop memory_storage three_reads ?w ?e = (fst (read_loop memory_storage three_reads ?w ?e), Return 1)"
    by (metis prod.collapse)
  have n: "numbered memory_storage (three_run @ concat three_reads) three_engine" by code_simp
  have "commit_index (node ?e) \<le> 1"
    using reads_are_confirmed [OF refl n [unfolded three_engine_def] s [unfolded three_engine_def] l [unfolded three_engine_def]]
    by (simp add: three_engine_def)
  then show ?thesis using r by (simp add: Let_def)
qed

end
