(* ===== verification/Raft_Lists.thy ===== *)
theory Raft_Lists
  imports Raft_Logs Raft_Theorems
begin

section \<open>The lists behind the logs of the engines\<close>

text \<open>
  What the critical sections do to the whole log of a node, of which it holds only the part after its
  snapshot.
\<close>

definition stands_for :: "log_entry list \<Rightarrow> raft_node \<Rightarrow> bool" where
  "stands_for L n =
     (0 \<le> snapshot_index n \<and> nat (snapshot_index n) \<le> length L \<and> log n = drop (nat (snapshot_index n)) L \<and>
      snapshot_term n = lterm (take (nat (snapshot_index n)) L))"

lemma stands_frame:
  "stands_for L n \<Longrightarrow> log n' = log n \<Longrightarrow> snapshot_index n' = snapshot_index n \<Longrightarrow> snapshot_term n' = snapshot_term n \<Longrightarrow>
   stands_for L n'"
  by (simp add: stands_for_def)

lemma stands_last:
  assumes "stands_for L n"
  shows "last_log_index n = int (length L)" and "last_log_term n = lterm L"
proof -
  show "last_log_index n = int (length L)" using assms by (auto simp: stands_for_def last_log_index_def)
  show "last_log_term n = lterm L"
  proof (cases "nat (snapshot_index n) = length L")
    case True
    then show ?thesis using assms by (simp add: stands_for_def last_log_term_def)
  next
    case False
    then have "drop (nat (snapshot_index n)) L \<noteq> []" "L \<noteq> []" using assms by (auto simp: stands_for_def)
    then show ?thesis using assms by (simp add: stands_for_def last_log_term_def lterm_def)
  qed
qed

lemma stands_term_at:
  assumes L: "stands_for L n" and "snapshot_index n \<le> i" and "i \<le> int (length L)"
  shows "term_at n i = Some (lterm (take (nat i) L))"
proof (cases "i = snapshot_index n")
  case True
  then show ?thesis using L by (simp add: term_at_def stands_for_def)
next
  case False
  then have i: "in_log n i" using assms stands_last(1) [OF L] by (simp add: in_log_def)
  have "nat (snapshot_index n) + nat (i - snapshot_index n - 1) = nat i - 1"
    using L False assms(2) by (auto simp: stands_for_def)
  then have "entry_at n i = Some (L ! (nat i - 1))"
    using entry_at_nth [OF i] L by (simp add: stands_for_def)
  moreover have "0 < nat i" "nat i \<le> length L" using L False assms by (auto simp: stands_for_def)
  ultimately show ?thesis using False lterm_take by (simp add: term_at_entry)
qed

lemma stands_term_at_None: "stands_for L n \<Longrightarrow> term_at n i = None \<longleftrightarrow> i < snapshot_index n \<or> int (length L) < i"
  by (simp add: term_at_None stands_last)

lemma stands_term_at_Some:
  "stands_for L n \<Longrightarrow> term_at n i = Some t \<Longrightarrow>
   snapshot_index n \<le> i \<and> 0 \<le> i \<and> nat i \<le> length L \<and> t = lterm (take (nat i) L)"
  using stands_term_at_None [of L n i] stands_term_at [of L n i] by (auto simp: stands_for_def)

lemma stands_entry_at:
  assumes L: "stands_for L n"
  shows "entry_at n i = (if snapshot_index n < i \<and> i \<le> int (length L) then Some (L ! (nat i - 1)) else None)"
proof (cases "in_log n i")
  case True
  then have "nat (snapshot_index n) + nat (i - snapshot_index n - 1) = nat i - 1"
    using L by (auto simp: stands_for_def in_log_def)
  then show ?thesis using entry_at_nth [OF True] True L stands_last(1) [OF L]
    by (simp add: stands_for_def in_log_def)
next
  case False
  then have "entry_at n i = None" using entry_at_None by blast
  then show ?thesis using False stands_last(1) [OF L] by (auto simp: in_log_def)
qed

lemma stands_append: "stands_for L n \<Longrightarrow> log n' = log n @ es \<Longrightarrow> snapshot_index n' = snapshot_index n \<Longrightarrow>
  snapshot_term n' = snapshot_term n \<Longrightarrow> stands_for (L @ es) n'"
  by (simp add: stands_for_def)

lemma stands_compact: "stands_for L n \<Longrightarrow> term_at n i = Some t \<Longrightarrow> stands_for L (compact_through n i t c)"
  using stands_term_at_Some [of L n i t] by (auto simp: stands_for_def compact_log_match add.commute nat_diff_distrib')

lemma stands_install:
  "term_at n i \<noteq> Some (lterm P) \<Longrightarrow> i = int (length P) \<Longrightarrow> stands_for P (compact_through n i (lterm P) c)"
  by (simp add: stands_for_def compact_log_mismatch)

lemma stands_cut:
  assumes L: "stands_for L n" and "snapshot_index n < i" and "nat i \<le> length L + 1"
    and "log n' = take (nat (i - snapshot_index n - 1)) (log n) @ es"
    and "snapshot_index n' = snapshot_index n" and "snapshot_term n' = snapshot_term n"
  shows "stands_for (take (nat i - 1) L @ es) n'"
proof -
  have s: "0 \<le> snapshot_index n" "nat (snapshot_index n) \<le> nat i - 1" using L assms(2) by (auto simp: stands_for_def)
  then have "nat (i - snapshot_index n - 1) = nat i - 1 - nat (snapshot_index n)" using assms(2) by linarith
  then show ?thesis using assms s L by (auto simp: stands_for_def drop_take min_def)
qed

subsection \<open>Receiving entries\<close>

text \<open>A replication request carries a piece of the history of its term.\<close>

definition piece :: "history \<Rightarrow> append_request \<Rightarrow> bool" where
  "piece H q =
     (H (aq_term q) \<noteq> [] \<and> 0 \<le> aq_prev_log_index q \<and>
      (if aq_prev_log_term q = None then aq_entries q = []
       else let p = nat (aq_prev_log_index q)
            in p + length (aq_entries q) \<le> length (H (aq_term q)) \<and>
               aq_prev_log_term q = Some (lterm (take p (H (aq_term q)))) \<and>
               aq_entries q = take (length (aq_entries q)) (drop p (H (aq_term q)))))"

text \<open>
  What an accepted request may do to a log: nothing, or replace what follows the part that agrees
  with the history, and only if there is a conflict or the log is shorter.
\<close>

definition replaced_by :: "log_entry list \<Rightarrow> log_entry list \<Rightarrow> log_entry list \<Rightarrow> bool" where
  "replaced_by X L L' =
     (L' = L \<or> (\<exists>k. agree L k X \<and> k \<le> length L' \<and> L' \<noteq> [] \<and> prefix L' X \<and> (k = length L \<or> \<not> agree L (Suc k) X)))"

lemma append_new_lists:
  assumes w: "wf_history H" and L: "stands_for L (node e)" "hist H L"
    and es: "es = take (length es) (drop p X)" "p + length es \<le> length X" "hist H X" "consecutive (int p + 1) es"
    and p: "snapshot_index (node e) \<le> int p" "agree L p X"
  shows "\<exists>L'. stands_for L' (node (append_new R now es e)) \<and> agree L' (p + length es) X \<and> replaced_by X L L'"
proof -
  let ?n = "node e" and ?n' = "node (append_new R now es e)"
  have len: "p \<le> length L" using p(2) by (simp add: agree_def)
  have b: "snapshot_index ?n < int p + 1" "int p + 1 \<le> last_log_index ?n + 1"
    using p(1) len stands_last(1) [OF L(1)] by simp_all
  obtain k where k: "k \<le> length es" "int p + 1 + int k \<le> last_log_index ?n + 1"
    "\<forall>j < k. term_at ?n (int p + 1 + int j) = Some (e_term (es ! j))"
    "log ?n' = (if k = length es then log ?n else take (nat (int p + 1 + int k - snapshot_index ?n - 1)) (log ?n) @ drop k es)"
    "k < length es \<Longrightarrow> int p + 1 + int k \<le> last_log_index ?n \<Longrightarrow> term_at ?n (int p + 1 + int k) \<noteq> Some (e_term (es ! k))"
    using append_new_log [OF es(4) b, of R now thesis] by blast
  have lk: "p + k \<le> length L" using k(2) stands_last(1) [OF L(1)] by simp
  have xk: "X ! (p + j) = es ! j" if "j < length es" for j
    using that es(1,2) by (metis add.commute le_add2 less_imp_le_nat nth_drop nth_take trans_le_add1 order_trans)
  have at: "term_at ?n (int p + 1 + int j) = Some (lterm (take (p + j + 1) L))" if "p + j + 1 \<le> length L" for j
    using stands_term_at [OF L(1), of "int p + 1 + int j"] p(1) that by (simp add: nat_add_distrib algebra_simps)
  have match: "agree L (p + k) X"
  proof (cases k)
    case (Suc j)
    then have "lterm (take (p + k) L) = e_term (es ! j)" using at [of j] k(3) lk by simp
    also have "\<dots> = lterm (take (p + k) X)" using lterm_take [of "p + k" X] Suc k(1) es(2) xk [of j] by simp
    finally show ?thesis using hist_match [OF w L(2) es(3)] lk k(1) es(2) by simp
  qed (use p(2) in simp)
  show ?thesis
  proof (cases "k = length es")
    case True
    then have "stands_for L ?n'" using k(4) L(1) by (auto intro: stands_frame)
    then show ?thesis using match True by (auto simp: replaced_by_def)
  next
    case False
    then have kl: "k < length es" using k(1) by simp
    let ?L = "take (p + length es) X"
    have "take (p + k) L @ drop k es = ?L"
    proof -
      have "take (p + length es) X = take (p + k) X @ take (length es - k) (drop (p + k) X)"
        using kl by (simp add: take_add [symmetric])
      moreover have "drop k es = take (length es - k) (drop (p + k) X)"
        using es(1) by (metis add.commute drop_drop drop_take)
      ultimately show ?thesis using match by (simp add: agree_def)
    qed
    moreover have "nat (int p + 1 + int k) - 1 = p + k" by linarith
    moreover have "stands_for (take (nat (int p + 1 + int k) - 1) L @ drop k es) ?n'"
      using k(4) False p(1) lk by (intro stands_cut [OF L(1)]) auto
    ultimately have "stands_for ?L ?n'" by simp
    moreover have "agree ?L (p + length es) X" using es(2) by (simp add: agree_def)
    moreover have "k + p = length L \<or> \<not> agree L (Suc (p + k)) X"
    proof (cases "p + k = length L")
      case False
      then have l: "p + k + 1 \<le> length L" using lk by simp
      then have "lterm (take (p + k + 1) L) \<noteq> e_term (es ! k)"
        using at [OF l] k(5) kl stands_last(1) [OF L(1)] by auto
      moreover have "lterm (take (p + k + 1) X) = e_term (es ! k)"
        using lterm_take [of "p + k + 1" X] kl es(2) xk [OF kl] by simp
      ultimately show ?thesis by (auto simp: agree_def)
    qed simp
    ultimately show ?thesis
      unfolding replaced_by_def using match es(2) kl
      by (intro exI [of _ ?L]) (auto simp: take_is_prefix add.commute intro!: exI [of _ "p + k"])
  qed
qed


lemma append_handler_commit:
  "handle_append_entries R now q e = (e', r) \<Longrightarrow>
   commit_index (node e') = commit_index (node e) \<or>
   (ar_success r \<and> commit_index (node e') \<le> aq_leader_commit q \<and> commit_index (node e') \<le> ar_match_index r)"
  unfolding handle_append_entries_def Let_def by (auto split: if_splits prod.splits simp: max_def min_def)

lemma append_handler_role:
  "handle_append_entries R now q e = (e', r) \<Longrightarrow>
   (e' = e \<and> aq_term q < current_term (node e) \<and> \<not> ar_success r) \<or>
   (current_term (node e) \<le> aq_term q \<and> current_term (node e') = aq_term q \<and> role (node e') = FOLLOWER \<and> ar_term r = aq_term q)"
  unfolding handle_append_entries_def Let_def by (auto split: if_splits prod.splits)

lemma piece_drop:
  assumes "piece H q" and "aq_entries q \<noteq> [] \<or> aq_prev_log_term q \<noteq> None"
    and "fs = drop d (aq_entries q)" and "d \<le> length (aq_entries q)"
  shows "fs = take (length fs) (drop (nat (aq_prev_log_index q) + d) (H (aq_term q)))"
    and "nat (aq_prev_log_index q) + d + length fs \<le> length (H (aq_term q))"
proof -
  let ?p = "nat (aq_prev_log_index q)" and ?X = "H (aq_term q)"
  have e: "?p + length (aq_entries q) \<le> length ?X" "aq_entries q = take (length (aq_entries q)) (drop ?p ?X)"
    using assms(1,2) by (auto simp: piece_def Let_def split: if_splits)
  have l: "length fs = length (aq_entries q) - d" using assms(3) by simp
  have "fs = drop d (take (length (aq_entries q)) (drop ?p ?X))" using assms(3) e(2) by simp
  then show "fs = take (length fs) (drop (?p + d) ?X)" unfolding l by (simp add: drop_take add.commute)
  show "?p + d + length fs \<le> length ?X" using assms(3,4) e(1) by simp
qed

lemma append_handler:
  fixes e e' :: "('s, 'r) engine"
  assumes w: "wf_history H" and L: "stands_for L (node e)" "hist H L"
    and q: "piece H q" "consecutive (aq_prev_log_index q + 1) (aq_entries q)"
    and snap: "current_term (node e) \<le> aq_term q \<Longrightarrow> agree L (nat (snapshot_index (node e))) (H (aq_term q))"
    and h: "handle_append_entries R now q e = (e', r)"
  shows "\<exists>L'. stands_for L' (node e') \<and> hist H L' \<and> replaced_by (H (aq_term q)) L L' \<and>
    (ar_success r \<longrightarrow> 0 \<le> ar_match_index r \<and> agree L' (nat (ar_match_index r)) (H (aq_term q)) \<and>
       aq_prev_log_index q + int (length (aq_entries q)) \<le> ar_match_index r)"
proof (cases "ar_success r")
  case False
  then have "log (node e') = log (node e) \<and> snapshot_index (node e') = snapshot_index (node e) \<and>
      snapshot_term (node e') = snapshot_term (node e)"
    using h unfolding handle_append_entries_def Let_def by (auto split: if_splits prod.splits)
  then have "stands_for L (node e')" using L(1) by (auto intro: stands_frame)
  then show ?thesis using L(2) False by (auto simp: replaced_by_def)
next
  case True
  let ?X = "H (aq_term q)"
  obtain fs a at where f: "fresh_part q (node e) = (fs, a, at)" by (metis prod_cases3)
  note fp = fresh_part_entries [OF f q(2)]
  obtain e1 :: "('s, 'r) engine" and c where e1: "node e' = (node (append_new R now fs e1))\<lparr>commit_index := c\<rparr>"
    "log (node e1) = log (node e)" "snapshot_index (node e1) = snapshot_index (node e)"
    "snapshot_term (node e1) = snapshot_term (node e)" "a \<le> last_log_index (node e)" "term_at (node e) a = at"
    "ar_match_index r = a + int (length fs)"
    using append_entries_success [OF h True f] by blast
  have cur: "current_term (node e) \<le> aq_term q" using append_handler_role [OF h] True by auto
  have q0: "0 \<le> aq_prev_log_index q" "?X \<noteq> []" using q(1) by (simp_all add: piece_def)
  have L1: "stands_for L (node e1)" using L(1) e1(2-4) by (auto intro: stands_frame)
  have s0: "0 \<le> snapshot_index (node e)" using L(1) by (simp add: stands_for_def)
  have al: "nat a \<le> length L" "0 \<le> a" using e1(5) stands_last(1) [OF L(1)] fp(1) q0 by auto
  have hX: "hist H ?X" using w by (rule hist_history)
  have agr: "agree L (nat a) ?X"
  proof (cases "aq_prev_log_index q < snapshot_index (node e)")
    case True
    then show ?thesis using snap [OF cur] fp(1) by simp
  next
    case False
    then have "at = aq_prev_log_term q" "a = aq_prev_log_index q" using f by (auto simp: fresh_part_def)
    moreover have "term_at (node e) a = Some (lterm (take (nat a) L))"
      using stands_term_at [OF L(1), of a] False al calculation by linarith
    ultimately have t: "aq_prev_log_term q = Some (lterm (take (nat a) L))" "a = aq_prev_log_index q"
      using e1(6) by simp_all
    then have "nat a \<le> length ?X" "lterm (take (nat a) L) = lterm (take (nat a) ?X)"
      using q(1) by (simp_all add: piece_def Let_def)
    then show ?thesis using hist_match [OF w L(2) hX al(1)] by simp
  qed
  have es: "fs = take (length fs) (drop (nat a) ?X) \<and> nat a + length fs \<le> length ?X"
  proof (cases "fs = []")
    case True
    then show ?thesis using agr by (simp add: agree_def)
  next
    case False
    then have "nat (a - aq_prev_log_index q) \<le> length (aq_entries q)" "aq_entries q \<noteq> []" using fp(3) by auto
    moreover have "nat (aq_prev_log_index q) + nat (a - aq_prev_log_index q) = nat a" using fp(1) q0 by simp
    ultimately show ?thesis using piece_drop [OF q(1) _ fp(3)] by simp
  qed
  have "\<exists>L'. stands_for L' (node (append_new R now fs e1)) \<and> agree L' (nat a + length fs) ?X \<and> replaced_by ?X L L'"
    using es fp(1,2) al agr e1(3)
    by (intro append_new_lists [OF w L1 L(2) _ _ hX]) auto
  then obtain L' where L': "stands_for L' (node (append_new R now fs e1))" "agree L' (nat a + length fs) ?X" "replaced_by ?X L L'"
    by blast
  have "hist H L'" using L'(3) L(2) w by (auto simp: replaced_by_def wf_history_def)
  moreover have "stands_for L' (node e')" using L'(1) e1(1) by (auto intro: stands_frame)
  moreover have "nat (ar_match_index r) = nat a + length fs" using e1(7) al by simp
  moreover have "aq_prev_log_index q + int (length (aq_entries q)) \<le> a + int (length fs)"
    using fp(1,3) by simp
  ultimately show ?thesis using L'(2,3) e1(7) al(2) by auto
qed

end
