(* ===== verification/Raft_Outcomes.thy ===== *)
theory Raft_Outcomes
  imports Raft_Lists
begin

section \<open>What the events do to a log, a role and a commit index\<close>

definition same_log :: "raft_node \<Rightarrow> raft_node \<Rightarrow> bool" where
  "same_log n n' = (log n' = log n \<and> snapshot_index n' = snapshot_index n \<and> snapshot_term n' = snapshot_term n)"

text \<open>The node keeps its log and commit index, and its role, unless it becomes a follower.\<close>

definition calm :: "('s, 'r) engine \<Rightarrow> ('s, 'r) engine \<Rightarrow> bool" where
  "calm e e' =
     (same_log (node e) (node e') \<and> commit_index (node e') = commit_index (node e) \<and>
      current_term (node e) \<le> current_term (node e') \<and> node_id e' = node_id e \<and>
      (role (node e') = FOLLOWER \<or>
        (role (node e') = role (node e) \<and> current_term (node e') = current_term (node e) \<and>
         (\<forall>p. dict_get (match_index (node e')) p 0 \<in> {0, dict_get (match_index (node e)) p 0}))))"

lemma calm_refl: "calm e e"
  by (simp add: calm_def same_log_def)

lemma calm_become_follower: "calm e (become_follower R t e)"
  by (simp add: calm_def same_log_def)

lemma match_index_start [simp]:
  "dict_get (match_index (node (start_replicator now p e))) q 0 \<in> {0, dict_get (match_index (node e)) q 0}"
  by (auto simp: start_replicator_def Let_def)

fun calm_event :: "'r event \<Rightarrow> bool" where
  "calm_event EvStop = True"
| "calm_event (EvRequestVote q) = True"
| "calm_event (EvCheckQuorum t) = True"
| "calm_event (EvReplicate p t w) = True"
| "calm_event EvNumber = True"
| "calm_event (EvSnapshotReply p t s a) = True"
| "calm_event (EvChunk q) = True"
| "calm_event (EvProposePoll l x) = True"
| "calm_event (EvAddLearner m) = True"
| "calm_event (EvCatchUp l t m) = True"
| "calm_event (EvAddFinish m) = True"
| "calm_event EvTransferStart = True"
| "calm_event EvTransferEnd = True"
| "calm_event ev = False"

lemma calm_run_event:
  assumes "calm_event ev"
  shows "calm e (run_event R now ev e)"
proof (cases ev)
  case (EvAddLearner m)
  have "dict_get (match_index (node (start_replicator now (member_id m) (e\<lparr>learners := l\<rparr>)))) p 0
      \<in> {0, dict_get (match_index (node e)) p 0}" for p l
    using match_index_start [of now "member_id m" "e\<lparr>learners := l\<rparr>" p] by simp
  then show ?thesis using EvAddLearner
    by (simp add: calm_def same_log_def) (simp add: add_learner_def)
qed (use assms in \<open>auto simp: calm_def same_log_def event_sections Let_def
      split: option.splits list.splits waiter.splits prod.splits chunk_result.splits sum.splits if_splits\<close>)

lemma calm_trans: "calm e1 e2 \<Longrightarrow> calm e2 e3 \<Longrightarrow> calm e1 e3"
  unfolding calm_def same_log_def by fastforce

subsection \<open>Becoming a candidate or a leader\<close>

text \<open>The state in which a candidate has just voted for itself.\<close>

definition candidacy :: "('s, 'r) engine \<Rightarrow> ('s, 'r) engine \<Rightarrow> bool" where
  "candidacy e e' =
     (same_log (node e) (node e') \<and> commit_index (node e') = commit_index (node e) \<and>
      current_term (node e') = current_term (node e) + 1 \<and> role (node e') = CANDIDATE \<and>
      voted_for (node e') = Some (node_id e) \<and> node_id e' = node_id e \<and> members e' = members e)"

text \<open>\<open>e'\<close> has just become the leader of its term, with a no-op at the end of its log.\<close>

definition new_leader :: "('s, 'r) engine \<Rightarrow> ('s, 'r) engine \<Rightarrow> bool" where
  "new_leader e e' =
     (role (node e') = LEADER \<and> tv e' = tv e \<and> node_id e' = node_id e \<and>
      snapshot_index (node e') = snapshot_index (node e) \<and> snapshot_term (node e') = snapshot_term (node e) \<and>
      log (node e') = log (node e) @ [\<lparr>e_term = current_term (node e), e_index = last_log_index (node e) + 1,
        e_command = noop_command, e_username = [], e_request_id = []\<rparr>] \<and>
      (\<forall>p. dict_get (match_index (node e')) p 0 = 0) \<and>
      (commit_index (node e') = commit_index (node e) \<or>
        (commit_index (node e) < commit_index (node e') \<and> commit_index (node e') \<le> last_log_index (node e) + 1 \<and>
         term_at (node e') (commit_index (node e')) = Some (current_term (node e)) \<and>
         quorum (members e) {m. m = node_id e \<or> commit_index (node e') \<le> 0})))"

text \<open>What \<open>_advance_commit_index\<close> may commit.\<close>

lemma advance_commit_cases:
  "commit_index (node (advance_commit_index e)) = commit_index (node e) \<or>
   (\<exists>i. commit_index (node (advance_commit_index e)) = i \<and> role (node e) = LEADER \<and> commit_index (node e) < i \<and>
      i \<le> last_log_index (node e) \<and> term_at (node e) i = Some (current_term (node e)) \<and>
      quorum (members e) {m. m = node_id e \<or> i \<le> dict_get (match_index (node e)) m 0})"
  using scan_commit_Some [of e "rev [commit_index (node e) + 1 .. last_log_index (node e)]"]
  by (fastforce simp: advance_commit_index_def replicas_def majority_def quorum_def split: option.split)

lemma same_log_at:
  assumes "same_log n n'"
  shows "entry_at n' i = entry_at n i" and "term_at n' i = term_at n i" and "last_log_index n' = last_log_index n"
    and "last_log_term n' = last_log_term n"
  using assms log_same [of n' n] by (simp_all add: same_log_def last_log_term_def)

lemma init_peer_match:
  "dict_get (match_index (node (fold (init_peer i now) ps e))) p 0 \<in> {0, dict_get (match_index (node e)) p 0}"
proof (induction ps arbitrary: e)
  case (Cons q ps)
  show ?case using Cons [of "init_peer i now q e"] by (auto simp: init_peer_def)
qed simp

lemma start_fold_match:
  "dict_get (match_index (node (fold (start_replicator now) ps e))) p 0 \<in> {0, dict_get (match_index (node e)) p 0}"
proof (induction ps arbitrary: e)
  case (Cons q ps)
  show ?case using Cons [of "start_replicator now q e"] match_index_start [of now q e p] by auto
qed simp

lemma become_leader_new: "new_leader e (become_leader R now e)"
proof -
  define noop where "noop = \<lparr>e_term = current_term (node e), e_index = last_log_index (node e) + 1,
    e_command = noop_command, e_username = [], e_request_id = []\<rparr>"
  define e1 where "e1 = e\<lparr>node := (node e)\<lparr>role := LEADER, leader_id := Some (node_id e), next_index := [], match_index := []\<rparr>,
      leader_addr := self_address e, transferring := False, learners := [],
      timer_generation := timer_generation e + 1, timer_armed := False, last_contact := [], last_ack_seq := []\<rparr>"
  define e2 where "e2 = fold (init_peer (last_log_index (node e) + 1) now) (dict_keys (targets e1)) e1"
  define e3 where "e3 = append_local R now [noop] (e2\<lparr>term_start_index := last_log_index (node e) + 1\<rparr>)"
  let ?e4 = "advance_commit_index (emit [CallBecomeLeader] e3)"
  have l: "become_leader R now e = (let e5 = ?e4\<lparr>replicators := []\<rparr>; e6 = fold (start_replicator now) (dict_keys (targets e5)) e5
      in emit [SpawnCheckQuorum (current_term (node e6))] e6)"
    by (simp add: become_leader_def Let_def e1_def e2_def e3_def noop_def)
  have c: "commit_index (node (become_leader R now e)) = commit_index (node ?e4)" by (simp add: l Let_def)
  have m1: "dict_get (match_index (node e2)) p 0 = 0" for p
    using init_peer_match [of "last_log_index (node e) + 1" now "dict_keys (targets e1)" e1 p]
    by (auto simp: e2_def e1_def dict_get_def)
  have m3: "match_index (node e3) = match_index (node e2)" "members e3 = members e" "node_id e3 = node_id e"
    "role (node e3) = LEADER" "current_term (node e3) = current_term (node e)"
    "commit_index (node e3) = commit_index (node e)" "last_log_index (node e3) = last_log_index (node e) + 1"
    by (simp_all add: e3_def e2_def e1_def append_local_def noop_def last_log_index_def)
  have m: "dict_get (match_index (node (become_leader R now e))) p 0 = 0" for p
    using start_fold_match [of now "dict_keys (targets (?e4\<lparr>replicators := []\<rparr>))" "?e4\<lparr>replicators := []\<rparr>" p] m1
    by (auto simp: l Let_def m3)
  have s: "same_log (node e3) (node (become_leader R now e))"
    by (simp add: same_log_def l Let_def)
  have "same_log (node e3) (node (emit [CallBecomeLeader] e3))" by (simp add: same_log_def)
  note at = same_log_at [OF this] same_log_at [OF s]
  show ?thesis
    using advance_commit_cases [of "emit [CallBecomeLeader] e3"] m m1
    unfolding new_leader_def by (simp add: c at m3 become_leader_log)
qed

lemma become_candidate_cases:
  obtains e1 where "candidacy e e1" and "become_candidate R now tr e = become_leader R now e1" and "quorum (members e) {node_id e}"
  | "candidacy e (become_candidate R now tr e)"
proof -
  let ?n = "node e"
  define e1 where "e1 = persist_term_and_vote R
     (e\<lparr>node := ?n\<lparr>current_term := current_term ?n + 1, role := CANDIDATE, voted_for := Some (node_id e), leader_id := None\<rparr>\<rparr>)"
  define e2 where "e2 = e1\<lparr>votes := dict_set (votes e1) (current_term (node e1)) [node_id e1]\<rparr>"
  have c: "candidacy e e2" by (simp add: candidacy_def same_log_def e2_def e1_def)
  show ?thesis
  proof (cases "majority e2 \<le> count_votes [node_id e2] e2")
    case True
    then have "become_candidate R now tr e = become_leader R now e2" "quorum (members e) {node_id e}"
      using majority_quorum [of e2 "[node_id e2]"]
      by (simp_all add: become_candidate_def Let_def e1_def e2_def)
    then show ?thesis using that(1) c by blast
  next
    case False
    then have "candidacy e2 (become_candidate R now tr e) \<or> candidacy e (become_candidate R now tr e)"
      using c by (simp add: become_candidate_def Let_def e1_def e2_def candidacy_def same_log_def)
    then show ?thesis using that(2) c by (auto simp: candidacy_def same_log_def)
  qed
qed


text \<open>The leader has learnt that \<open>p\<close> holds its log up to \<open>i\<close>.\<close>

definition matched :: "string \<Rightarrow> int \<Rightarrow> ('s, 'r) engine \<Rightarrow> ('s, 'r) engine \<Rightarrow> bool" where
  "matched p i e e' =
     (same_log (node e) (node e') \<and> role (node e) = LEADER \<and> role (node e') = LEADER \<and> tv e' = tv e \<and>
      node_id e' = node_id e \<and>
      (\<forall>m. dict_get (match_index (node e')) m 0 =
        (if m = p then max (dict_get (match_index (node e)) p 0) i else dict_get (match_index (node e)) m 0)) \<and>
      (commit_index (node e') = commit_index (node e) \<or>
        (commit_index (node e) < commit_index (node e') \<and> commit_index (node e') \<le> last_log_index (node e) \<and>
         term_at (node e) (commit_index (node e')) = Some (current_term (node e)) \<and>
         quorum (members e) {m. m = node_id e \<or> commit_index (node e') \<le> dict_get (match_index (node e')) m 0})))"

lemma record_match_matched:
  assumes "role (node e) = LEADER"
  shows "matched p i e (record_match p i e)"
proof -
  let ?m = "max (dict_get (match_index (node e)) p 0) i"
  define e1 where "e1 = e\<lparr>node := (node e)\<lparr>match_index := dict_set (match_index (node e)) p ?m,
                        next_index := dict_set (next_index (node e)) p (?m + 1)\<rparr>\<rparr>"
  have r: "record_match p i e = advance_commit_index e1" by (simp add: record_match_def Let_def e1_def)
  have f: "same_log (node e) (node e1)" "role (node e1) = role (node e)" "tv e1 = tv e" "members e1 = members e"
    "node_id e1 = node_id e" "commit_index (node e1) = commit_index (node e)"
    by (simp_all add: same_log_def e1_def)
  have m: "dict_get (match_index (node e1)) m 0 = (if m = p then ?m else dict_get (match_index (node e)) m 0)" for m
    by (simp add: e1_def)
  note at = same_log_at [OF f(1)]
  show ?thesis
    using advance_commit_cases [of e1] assms f m unfolding matched_def same_log_def by (auto simp: r at)
qed

lemma matched_frame:
  "node e1 = node e \<Longrightarrow> members e1 = members e \<Longrightarrow> node_id e1 = node_id e \<Longrightarrow> matched p i e1 e' = matched p i e e'"
  by (simp only: matched_def)

fun log_event :: "'r event \<Rightarrow> bool" where
  "log_event (EvAppend q) = True"
| "log_event (EvInstall q) = True"
| "log_event (EvApplied i x r) = True"
| "log_event (EvPropose c u r) = True"
| "log_event ev = False"

lemma candidate_outcome:
  fixes e e1 :: "('s, 'r) engine"
  assumes "node e1 = node e" and "node_id e1 = node_id e" and "members e1 = members e"
    and "e' = become_candidate R now tr e1"
  shows "candidacy e e' \<or> (\<exists>e2. candidacy e e2 \<and> new_leader e2 e' \<and> quorum (members e) {node_id e})"
proof (rule become_candidate_cases [of e1 R now tr])
  fix e2
  assume c: "candidacy e1 e2" "become_candidate R now tr e1 = become_leader R now e2" "quorum (members e1) {node_id e1}"
  then have "candidacy e e2" "new_leader e2 e'" "quorum (members e) {node_id e}"
    using assms become_leader_new [of e2 R now] by (simp_all add: candidacy_def)
  then show ?thesis by blast
next
  assume "candidacy e1 (become_candidate R now tr e1)"
  then show ?thesis using assms by (simp add: candidacy_def)
qed

lemma start_election_outcome:
  "calm e (start_election R now g e) \<or> start_election R now g e = become_candidate R now False e"
  by (simp add: start_election_def Let_def calm_def same_log_def)

lemma vote_reply_outcome:
  assumes "e' = vote_reply R now p q r e"
  shows "calm e e' \<or> (role (node e) = CANDIDATE \<and> current_term (node e) = vq_term q \<and> vr_granted r \<and>
    quorum (members e) (votes_at e' (current_term (node e))) \<and> new_leader e e')"
proof (cases "vr_term r > current_term (node e) \<or> role (node e) \<noteq> CANDIDATE \<or> current_term (node e) \<noteq> vq_term q \<or> \<not> vr_granted r")
  case True
  then show ?thesis using assms by (auto simp: vote_reply_def calm_refl calm_become_follower)
next
  case False
  let ?vs = "List.insert (member_id p) (dict_get (votes e) (vq_term q) [])"
  let ?e1 = "e\<lparr>votes := dict_set (votes e) (vq_term q) ?vs\<rparr>"
  have e': "e' = (if majority ?e1 \<le> count_votes ?vs ?e1 then become_leader R now ?e1 else ?e1)"
    using assms False by (simp add: vote_reply_def Let_def)
  show ?thesis
  proof (cases "majority ?e1 \<le> count_votes ?vs ?e1")
    case True
    have "new_leader e e'" using become_leader_new [of ?e1 R now] e' True by (simp add: new_leader_def)
    moreover have "quorum (members e) (votes_at e' (current_term (node e)))"
      using e' True False by (simp add: majority_quorum)
    ultimately show ?thesis using False by blast
  next
    case False
    then show ?thesis using e' by (simp add: calm_def same_log_def)
  qed
qed

definition match_event :: "'r event \<Rightarrow> string \<Rightarrow> int \<Rightarrow> int \<Rightarrow> bool" where
  "match_event ev p i t =
     ((\<exists>m s q r. ev = EvEntriesReply m t s q r \<and> p = member_id m \<and> ar_success r \<and> ar_term r \<le> t \<and>
         i = max (aq_prev_log_index q + int (length (aq_entries q))) (ar_match_index r)) \<or>
      (\<exists>m. ev = EvSnapshotDone m t i \<and> p = member_id m))"

lemma entries_reply_outcome:
  assumes "e' = entries_reply R now m t s q r e"
  shows "calm e e' \<or> (\<exists>p i. match_event (EvEntriesReply m t s q r :: 'r event) p i t \<and> t = current_term (node e) \<and> matched p i e e')"
proof (cases "ar_term r > current_term (node e) \<or> role (node e) \<noteq> LEADER \<or> current_term (node e) \<noteq> t")
  case True
  then show ?thesis using assms by (auto simp: entries_reply_def calm_refl calm_become_follower)
next
  case False
  let ?i = "max (aq_prev_log_index q + int (length (aq_entries q))) (ar_match_index r)"
  show ?thesis
  proof (cases "ar_success r")
    case True
    then have "e' = record_match (member_id m) ?i (note_contact now (member_id m) s e)"
      using assms False by (simp add: entries_reply_def Let_def)
    moreover have "node (note_contact now (member_id m) s e) = node e" by (simp add: note_contact_def)
    ultimately have "matched (member_id m) ?i e e'"
      using record_match_matched [of "note_contact now (member_id m) s e" "member_id m" ?i] False
        matched_frame [of "note_contact now (member_id m) s e" e] by simp
    then show ?thesis using True False by (auto simp: match_event_def)
  next
    case f: False
    then show ?thesis using assms False by (simp add: entries_reply_def Let_def calm_def same_log_def)
  qed
qed

lemma run_event_outcome:
  fixes e e' :: "('s, 'r) engine"
  assumes "\<not> log_event ev" and e': "e' = run_event R now ev e"
  shows "calm e e' \<or> candidacy e e' \<or> (\<exists>e2. candidacy e e2 \<and> new_leader e2 e' \<and> quorum (members e) {node_id e}) \<or>
    (\<exists>p q r. ev = EvVoteReply p q r \<and> role (node e) = CANDIDATE \<and> current_term (node e) = vq_term q \<and>
       quorum (members e) (votes_at e' (current_term (node e))) \<and> new_leader e e') \<or>
    (\<exists>p i. match_event ev p i (current_term (node e)) \<and> matched p i e e')"
proof (cases "calm_event ev")
  case True
  then show ?thesis using calm_run_event e' by blast
next
  case False
  with assms(1) show ?thesis
  proof (cases ev)
    case EvStart
    let ?e = "e\<lparr>running := True\<rparr>"
    have "calm e e' \<or> e' = become_candidate R now False ?e"
      using start_election_outcome [of ?e R now None] EvStart e'
      by (auto simp: start_engine_def Let_def calm_def same_log_def)
    then show ?thesis using candidate_outcome [of ?e e e' R now False] by auto
  next
    case (EvElectionTimeout g)
    then show ?thesis using start_election_outcome [of e R now "Some g"] candidate_outcome [of e e e' R now False] e' by auto
  next
    case (EvPreVoteReply p g v)
    let ?gs = "List.insert (member_id p) (dict_get (grants e) g [])"
    have "calm e e' \<or> e' = become_candidate R now False (e\<lparr>grants := dict_set (grants e) g ?gs\<rparr>)"
      using EvPreVoteReply e' by (auto simp: pre_vote_reply_def Let_def calm_refl calm_become_follower calm_def same_log_def)
    then show ?thesis using candidate_outcome [of "e\<lparr>grants := dict_set (grants e) g ?gs\<rparr>" e e' R now False] by auto
  next
    case (EvVoteReply p q v)
    then show ?thesis using vote_reply_outcome [of e' R now p q v e] e' by auto
  next
    case (EvTimeoutNow t)
    then have "calm e e' \<or> e' = become_candidate R now True e"
      using e' by (simp add: handle_timeout_now_def Let_def calm_refl)
    then show ?thesis using candidate_outcome [of e e e' R now True] by auto
  next
    case (EvEntriesReply m t s q r)
    then show ?thesis using entries_reply_outcome [of e' R now m t s q r e] e' by auto
  next
    case (EvSnapshotDone m t i)
    then show ?thesis using e' record_match_matched [of e "member_id m" i]
      by (auto simp: snapshot_done_def calm_refl match_event_def)
  qed auto
qed


subsection \<open>Events that change the log\<close>

definition committing :: "('s, 'r) engine \<Rightarrow> ('s, 'r) engine \<Rightarrow> bool" where
  "committing e e' =
     (commit_index (node e') = commit_index (node e) \<or>
      (commit_index (node e) < commit_index (node e') \<and> commit_index (node e') \<le> last_log_index (node e') \<and>
       term_at (node e') (commit_index (node e')) = Some (current_term (node e)) \<and>
       quorum (members e) {m. m = node_id e \<or> commit_index (node e') \<le> dict_get (match_index (node e')) m 0}))"

lemma propose_outcome:
  assumes "e' = fst (propose_start R now cmd user rid e)" and "config_of cmd = None"
  shows "e' = e \<or>
    (role (node e) = LEADER \<and> role (node e') = LEADER \<and> tv e' = tv e \<and> node_id e' = node_id e \<and>
     match_index (node e') = match_index (node e) \<and>
     (\<exists>x. e_term x = current_term (node e) \<and> e_index x = last_log_index (node e) + 1 \<and>
        log (node e') = log (node e) @ [x]) \<and>
     snapshot_index (node e') = snapshot_index (node e) \<and> snapshot_term (node e') = snapshot_term (node e) \<and>
     committing e e')"
proof (cases "\<not> running e \<or> transferring e \<or> role (node e) \<noteq> LEADER")
  case True
  then have "fst (propose_start R now cmd user rid e) = e" by (auto simp: propose_start_def Let_def)
  then show ?thesis using assms(1) by simp
next
  case False
  let ?x = "\<lparr>e_term = current_term (node e), e_index = last_log_index (node e) + 1, e_command = cmd,
                    e_username = user, e_request_id = rid\<rparr>"
  define e1 where "e1 = append_local R now [?x] e"
  define e2 where "e2 = e1\<lparr>waiters := dict_set (waiters e1) (e_index ?x) Pending\<rparr>"
  have e': "e' = advance_commit_index e2"
    using assms(1) False by (simp add: propose_start_def Let_def e1_def e2_def)
  have f: "log (node e2) = log (node e) @ [?x]" "match_index (node e2) = match_index (node e)" "members e2 = members e"
    "role (node e2) = LEADER" "tv e2 = tv e" "node_id e2 = node_id e" "commit_index (node e2) = commit_index (node e)"
    using False assms(2) by (simp_all add: e2_def e1_def append_local_def Let_def)
  have s: "same_log (node e2) (node e')" by (simp add: same_log_def e')
  have "committing e e'"
    using advance_commit_cases [of e2] same_log_at [OF s] f unfolding committing_def e' by (auto simp del: f(2))
  moreover have "snapshot_index (node e') = snapshot_index (node e)" "snapshot_term (node e') = snapshot_term (node e)"
    by (simp_all add: e' e2_def e1_def)
  ultimately show ?thesis using False f by (auto simp: e')
qed

lemma apply_done_outcome:
  assumes "e' = apply_done R i x r e"
  shows "(stands_for L (node e) \<longrightarrow> stands_for L (node e')) \<and> commit_index (node e') = commit_index (node e) \<and>
    current_term (node e') = current_term (node e) \<and> node_id e' = node_id e \<and>
    (role (node e') = FOLLOWER \<or> (role (node e') = role (node e) \<and> match_index (node e') = match_index (node e)))"
proof -
  have m: "stands_for L (node (maybe_snapshot R e1))" if "stands_for L (node e1)" for e1
    using that by (auto simp: maybe_snapshot_def Let_def intro: stands_compact split: option.split)
  have "stands_for L (node e')" if L: "stands_for L (node e)"
    unfolding assms apply_done_def Let_def
    by (rule m) (auto intro: stands_frame [OF L])
  then show ?thesis by (auto simp: assms apply_done_def Let_def)
qed

lemma refresh_match:
  "dict_get (match_index (node (refresh_config now e))) p 0 \<in> {0, dict_get (match_index (node e)) p 0}"
proof -
  obtain i ms where lc: "latest_config (node e) = (i, ms)" by fastforce
  define new where "new = members_dict (case ms of None \<Rightarrow> [] | Some xs \<Rightarrow> xs)"
  define e2 where "e2 = e\<lparr>config_index := i, members := new, learners := filter (\<lambda>(k, _). \<not> dict_has new k) (learners e)\<rparr>"
  have r: "refresh_config now e = (if dict_eq new (members e) then e\<lparr>config_index := i\<rparr>
      else if role (node e) = LEADER then fold (start_replicator now) (dict_keys (targets e2)) e2 else e2)"
    by (simp add: refresh_config_def Let_def lc new_def e2_def)
  have "node e2 = node e" by (simp add: e2_def)
  then show ?thesis using start_fold_match [of now "dict_keys (targets e2)" e2 p] by (simp add: r split: if_split)
qed

lemma install_outcome:
  assumes "install_snapshot R now q e = (e', r)" and "stands_for L (node e)"
    and "sq_last_included_index q = int (length P)" and "sq_last_included_term q = lterm P"
  shows "stands_for (if term_at (node e) (int (length P)) = Some (lterm P) then L else P) (node e')"
    and "commit_index (node e') = max (commit_index (node e)) (int (length P))"
    and "current_term (node e') = current_term (node e)" and "node_id e' = node_id e" and "role (node e') = role (node e)"
    and "dict_get (match_index (node e')) p 0 \<in> {0, dict_get (match_index (node e)) p 0}"
    and "sr_term r = current_term (node e)"
proof -
  let ?c = "compact_through (node e) (int (length P)) (lterm P) (Some (sq_config q))"
  define e1 where "e1 = e\<lparr>node := ?c\<lparr>commit_index := max (commit_index ?c) (int (length P)),
      last_applied := max (last_applied ?c) (int (length P))\<rparr>,
    storage := save_snapshot_op R (int (length P)) (lterm P) (max (last_applied ?c) (int (length P))) (Some (sq_config q))
      (if term_at (node e) (int (length P)) \<noteq> Some (lterm P) then truncate_from_op R (snapshot_index (node e) + 1) (storage e) else storage e)\<rparr>"
  have e': "e' = refresh_config now e1" and r: "r = \<lparr>sr_term = current_term (node e'), sr_success = True\<rparr>"
    using assms(1,3,4) by (auto simp: install_snapshot_def Let_def e1_def)
  have "stands_for (if term_at (node e) (int (length P)) = Some (lterm P) then L else P) ?c"
    using stands_compact [OF assms(2)] stands_install [of "node e" "int (length P)" P] by simp
  then show "stands_for (if term_at (node e) (int (length P)) = Some (lterm P) then L else P) (node e')"
    by (rule stands_frame) (simp_all add: e' e1_def)
  show "dict_get (match_index (node e')) p 0 \<in> {0, dict_get (match_index (node e)) p 0}"
    using refresh_match [of now e1 p] by (simp add: e' e1_def)
  show "commit_index (node e') = max (commit_index (node e)) (int (length P))"
    "current_term (node e') = current_term (node e)" "node_id e' = node_id e" "role (node e') = role (node e)"
    "sr_term r = current_term (node e)"
    by (simp_all add: e' e1_def r)
qed


lemma restart_outcome:
  fixes e :: "('s, 'r) engine"
  assumes "engine_ok R ok e" and "fixed_config ms e" and "stands_for L (node e)"
  shows "stands_for L (node (restart R now e))" and "commit_index (node (restart R now e)) \<le> commit_index (node e)"
    and "role (node (restart R now e)) = FOLLOWER"
    and "current_term (node (restart R now e)) = current_term (node e)" and "node_id (restart R now e) = node_id e"
proof -
  have m: "mirrors R ok (node e) (storage e)" and s: "snapshot_config (node e) = Some ms"
    using assms by (simp_all add: engine_ok_def fixed_config_def)
  note f = restored_fields [OF m s restart_def [of R now e, unfolded atomize_eq]]
  have c: "core (node (restart R now e)) = core (node e)" using f(1) by (simp add: restart_def)
  then show "stands_for L (node (restart R now e))" using assms(3) by (auto intro: stands_frame simp: core_def)
  show "commit_index (node (restart R now e)) \<le> commit_index (node e)"
    using f(7,8) assms(1) by (simp add: restart_def engine_ok_def)
  show "role (node (restart R now e)) = FOLLOWER" "current_term (node (restart R now e)) = current_term (node e)"
    "node_id (restart R now e) = node_id e"
    using restart_ok [OF assms(1,2)] c by (simp_all add: core_def)
qed

subsection \<open>Votes asked for and given\<close>

lemma candidate_rpcs:
  assumes "(p, q) \<in> vote_rpcs (become_candidate R now tr e)"
  shows "(p, q) \<in> vote_rpcs e \<or>
    (role (node (become_candidate R now tr e)) = CANDIDATE \<and> vq_term q = current_term (node e) + 1 \<and>
     vq_last_log_index q = last_log_index (node e) \<and> vq_last_log_term q = last_log_term (node e))"
proof -
  have l: "last_log_index ((node e)\<lparr>current_term := t, role := r, voted_for := v, leader_id := l\<rparr>) = last_log_index (node e)"
    "last_log_term ((node e)\<lparr>current_term := t, role := r, voted_for := v, leader_id := l\<rparr>) = last_log_term (node e)"
    for t r v l by (simp_all add: last_log_index_def last_log_term_def)
  have p: "last_log_index (node (persist_term_and_vote R e1)) = last_log_index (node e1)"
    "last_log_term (node (persist_term_and_vote R e1)) = last_log_term (node e1)" for e1
    by (simp_all add: persist_term_and_vote_def)
  have r: "node (reset_election_timer e1) = node e1" for e1 :: "('a, 'b) engine" by (simp add: reset_election_timer_def)
  show ?thesis using assms
    by (auto simp: become_candidate_def Let_def vote_rpcs_emit_votes l p r split: if_splits)
qed

lemma start_rpcs:
  assumes "(p, q) \<in> vote_rpcs (start_election R now g e)"
  shows "(p, q) \<in> vote_rpcs e \<or> (start_election R now g e = become_candidate R now False e)"
  using assms by (auto simp: start_election_def Let_def split: if_splits)

lemma new_vote_rpcs:
  fixes e :: "('s, 'r) engine"
  assumes "(p, q) \<in> vote_rpcs (run_event R now ev e)"
  shows "(p, q) \<in> vote_rpcs e \<or>
    (candidacy e (run_event R now ev e) \<and> vq_term q = current_term (node e) + 1 \<and>
     vq_last_log_index q = last_log_index (node e) \<and> vq_last_log_term q = last_log_term (node e))"
proof -
  have c: "(p, q) \<in> vote_rpcs e \<or>
      (candidacy e e' \<and> vq_term q = current_term (node e) + 1 \<and>
       vq_last_log_index q = last_log_index (node e) \<and> vq_last_log_term q = last_log_term (node e))"
    if e1: "node e1 = node e" "node_id e1 = node_id e" "members e1 = members e" "vote_rpcs e1 = vote_rpcs e"
      and e': "e' = become_candidate R now tr e1" and v: "(p, q) \<in> vote_rpcs e'" for e1 e' :: "('s, 'r) engine" and tr
  proof -
    have "role (node e') = CANDIDATE \<Longrightarrow> candidacy e e'"
      using candidate_outcome [OF e1(1-3) e'] by (auto simp: new_leader_def)
    then show ?thesis using candidate_rpcs [OF v [unfolded e']] e1 e' by auto
  qed
  show ?thesis
  proof (cases "may_vote ev")
    case False
    then show ?thesis using assms
      by (cases ev) (auto simp: event_sections Let_def split: option.splits list.splits waiter.splits prod.splits
          chunk_result.splits sum.splits if_splits)
  next
    case True
    from True show ?thesis
    proof (cases ev)
      case EvStart
      let ?e = "e\<lparr>running := True\<rparr>"
      have "(p, q) \<in> vote_rpcs e \<or> run_event R now ev e = become_candidate R now False ?e"
        using start_rpcs [of p q R now None ?e] assms EvStart by (auto simp: start_engine_def Let_def split: if_splits)
      then show ?thesis using c [of ?e _ False] assms by auto
    next
      case (EvElectionTimeout g)
      then show ?thesis using start_rpcs [of p q R now "Some g" e] c [of e _ False] assms by auto
    next
      case (EvPreVoteReply m g v)
      let ?e = "e\<lparr>grants := dict_set (grants e) g (List.insert (member_id m) (dict_get (grants e) g []))\<rparr>"
      have "(p, q) \<in> vote_rpcs e \<or> run_event R now ev e = become_candidate R now False ?e"
        using assms EvPreVoteReply by (auto simp: pre_vote_reply_def Let_def split: if_splits)
      then show ?thesis using c [of ?e _ False] assms by auto
    next
      case (EvVoteReply m r v)
      then show ?thesis using assms by (auto simp: vote_reply_def Let_def split: if_splits)
    next
      case (EvTimeoutNow t)
      then have "(p, q) \<in> vote_rpcs e \<or> run_event R now ev e = become_candidate R now True e"
        using assms by (auto simp: handle_timeout_now_def Let_def split: if_splits)
      then show ?thesis using c [of e _ True] assms by auto
    qed auto
  qed
qed

text \<open>Where a vote that is on record comes from.\<close>

lemma run_event_vote:
  assumes "voted_for (node (run_event R now ev e)) = Some v"
  shows "tv (run_event R now ev e) = tv e \<or>
    (v = node_id e \<and> current_term (node (run_event R now ev e)) = current_term (node e) + 1) \<or>
    (\<exists>q. ev = EvRequestVote q \<and> \<not> vq_pre_vote q \<and> v = vq_candidate_id q \<and>
       current_term (node (run_event R now ev e)) = vq_term q \<and> current_term (node e) \<le> vq_term q \<and> log_ok q e)"
proof -
  have lo: "log_ok q (become_follower R t e) = log_ok q e" for q t
    by (simp add: log_ok_def last_log_index_def last_log_term_def)
  have k: "log_ok q e1 = log_ok q e" if "node e1 = node e" for q and e1 :: "('c, 'd) engine"
    using that by (simp add: log_ok_def)
  show ?thesis using assms
    by (cases ev) (auto simp: event_sections start_election_def Let_def lo max_def
        split: option.splits list.splits waiter.splits prod.splits chunk_result.splits sum.splits if_splits)
qed

end
