(* ===== verification/Raft_Agreement.thy ===== *)
theory Raft_Agreement
  imports Raft_Outcomes
begin

section \<open>A cluster of engines: agreement of the logs\<close>

text \<open>
  The invariant behind state machine safety, for the transition system of \<open>Raft_Cluster\<close>. Besides the
  histories \<open>H\<close> and the acknowledgements \<open>A\<close> there are two more ghosts: \<open>F i\<close> is the whole log of node
  \<open>i\<close>, of which the engine holds the part after its snapshot, and \<open>C T i\<close> is the log with which
  \<open>i\<close> asked for votes in term \<open>T\<close>.
\<close>

type_synonym logs = "string \<Rightarrow> log_entry list"
type_synonym askings = "int \<Rightarrow> string \<Rightarrow> log_entry list"

subsection \<open>The invariant\<close>

text \<open>Up to \<open>ci\<close>, the log \<open>L\<close> is committed, by a leader whose term is at most \<open>T\<close>.\<close>

definition commit_ok :: "member list \<Rightarrow> history \<Rightarrow> acks \<Rightarrow> int \<Rightarrow> int \<Rightarrow> log_entry list \<Rightarrow> bool" where
  "commit_ok ms H A T ci L =
     (ci \<le> 0 \<or> (\<exists>T' k. committed ms H A T' k \<and> T' \<le> T \<and> nat ci \<le> k \<and> agree L (nat ci) (H T')))"

text \<open>
  A candidate still has the log it asked with - or it cannot win any more: its term has a leader, or
  the log it asked with lacks a committed entry. (A snapshot may be installed during a candidacy.)
\<close>

definition asked_ok :: "member list \<Rightarrow> history \<Rightarrow> acks \<Rightarrow> int \<Rightarrow> log_entry list \<Rightarrow> log_entry list \<Rightarrow> bool" where
  "asked_ok ms H A T X L =
     (L = X \<or> H T \<noteq> [] \<or> (\<exists>T' k. T' < T \<and> committed ms H A T' k \<and> \<not> agree X k (H T')))"

definition leads_ok :: "history \<Rightarrow> acks \<Rightarrow> string \<Rightarrow> raft_node \<Rightarrow> log_entry list \<Rightarrow> bool" where
  "leads_ok H A i n L =
     (L = H (current_term n) \<and> L \<noteq> [] \<and> lterm L = current_term n \<and> A i (current_term n) = length L \<and>
      (\<forall>p. p \<noteq> i \<longrightarrow> dict_get (match_index n) p 0 \<le> int (A p (current_term n))))"

definition log_inv :: "member list \<Rightarrow> history \<Rightarrow> acks \<Rightarrow> logs \<Rightarrow> askings \<Rightarrow> string \<Rightarrow> raft_node \<Rightarrow> bool" where
  "log_inv ms H A F C i n =
     (stands_for (F i) n \<and> hist H (F i) \<and> lterm (F i) \<le> current_term n \<and>
      (\<forall>t. A i t \<le> length (H t) \<and> (0 < A i t \<longrightarrow> t \<le> current_term n)) \<and>
      kept H A i (current_term n + 1) (F i) \<and>
      commit_ok ms H A (current_term n) (commit_index n) (F i) \<and>
      (role n = LEADER \<longrightarrow> leads_ok H A i n (F i)) \<and>
      (role n = CANDIDATE \<longrightarrow> asked_ok ms H A (current_term n) (C (current_term n) i) (F i)))"

text \<open>The leader of a term had a majority of votes of nodes whose acknowledgements its log respects.\<close>

definition elected :: "member list \<Rightarrow> history \<Rightarrow> acks \<Rightarrow> ('s, 'r) cluster \<Rightarrow> int \<Rightarrow> bool" where
  "elected ms H A c T =
     (\<exists>x Q. quorum (members_dict ms) Q \<and> (\<forall>v \<in> Q. (v, T, x) \<in> cast c \<and> kept H A v T (H T)) \<and>
        T \<le> current_term (node (engines c x)) \<and>
        (T = current_term (node (engines c x)) \<longrightarrow> role (node (engines c x)) \<noteq> CANDIDATE))"

text \<open>A log that was asked with in term \<open>T\<close>.\<close>

definition asking :: "history \<Rightarrow> int \<Rightarrow> log_entry list \<Rightarrow> bool" where
  "asking H T X = (hist H X \<and> lterm X < T)"

definition votes_log_inv :: "history \<Rightarrow> acks \<Rightarrow> askings \<Rightarrow> ('s, 'r) cluster \<Rightarrow> bool" where
  "votes_log_inv H A C c =
     (\<forall>v T x. (v, T, x) \<in> cast c \<longrightarrow> T \<le> current_term (node (engines c x)) \<and>
        (H T = [] \<longrightarrow> asking H T (C T x) \<and> kept H A v T (C T x)))"

definition msgs_inv :: "member list \<Rightarrow> history \<Rightarrow> acks \<Rightarrow> ('s, 'r) cluster \<Rightarrow> bool" where
  "msgs_inv ms H A c =
     ((\<forall>i p q. (i, p, q) \<in> append_msgs c \<longrightarrow> piece H q \<and>
         (aq_leader_commit q \<le> 0 \<or> (\<exists>T k. committed ms H A T k \<and> T \<le> aq_term q \<and> nat (aq_leader_commit q) \<le> k))) \<and>
      (\<forall>i p q r. (i, p, q, r) \<in> append_answers c \<longrightarrow> ar_success r \<longrightarrow>
         max (aq_prev_log_index q + int (length (aq_entries q))) (ar_match_index r) \<le> int (A (member_id p) (aq_term q))) \<and>
      (\<forall>i p q. (i, p, q) \<in> snapshot_msgs c \<longrightarrow>
         (\<exists>P. sq_last_included_index q = int (length P) \<and> sq_last_included_term q = lterm P \<and>
            prefix P (H (sq_term q)) \<and> H (sq_term q) \<noteq> [] \<and>
            (P = [] \<or> (\<exists>T k. committed ms H A T k \<and> T \<le> sq_term q \<and> length P \<le> k)))) \<and>
      (\<forall>i p q r. (i, p, q, r) \<in> snapshot_answers c \<longrightarrow> sq_done q \<longrightarrow> sr_success r \<longrightarrow> sr_term r \<le> sq_term q \<longrightarrow>
         sq_last_included_index q \<le> int (A (member_id p) (sq_term q))))"

definition terms_inv :: "history \<Rightarrow> askings \<Rightarrow> ('s, 'r) cluster \<Rightarrow> bool" where
  "terms_inv H C c =
     ((\<forall>i p q. (i, SpawnVote p q) \<in> rpcs c \<longrightarrow> vq_term q \<le> current_term (node (engines c i)) \<and>
         asking H (vq_term q) (C (vq_term q) i) \<and> vq_last_log_index q = int (length (C (vq_term q) i)) \<and>
         vq_last_log_term q = lterm (C (vq_term q) i)) \<and>
      (\<forall>i p q. (i, p, q) \<in> snapshots_in c \<longrightarrow> sq_term q \<le> current_term (node (engines c (member_id p)))))"

definition logs_inv :: "member list \<Rightarrow> history \<Rightarrow> acks \<Rightarrow> logs \<Rightarrow> askings \<Rightarrow> ('s, 'r) cluster \<Rightarrow> bool" where
  "logs_inv ms H A F C c =
     (wf_history H \<and> (\<forall>T. H T \<noteq> [] \<longrightarrow> elected ms H A c T) \<and>
      (\<forall>i. log_inv ms H A F C i (node (engines c i))) \<and> votes_log_inv H A C c \<and> msgs_inv ms H A c \<and> terms_inv H C c)"

lemma elected_logsI: "(\<forall>T. H T \<noteq> [] \<longrightarrow> elected ms H A c T) \<Longrightarrow> elected_logs ms H A"
  unfolding elected_logs_def elected_def by blast

subsection \<open>The ghosts only grow\<close>

definition ghosts_grow :: "history \<Rightarrow> acks \<Rightarrow> history \<Rightarrow> acks \<Rightarrow> bool" where
  "ghosts_grow H A H' A' = (grows H H' \<and> (\<forall>v T. A v T \<le> A' v T))"

lemma ghosts_grow_refl: "ghosts_grow H A H A"
  by (simp add: ghosts_grow_def)

lemma ghosts_grow_trans: "ghosts_grow H A H' A' \<Longrightarrow> ghosts_grow H' A' H'' A'' \<Longrightarrow> ghosts_grow H A H'' A''"
  unfolding ghosts_grow_def by (meson grows_trans order_trans)

lemma committed_mono: "committed ms H A T k \<Longrightarrow> ghosts_grow H A H' A' \<Longrightarrow> committed ms H' A' T k"
  unfolding ghosts_grow_def by (blast intro: committed_grows)

lemma agree_committed:
  assumes "committed ms H A T k" and "ghosts_grow H A H' A'" and "j \<le> k"
  shows "agree L j (H' T) = agree L j (H T)"
proof -
  obtain ys where "H' T = H T @ ys" using assms(2) unfolding ghosts_grow_def grows_def by blast
  moreover have "j \<le> length (H T)" using committed_length [OF assms(1)] assms(3) by simp
  ultimately show ?thesis by (simp add: agree_def)
qed

lemma commit_ok_mono:
  assumes "commit_ok ms H A T ci L" and g: "ghosts_grow H A H' A'" and "T \<le> T'" and "prefix L L'"
  shows "commit_ok ms H' A' T' ci L'"
proof (cases "ci \<le> 0")
  case False
  then obtain S k where c: "committed ms H A S k" "S \<le> T" "nat ci \<le> k" "agree L (nat ci) (H S)"
    using assms(1) by (auto simp: commit_ok_def)
  have "agree L' (nat ci) (H' S)"
    using agree_committed [OF c(1) g c(3)] c(4) assms(4) agree_prefix [of L "nat ci" "H' S" L' "H' S"] by simp
  then show ?thesis unfolding commit_ok_def using committed_mono [OF c(1) g] c(2,3) assms(3) by (blast intro: order_trans)
qed (simp add: commit_ok_def)

lemma asked_ok_mono:
  assumes "asked_ok ms H A T X L" and g: "ghosts_grow H A H' A'"
  shows "asked_ok ms H' A' T X L"
proof -
  have "\<not> agree X k (H' S)" if "committed ms H A S k" "\<not> agree X k (H S)" for S k
    using agree_committed [OF that(1) g order_refl] that(2) by simp
  moreover have "H T \<noteq> [] \<Longrightarrow> H' T \<noteq> []" using g grows_nonempty unfolding ghosts_grow_def by blast
  ultimately show ?thesis using assms(1) committed_mono [OF _ g] unfolding asked_ok_def by blast
qed

lemma asking_mono: "asking H T X \<Longrightarrow> grows H H' \<Longrightarrow> asking H' T X"
  by (auto simp: asking_def intro: hist_grows)

lemma piece_mono:
  assumes "piece H q" and "grows H H'"
  shows "piece H' q"
proof -
  obtain ys where "H' (aq_term q) = H (aq_term q) @ ys" using assms(2) unfolding grows_def by blast
  then show ?thesis using assms(1) by (simp add: piece_def Let_def split: if_splits)
qed

lemma msgs_inv_mono:
  assumes m: "msgs_inv ms H A c" and g: "ghosts_grow H A H' A'"
    and "append_msgs c' = append_msgs c" "append_answers c' = append_answers c"
      "snapshot_msgs c' = snapshot_msgs c" "snapshot_answers c' = snapshot_answers c"
  shows "msgs_inv ms H' A' c'"
proof -
  have h: "grows H H'" and a: "int (A v T) \<le> int (A' v T)" for v T using g by (simp_all add: ghosts_grow_def)
  have p: "prefix P (H T) \<Longrightarrow> prefix P (H' T)" for P T using grows_prefix [OF h] prefix_order.trans by blast
  note m = m [unfolded msgs_inv_def]
  show ?thesis
    unfolding msgs_inv_def assms(3-6)
  proof (intro conjI allI impI)
    fix i p q assume "(i, p, q) \<in> append_msgs c"
    then have q: "piece H q" "aq_leader_commit q \<le> 0 \<or>
        (\<exists>T k. committed ms H A T k \<and> T \<le> aq_term q \<and> nat (aq_leader_commit q) \<le> k)" using m by blast+
    show "piece H' q" by (rule piece_mono [OF q(1) h])
    show "aq_leader_commit q \<le> 0 \<or> (\<exists>T k. committed ms H' A' T k \<and> T \<le> aq_term q \<and> nat (aq_leader_commit q) \<le> k)"
      using q(2) committed_mono [OF _ g] by blast
  next
    fix i p q r assume "(i, p, q, r) \<in> append_answers c" "ar_success r"
    then have "max (aq_prev_log_index q + int (length (aq_entries q))) (ar_match_index r) \<le> int (A (member_id p) (aq_term q))"
      using m by blast
    then show "max (aq_prev_log_index q + int (length (aq_entries q))) (ar_match_index r) \<le> int (A' (member_id p) (aq_term q))"
      using a by (rule order_trans)
  next
    fix i p q assume "(i, p, q) \<in> snapshot_msgs c"
    then obtain P where "sq_last_included_index q = int (length P)" "sq_last_included_term q = lterm P"
      "prefix P (H (sq_term q))" "H (sq_term q) \<noteq> []"
      "P = [] \<or> (\<exists>T k. committed ms H A T k \<and> T \<le> sq_term q \<and> length P \<le> k)" using m by blast
    then show "\<exists>P. sq_last_included_index q = int (length P) \<and> sq_last_included_term q = lterm P \<and>
            prefix P (H' (sq_term q)) \<and> H' (sq_term q) \<noteq> [] \<and>
            (P = [] \<or> (\<exists>T k. committed ms H' A' T k \<and> T \<le> sq_term q \<and> length P \<le> k))"
      using p grows_nonempty [OF h] committed_mono [OF _ g] by blast
  next
    fix i p q r assume "(i, p, q, r) \<in> snapshot_answers c" "sq_done q" "sr_success r" "sr_term r \<le> sq_term q"
    then have "sq_last_included_index q \<le> int (A (member_id p) (sq_term q))" using m by blast
    then show "sq_last_included_index q \<le> int (A' (member_id p) (sq_term q))" using a by (rule order_trans)
  qed
qed


subsection \<open>Acknowledging\<close>

text \<open>\<open>i\<close> acknowledges the first \<open>m\<close> entries of the history of term \<open>T\<close>.\<close>

definition ack :: "acks \<Rightarrow> string \<Rightarrow> int \<Rightarrow> nat \<Rightarrow> acks" where
  "ack A i T m = A(i := (A i)(T := max (A i T) m))"

lemma ack_simps [simp]:
  "ack A i T m v S = (if v = i \<and> S = T then max (A i T) m else A v S)"
  by (simp add: ack_def)

lemma ack_grow: "ghosts_grow H A H (ack A i T m)"
  by (simp add: ghosts_grow_def)

lemma kept_ack:
  assumes "kept H A i T0 L" and "agree L m (H T)"
  shows "kept H (ack A i T m) i T0 L"
  unfolding kept_def
proof (intro allI impI)
  fix S k
  assume S: "S < T0" and a: "acked H (ack A i T m) i S k"
  show "agree L k (H S) \<or> (\<exists>T'. S < T' \<and> T' < T0 \<and> H T' \<noteq> [] \<and> \<not> agree (H T') k (H S))"
  proof (cases "S = T \<and> k \<le> m")
    case True
    then show ?thesis using agree_less [OF assms(2)] by blast
  next
    case False
    then have "acked H A i S k" using a by (auto simp: acked_def max_def split: if_splits)
    then show ?thesis using assms(1) S unfolding kept_def by blast
  qed
qed

lemma kept_later:
  assumes "kept H A i (t + 1) L" and "\<And>S. 0 < A i S \<Longrightarrow> S \<le> t" and "t \<le> t'"
  shows "kept H A i (t' + 1) L"
  unfolding kept_def
proof (intro allI impI)
  fix S k
  assume a: "acked H A i S k"
  then have "0 < A i S" by (auto simp: acked_def)
  then have "S < t + 1" using assms(2) by (meson zle_add1_eq_le)
  then have "agree L k (H S) \<or> (\<exists>T'. S < T' \<and> T' < t + 1 \<and> H T' \<noteq> [] \<and> \<not> agree (H T') k (H S))"
    using assms(1) a unfolding kept_def by blast
  moreover have "T' < t' + 1" if "T' < t + 1" for T' using that assms(3) by simp
  ultimately show "agree L k (H S) \<or> (\<exists>T'. S < T' \<and> T' < t' + 1 \<and> H T' \<noteq> [] \<and> \<not> agree (H T') k (H S))" by blast
qed

subsection \<open>Granting a vote\<close>

lemma lterm_nonneg: "wf_history H \<Longrightarrow> hist H L \<Longrightarrow> 0 \<le> lterm L"
  using lterm_pos [of H L] by (cases "L = []") (auto simp: lterm_def)

text \<open>A voter may grant a request for which \<open>log_ok\<close> holds: the candidate keeps what the voter has acknowledged.\<close>

lemma kept_candidate:
  assumes w: "wf_history H" and L: "kept H A i (t + 1) L" "hist H L" and X: "hist H X" "lterm X < t'"
    and A: "\<And>S. 0 < A i S \<Longrightarrow> S \<le> t" and t: "t \<le> t'" "H t' = []"
    and ok: "lterm L < lterm X \<or> (lterm X = lterm L \<and> length L \<le> length X)"
  shows "kept H A i t' X"
  unfolding kept_def
proof (intro allI impI)
  fix S k
  assume S: "S < t'" and a: "acked H A i S k"
  let ?lacks = "\<exists>T'. S < T' \<and> T' < t' \<and> H T' \<noteq> [] \<and> \<not> agree (H T') k (H S)"
  have k: "1 \<le> k" "k \<le> length (H S)" "e_term (H S ! (k - 1)) = S" "0 < A i S" using a by (auto simp: acked_def)
  then have "S < t + 1" using A by (meson zle_add1_eq_le)
  then have "agree L k (H S) \<or> (\<exists>T'. S < T' \<and> T' < t + 1 \<and> H T' \<noteq> [] \<and> \<not> agree (H T') k (H S))"
    using L(1) a unfolding kept_def by blast
  then consider "agree L k (H S)" | T' where "S < T'" "T' < t + 1" "H T' \<noteq> []" "\<not> agree (H T') k (H S)" by blast
  then show "agree X k (H S) \<or> ?lacks"
  proof cases
    case 2
    then have "T' < t'" using t by (cases "T' = t'") auto
    then show ?thesis using 2 by blast
  next
    case 1
    then have kL: "k \<le> length L" by (simp add: agree_def)
    show ?thesis
    proof (cases "lterm X = lterm L")
      case True
      then have "length L \<le> length X" using ok by simp
      moreover have "prefix L (H (lterm L))" "prefix X (H (lterm L))" using L(2) X(1) True by (simp_all add: hist_def)
      ultimately have "prefix L X" by (rule prefix_length_prefix [rotated 2])
      then show ?thesis using agree_prefix [OF 1 _ prefix_order.refl] by blast
    next
      case False
      then have lt: "lterm L < lterm X" using ok by simp
      have "L ! (k - 1) = H S ! (k - 1)" using agree_nth [OF 1, of "k - 1"] k(1) by simp
      then have SL: "S \<le> lterm L" "1 \<le> S" using hist_entry(2,3) [OF w L(2), of "k - 1"] k(1,3) kL by simp_all
      let ?m = "lterm X"
      have X0: "X \<noteq> []" using lt lterm_nonneg [OF w L(2)] by auto
      have pX: "prefix X (H ?m)" using X(1) by (simp add: hist_def)
      then have m: "H ?m \<noteq> []" using X0 by auto
      show ?thesis
      proof (cases "agree (H ?m) k (H S)")
        case False
        then show ?thesis using m SL lt X(2) by (intro disjI2 exI [of _ ?m]) auto
      next
        case True
        have "k \<le> length X"
        proof (rule ccontr)
          assume s: "\<not> k \<le> length X"
          have "prefix X (take k (H S))"
            using s pX agree_take [OF True] by (metis (no_types, lifting) append_eq_conv_conj linear prefixE take_is_prefix take_take min_def)
          then have "prefix X (H S)" using take_is_prefix prefix_order.trans by blast
          then show False using lterm_history [OF w _ X0, of S] SL lt by simp
        qed
        then have "agree X k (H ?m)" using agree_same [OF pX] by blast
        then show ?thesis using agree_trans [OF _ True] by blast
      qed
    qed
  qed
qed

subsection \<open>Receiving\<close>

lemma replaced_agree:
  assumes "replaced_by X L L'" and "agree L k X"
  shows "agree L' k X"
proof (cases "L' = L")
  case False
  then obtain j where j: "agree L j X" "j \<le> length L'" "prefix L' X" "j = length L \<or> \<not> agree L (Suc j) X"
    using assms(1) unfolding replaced_by_def by blast
  have "k \<le> j"
  proof (rule ccontr)
    assume "\<not> k \<le> j"
    then show False using j(4) assms(2) agree_less [OF assms(2), of "Suc j"] by (auto simp: agree_def)
  qed
  then show ?thesis using j(2,3) agree_same by (meson order_trans)
qed (use assms(2) in simp)

text \<open>Entries of the leader of term \<open>T\<close> replace only what that leader lacks.\<close>

lemma kept_replaced:
  assumes r: "replaced_by (H T) L L'" and L: "kept H A i (t + 1) L" and A: "\<And>S. 0 < A i S \<Longrightarrow> S \<le> t"
    and t: "t \<le> T" "H T \<noteq> []"
  shows "kept H A i (T + 1) L'"
  unfolding kept_def
proof (intro allI impI)
  fix S k
  assume S: "S < T + 1" and a: "acked H A i S k"
  let ?lacks = "\<exists>T'. S < T' \<and> T' < T + 1 \<and> H T' \<noteq> [] \<and> \<not> agree (H T') k (H S)"
  have "agree L k (H S) \<or> ?lacks" using kept_later [OF L A t(1)] a S unfolding kept_def by blast
  then show "agree L' k (H S) \<or> ?lacks"
  proof
    assume g: "agree L k (H S)"
    show ?thesis
    proof (cases "S = T")
      case True
      then show ?thesis using replaced_agree [OF r] g by blast
    next
      case False
      then have "S < T" using S by simp
      show ?thesis
      proof (cases "agree (H T) k (H S)")
        case True
        then have "agree L k (H T)" using g agree_trans agree_sym by blast
        then show ?thesis using replaced_agree [OF r] True agree_trans by blast
      next
        case False
        then show ?thesis using \<open>S < T\<close> t(2) by (intro disjI2 exI [of _ T]) auto
      qed
    qed
  qed blast
qed

lemma commit_agrees:
  assumes el: "elected_logs ms H A" and c: "commit_ok ms H A t ci L" and T: "t \<le> T" "H T \<noteq> []" and "j \<le> nat ci"
  shows "agree L j (H T)"
proof (cases "ci \<le> 0")
  case False
  then obtain S k where s: "committed ms H A S k" "S \<le> t" "nat ci \<le> k" "agree L (nat ci) (H S)"
    using c by (auto simp: commit_ok_def)
  have "agree (H T) k (H S)" using leader_holds_committed [OF el s(1) _ T(2)] s(2) T(1) by simp
  then have "agree (H S) (nat ci) (H T)" using agree_less s(3) agree_sym by blast
  then have "agree L (nat ci) (H T)" using agree_trans s(4) by blast
  then show ?thesis using agree_less assms(5) by blast
qed (use assms(5) in \<open>simp add: agree_def\<close>)

lemma commit_replaced:
  assumes el: "elected_logs ms H A" and c: "commit_ok ms H A t ci L" and T: "t \<le> T" "H T \<noteq> []"
    and r: "replaced_by (H T) L L'"
  shows "commit_ok ms H A T ci L'"
proof (cases "ci \<le> 0")
  case False
  then obtain S k where s: "committed ms H A S k" "S \<le> t" "nat ci \<le> k" "agree L (nat ci) (H S)"
    using c by (auto simp: commit_ok_def)
  have "agree L (nat ci) (H T)" using commit_agrees [OF el c T order_refl] .
  then have "agree L' (nat ci) (H S)" using replaced_agree [OF r] s(4) agree_trans agree_sym by metis
  then show ?thesis unfolding commit_ok_def using s T by (blast intro: order_trans)
qed (simp add: commit_ok_def)

subsection \<open>Installing a snapshot\<close>

text \<open>What a snapshot that a leader of term \<open>T\<close> sends stands for.\<close>

definition snapshot_of :: "member list \<Rightarrow> history \<Rightarrow> acks \<Rightarrow> int \<Rightarrow> log_entry list \<Rightarrow> bool" where
  "snapshot_of ms H A T P =
     (prefix P (H T) \<and> H T \<noteq> [] \<and> (P = [] \<or> (\<exists>S k. committed ms H A S k \<and> S \<le> T \<and> length P \<le> k)))"

lemma snapshot_committed:
  assumes el: "elected_logs ms H A" and P: "snapshot_of ms H A T P" "P \<noteq> []"
  obtains S k where "committed ms H A S k" and "S \<le> T" and "length P \<le> k" and "prefix P (H S)"
proof -
  obtain S k where s: "committed ms H A S k" "S \<le> T" "length P \<le> k" using P by (auto simp: snapshot_of_def)
  have "agree (H T) k (H S)" using leader_holds_committed [OF el s(1,2)] P(1) by (simp add: snapshot_of_def)
  then have "agree (H T) (length P) (H S)" using agree_less s(3) by blast
  moreover have "agree P (length P) (H T)" using P(1) agree_same by (auto simp: snapshot_of_def)
  ultimately have "take (length P) (H S) = P" using agree_take agree_trans by (metis take_all order_refl)
  then have "prefix P (H S)" using take_is_prefix by metis
  with s show ?thesis using that by blast
qed

lemma kept_installed:
  assumes el: "elected_logs ms H A" and L: "kept H A i (t + 1) L"
    and c: "committed ms H A S k" "S \<le> t" "length P \<le> k" "prefix P (H S)"
    and n: "\<not> agree L (length P) (H S)"
  shows "kept H A i (t + 1) P"
  unfolding kept_def
proof (intro allI impI)
  fix S' j
  assume S': "S' < t + 1" and a: "acked H A i S' j"
  let ?lacks = "\<exists>T'. S' < T' \<and> T' < t + 1 \<and> H T' \<noteq> [] \<and> \<not> agree (H T') j (H S')"
  have HS: "H S \<noteq> []" using committed_length [OF c(1)] by auto
  have P: "agree P m (H S)" if "m \<le> length P" for m using agree_same [OF c(4) that] .
  have "agree L j (H S') \<or> ?lacks" using L a S' unfolding kept_def by blast
  then show "agree P j (H S') \<or> ?lacks"
  proof
    assume g: "agree L j (H S')"
    show ?thesis
    proof (cases "S \<le> S'")
      case True
      have "H S' \<noteq> []" using a by (auto simp: acked_def)
      then have "agree (H S') k (H S)" using leader_holds_committed [OF el c(1) True] by blast
      then have b: "agree (H S') (length P) (H S)" using agree_less c(3) by blast
      have "j \<le> length P"
      proof (rule ccontr)
        assume "\<not> j \<le> length P"
        then have "agree L (length P) (H S')" using agree_less [OF g] by simp
        then show False using b n agree_trans by blast
      qed
      then have "agree P j (H S')" using P [of j] agree_less [OF b] agree_trans agree_sym by blast
      then show ?thesis ..
    next
      case False
      show ?thesis
      proof (cases "agree (H S) j (H S')")
        case True
        have "j \<le> length P"
        proof (rule ccontr)
          assume "\<not> j \<le> length P"
          moreover have "agree L j (H S)" using g True agree_trans agree_sym by blast
          ultimately show False using agree_less n by (meson nat_le_linear)
        qed
        then show ?thesis using P True agree_trans by blast
      next
        case f: False
        then show ?thesis using False HS c(2) by (intro disjI2 exI [of _ S]) auto
      qed
    qed
  qed blast
qed

lemma commit_installed:
  assumes el: "elected_logs ms H A" and L: "commit_ok ms H A t ci L"
    and c: "committed ms H A S k" "S \<le> t" "length P \<le> k" "prefix P (H S)"
    and n: "\<not> agree L (length P) (H S)"
  shows "commit_ok ms H A t (max ci (int (length P))) P"
proof -
  have HS: "H S \<noteq> []" using committed_length [OF c(1)] by auto
  have "ci \<le> int (length P)"
  proof (rule ccontr)
    assume l: "\<not> ci \<le> int (length P)"
    then obtain S' k' where s: "committed ms H A S' k'" "S' \<le> t" "nat ci \<le> k'" "agree L (nat ci) (H S')"
      using L by (auto simp: commit_ok_def)
    have l: "length P \<le> nat ci" using l by simp
    have HS': "H S' \<noteq> []" using committed_length [OF s(1)] by auto
    have "agree (H S') (length P) (H S)"
    proof (cases "S \<le> S'")
      case True
      then show ?thesis using leader_holds_committed [OF el c(1) True HS'] c(3) agree_less by blast
    next
      case False
      then have "agree (H S) k' (H S')" using leader_holds_committed [OF el s(1) _ HS] by simp
      moreover have "length P \<le> k'" using l s(3) by (rule order_trans)
      ultimately show ?thesis using agree_less agree_sym by blast
    qed
    moreover have "agree L (length P) (H S')" using agree_less [OF s(4) l] .
    ultimately show False using n agree_trans by blast
  qed
  then have "max ci (int (length P)) = int (length P)" by simp
  moreover have "agree P (length P) (H S)" using agree_same [OF c(4)] by simp
  ultimately show ?thesis using c(1-3) unfolding commit_ok_def by auto
qed

lemma commit_matched:
  assumes el: "elected_logs ms H A" and L: "commit_ok ms H A t ci L"
    and P: "snapshot_of ms H A T P" "T \<le> t" and "agree L (length P) (H T)"
  shows "commit_ok ms H A t (max ci (int (length P))) L"
proof (cases "int (length P) \<le> ci")
  case True
  then show ?thesis using L by (simp add: max_def)
next
  case False
  then have "P \<noteq> []" if "\<not> ci \<le> 0" using that by auto
  show ?thesis
  proof (cases "P = []")
    case True
    then show ?thesis using False by (simp add: commit_ok_def)
  next
    case P0: False
    obtain S k where s: "committed ms H A S k" "S \<le> T" "length P \<le> k" "prefix P (H S)"
      using snapshot_committed [OF el P(1) P0] .
    have "agree P (length P) (H S)" "agree P (length P) (H T)"
      using agree_same [OF s(4)] agree_same [of P "H T"] P(1) by (simp_all add: snapshot_of_def)
    then have "agree L (length P) (H S)" using assms(5) agree_trans agree_sym by blast
    moreover have "max ci (int (length P)) = int (length P)" using False by simp
    ultimately show ?thesis unfolding commit_ok_def using s P(2) by (auto intro: order_trans)
  qed
qed

lemma asked_installed:
  assumes "asked_ok ms H A t X L"
    and c: "committed ms H A S k" "S \<le> t" "length P \<le> k" and n: "\<not> agree L (length P) (H S)"
  shows "asked_ok ms H A t X P"
proof (cases "L = X \<and> H t = []")
  case True
  have "\<not> agree X k (H S)" using True n agree_less c(3) by blast
  moreover have "S < t" using True c(2) committed_length [OF c(1)] by (cases "S = t") auto
  ultimately show ?thesis using c(1) by (auto simp: asked_ok_def)
qed (use assms(1) in \<open>auto simp: asked_ok_def\<close>)

subsection \<open>Committing\<close>

lemma commit_new:
  assumes lead: "leads_ok H A i n L" and L: "stands_for L n"
    and ci: "0 < ci" "term_at n ci = Some (current_term n)"
    and q: "quorum (members_dict ms) {m. m = i \<or> ci \<le> dict_get (match_index n) m 0}"
  shows "commit_ok ms H A (current_term n) ci L"
proof -
  define t where "t = current_term n"
  have lt: "nat ci \<le> length L" "lterm (take (nat ci) L) = t"
    using stands_term_at_Some [OF L ci(2)] by (simp_all add: t_def)
  have k: "1 \<le> nat ci" using ci(1) by simp
  have H: "H t = L" "A i t = length L" "\<And>p. p \<noteq> i \<Longrightarrow> dict_get (match_index n) p 0 \<le> int (A p t)"
    using lead by (simp_all add: leads_ok_def t_def)
  have e: "e_term (L ! (nat ci - 1)) = t" using lterm_take [of "nat ci" L] k lt by simp
  have "acked H A v t (nat ci)" if "v = i \<or> ci \<le> dict_get (match_index n) v 0" for v
  proof -
    have "nat ci \<le> A v t" using that H(2) H(3) [of v] lt(1) by (cases "v = i") auto
    then show ?thesis unfolding acked_def H(1) using k lt(1) e by blast
  qed
  then have "committed ms H A t (nat ci)" unfolding committed_def using q by blast
  moreover have "agree L (nat ci) (H t)" unfolding H(1) using lt(1) by (simp add: agree_def)
  ultimately show ?thesis unfolding commit_ok_def t_def [symmetric] by blast
qed

lemma commit_ok_less:
  assumes "commit_ok ms H A T ci L" and "cj \<le> ci"
  shows "commit_ok ms H A T cj L"
proof (cases "ci \<le> 0")
  case False
  then obtain S k where s: "committed ms H A S k" "S \<le> T" "nat ci \<le> k" "agree L (nat ci) (H S)"
    using assms(1) by (auto simp: commit_ok_def)
  have "nat cj \<le> nat ci" using assms(2) by (rule nat_mono)
  then have "nat cj \<le> k" "agree L (nat cj) (H S)" using s(3,4) agree_less by auto
  then show ?thesis unfolding commit_ok_def using s(1,2) by blast
qed (use assms(2) in \<open>simp add: commit_ok_def\<close>)

subsection \<open>The leader's log\<close>

lemma history_extend:
  assumes w: "wf_history H" and L: "hist H L" "lterm L \<le> t" "H t = [] \<or> H t = L"
    and x: "e_term x = t" "e_index x = int (length L) + 1" "1 \<le> t"
  shows "wf_history (H(t := L @ [x])) \<and> grows H (H(t := L @ [x]))"
proof
  let ?H = "H(t := L @ [x])"
  show g: "grows H ?H" unfolding grows_def using L(3) x(1) by fastforce
  have "hist ?H P" if "prefix P (?H T)" for P T
  proof (cases "T = t \<and> P = L @ [x]")
    case True
    then show ?thesis using x(1) by (simp add: hist_def)
  next
    case False
    have "prefix P (H T) \<or> prefix P L" using False that by (cases "T = t") auto
    then have "hist H P" using hist_prefix [OF w hist_history [OF w]] hist_prefix [OF w L(1)] by blast
    then show ?thesis using g hist_grows by blast
  qed
  moreover have "e_index (?H T ! k) = int k + 1 \<and> 1 \<le> e_term (?H T ! k) \<and> e_term (?H T ! k) \<le> T" if k: "k < length (?H T)" for T k
  proof (cases "T = t")
    case True
    show ?thesis
    proof (cases "k < length L")
      case l: True
      then show ?thesis using True hist_entry [OF w L(1) l] L(2) by (simp add: nth_append)
    next
      case False
      then have "k = length L" using k True by simp
      then show ?thesis using True x by simp
    qed
  next
    case False
    then show ?thesis using history_entry [OF w, of k T] k by simp
  qed
  ultimately show "wf_history ?H" unfolding wf_history_def by blast
qed

end
