(* ===== verification/Raft_Ghosts.thy ===== *)
theory Raft_Ghosts
  imports Raft_Agreement
begin

section \<open>What one step does to the histories\<close>

text \<open>
  For each kind of outcome of a critical section, the histories, acknowledgements and whole logs with
  which the invariant \<open>logs_inv\<close> of \<open>Raft_Agreement\<close> holds again. \<open>logs_inv_put\<close> has the frame; the other
  lemmas add what the node itself does: keep its log, become a candidate, win an election, append, take
  the leader's entries, install a snapshot.
\<close>

subsection \<open>One node moves\<close>

definition moves :: "string \<Rightarrow> ('s, 'r) cluster \<Rightarrow> ('s, 'r) cluster \<Rightarrow> bool" where
  "moves i c c' =
     ((\<forall>j. j \<noteq> i \<longrightarrow> engines c' j = engines c j) \<and> cast c \<subseteq> cast c' \<and>
      append_msgs c' = append_msgs c \<and> append_answers c' = append_answers c \<and>
      snapshot_msgs c' = snapshot_msgs c \<and> snapshot_answers c' = snapshot_answers c \<and> snapshots_in c' = snapshots_in c)"

lemma log_inv_other:
  assumes n: "log_inv ms H A F C j n" and g: "ghosts_grow H A H' A'" and A: "\<And>T. A' j T = A j T" and j: "j \<noteq> i"
    and C: "C' (current_term n) j = C (current_term n) j"
    and lead: "role n = LEADER \<Longrightarrow> H' (current_term n) = H (current_term n)"
  shows "log_inv ms H' A' (F(i := L)) C' j n"
proof -
  have gr: "grows H H'" using g by (simp add: ghosts_grow_def)
  have len: "A j T \<le> length (H' T)" for T
    using n prefix_length_le [OF grows_prefix [OF gr], of T] unfolding log_inv_def by (meson order_trans)
  have "kept H' A' j (current_term n + 1) (F j)"
    by (rule kept_grows [where A = A, OF _ gr prefix_order.refl]) (use n A in \<open>simp_all add: log_inv_def\<close>)
  moreover have "commit_ok ms H' A' (current_term n) (commit_index n) (F j)"
    using commit_ok_mono [OF _ g order_refl prefix_order.refl] n by (simp add: log_inv_def)
  moreover have "leads_ok H' A' j n (F j)" if "role n = LEADER"
  proof -
    have "leads_ok H A j n (F j)" using n that by (simp add: log_inv_def)
    moreover have "int (A p (current_term n)) \<le> int (A' p (current_term n))" for p using g by (simp add: ghosts_grow_def)
    ultimately show ?thesis unfolding leads_ok_def lead [OF that] A by (meson order_trans)
  qed
  moreover have "asked_ok ms H' A' (current_term n) (C' (current_term n) j) (F j)" if "role n = CANDIDATE"
    using asked_ok_mono [OF _ g] n that C by (simp add: log_inv_def)
  moreover have "hist H' (F j)" using hist_grows [OF _ gr] n by (simp add: log_inv_def)
  ultimately show ?thesis using n j len A by (simp add: log_inv_def)
qed

lemma logs_inv_moves:
  assumes inv: "logs_inv ms H A F C c" and m: "moves i c c'" and w: "wf_history H'" and g: "ghosts_grow H A H' A'"
    and A: "\<And>v T. A' v T \<noteq> A v T \<Longrightarrow> v = i \<and> T = t'"
    and t: "t = current_term (node (engines c i))" "t' = current_term (node (engines c' i))" "t \<le> t'"
    and C: "\<And>T x. C' T x \<noteq> C T x \<Longrightarrow> T = t' \<and> x = i \<and> t < t'"
    and cand: "t' = t \<Longrightarrow> role (node (engines c' i)) = CANDIDATE \<Longrightarrow> role (node (engines c i)) = CANDIDATE"
    and past: "\<And>T x. (i, T, x) \<in> cast c \<Longrightarrow> T \<le> t"
    and new: "\<And>T. H T = [] \<Longrightarrow> H' T \<noteq> [] \<Longrightarrow> elected ms H' A' c' T"
    and others: "\<And>j. j \<noteq> i \<Longrightarrow> role (node (engines c j)) = LEADER \<Longrightarrow>
      H' (current_term (node (engines c j))) = H (current_term (node (engines c j)))"
    and log: "log_inv ms H' A' (F(i := L)) C' i (node (engines c' i))"
    and votes: "\<And>v T x. (v, T, x) \<in> cast c' \<Longrightarrow> (v, T, x) \<notin> cast c \<Longrightarrow> T = t' \<and> T \<le> current_term (node (engines c' x)) \<and>
      (H T = [] \<longrightarrow> asking H T (C' T x) \<and> kept H A v T (C' T x))"
    and asks: "\<And>j p q. (j, SpawnVote p q) \<in> rpcs c' \<Longrightarrow> (j, SpawnVote p q) \<notin> rpcs c \<Longrightarrow>
      vq_term q \<le> current_term (node (engines c' j)) \<and> asking H (vq_term q) (C' (vq_term q) j) \<and>
      vq_last_log_index q = int (length (C' (vq_term q) j)) \<and> vq_last_log_term q = lterm (C' (vq_term q) j)"
  shows "logs_inv ms H' A' (F(i := L)) C' c'"
proof -
  have gr: "grows H H'" using g by (simp add: ghosts_grow_def)
  have cur: "current_term (node (engines c x)) \<le> current_term (node (engines c' x))" for x
    using m t by (cases "x = i") (auto simp: moves_def)
  have len: "A v T \<le> length (H T)" for v T using inv by (simp add: logs_inv_def log_inv_def)
  have keep: "kept H A v T X \<Longrightarrow> prefix X X' \<Longrightarrow> kept H' A' v T X'" if "v = i \<Longrightarrow> T \<le> t'" for v T X X'
    using kept_grows [OF _ gr, of A v T X X' A'] A len that by (metis not_le)
  have voted: "(v, T, x) \<in> cast c \<Longrightarrow> v = i \<Longrightarrow> T \<le> t'" for v T x using past t(3) by fastforce
  have C0: "C' T x = C T x" if "T \<le> current_term (node (engines c x))" for T x
    using C [of T x] that t(1) by (metis not_le)
  have wo: "elected ms H' A' c' T" if "H' T \<noteq> []" for T
  proof (cases "H T = []")
    case True
    then show ?thesis using new that by blast
  next
    case False
    then have "elected ms H A c T" using inv unfolding logs_inv_def by blast
    then obtain x Q where x: "quorum (members_dict ms) Q" "\<And>v. v \<in> Q \<Longrightarrow> (v, T, x) \<in> cast c \<and> kept H A v T (H T)"
      "T \<le> current_term (node (engines c x))"
      "T = current_term (node (engines c x)) \<Longrightarrow> role (node (engines c x)) \<noteq> CANDIDATE"
      unfolding elected_def by blast
    have "(v, T, x) \<in> cast c' \<and> kept H' A' v T (H' T)" if "v \<in> Q" for v
      using x(2) [OF that] keep [OF voted [OF conjunct1 [OF x(2) [OF that]]] _ grows_prefix [OF gr]] m by (auto simp: moves_def)
    moreover have "role (node (engines c' x)) \<noteq> CANDIDATE" if e: "T = current_term (node (engines c' x))"
    proof (cases "x = i")
      case True
      then have "t' = t" "T = t" using e x(3) t by auto
      then show ?thesis using True cand x(4) t(1) by blast
    next
      case False
      then show ?thesis using m x(4) e by (simp add: moves_def)
    qed
    ultimately show ?thesis unfolding elected_def using x(1,3) cur [of x] by (blast intro: order_trans)
  qed
  have logs: "log_inv ms H' A' (F(i := L)) C' j (node (engines c' j))" for j
  proof (cases "j = i")
    case False
    have "engines c' j = engines c j" using m False by (simp add: moves_def)
    moreover have "log_inv ms H A F C j (node (engines c j))" using inv by (simp add: logs_inv_def)
    moreover have "A' j T = A j T" for T using A [of j T] False by blast
    ultimately show ?thesis using log_inv_other [of ms H A F C j "node (engines c j)" H' A' i C' L] g False others [OF False]
        C0 [of "current_term (node (engines c j))" j] by simp
  qed (use log in simp)
  have vote: "T \<le> current_term (node (engines c' x)) \<and> (H' T = [] \<longrightarrow> asking H' T (C' T x) \<and> kept H' A' v T (C' T x))"
    if "(v, T, x) \<in> cast c'" for v T x
  proof (cases "(v, T, x) \<in> cast c")
    case True
    then have o: "T \<le> current_term (node (engines c x))" "H T = [] \<longrightarrow> asking H T (C T x) \<and> kept H A v T (C T x)"
      using inv unfolding logs_inv_def votes_log_inv_def by blast+
    have "H' T = [] \<Longrightarrow> H T = []" using grows_nonempty [OF gr] by blast
    then show ?thesis
      using o cur [of x] keep [OF voted [OF True] _ prefix_order.refl] asking_mono [OF _ gr] C0 [OF o(1)] by (auto intro: order_trans)
  next
    case False
    have "H' T = [] \<Longrightarrow> H T = []" using grows_nonempty [OF gr] by blast
    then show ?thesis
      using votes [OF that False] keep [of v T _ _, OF _ _ prefix_order.refl] asking_mono [OF _ gr] by blast
  qed
  have ask: "vq_term q \<le> current_term (node (engines c' j)) \<and> asking H' (vq_term q) (C' (vq_term q) j) \<and>
      vq_last_log_index q = int (length (C' (vq_term q) j)) \<and> vq_last_log_term q = lterm (C' (vq_term q) j)"
    if "(j, SpawnVote p q) \<in> rpcs c'" for j p q
  proof (cases "(j, SpawnVote p q) \<in> rpcs c")
    case True
    then have o: "vq_term q \<le> current_term (node (engines c j))" "asking H (vq_term q) (C (vq_term q) j)"
      "vq_last_log_index q = int (length (C (vq_term q) j))" "vq_last_log_term q = lterm (C (vq_term q) j)"
      using inv unfolding logs_inv_def terms_inv_def by blast+
    then show ?thesis using cur [of j] asking_mono [OF _ gr] C0 [OF o(1)] by (auto intro: order_trans)
  qed (use asks [OF that] asking_mono [OF _ gr] in blast)
  have "msgs_inv ms H' A' c'"
    using msgs_inv_mono [OF _ g] inv m unfolding logs_inv_def moves_def by blast
  moreover have "terms_inv H' C' c'"
    unfolding terms_inv_def
  proof (intro conjI allI impI)
    show "sq_term q \<le> current_term (node (engines c' (member_id p)))" if "(j, p, q) \<in> snapshots_in c'" for j p q
      using inv m that cur [of "member_id p"] unfolding logs_inv_def terms_inv_def moves_def by (metis order_trans)
  qed (use ask in blast)+
  ultimately show ?thesis using w wo logs vote unfolding logs_inv_def votes_log_inv_def by blast
qed

text \<open>A node may acknowledge more of the history of its term without moving.\<close>

lemma logs_inv_ack:
  assumes inv: "logs_inv ms H A F C c" and "agree (F i) m (H (current_term (node (engines c i))))"
    and past: "\<And>T x. (i, T, x) \<in> cast c \<Longrightarrow> T \<le> current_term (node (engines c i))"
  shows "logs_inv ms H (ack A i (current_term (node (engines c i))) m) F C c"
proof -
  let ?n = "node (engines c i)"
  let ?A = "ack A i (current_term ?n) m"
  have g: "ghosts_grow H A H ?A" by (rule ack_grow)
  have n: "log_inv ms H A F C i ?n" using inv by (simp add: logs_inv_def)
  have "kept H ?A i (current_term ?n + 1) (F i)" using n assms(2) kept_ack [of H A i _ "F i" m "current_term ?n"] by (simp add: log_inv_def)
  moreover have "commit_ok ms H ?A (current_term ?n) (commit_index ?n) (F i)"
    using commit_ok_mono [OF _ g order_refl prefix_order.refl] n by (simp add: log_inv_def)
  moreover have "leads_ok H ?A i ?n (F i)" if "role ?n = LEADER"
    using n that assms(2) by (auto simp: log_inv_def leads_ok_def agree_def)
  moreover have "asked_ok ms H ?A (current_term ?n) (C (current_term ?n) i) (F i)" if "role ?n = CANDIDATE"
    using asked_ok_mono [OF _ g] n that by (simp add: log_inv_def)
  ultimately have "log_inv ms H ?A (F(i := F i)) C i ?n" using n assms(2) by (auto simp: log_inv_def agree_def)
  then have "logs_inv ms H ?A (F(i := F i)) C c"
    using inv past by (intro logs_inv_moves [OF inv, of i c H ?A "current_term ?n" "current_term ?n"])
      (auto simp: moves_def logs_inv_def g split: if_splits)
  then show ?thesis by simp
qed


subsection \<open>The requests of elections\<close>

text \<open>A request for a pre-vote says that it is one.\<close>

definition flagged :: "('s, 'r) engine \<Rightarrow> bool" where
  "flagged e = (\<forall>p q g. SpawnPreVote p q g \<in> set (effects e) \<longrightarrow> vq_pre_vote q)"

lemma flagged_emit [simp]:
  "flagged (emit [CallBecomeLeader] e) = flagged e"
  "flagged (emit [CallBecomeFollower] e) = flagged e"
  "flagged (emit [SpawnCheckQuorum t] e) = flagged e"
  "flagged (emit [SpawnReplicator p t w] e) = flagged e"
  "flagged (emit (map (\<lambda>p. SpawnVote p q) ps) e) = flagged e"
  "vq_pre_vote q \<Longrightarrow> flagged (emit (map (\<lambda>p. SpawnPreVote p q g) ps) e) = flagged e"
  by (auto simp: flagged_def emit_def)

lemma flagged_update [simp]:
  "flagged (e\<lparr>node := x0\<rparr>) = flagged e" "flagged (e\<lparr>storage := x1\<rparr>) = flagged e"
  "flagged (e\<lparr>members := x2\<rparr>) = flagged e" "flagged (e\<lparr>config_index := x3\<rparr>) = flagged e"
  "flagged (e\<lparr>learners := x4\<rparr>) = flagged e" "flagged (e\<lparr>term_start_index := x5\<rparr>) = flagged e"
  "flagged (e\<lparr>last_contact := x6\<rparr>) = flagged e" "flagged (e\<lparr>send_seq := x7\<rparr>) = flagged e"
  "flagged (e\<lparr>last_ack_seq := x8\<rparr>) = flagged e" "flagged (e\<lparr>last_leader_contact := x9\<rparr>) = flagged e"
  "flagged (e\<lparr>leader_addr := x10\<rparr>) = flagged e" "flagged (e\<lparr>transferring := x11\<rparr>) = flagged e"
  "flagged (e\<lparr>snapshot_rx := x12\<rparr>) = flagged e" "flagged (e\<lparr>running := x13\<rparr>) = flagged e"
  "flagged (e\<lparr>timer_generation := x14\<rparr>) = flagged e" "flagged (e\<lparr>timer_armed := x15\<rparr>) = flagged e"
  "flagged (e\<lparr>replicators := x16\<rparr>) = flagged e" "flagged (e\<lparr>next_event := x17\<rparr>) = flagged e"
  "flagged (e\<lparr>waiters := x18\<rparr>) = flagged e" "flagged (e\<lparr>grants := x19\<rparr>) = flagged e"
  "flagged (e\<lparr>votes := x20\<rparr>) = flagged e"
  by (simp_all add: flagged_def)

lemma flagged_sections [simp]:
  "flagged (reset_election_timer e) = flagged e"
  "flagged (persist_term_and_vote R e) = flagged e"
  "flagged (advance_commit_index e) = flagged e"
  "flagged (fold (init_peer i now) ps e) = flagged e"
  "flagged (note_contact now p' s e) = flagged e"
  "flagged (start_replicator now p e) = flagged e"
  by (auto simp: flagged_def emit_def reset_election_timer_def start_replicator_def Let_def)

lemma flagged_fold [simp]: "flagged (fold (start_replicator now) ps e) = flagged e"
  by (induction ps arbitrary: e) simp_all

lemma flagged_log [simp]:
  "flagged (refresh_config now e) = flagged e"
  "flagged (append_local R now es e) = flagged e"
  "flagged (truncate_local R now i e) = flagged e"
  "flagged (append_new R now es e) = flagged e"
  by (simp_all add: append_local_def truncate_local_def append_new_def refresh_config_def Let_def split: prod.split option.split)

lemma flagged_roles [simp]:
  "flagged (become_follower R t e) = flagged e"
  "flagged (become_leader R now e) = flagged e"
  "flagged (accept_leader R now t l a e) = flagged e"
  "flagged (record_match p i e) = flagged e"
  "flagged (maybe_snapshot R e) = flagged e"
  "flagged (add_learner now m e) = flagged e"
  by (simp_all add: become_follower_def become_leader_def accept_leader_def record_match_def maybe_snapshot_def
      add_learner_def Let_def split: option.split)

lemma flagged_candidate [simp]: "flagged (become_candidate R now tr e) = flagged e"
  by (simp add: become_candidate_def Let_def)

lemma flagged_start [simp]: "flagged (start_election R now g e) = flagged e"
  by (simp add: start_election_def Let_def)

lemma flagged_run_event: "flagged e \<Longrightarrow> flagged (run_event R now ev e)"
  by (cases ev) (auto simp: event_sections Let_def
      split: option.splits list.splits waiter.splits prod.splits chunk_result.splits sum.splits if_splits)

definition asks_inv :: "('s, 'r) cluster \<Rightarrow> bool" where
  "asks_inv c =
     ((\<forall>i. flagged (engines c i)) \<and> (\<forall>i p q g. (i, SpawnPreVote p q g) \<in> rpcs c \<longrightarrow> vq_pre_vote q) \<and>
      (\<forall>i p q. (p, q) \<in> vote_rpcs (engines c i) \<longrightarrow> (i, SpawnVote p q) \<in> rpcs c))"

lemma asks_put: "asks_inv c \<Longrightarrow> flagged e \<Longrightarrow> asks_inv (put i e c)"
  unfolding asks_inv_def put_def flagged_def vote_rpcs_def by (simp add: image_iff) blast

lemma asks_frame: "asks_inv c \<Longrightarrow> engines c' = engines c \<Longrightarrow> rpcs c' = rpcs c \<Longrightarrow> asks_inv c'"
  by (simp add: asks_inv_def)

lemma flagged_restart: "flagged (restart R now e)"
  by (simp add: restart_def new_engine_def restore_persistent_state_def Let_def) (simp add: flagged_def)

subsection \<open>A section of one node\<close>

text \<open>The logs asked with: a node that reaches a new term may ask with the log it has.\<close>

definition asked :: "askings \<Rightarrow> logs \<Rightarrow> string \<Rightarrow> int \<Rightarrow> int \<Rightarrow> askings" where
  "asked C F i t t' = (if t < t' then C(t' := (C t')(i := F i)) else C)"

abbreviation termof :: "('s, 'r) engine \<Rightarrow> int" where
  "termof e \<equiv> current_term (node e)"

text \<open>Where the votes and the vote requests of a section come from.\<close>

definition fits :: "('s, 'r) cluster \<Rightarrow> string \<Rightarrow> ('s, 'r) engine \<Rightarrow> bool" where
  "fits c i e1 =
     (let e = engines c i
      in termof e \<le> termof e1 \<and> (\<forall>T x. (i, T, x) \<in> cast c \<longrightarrow> T \<le> termof e) \<and>
         (\<forall>x. voted_for (node e) = Some x \<longrightarrow> (i, termof e, x) \<in> cast c) \<and>
         (\<forall>x. voted_for (node e1) = Some x \<longrightarrow> tv e1 = tv e \<or> (x = i \<and> termof e1 = termof e + 1) \<or>
            (\<exists>p q. (x, SpawnVote p q) \<in> rpcs c \<and> vq_term q = termof e1 \<and> log_ok q e)) \<and>
         (\<forall>p q. (p, q) \<in> vote_rpcs e1 \<longrightarrow> (i, SpawnVote p q) \<in> rpcs c \<or>
            (termof e1 = termof e + 1 \<and> vq_term q = termof e + 1 \<and>
             vq_last_log_index q = last_log_index (node e) \<and> vq_last_log_term q = last_log_term (node e))))"

lemma fitsD:
  assumes "fits c i e1"
  shows "termof (engines c i) \<le> termof e1" and "\<And>T x. (i, T, x) \<in> cast c \<Longrightarrow> T \<le> termof (engines c i)"
    and "\<And>x. voted_for (node (engines c i)) = Some x \<Longrightarrow> (i, termof (engines c i), x) \<in> cast c"
    and "\<And>x. voted_for (node e1) = Some x \<Longrightarrow> tv e1 = tv (engines c i) \<or> (x = i \<and> termof e1 = termof (engines c i) + 1) \<or>
            (\<exists>p q. (x, SpawnVote p q) \<in> rpcs c \<and> vq_term q = termof e1 \<and> log_ok q (engines c i))"
    and "\<And>p q. (p, q) \<in> vote_rpcs e1 \<Longrightarrow> (i, SpawnVote p q) \<in> rpcs c \<or>
            (termof e1 = termof (engines c i) + 1 \<and> vq_term q = termof (engines c i) + 1 \<and>
             vq_last_log_index q = last_log_index (node (engines c i)) \<and> vq_last_log_term q = last_log_term (node (engines c i)))"
  using assms unfolding fits_def Let_def by blast+

lemma moves_put: "moves i c (put i e c)"
  by (simp add: moves_def cast_put)

lemma logs_node:
  assumes "logs_inv ms H A F C c"
  shows "log_inv ms H A F C i (node (engines c i))" and "wf_history H" and "elected_logs ms H A"
  using assms elected_logsI [of H ms A c] by (simp_all add: logs_inv_def)

lemma log_invD:
  assumes "log_inv ms H A F C i n"
  shows "stands_for (F i) n" and "hist H (F i)" and "lterm (F i) \<le> current_term n"
    and "\<And>t. A i t \<le> length (H t)" and "\<And>t. 0 < A i t \<Longrightarrow> t \<le> current_term n"
    and "kept H A i (current_term n + 1) (F i)" and "commit_ok ms H A (current_term n) (commit_index n) (F i)"
    and "role n = LEADER \<Longrightarrow> leads_ok H A i n (F i)"
    and "role n = CANDIDATE \<Longrightarrow> asked_ok ms H A (current_term n) (C (current_term n) i) (F i)"
  using assms by (simp_all add: log_inv_def)

lemma put_vote:
  assumes inv: "logs_inv ms H A F C c" and f: "fits c i e1" and new: "(v, T, x) \<in> cast (put i e1 c)" "(v, T, x) \<notin> cast c"
  defines "C' \<equiv> asked C F i (termof (engines c i)) (termof e1)"
  shows "T = termof e1 \<and> T \<le> termof (engines (put i e1 c) x) \<and>
    (H T = [] \<longrightarrow> asking H T (C' T x) \<and> kept H A v T (C' T x))"
proof -
  let ?e = "engines c i"
  let ?t = "termof ?e" and ?t' = "termof e1"
  note n = log_invD [OF logs_node(1) [OF inv, of i]]
  have vx: "v = i" "T = ?t'" "voted_for (node e1) = Some x" using new by (auto simp: put_def split: option.splits)
  note f = fitsD [OF f]
  consider "tv e1 = tv ?e" | "x = i" "?t' = ?t + 1" | p q where "(x, SpawnVote p q) \<in> rpcs c" "vq_term q = ?t'" "log_ok q ?e"
    using f(4) [OF vx(3)] by blast
  then show ?thesis
  proof cases
    case 1
    then have "(v, T, x) \<in> cast c" using f(3) [of x] vx by simp
    then show ?thesis using new(2) by contradiction
  next
    case 2
    then have "C' T x = F i" by (simp add: C'_def asked_def vx(2))
    moreover have "asking H T (F i)" using n(2,3) 2 vx(2) by (simp add: asking_def)
    ultimately show ?thesis using n(6) 2 vx by simp
  next
    case 3
    have s: "?t' \<le> termof (engines c x)" "asking H ?t' (C ?t' x)" "vq_last_log_index q = int (length (C ?t' x))"
      "vq_last_log_term q = lterm (C ?t' x)"
      using inv 3 unfolding logs_inv_def terms_inv_def by metis+
    have C': "C' T x = C T x" using s(1) vx by (auto simp: C'_def asked_def)
    have "lterm (F i) < lterm (C T x) \<or> (lterm (C T x) = lterm (F i) \<and> length (F i) \<le> length (C T x))"
      using 3(3) s(3,4) stands_last [OF n(1)] vx(2) by (simp add: log_ok_def)
    then have "kept H A i T (C T x)" if "H T = []"
      using kept_candidate [OF logs_node(2) [OF inv] n(6,2) _ _ n(5) _ that] s(2) f(1) vx(2) by (simp add: asking_def)
    moreover have "T \<le> termof (engines (put i e1 c) x)" using s(1) f(1) vx(2) by simp
    ultimately show ?thesis using C' s(2) vx by simp
  qed
qed

lemma put_asks:
  assumes inv: "logs_inv ms H A F C c" and f: "fits c i e1"
    and new: "(j, SpawnVote p q) \<in> rpcs (put i e1 c)" "(j, SpawnVote p q) \<notin> rpcs c"
  defines "C' \<equiv> asked C F i (termof (engines c i)) (termof e1)"
  shows "vq_term q \<le> termof (engines (put i e1 c) j) \<and> asking H (vq_term q) (C' (vq_term q) j) \<and>
      vq_last_log_index q = int (length (C' (vq_term q) j)) \<and> vq_last_log_term q = lterm (C' (vq_term q) j)"
proof -
  note n = log_invD [OF logs_node(1) [OF inv, of i]]
  have j: "j = i" "(p, q) \<in> vote_rpcs e1" using new by (auto simp: put_def vote_rpcs_def)
  then have q: "termof e1 = termof (engines c i) + 1" "vq_term q = termof e1"
     "vq_last_log_index q = last_log_index (node (engines c i))" "vq_last_log_term q = last_log_term (node (engines c i))"
    using fitsD(5) [OF f j(2)] new(2) by auto
  then have "C' (vq_term q) j = F i" by (simp add: C'_def asked_def j)
  then show ?thesis using q j n(2,3) stands_last [OF n(1)] by (simp add: asking_def)
qed

lemma logs_inv_put:
  assumes inv: "logs_inv ms H A F C c" and f: "fits c i e1" and w: "wf_history H'" and g: "ghosts_grow H A H' A'"
    and A: "\<And>v T. A' v T \<noteq> A v T \<Longrightarrow> v = i \<and> T = termof e1"
    and cand: "termof e1 = termof (engines c i) \<Longrightarrow> role (node e1) = CANDIDATE \<Longrightarrow> role (node (engines c i)) = CANDIDATE"
    and new: "\<And>T. H T = [] \<Longrightarrow> H' T \<noteq> [] \<Longrightarrow> elected ms H' A' (put i e1 c) T"
    and others: "\<And>j. j \<noteq> i \<Longrightarrow> role (node (engines c j)) = LEADER \<Longrightarrow> H' (termof (engines c j)) = H (termof (engines c j))"
    and log: "log_inv ms H' A' (F(i := L)) (asked C F i (termof (engines c i)) (termof e1)) i (node e1)"
  shows "logs_inv ms H' A' (F(i := L)) (asked C F i (termof (engines c i)) (termof e1)) (put i e1 c)"
proof (rule logs_inv_moves [OF inv moves_put w g A])
  show "T = termof e1 \<and> x = i \<and> termof (engines c i) < termof e1"
    if "asked C F i (termof (engines c i)) (termof e1) T x \<noteq> C T x" for T x
    using that by (auto simp: asked_def split: if_splits)
  show "T = termof e1 \<and> T \<le> termof (engines (put i e1 c) x) \<and>
    (H T = [] \<longrightarrow> asking H T (asked C F i (termof (engines c i)) (termof e1) T x) \<and>
      kept H A v T (asked C F i (termof (engines c i)) (termof e1) T x))"
    if "(v, T, x) \<in> cast (put i e1 c)" "(v, T, x) \<notin> cast c" for v T x
    by (rule put_vote [OF inv f that])
qed (use fitsD(1,2) [OF f] cand new others log put_asks [OF inv f] in \<open>simp_all\<close>)

subsection \<open>Sections that keep the log\<close>

lemma leads_ok_frame:
  assumes "leads_ok H A i n L" and "current_term n' = current_term n"
    and "\<And>p. dict_get (match_index n') p 0 \<in> {0, dict_get (match_index n) p 0}"
  shows "leads_ok H A i n' L"
proof -
  have "dict_get (match_index n') p 0 \<le> int (A p (current_term n))" if "p \<noteq> i" for p
  proof -
    have "dict_get (match_index n) p 0 \<le> int (A p (current_term n))" using assms(1) that by (simp add: leads_ok_def)
    then show ?thesis using assms(3) [of p] by auto
  qed
  then show ?thesis using assms(1) unfolding leads_ok_def assms(2) by blast
qed

lemma log_inv_same:
  assumes n: "log_inv ms H A F C i n" and t: "current_term n \<le> current_term n1"
    and s: "stands_for (F i) n1" and ci: "commit_ok ms H A (current_term n1) (commit_index n1) (F i)"
    and lead: "role n1 = LEADER \<Longrightarrow> leads_ok H A i n1 (F i)"
    and cand: "role n1 = CANDIDATE \<Longrightarrow> asked_ok ms H A (current_term n1) (C' (current_term n1) i) (F i)"
  shows "log_inv ms H A F C' i n1"
proof -
  note n = log_invD [OF n]
  have "kept H A i (current_term n1 + 1) (F i)" by (rule kept_later [OF n(6,5) t])
  moreover have "S \<le> current_term n1" if "0 < A i S" for S using n(5) [OF that] t by simp
  ultimately show ?thesis using n(2,3,4) t s ci lead cand by (simp add: log_inv_def)
qed

text \<open>The node keeps its log; it keeps its role and term too, or becomes a follower.\<close>

lemma logs_same:
  assumes inv: "logs_inv ms H A F C c" and f: "fits c i e1" and s: "stands_for (F i) (node e1)"
    and ci: "commit_ok ms H A (termof e1) (commit_index (node e1)) (F i)"
    and r: "role (node e1) = FOLLOWER \<or> (role (node e1) = role (node (engines c i)) \<and> termof e1 = termof (engines c i) \<and>
      (\<forall>p. dict_get (match_index (node e1)) p 0 \<in> {0, dict_get (match_index (node (engines c i))) p 0}))"
  shows "logs_inv ms H A F (asked C F i (termof (engines c i)) (termof e1)) (put i e1 c)"
proof -
  let ?C = "asked C F i (termof (engines c i)) (termof e1)"
  note n = log_invD [OF logs_node(1) [OF inv, of i]]
  have "log_inv ms H A F ?C i (node e1)"
  proof (rule log_inv_same [OF logs_node(1) [OF inv, of i] fitsD(1) [OF f] s ci])
    show "leads_ok H A i (node e1) (F i)" if "role (node e1) = LEADER"
      using leads_ok_frame [OF n(8), of "node e1"] r that by simp
    show "asked_ok ms H A (termof e1) (?C (termof e1) i) (F i)" if "role (node e1) = CANDIDATE"
      using n(9) r that by (simp add: asked_def)
  qed
  then have "logs_inv ms H A (F(i := F i)) ?C (put i e1 c)"
    using r by (intro logs_inv_put [OF inv f logs_node(2) [OF inv]]) (auto simp: ghosts_grow_refl)
  then show ?thesis by simp
qed

lemma stands_calm: "calm e e1 \<Longrightarrow> stands_for L (node e) \<Longrightarrow> stands_for L (node e1)"
  by (auto simp: calm_def same_log_def intro: stands_frame)

lemma logs_calm:
  assumes inv: "logs_inv ms H A F C c" and f: "fits c i e1" and e: "calm (engines c i) e1"
  shows "logs_inv ms H A F (asked C F i (termof (engines c i)) (termof e1)) (put i e1 c)"
proof (rule logs_same [OF inv f])
  note n = log_invD [OF logs_node(1) [OF inv, of i]]
  show "stands_for (F i) (node e1)" by (rule stands_calm [OF e n(1)])
  show "commit_ok ms H A (termof e1) (commit_index (node e1)) (F i)"
    using commit_ok_mono [OF n(7) ghosts_grow_refl fitsD(1) [OF f] prefix_order.refl] e by (simp add: calm_def)
  show "role (node e1) = FOLLOWER \<or> (role (node e1) = role (node (engines c i)) \<and> termof e1 = termof (engines c i) \<and>
      (\<forall>p. dict_get (match_index (node e1)) p 0 \<in> {0, dict_get (match_index (node (engines c i))) p 0}))"
    using e unfolding calm_def by blast
qed

lemma logs_candidacy:
  assumes inv: "logs_inv ms H A F C c" and f: "fits c i e1" and e: "candidacy (engines c i) e1"
  shows "logs_inv ms H A F (asked C F i (termof (engines c i)) (termof e1)) (put i e1 c)"
proof -
  let ?C = "asked C F i (termof (engines c i)) (termof e1)"
  note n = log_invD [OF logs_node(1) [OF inv, of i]]
  have r: "role (node e1) = CANDIDATE" "termof e1 = termof (engines c i) + 1"
    "commit_index (node e1) = commit_index (node (engines c i))" using e by (simp_all add: candidacy_def)
  have "log_inv ms H A F ?C i (node e1)"
  proof (rule log_inv_same [OF logs_node(1) [OF inv, of i] fitsD(1) [OF f]])
    show "stands_for (F i) (node e1)" using n(1) e by (auto simp: candidacy_def same_log_def intro: stands_frame)
    show "commit_ok ms H A (termof e1) (commit_index (node e1)) (F i)"
      unfolding r(3) by (rule commit_ok_mono [OF n(7) ghosts_grow_refl fitsD(1) [OF f] prefix_order.refl])
    show "asked_ok ms H A (termof e1) (?C (termof e1) i) (F i)" using r by (simp add: asked_ok_def asked_def)
  qed (use r in simp)
  then have "logs_inv ms H A (F(i := F i)) ?C (put i e1 c)"
    using r by (intro logs_inv_put [OF inv f logs_node(2) [OF inv]]) (auto simp: ghosts_grow_refl)
  then show ?thesis by simp
qed

text \<open>The leader learns what a peer has acknowledged, and may commit.\<close>

lemma logs_matched:
  assumes inv: "logs_inv ms H A F C c" and f: "fits c i e1" and e: "matched p j (engines c i) e1"
    and m: "members (engines c i) = members_dict ms" "node_id (engines c i) = i"
    and a: "j \<le> int (A p (termof (engines c i)))"
  shows "logs_inv ms H A F (asked C F i (termof (engines c i)) (termof e1)) (put i e1 c)"
proof -
  let ?e = "engines c i"
  let ?C = "asked C F i (termof ?e) (termof e1)"
  note n = log_invD [OF logs_node(1) [OF inv, of i]]
  have r: "role (node ?e) = LEADER" "role (node e1) = LEADER" "termof e1 = termof ?e" "same_log (node ?e) (node e1)"
    using e by (simp_all add: matched_def)
  have s: "stands_for (F i) (node e1)" using n(1) r(4) by (auto simp: same_log_def intro: stands_frame)
  have le: "leads_ok H A i (node ?e) (F i)" using n(8) r(1) .
  have lead: "leads_ok H A i (node e1) (F i)"
  proof -
    have "dict_get (match_index (node e1)) v 0 \<le> int (A v (termof ?e))" if "v \<noteq> i" for v
    proof -
      have "dict_get (match_index (node ?e)) v 0 \<le> int (A v (termof ?e))" using le that by (simp add: leads_ok_def)
      then show ?thesis using e a by (cases "v = p") (simp_all add: matched_def)
    qed
    then show ?thesis using le unfolding leads_ok_def r(3) by blast
  qed
  have ci: "commit_ok ms H A (termof e1) (commit_index (node e1)) (F i)"
  proof (cases "commit_index (node e1) = commit_index (node ?e) \<or> commit_index (node e1) \<le> 0")
    case True
    then show ?thesis using n(7) r(3) by (auto simp: commit_ok_def)
  next
    case False
    then have "term_at (node e1) (commit_index (node e1)) = Some (termof e1)"
      "quorum (members_dict ms) {m. m = i \<or> commit_index (node e1) \<le> dict_get (match_index (node e1)) m 0}"
      using e unfolding matched_def m r(3) same_log_at(2) [OF r(4)] by blast+
    then show ?thesis using commit_new [OF lead s] False by simp
  qed
  have "log_inv ms H A F ?C i (node e1)"
    by (rule log_inv_same [OF logs_node(1) [OF inv, of i] fitsD(1) [OF f] s ci]) (use lead r in simp_all)
  then have "logs_inv ms H A (F(i := F i)) ?C (put i e1 c)"
    using r by (intro logs_inv_put [OF inv f logs_node(2) [OF inv]]) (auto simp: ghosts_grow_refl)
  then show ?thesis by simp
qed

subsection \<open>A leader's log grows\<close>

lemma logs_extend:
  assumes inv: "logs_inv ms H A F C c" and f: "fits c i e1" and t: "termof (engines c i) = t" "termof e1 = t" "1 \<le> t"
    and H: "H t = [] \<or> H t = F i" and x: "e_term x = t" "e_index x = int (length (F i)) + 1"
    and e1: "role (node e1) = LEADER" "log (node e1) = log (node (engines c i)) @ [x]"
      "snapshot_index (node e1) = snapshot_index (node (engines c i))"
      "snapshot_term (node e1) = snapshot_term (node (engines c i))"
    and match: "\<And>p. p \<noteq> i \<Longrightarrow> dict_get (match_index (node e1)) p 0 \<le> int (A p t)"
    and commit: "commit_index (node e1) = commit_index (node (engines c i)) \<or> commit_index (node e1) \<le> 0 \<or>
      (term_at (node e1) (commit_index (node e1)) = Some t \<and>
       quorum (members_dict ms) {m. m = i \<or> commit_index (node e1) \<le> dict_get (match_index (node e1)) m 0})"
    and elect: "H t = [] \<Longrightarrow> \<exists>Q. quorum (members_dict ms) Q \<and> (\<forall>v \<in> Q. (v, t, i) \<in> cast c \<and> kept H A v t (F i))"
    and unique: "\<And>j. j \<noteq> i \<Longrightarrow> role (node (engines c j)) = LEADER \<Longrightarrow> termof (engines c j) \<noteq> t"
  shows "logs_inv ms (H(t := F i @ [x])) (ack A i t (length (F i @ [x]))) (F(i := F i @ [x])) C (put i e1 c)"
proof -
  let ?L = "F i @ [x]"
  let ?H = "H(t := ?L)" and ?A = "ack A i t (length ?L)"
  note n = log_invD [OF logs_node(1) [OF inv, of i], unfolded t(1)]
  have wg: "wf_history ?H" "grows H ?H"
    using history_extend [OF logs_node(2) [OF inv] n(2,3) H x t(3)] by simp_all
  have g0: "ghosts_grow H A ?H A" using wg(2) by (simp add: ghosts_grow_def)
  have g: "ghosts_grow H A ?H ?A" using wg(2) by (simp add: ghosts_grow_def)
  have s: "stands_for ?L (node e1)" using stands_append [OF n(1) e1(2-4)] .
  have Ai: "?A i t = length ?L" using n(4) [of t] H by auto
  have lead: "leads_ok ?H ?A i (node e1) ?L"
    using match x(1) Ai t(2) by (simp add: leads_ok_def)
  have ci: "commit_ok ms ?H ?A t (commit_index (node e1)) ?L"
  proof (cases "commit_index (node e1) = commit_index (node (engines c i))")
    case True
    then show ?thesis using commit_ok_mono [OF n(7) g order_refl, of ?L] by simp
  next
    case False
    show ?thesis
    proof (cases "commit_index (node e1) \<le> 0")
      case True
      then show ?thesis by (simp add: commit_ok_def)
    next
      case pos: False
      then show ?thesis using commit_new [OF lead s] commit False t(2) by simp
    qed
  qed
  have keep: "kept ?H ?A v t ?L" if "kept H A v t (F i)" for v
    using kept_grows [OF that wg(2), of ?L ?A] logs_node(1) [OF inv, of v] by (simp add: log_inv_def)
  have "kept ?H A i (t + 1) ?L" using kept_grows [OF n(6) wg(2), of ?L A] n(4) by simp
  then have "kept ?H ?A i (t + 1) ?L" by (rule kept_ack) (simp add: agree_def)
  moreover have "hist ?H ?L" using hist_history [OF wg(1), of t] by simp
  moreover have "?A i S \<le> length (?H S)" for S
    using n(4) [of S] Ai by (cases "S = t") simp_all
  moreover have "S \<le> t" if "0 < ?A i S" for S using that n(5) [of S] by (auto split: if_splits)
  moreover have "lterm ?L \<le> t" using x(1) by simp
  ultimately have "log_inv ms ?H ?A (F(i := ?L)) C i (node e1)"
    unfolding log_inv_def t(2) using s ci lead e1(1) by simp
  moreover have "elected ms ?H ?A (put i e1 c) T" if "H T = []" "?H T \<noteq> []" for T
  proof -
    have T: "T = t" using that by (auto split: if_splits)
    then obtain Q where "quorum (members_dict ms) Q" "\<forall>v \<in> Q. (v, t, i) \<in> cast c \<and> kept H A v t (F i)"
      using elect \<open>H T = []\<close> by blast
    then have "quorum (members_dict ms) Q" "\<forall>v \<in> Q. (v, t, i) \<in> cast (put i e1 c) \<and> kept ?H ?A v t (?H t)"
      using keep cast_put by fastforce+
    then show ?thesis using T t e1(1) unfolding elected_def by (intro exI [of _ i] exI [of _ Q]) simp
  qed
  ultimately have "logs_inv ms ?H ?A (F(i := ?L)) (asked C F i (termof (engines c i)) (termof e1)) (put i e1 c)"
    using e1(1) unique t by (intro logs_inv_put [OF inv f wg(1) g]) (auto simp: asked_def split: if_splits)
  then show ?thesis using t by (simp add: asked_def)
qed

text \<open>The votes of a majority make the candidate the only leader its term has had.\<close>

lemma logs_leader:
  assumes inv: "logs_inv ms H A F C c" and f: "fits c i e1" and e: "new_leader (engines c i) e1"
    and r: "role (node (engines c i)) = CANDIDATE" and m: "members (engines c i) = members_dict ms" "node_id (engines c i) = i"
    and Q: "quorum (members_dict ms) Q" "\<And>v. v \<in> Q \<Longrightarrow> (v, termof (engines c i), i) \<in> cast c"
    and one: "\<And>v T x y. (v, T, x) \<in> cast c \<Longrightarrow> (v, T, y) \<in> cast c \<Longrightarrow> x = y"
  shows "\<exists>H' A' F' C'. ghosts_grow H A H' A' \<and> logs_inv ms H' A' F' C' (put i e1 c)"
proof -
  let ?e = "engines c i" let ?t = "termof ?e"
  note n = log_invD [OF logs_node(1) [OF inv, of i]]
  have x: "\<exists>x. log (node e1) = log (node ?e) @ [x] \<and> e_term x = ?t \<and> e_index x = int (length (F i)) + 1"
    using e stands_last(1) [OF n(1)] by (simp add: new_leader_def)
  then obtain x where x: "log (node e1) = log (node ?e) @ [x]" "e_term x = ?t" "e_index x = int (length (F i)) + 1" by blast
  have empty: "H ?t = []"
  proof (rule ccontr)
    assume "H ?t \<noteq> []"
    then obtain y Q' where y: "quorum (members_dict ms) Q'" "\<forall>v \<in> Q'. (v, ?t, y) \<in> cast c"
      "?t = termof (engines c y) \<longrightarrow> role (node (engines c y)) \<noteq> CANDIDATE"
      using inv unfolding logs_inv_def elected_def by blast
    have "y = i" using quorum_meet [OF Q(1) y(1)] Q(2) y(2) one by blast
    then show False using y(3) r by simp
  qed
  have votes: "asking H ?t (C ?t i) \<and> kept H A v ?t (C ?t i)" if "v \<in> Q" for v
    using Q(2) [OF that] inv empty unfolding logs_inv_def votes_log_inv_def by blast
  obtain v0 where v0: "v0 \<in> Q" using quorum_meet [OF Q(1) Q(1)] by blast
  have F: "F i = C ?t i"
  proof (rule ccontr)
    assume "F i \<noteq> C ?t i"
    then obtain S k where "S < ?t" "committed ms H A S k" "\<not> agree (C ?t i) k (H S)"
      using n(9) r empty by (auto simp: asked_ok_def)
    then show False using committed_in_log [OF logs_node(3) [OF inv] _ Q(1)] votes by blast
  qed
  have "lterm (F i) < ?t" using votes [OF v0] F by (simp add: asking_def)
  then have t1: "1 \<le> ?t" using lterm_nonneg [OF logs_node(2) [OF inv] n(2)] by simp
  have u: "termof (engines c j) \<noteq> ?t" if "role (node (engines c j)) = LEADER" for j
  proof
    assume tj: "termof (engines c j) = ?t"
    have "leads_ok H A j (node (engines c j)) (F j)" using log_invD(8) [OF logs_node(1) [OF inv, of j] that] .
    then show False using empty tj unfolding leads_ok_def by metis
  qed
  have "logs_inv ms (H(?t := F i @ [x])) (ack A i ?t (length (F i @ [x]))) (F(i := F i @ [x])) C (put i e1 c)"
  proof (rule logs_extend [OF inv f refl _ t1 _ x(2,3) _ x(1)])
    show "commit_index (node e1) = commit_index (node ?e) \<or> commit_index (node e1) \<le> 0 \<or>
      (term_at (node e1) (commit_index (node e1)) = Some ?t \<and>
       quorum (members_dict ms) {m. m = i \<or> commit_index (node e1) \<le> dict_get (match_index (node e1)) m 0})"
      using e m unfolding new_leader_def by auto
    show "\<exists>Q. quorum (members_dict ms) Q \<and> (\<forall>v \<in> Q. (v, ?t, i) \<in> cast c \<and> kept H A v ?t (F i))"
      using Q votes F by auto
  qed (use e empty u in \<open>simp_all add: new_leader_def\<close>)
  moreover have "ghosts_grow H A (H(?t := F i @ [x])) (ack A i ?t (length (F i @ [x])))"
    using empty by (simp add: ghosts_grow_def grows_def)
  ultimately show ?thesis by blast
qed

lemma logs_propose:
  assumes inv: "logs_inv ms H A F C c" and f: "fits c i e1" and m: "members (engines c i) = members_dict ms" "node_id (engines c i) = i"
    and r: "role (node (engines c i)) = LEADER" "role (node e1) = LEADER" "tv e1 = tv (engines c i)"
    and x: "e_term x = termof (engines c i)" "e_index x = last_log_index (node (engines c i)) + 1"
      "log (node e1) = log (node (engines c i)) @ [x]"
    and s: "snapshot_index (node e1) = snapshot_index (node (engines c i))" "snapshot_term (node e1) = snapshot_term (node (engines c i))"
    and mi: "match_index (node e1) = match_index (node (engines c i))" and ci: "committing (engines c i) e1"
    and unique: "\<And>j. j \<noteq> i \<Longrightarrow> role (node (engines c j)) = LEADER \<Longrightarrow> termof (engines c j) \<noteq> termof (engines c i)"
  shows "\<exists>H' A' F' C'. ghosts_grow H A H' A' \<and> logs_inv ms H' A' F' C' (put i e1 c)"
proof -
  let ?e = "engines c i" let ?t = "termof ?e"
  note n = log_invD [OF logs_node(1) [OF inv, of i]]
  have le: "F i = H ?t" "F i \<noteq> []" "lterm (F i) = ?t" "\<And>p. p \<noteq> i \<Longrightarrow> dict_get (match_index (node ?e)) p 0 \<le> int (A p ?t)"
    using n(8) [OF r(1)] unfolding leads_ok_def by blast+
  have t1: "1 \<le> ?t" using lterm_pos [OF logs_node(2) [OF inv] n(2) le(2)] le(3) by simp
  have "logs_inv ms (H(?t := F i @ [x])) (ack A i ?t (length (F i @ [x]))) (F(i := F i @ [x])) C (put i e1 c)"
  proof (rule logs_extend [OF inv f refl _ t1 _ x(1) _ r(2) x(3) s])
    show "e_index x = int (length (F i)) + 1" using x(2) stands_last(1) [OF n(1)] by simp
    show "commit_index (node e1) = commit_index (node ?e) \<or> commit_index (node e1) \<le> 0 \<or>
      (term_at (node e1) (commit_index (node e1)) = Some ?t \<and>
       quorum (members_dict ms) {m. m = i \<or> commit_index (node e1) \<le> dict_get (match_index (node e1)) m 0})"
      using ci unfolding committing_def m by blast
  qed (use r(3) le unique mi in auto)
  moreover have "ghosts_grow H A (H(?t := F i @ [x])) (ack A i ?t (length (F i @ [x])))"
    using le(1) x(1) by (auto simp: ghosts_grow_def grows_def)
  ultimately show ?thesis by blast
qed

subsection \<open>Receiving entries and snapshots\<close>

lemma put_past:
  assumes "fits c i e1" and "(i, T, x) \<in> cast (put i e1 c)"
  shows "T \<le> termof (engines (put i e1 c) i)"
  using assms(2) fitsD(1,2) [OF assms(1)] by (fastforce simp: put_def split: option.splits)

lemma logs_put_ack:
  assumes "logs_inv ms H A F C (put i e1 c)" and "fits c i e1" and "termof e1 = T" and "agree (F i) m (H T)"
  shows "\<exists>A'. ghosts_grow H A H A' \<and> logs_inv ms H A' F C (put i e1 c) \<and> m \<le> A' i T"
proof -
  have "logs_inv ms H (ack A i (termof (engines (put i e1 c) i)) m) F C (put i e1 c)"
    by (rule logs_inv_ack [OF assms(1)]) (use assms put_past [OF assms(2)] in simp_all)
  then show ?thesis using assms(3) ack_grow by (intro exI [of _ "ack A i T m"]) simp
qed

lemma logs_replaced:
  assumes inv: "logs_inv ms H A F C c" and f: "fits c i e1" and t: "termof e1 = T" "role (node e1) = FOLLOWER" "H T \<noteq> []"
    and L: "stands_for L (node e1)" "hist H L" "replaced_by (H T) (F i) L"
    and ci: "commit_index (node e1) = commit_index (node (engines c i)) \<or> commit_ok ms H A T (commit_index (node e1)) L"
  shows "logs_inv ms H A (F(i := L)) (asked C F i (termof (engines c i)) (termof e1)) (put i e1 c)"
proof -
  note n = log_invD [OF logs_node(1) [OF inv, of i]]
  note w = logs_node(2) [OF inv]
  have tT: "termof (engines c i) \<le> T" using fitsD(1) [OF f] t(1) by simp
  have "lterm L \<le> T"
  proof (cases "L = F i")
    case True
    then show ?thesis using n(3) tT by simp
  next
    case False
    then have "prefix L (H T)" "L \<noteq> []" using L(3) by (auto simp: replaced_by_def)
    then show ?thesis by (rule lterm_history [OF w])
  qed
  moreover have "kept H A i (T + 1) L" by (rule kept_replaced [OF L(3) n(6,5) tT t(3)])
  moreover have "S \<le> T" if "0 < A i S" for S using n(5) [OF that] tT by simp
  moreover have "commit_ok ms H A T (commit_index (node e1)) L"
    using ci commit_replaced [OF logs_node(3) [OF inv] n(7) tT t(3) L(3)] by auto
  ultimately have "log_inv ms H A (F(i := L)) (asked C F i (termof (engines c i)) (termof e1)) i (node e1)"
    using L(1,2) t n(4) by (simp add: log_inv_def)
  then show ?thesis
    using t by (intro logs_inv_put [OF inv f w]) (auto simp: ghosts_grow_refl)
qed

lemma logs_append:
  assumes inv: "logs_inv ms H A F C c" and f: "fits c i e1"
    and s: "snapshot_index (node (engines c i)) \<le> commit_index (node (engines c i))"
    and q: "piece H q" "consecutive (aq_prev_log_index q + 1) (aq_entries q)"
      "aq_leader_commit q \<le> 0 \<or> (\<exists>T k. committed ms H A T k \<and> T \<le> aq_term q \<and> nat (aq_leader_commit q) \<le> k)"
    and h: "handle_append_entries R now q (engines c i) = (e1, r)"
  shows "\<exists>A' F' C'. ghosts_grow H A H A' \<and> logs_inv ms H A' F' C' (put i e1 c) \<and>
    (ar_success r \<longrightarrow> max (aq_prev_log_index q + int (length (aq_entries q))) (ar_match_index r) \<le> int (A' i (aq_term q)))"
proof (cases "e1 = engines c i \<and> \<not> ar_success r")
  case True
  then show ?thesis using logs_calm [OF inv f] calm_refl [of e1] ghosts_grow_refl [of H A] by auto
next
  case False
  let ?T = "aq_term q" and ?e = "engines c i"
  note n = log_invD [OF logs_node(1) [OF inv, of i]]
  note el = logs_node(3) [OF inv] and w = logs_node(2) [OF inv]
  have t: "termof ?e \<le> ?T" "termof e1 = ?T" "role (node e1) = FOLLOWER" using append_handler_role [OF h] False by auto
  have HT: "H ?T \<noteq> []" using q(1) by (simp add: piece_def)
  have "agree (F i) (nat (snapshot_index (node ?e))) (H ?T)"
    using commit_agrees [OF el n(7) t(1) HT] nat_mono [OF s] by blast
  then obtain L where L: "stands_for L (node e1)" "hist H L" "replaced_by (H ?T) (F i) L"
    "ar_success r \<Longrightarrow> 0 \<le> ar_match_index r \<and> agree L (nat (ar_match_index r)) (H ?T) \<and>
       aq_prev_log_index q + int (length (aq_entries q)) \<le> ar_match_index r"
    using append_handler [OF w n(1,2) q(1,2) _ h] by blast
  have ci: "commit_index (node e1) = commit_index (node ?e) \<or> commit_ok ms H A ?T (commit_index (node e1)) L"
    using append_handler_commit [OF h]
  proof
    assume a: "ar_success r \<and> commit_index (node e1) \<le> aq_leader_commit q \<and> commit_index (node e1) \<le> ar_match_index r"
    have "commit_ok ms H A ?T (commit_index (node e1)) L"
    proof (cases "commit_index (node e1) \<le> 0")
      case False
      then obtain S k where c: "committed ms H A S k" "S \<le> ?T" "nat (aq_leader_commit q) \<le> k" using a q(3) by auto
      have k: "nat (commit_index (node e1)) \<le> k" "nat (commit_index (node e1)) \<le> nat (ar_match_index r)"
        using a c(3) nat_mono [of "commit_index (node e1)"] by (meson order_trans)+
      have "agree (H ?T) k (H S)" using leader_holds_committed [OF el c(1,2) HT] .
      moreover have "agree L (nat (commit_index (node e1))) (H ?T)" using L(4) a k(2) agree_less by blast
      ultimately have "agree L (nat (commit_index (node e1))) (H S)" using agree_less k(1) agree_trans by blast
      then show ?thesis unfolding commit_ok_def using c(1,2) k(1) by blast
    qed (simp add: commit_ok_def)
    then show ?thesis ..
  qed simp
  let ?C = "asked C F i (termof ?e) (termof e1)"
  have inv': "logs_inv ms H A (F(i := L)) ?C (put i e1 c)" by (rule logs_replaced [OF inv f t(2,3) HT L(1-3) ci])
  show ?thesis
  proof (cases "ar_success r")
    case True
    then obtain A' where "ghosts_grow H A H A'" "logs_inv ms H A' (F(i := L)) ?C (put i e1 c)" "nat (ar_match_index r) \<le> A' i ?T"
      using logs_put_ack [OF inv' f t(2), of "nat (ar_match_index r)"] L(4) by auto
    then show ?thesis using L(4) True by (intro exI [of _ A'] exI [of _ "F(i := L)"] exI [of _ ?C]) auto
  next
    case no: False
    then show ?thesis using inv' ghosts_grow_refl by blast
  qed
qed

lemma logs_chunk:
  assumes inv: "logs_inv ms H A F C c" and f: "fits c i e1"
    and s: "last_applied (node (engines c i)) \<le> commit_index (node (engines c i))"
    and q: "sq_last_included_index q = int (length P)" "snapshot_of ms H A (sq_term q) P"
    and h: "receive_chunk R now q (engines c i) = (e1, res)"
  shows "\<exists>A' F' C'. ghosts_grow H A H A' \<and> logs_inv ms H A' F' C' (put i e1 c) \<and>
    (\<forall>r. res = Reply r \<longrightarrow> sq_done q \<longrightarrow> sr_success r \<longrightarrow> sq_last_included_index q \<le> int (A' i (sq_term q))) \<and>
    (\<forall>x. res = Complete x \<longrightarrow> sq_term q \<le> termof e1)"
proof -
  let ?e = "engines c i" and ?T = "sq_term q"
  note n = log_invD [OF logs_node(1) [OF inv, of i]]
  have "calm ?e (run_event R now (EvChunk q) ?e)" by (rule calm_run_event) simp
  then have inv': "logs_inv ms H A F (asked C F i (termof ?e) (termof e1)) (put i e1 c)"
    using logs_calm [OF inv f] h by simp
  have T: "?T \<le> termof e1" if "res = Complete x" for x
    using h that by (auto simp: receive_chunk_def Let_def accept_leader_def split: if_splits option.splits sum.splits)
  show ?thesis
  proof (cases "\<exists>r. res = Reply r \<and> sq_done q \<and> sr_success r")
    case True
    then have t: "termof ?e \<le> ?T" "termof e1 = ?T" "sq_last_included_index q \<le> last_applied (node ?e)"
      using h by (auto simp: receive_chunk_def Let_def accept_leader_def split: if_splits option.splits sum.splits)
    have "length P \<le> nat (commit_index (node ?e))" using t(3) s q(1) by simp
    then have "agree (F i) (length P) (H ?T)"
      using commit_agrees [OF logs_node(3) [OF inv] n(7) t(1)] q(2) by (simp add: snapshot_of_def)
    from logs_put_ack [OF inv' f t(2) this] show ?thesis using q(1) T by (metis of_nat_le_iff)
  next
    case False
    then show ?thesis using inv' ghosts_grow_refl T by blast
  qed
qed

lemma logs_install:
  assumes inv: "logs_inv ms H A F C c" and f: "fits c i e1"
    and s: "snapshot_index (node (engines c i)) \<le> last_applied (node (engines c i))"
    and q: "sq_last_included_index q = int (length P)" "sq_last_included_term q = lterm P"
      "snapshot_of ms H A (sq_term q) P" "sq_term q \<le> termof (engines c i)" "0 \<le> last_applied (node (engines c i))"
    and h: "install_needed q (engines c i)" "install_snapshot R now q (engines c i) = (e1, r)"
  shows "\<exists>A' F' C'. ghosts_grow H A H A' \<and> logs_inv ms H A' F' C' (put i e1 c) \<and>
    (sr_term r \<le> sq_term q \<longrightarrow> sq_last_included_index q \<le> int (A' i (sq_term q)))"
proof -
  let ?e = "engines c i" and ?T = "sq_term q" and ?C = "asked C F i (termof (engines c i)) (termof e1)"
  note n = log_invD [OF logs_node(1) [OF inv, of i]]
  note w = logs_node(2) [OF inv] and el = logs_node(3) [OF inv]
  note o = install_outcome [OF h(2) n(1) q(1,2)]
  have P: "prefix P (H ?T)" "H ?T \<noteq> []" "P \<noteq> []"
    using q(1,3,5) h(1) by (auto simp: snapshot_of_def install_needed_def)
  have hP: "hist H P" using hist_prefix [OF w hist_history [OF w] P(1)] .
  have PT: "agree P (length P) (H ?T)" using agree_same [OF P(1)] by simp
  obtain S k where c: "committed ms H A S k" "S \<le> ?T" "length P \<le> k" "prefix P (H S)"
    using snapshot_committed [OF el q(3) P(3)] .
  have St: "S \<le> termof ?e" using c(2) q(4) by simp
  have lii: "snapshot_index (node ?e) \<le> int (length P)" using h(1) s q(1) by (simp add: install_needed_def)
  have at: "term_at (node ?e) (int (length P)) = Some (lterm P) \<longleftrightarrow> agree (F i) (length P) (H S)"
  proof
    assume "term_at (node ?e) (int (length P)) = Some (lterm P)"
    then have l: "length P \<le> length (F i)" "lterm (take (length P) (F i)) = lterm (take (length P) P)"
      using stands_term_at_Some [OF n(1)] by fastforce+
    have "agree (F i) (length P) P" by (rule hist_match [OF w n(2) hP l(1) order_refl l(2)])
    then show "agree (F i) (length P) (H S)" using agree_same [OF c(4) order_refl] agree_trans by blast
  next
    assume a: "agree (F i) (length P) (H S)"
    then have "take (length P) (F i) = P" "length P \<le> length (F i)"
      using c(4) by (auto simp: agree_def elim!: prefixE)
    then show "term_at (node ?e) (int (length P)) = Some (lterm P)"
      using stands_term_at [OF n(1) lii] by simp
  qed
  have SP: "agree P (length P) (H S)" using agree_same [OF c(4) order_refl] .
  have "\<exists>L. logs_inv ms H A (F(i := L)) ?C (put i e1 c) \<and> agree L (length P) (H ?T)"
  proof (cases "agree (F i) (length P) (H S)")
    case True
    have a: "agree (F i) (length P) (H ?T)" using True SP PT agree_trans agree_sym by blast
    have "logs_inv ms H A F ?C (put i e1 c)"
    proof (rule logs_same [OF inv f])
      show "stands_for (F i) (node e1)" using o(1) True at by simp
      show "commit_ok ms H A (termof e1) (commit_index (node e1)) (F i)"
        unfolding o(2,3) by (rule commit_matched [OF el n(7) q(3,4) a])
    qed (use o(3,5,6) in blast)
    then show ?thesis using a by (intro exI [of _ "F i"]) simp
  next
    case False
    have nl: "role (node e1) \<noteq> LEADER"
    proof
      assume "role (node e1) = LEADER"
      then have l: "F i = H (termof ?e)" "F i \<noteq> []" using n(8) o(5) unfolding leads_ok_def by metis+
      then have "agree (F i) k (H S)" using leader_holds_committed [OF el c(1) St] by simp
      then show False using False agree_less c(3) by blast
    qed
    have "lterm P \<le> termof ?e" using lterm_history [OF w P(1,3)] q(4) by simp
    moreover have "asked_ok ms H A (termof ?e) (?C (termof ?e) i) P" if "role (node e1) = CANDIDATE"
      using asked_installed [OF n(9) c(1) St c(3) False] o(3,5) that by (simp add: asked_def)
    ultimately have "log_inv ms H A (F(i := P)) ?C i (node e1)"
      unfolding log_inv_def o(2,3) using o(1,3) False at nl hP n(4,5)
        kept_installed [OF el n(6) c(1) St c(3,4) False] commit_installed [OF el n(7) c(1) St c(3,4) False] by simp
    then have "logs_inv ms H A (F(i := P)) ?C (put i e1 c)"
      using o(3,5) by (intro logs_inv_put [OF inv f w]) (auto simp: ghosts_grow_refl)
    then show ?thesis using PT by blast
  qed
  then obtain L where L: "logs_inv ms H A (F(i := L)) ?C (put i e1 c)" "agree L (length P) (H ?T)" by blast
  show ?thesis
  proof (cases "sr_term r \<le> ?T")
    case True
    then have "termof e1 = ?T" using o(3,7) q(4) by simp
    from logs_put_ack [OF L(1) f this] L(2) show ?thesis using q(1) by (metis fun_upd_same of_nat_le_iff)
  next
    case False
    then show ?thesis using L(1) ghosts_grow_refl by blast
  qed
qed

subsection \<open>Messages\<close>

text \<open>What a leader sends is a piece of its history.\<close>

lemma entries_from_drop:
  assumes "stands_for L n" and "snapshot_index n < i" and "es = entries_from n i max_entries_per_rpc"
  shows "es = take (length es) (drop (nat (i - 1)) L)" and "nat (i - 1) \<le> length L \<Longrightarrow> nat (i - 1) + length es \<le> length L"
    and "length L \<le> nat (i - 1) \<Longrightarrow> es = []"
proof -
  let ?s = "nat (snapshot_index n)" and ?d = "nat (i - snapshot_index n - 1)"
  have sd: "?s + ?d = nat (i - 1)" using assms(1,2) by (auto simp: stands_for_def)
  have "es = drop ?d (take (?d + 100) (drop ?s L))"
    using assms entries_from_log [OF assms(2)] by (simp add: stands_for_def)
  then have e: "es = take 100 (drop (nat (i - 1)) L)" by (simp add: drop_take sd [symmetric] add.commute)
  then show "es = take (length es) (drop (nat (i - 1)) L)" by (simp add: min_def)
  show "nat (i - 1) \<le> length L \<Longrightarrow> nat (i - 1) + length es \<le> length L" using e by simp
  show "length L \<le> nat (i - 1) \<Longrightarrow> es = []" using e by simp
qed

lemma replicate_piece:
  assumes n: "log_inv ms H A F C i (node (engines c i))"
    and h: "replicate_round pid t wk (engines c i) = (e1, SendEntries p q)"
  shows "piece H q \<and> (aq_leader_commit q \<le> 0 \<or> (\<exists>T k. committed ms H A T k \<and> T \<le> aq_term q \<and> nat (aq_leader_commit q) \<le> k))"
proof -
  let ?n = "node (engines c i)"
  note n = log_invD [OF n]
  obtain j where j: "snapshot_index ?n < j" "aq_prev_log_index q = j - 1" "aq_prev_log_term q = term_at ?n (j - 1)"
    "aq_entries q = entries_from ?n j max_entries_per_rpc" "aq_leader_commit q = commit_index ?n"
    "aq_term q = current_term ?n" "role ?n = LEADER"
    using h by (auto simp: replicate_round_def Let_def split: if_splits option.splits)
  have L: "F i = H (current_term ?n)" "F i \<noteq> []" using n(8) [OF j(7)] unfolding leads_ok_def by metis+
  note e = entries_from_drop [OF n(1) j(1,4)]
  have j0: "0 \<le> j - 1" using j(1) n(1) by (simp add: stands_for_def)
  have "piece H q"
  proof (cases "j - 1 \<le> int (length (F i))")
    case True
    then have "aq_prev_log_term q = Some (lterm (take (nat (j - 1)) (F i)))"
      using stands_term_at [OF n(1), of "j - 1"] j(1,3) by simp
    then show ?thesis using e(1,2) j(2,6) j0 True L(2) unfolding piece_def Let_def L(1) by auto
  next
    case False
    then have "aq_prev_log_term q = None" using stands_term_at_None [OF n(1)] j(3) by simp
    then show ?thesis using e(3) False j(2,6) j0 L by (simp add: piece_def)
  qed
  then show ?thesis using n(7) j(5,6) by (auto simp: commit_ok_def)
qed

lemma begun_snapshot:
  assumes n: "log_inv ms H A F C i (node (engines c i))" and s: "last_applied (node (engines c i)) \<le> commit_index (node (engines c i))"
    and h: "snapshot_begin t (engines c i) = Some (k, lt, config)"
  shows "\<exists>P. k = int (length P) \<and> lt = lterm P \<and> snapshot_of ms H A t P"
proof -
  let ?n = "node (engines c i)"
  note n = log_invD [OF n]
  have b: "role ?n = LEADER" "current_term ?n = t" "k = last_applied ?n" "term_at ?n k = Some lt"
    using h by (auto simp: snapshot_begin_def Let_def split: if_splits option.splits)
  have L: "F i = H t" "F i \<noteq> []" using n(8) [OF b(1)] b(2) unfolding leads_ok_def by metis+
  have k: "0 \<le> k" "nat k \<le> length (F i)" "lt = lterm (take (nat k) (F i))" using stands_term_at_Some [OF n(1) b(4)] by simp_all
  have "snapshot_of ms H A t (take (nat k) (F i))"
  proof (cases "k = 0")
    case True
    then show ?thesis using L by (simp add: snapshot_of_def)
  next
    case False
    then have ci: "\<not> commit_index ?n \<le> 0" "nat k \<le> nat (commit_index ?n)" using b(3) s k(1) by simp_all
    then have "\<exists>S j. committed ms H A S j \<and> S \<le> t \<and> nat k \<le> j"
      using n(7) b(2) unfolding commit_ok_def by (blast intro: order_trans)
    moreover have "prefix (take (nat k) (F i)) (H t)" using L(1) take_is_prefix by metis
    ultimately show ?thesis using L k(2) by (auto simp: snapshot_of_def)
  qed
  then show ?thesis using k by (intro exI [of _ "take (nat k) (F i)"]) simp
qed

end
