(* ===== verification/Raft_Safety.thy ===== *)
theory Raft_Safety
  imports Raft_Ghosts
begin

section \<open>Log matching, leader completeness and state machine safety\<close>

text \<open>
  Every step of \<open>cstep\<close> has ghosts with which the invariant \<open>logs_inv\<close> holds again, one lemma for
  each kind of step. The three safety properties of the logs follow.
\<close>

lemma logs_wires:
  assumes "logs_inv ms H A F C c" and "engines c' = engines c" and "cast c' = cast c" and "rpcs c' = rpcs c"
    and "msgs_inv ms H A c'" and "\<And>i p q. (i, p, q) \<in> snapshots_in c' \<Longrightarrow> sq_term q \<le> termof (engines c (member_id p))"
  shows "logs_inv ms H A F C c'"
  using assms by (simp add: logs_inv_def elected_def votes_log_inv_def terms_inv_def)

lemma put_msgs:
  assumes "logs_inv ms H A F C (put i e c)"
  shows "msgs_inv ms H A (put i e c)" and "(j, p, q) \<in> snapshots_in c \<Longrightarrow> sq_term q \<le> termof (engines (put i e c) (member_id p))"
  using assms unfolding logs_inv_def terms_inv_def by (simp, metis put_wires(7))

subsection \<open>Every step has its ghosts\<close>

definition safe_inv :: "'s raft_storage \<Rightarrow> ('s \<Rightarrow> bool) \<Rightarrow> member list \<Rightarrow> ('s, 'r) cluster \<Rightarrow> bool" where
  "safe_inv R ok ms c = (cluster_inv R ok ms c \<and> asks_inv c)"

context raft_storage_laws
begin

abbreviation "sinv \<equiv> safe_inv R stored_ok"

lemma fits_event:
  assumes c: "sinv ms c" and e: "e1 = run_event R now ev (engines c i)"
    and q: "\<And>q. ev = EvRequestVote q \<Longrightarrow> \<not> vq_pre_vote q \<Longrightarrow> \<exists>p. (vq_candidate_id q, SpawnVote p q) \<in> rpcs c"
  shows "fits c i e1"
proof -
  let ?e = "engines c i"
  have ci: "cinv ms c" and a: "asks_inv c" using c by (simp_all add: safe_inv_def)
  note n = cinv_node(1-5) [OF ci, of i]
  have t: "termof ?e \<le> termof e1" using run_event_tv [of ?e R now ev] e by (auto simp: tv_le_def)
  have v: "tv e1 = tv ?e \<or> (x = i \<and> termof e1 = termof ?e + 1) \<or>
            (\<exists>p q. (x, SpawnVote p q) \<in> rpcs c \<and> vq_term q = termof e1 \<and> log_ok q ?e)"
    if "voted_for (node e1) = Some x" for x
    using run_event_vote [OF that [unfolded e]] q unfolding e n(1) by metis
  have r: "(i, SpawnVote p q) \<in> rpcs c \<or>
            (termof e1 = termof ?e + 1 \<and> vq_term q = termof ?e + 1 \<and>
             vq_last_log_index q = last_log_index (node ?e) \<and> vq_last_log_term q = last_log_term (node ?e))"
    if "(p, q) \<in> vote_rpcs e1" for p q
    using new_vote_rpcs [OF that [unfolded e]] a unfolding e asks_inv_def candidacy_def by blast
  have "T \<le> termof ?e" if "(i, T, x) \<in> cast c" for T x using n(4) that unfolding votes_inv_def by fastforce
  moreover have "(i, termof ?e, x) \<in> cast c" if "voted_for (node ?e) = Some x" for x
    using n(4) that unfolding votes_inv_def by blast
  ultimately show ?thesis using t v r unfolding fits_def Let_def by blast
qed

lemma fits_restart:
  assumes c: "sinv ms c"
  shows "fits c i (restart R now (engines c i))"
proof -
  note n = cinv_node(1-5) [OF conjunct1 [OF c [unfolded safe_inv_def]], of i]
  note r = restart_ok [OF n(2,3), of now]
  have "T \<le> termof (engines c i)" if "(i, T, x) \<in> cast c" for T x using n(4) that unfolding votes_inv_def by fastforce
  moreover have "(i, termof (engines c i), x) \<in> cast c" if "voted_for (node (engines c i)) = Some x" for x
    using n(4) that unfolding votes_inv_def by blast
  moreover have "termof (restart R now (engines c i)) = termof (engines c i)" using r(5) by simp
  ultimately show ?thesis using r(5,7) unfolding fits_def Let_def by simp
qed

lemma put_same_votes:
  assumes "cinv ms c" and "tv e1 = tv (engines c i)"
  shows "cast (put i e1 c) = cast c"
  using cinv_node(4) [OF assms(1), of i] assms(2) by (auto simp: put_def votes_inv_def split: option.split)

lemma logs_section:
  assumes c: "sinv ms c" "cinv ms (put i e1 c)" and inv: "logs_inv ms H A F C c"
    and e: "e1 = run_event R now ev (engines c i)" "\<not> log_event ev"
    and q: "\<And>q. ev = EvRequestVote q \<Longrightarrow> \<not> vq_pre_vote q \<Longrightarrow> \<exists>p. (vq_candidate_id q, SpawnVote p q) \<in> rpcs c"
    and m: "\<And>p j. match_event ev p j (termof (engines c i)) \<Longrightarrow> j \<le> int (A p (termof (engines c i)))"
  shows "\<exists>H' A' F' C'. ghosts_grow H A H' A' \<and> logs_inv ms H' A' F' C' (put i e1 c)"
proof -
  let ?e = "engines c i"
  have ci: "cinv ms c" using c(1) by (simp add: safe_inv_def)
  note n = cinv_node(1-5) [OF ci, of i]
  have f: "fits c i e1" by (rule fits_event [OF c(1) e(1) q])
  have one: "x = y" if "(v, T, x) \<in> cast (put i e1 c)" "(v, T, y) \<in> cast (put i e1 c)" for v T x y
    by (rule cinv_votes(3) [OF c(2) that])
  consider "calm ?e e1" | "candidacy ?e e1"
    | e2 where "candidacy ?e e2" "new_leader e2 e1" "quorum (members ?e) {node_id ?e}"
    | p q r where "ev = EvVoteReply p q r" "role (node ?e) = CANDIDATE" "termof ?e = vq_term q"
       "quorum (members ?e) (votes_at e1 (termof ?e))" "new_leader ?e e1"
    | p j where "match_event ev p j (termof ?e)" "matched p j ?e e1"
    using run_event_outcome [OF e(2,1)] by blast
  then show ?thesis
  proof cases
    case 1
    then show ?thesis using logs_calm [OF inv f] ghosts_grow_refl by blast
  next
    case 2
    then show ?thesis using logs_candidacy [OF inv f] ghosts_grow_refl by blast
  next
    case 3
    define e2' where "e2' = e2\<lparr>effects := []\<rparr>"
    have k: "candidacy ?e e2'" "new_leader e2' e1" "effects e2' = []" using 3 by (simp_all add: e2'_def candidacy_def new_leader_def)
    have k': "termof e2' = termof ?e + 1" "voted_for (node e2') = Some i" "role (node e2') = CANDIDATE"
      "node_id e2' = i" "members e2' = members_dict ms" "tv e1 = tv e2'"
      using k n(1,5) by (simp_all add: candidacy_def new_leader_def)
    let ?c = "put i e2' c"
    have f1: "fits c i e2'"
      using fitsD(2,3) [OF f] k'(1,2) vote_rpcs_none [OF k(3)] unfolding fits_def Let_def by simp
    have i1: "logs_inv ms H A F (asked C F i (termof ?e) (termof e2')) ?c" by (rule logs_candidacy [OF inv f1 k(1)])
    have put: "put i e1 ?c = put i e1 c" using k(3) k'(6,2) by (auto simp: put_def)
    have "(j, SpawnVote p q) \<in> rpcs c" if "(p, q) \<in> vote_rpcs e1" "j = i" for p q j
      using new_vote_rpcs [OF that(1) [unfolded e(1)]] k(2) c(1) that(2) unfolding e(1) [symmetric]
      by (auto simp: candidacy_def new_leader_def safe_inv_def asks_inv_def)
    moreover have "(i, termof e2', i) \<in> cast ?c" using k'(2) by (simp add: put_def)
    ultimately have f2: "fits ?c i e1"
      using put_past [OF f1] k' unfolding fits_def Let_def by (auto simp: put_def)
    have "cast ?c \<subseteq> cast (put i e1 c)" using cast_put [of ?c i e1] put by simp
    then have one': "x = y" if "(v, T, x) \<in> cast ?c" "(v, T, y) \<in> cast ?c" for v T x y using that one by blast
    have "quorum (members_dict ms) {i}" using 3(3) n(1,5) by simp
    then have "\<exists>H' A' F' C'. ghosts_grow H A H' A' \<and> logs_inv ms H' A' F' C' (put i e1 ?c)"
      using logs_leader [OF i1 f2, of "{i}"] k(2) k' one' \<open>(i, termof e2', i) \<in> cast ?c\<close> by simp
    then show ?thesis unfolding put .
  next
    case 4
    have cast: "cast (put i e1 c) = cast c" using put_same_votes [OF ci] 4(5) by (simp add: new_leader_def)
    have "(v, termof ?e, i) \<in> cast c" if "v \<in> votes_at e1 (termof ?e)" for v
      using cinv_votes(2) [OF c(2), of v i] that unfolding cast by simp
    then show ?thesis
      using logs_leader [OF inv f 4(5,2) n(5,1) 4(4) [unfolded n(5)]] one unfolding cast by blast
  next
    case 5
    then show ?thesis using logs_matched [OF inv f 5(2) n(5,1) m [OF 5(1)]] ghosts_grow_refl by blast
  qed
qed

lemma asks_event:
  assumes "asks_inv c" and "e = run_event R' now ev (engines c i)" and "engines c1 = engines (put i e c)"
    and "rpcs c1 = rpcs (put i e c)"
  shows "asks_inv c1"
proof -
  have "flagged (engines c i)" using assms(1) unfolding asks_inv_def by blast
  then have "flagged e" using assms(2) flagged_run_event by blast
  then show ?thesis using asks_frame [OF asks_put [OF assms(1)] assms(3,4)] by blast
qed

lemma asks_step: "cstep R c c' \<Longrightarrow> asks_inv c \<Longrightarrow> asks_inv c'"
proof (induction rule: cstep.induct)
  case (Internal ev c i now)
  show ?case by (rule asks_event [OF Internal(4) refl refl refl])
next
  case (Crash c i now)
  then show ?case by (intro asks_put flagged_restart)
next
  case (SendSnapshot i pid t w c e p snap content)
  show ?case by (rule asks_frame [OF SendSnapshot(4)]) simp_all
next
  case (AskPreVote i p q g c j now e r)
  show ?case by (rule asks_event [of c e R now "EvRequestVote q" j]) (use AskPreVote in simp_all)
next
  case (PreVoteReply i p g r c now)
  show ?case by (rule asks_event [of c _ R now "EvPreVoteReply p g r" i]) (use PreVoteReply in simp_all)
next
  case (AskVote i p q c j now e r)
  show ?case by (rule asks_event [of c e R now "EvRequestVote q" j]) (use AskVote in simp_all)
next
  case (VoteReply i p q r c now)
  show ?case by (rule asks_event [of c _ R now "EvVoteReply p q r" i]) (use VoteReply in simp_all)
next
  case (Replicate i pid t w c e act)
  show ?case by (rule asks_event [of c e R undefined "EvReplicate pid t w" i]) (use Replicate in simp_all)
next
  case (Append i p q c j now e r)
  show ?case by (rule asks_event [of c e R now "EvAppend q" j]) (use Append in simp_all)
next
  case (AppendReply i p q r c now seq)
  show ?case by (rule asks_event [of c _ R now "EvEntriesReply p (aq_term q) seq q r" i]) (use AppendReply in simp_all)
next
  case (Chunk i p q c j now e res)
  show ?case by (rule asks_event [of c e R now "EvChunk q" j]) (use Chunk in simp_all)
next
  case (Install i p q c j now e r)
  show ?case by (rule asks_event [of c e R now "EvInstall q" j]) (use Install in simp_all)
next
  case (SnapshotReply i p q r c now seq e go_on)
  show ?case by (rule asks_event [of c e R now "EvSnapshotReply p (sq_term q) seq r" i]) (use SnapshotReply in simp_all)
next
  case (SnapshotDone i p q r c)
  show ?case by (rule asks_event [of c _ R undefined "EvSnapshotDone p (sq_term q) (sq_last_included_index q)" i]) (use SnapshotDone in simp_all)
qed

lemma sinv_step: "cstep R c c' \<Longrightarrow> sinv ms c \<Longrightarrow> sinv ms c'"
  unfolding safe_inv_def using cinv_step asks_step by blast

lemma logs_event:
  assumes "sinv ms c" and "logs_inv ms H A F C c" and "e1 = run_event R now ev (engines c i)" and "\<not> log_event ev"
    and "plain_event ms ev" and "vote_ok (cast c) (engines c i) ev"
    and "\<And>q. ev = EvRequestVote q \<Longrightarrow> \<not> vq_pre_vote q \<Longrightarrow> \<exists>p. (vq_candidate_id q, SpawnVote p q) \<in> rpcs c"
    and "\<And>p j. match_event ev p j (termof (engines c i)) \<Longrightarrow> j \<le> int (A p (termof (engines c i)))"
  shows "\<exists>H' A' F' C'. ghosts_grow H A H' A' \<and> logs_inv ms H' A' F' C' (put i e1 c)"
proof -
  have "valid_event ev (engines c i)" using assms(4) by (cases ev) auto
  then have "cinv ms (put i e1 c)" using cinv_event assms(1,3,5,6) unfolding safe_inv_def by blast
  then show ?thesis using logs_section assms by blast
qed

lemma sinv_node:
  assumes "sinv ms c"
  shows "node_id (engines c i) = i" and "members (engines c i) = members_dict ms" and "fixed_config ms (engines c i)"
    and "engine_ok R stored_ok (engines c i)" and "snapshot_index (node (engines c i)) \<le> last_applied (node (engines c i))"
    and "last_applied (node (engines c i)) \<le> commit_index (node (engines c i))" and "cinv ms c" and "asks_inv c" and "wire_inv ms c"
  using assms cinv_node [of ms c] by (simp_all add: safe_inv_def engine_ok_def)

lemma logs_internal:
  assumes c: "sinv ms c" and inv: "logs_inv ms H A F C c"
    and ev: "internal_event ev" "valid_event ev (engines c i)" "plain_event [] ev"
  shows "\<exists>H' A' F' C'. ghosts_grow H A H' A' \<and> logs_inv ms H' A' F' C' (put i (run_event R now ev (engines c i)) c)"
proof (cases "log_event ev")
  case False
  show ?thesis
  proof (rule logs_event [OF c inv refl False plain_internal [OF ev(3,1)] vote_ok_other])
    show "ev \<noteq> EvVoteReply p q r" for p q r using ev(1) by auto
    show "\<exists>p. (vq_candidate_id q, SpawnVote p q) \<in> rpcs c" if "ev = EvRequestVote q" for q using ev(1) that by simp
    show "j \<le> int (A p (termof (engines c i)))" if "match_event ev p j (termof (engines c i))" for p j
      using ev(1) that by (auto simp: match_event_def)
  qed
next
  case True
  let ?e = "engines c i" and ?e1 = "run_event R now ev (engines c i)"
  note n = log_invD [OF logs_node(1) [OF inv, of i]]
  have f: "fits c i ?e1" using ev(1) by (intro fits_event [OF c refl]) auto
  from True ev(1) show ?thesis
  proof (cases ev)
    case (EvApplied k x r)
    note o = apply_done_outcome [of ?e1 R k x r ?e]
    have "logs_inv ms H A F (asked C F i (termof ?e) (termof ?e1)) (put i ?e1 c)"
      using o n(1,7) EvApplied by (intro logs_same [OF inv f]) auto
    then show ?thesis using ghosts_grow_refl by blast
  next
    case (EvPropose cmd u rid)
    then have "config_of cmd = None" using ev(3) by simp
    from propose_outcome [OF _ this, of ?e1 R now u rid ?e] EvPropose
    consider "?e1 = ?e" | x where "role (node ?e) = LEADER" "role (node ?e1) = LEADER" "tv ?e1 = tv ?e"
      "match_index (node ?e1) = match_index (node ?e)" "e_term x = termof ?e" "e_index x = last_log_index (node ?e) + 1"
      "log (node ?e1) = log (node ?e) @ [x]" "snapshot_index (node ?e1) = snapshot_index (node ?e)"
      "snapshot_term (node ?e1) = snapshot_term (node ?e)" "committing ?e ?e1" by auto
    then show ?thesis
    proof cases
      case 1
      then show ?thesis using logs_calm [OF inv f] calm_refl [of ?e] ghosts_grow_refl by metis
    next
      case (2 x)
      have "termof (engines c j) \<noteq> termof ?e" if "j \<noteq> i" "role (node (engines c j)) = LEADER" for j
        using cinv_one_leader [OF sinv_node(7) [OF c] that(2) 2(1)] that(1) by blast
      then show ?thesis
        using logs_propose [OF inv f sinv_node(2,1) [OF c] 2(1-3) 2(5-9) 2(4,10)] by blast
    qed
  qed auto
qed

lemma logs_crash:
  assumes c: "sinv ms c" and inv: "logs_inv ms H A F C c"
  shows "\<exists>H' A' F' C'. ghosts_grow H A H' A' \<and> logs_inv ms H' A' F' C' (put i (restart R now (engines c i)) c)"
proof -
  note n = log_invD [OF logs_node(1) [OF inv, of i]]
  note o = restart_outcome [OF sinv_node(4,3) [OF c, of i] n(1), of now]
  have "logs_inv ms H A F (asked C F i (termof (engines c i)) (termof (restart R now (engines c i)))) (put i (restart R now (engines c i)) c)"
    using o commit_ok_less [OF n(7) o(2)] by (intro logs_same [OF inv fits_restart [OF c]]) simp_all
  then show ?thesis using ghosts_grow_refl by blast
qed

lemma msgs_more:
  assumes m: "msgs_inv ms H A c"
    and "\<And>i p q. (i, p, q) \<in> append_msgs c' \<Longrightarrow> (i, p, q) \<notin> append_msgs c \<Longrightarrow> piece H q \<and>
      (aq_leader_commit q \<le> 0 \<or> (\<exists>T k. committed ms H A T k \<and> T \<le> aq_term q \<and> nat (aq_leader_commit q) \<le> k))"
    and "\<And>i p q r. (i, p, q, r) \<in> append_answers c' \<Longrightarrow> (i, p, q, r) \<notin> append_answers c \<Longrightarrow> ar_success r \<Longrightarrow>
      max (aq_prev_log_index q + int (length (aq_entries q))) (ar_match_index r) \<le> int (A (member_id p) (aq_term q))"
    and "\<And>i p q. (i, p, q) \<in> snapshot_msgs c' \<Longrightarrow> (i, p, q) \<notin> snapshot_msgs c \<Longrightarrow>
      \<exists>P. sq_last_included_index q = int (length P) \<and> sq_last_included_term q = lterm P \<and> snapshot_of ms H A (sq_term q) P"
    and "\<And>i p q r. (i, p, q, r) \<in> snapshot_answers c' \<Longrightarrow> (i, p, q, r) \<notin> snapshot_answers c \<Longrightarrow> sq_done q \<Longrightarrow> sr_success r \<Longrightarrow>
      sr_term r \<le> sq_term q \<Longrightarrow> sq_last_included_index q \<le> int (A (member_id p) (sq_term q))"
  shows "msgs_inv ms H A c'"
  unfolding msgs_inv_def
proof (intro conjI allI impI)
  note m = m [unfolded msgs_inv_def]
  show "piece H q" "aq_leader_commit q \<le> 0 \<or> (\<exists>T k. committed ms H A T k \<and> T \<le> aq_term q \<and> nat (aq_leader_commit q) \<le> k)"
    if "(i, p, q) \<in> append_msgs c'" for i p q using m assms(2) [OF that] by blast+
  show "max (aq_prev_log_index q + int (length (aq_entries q))) (ar_match_index r) \<le> int (A (member_id p) (aq_term q))"
    if "(i, p, q, r) \<in> append_answers c'" "ar_success r" for i p q r using m assms(3) [OF that(1) _ that(2)] that(2) by blast
  show "\<exists>P. sq_last_included_index q = int (length P) \<and> sq_last_included_term q = lterm P \<and>
            prefix P (H (sq_term q)) \<and> H (sq_term q) \<noteq> [] \<and>
            (P = [] \<or> (\<exists>T k. committed ms H A T k \<and> T \<le> sq_term q \<and> length P \<le> k))"
    if "(i, p, q) \<in> snapshot_msgs c'" for i p q
    using m assms(4) [OF that] unfolding snapshot_of_def by blast
  show "sq_last_included_index q \<le> int (A (member_id p) (sq_term q))"
    if "(i, p, q, r) \<in> snapshot_answers c'" "sq_done q" "sr_success r" "sr_term r \<le> sq_term q" for i p q r
    using m assms(5) [OF that(1) _ that(2-4)] that by blast
qed

lemma piece_grow:
  assumes "piece H q \<and> (aq_leader_commit q \<le> 0 \<or> (\<exists>T k. committed ms H A T k \<and> T \<le> aq_term q \<and> nat (aq_leader_commit q) \<le> k))"
    and "ghosts_grow H A H' A'"
  shows "piece H' q \<and> (aq_leader_commit q \<le> 0 \<or> (\<exists>T k. committed ms H' A' T k \<and> T \<le> aq_term q \<and> nat (aq_leader_commit q) \<le> k))"
  using assms piece_mono committed_mono [OF _ assms(2)] unfolding ghosts_grow_def by blast

lemma sent:
  assumes "logs_inv ms H A F C c"
  shows "(i, p, q) \<in> append_msgs c \<Longrightarrow> piece H q \<and>
      (aq_leader_commit q \<le> 0 \<or> (\<exists>T k. committed ms H A T k \<and> T \<le> aq_term q \<and> nat (aq_leader_commit q) \<le> k))"
    and "(i, p, q, r) \<in> append_answers c \<Longrightarrow> ar_success r \<Longrightarrow>
      max (aq_prev_log_index q + int (length (aq_entries q))) (ar_match_index r) \<le> int (A (member_id p) (aq_term q))"
    and "(i, p, s) \<in> snapshot_msgs c \<Longrightarrow>
      \<exists>P. sq_last_included_index s = int (length P) \<and> sq_last_included_term s = lterm P \<and> snapshot_of ms H A (sq_term s) P"
    and "(i, p, s, a) \<in> snapshot_answers c \<Longrightarrow> sq_done s \<Longrightarrow> sr_success a \<Longrightarrow>
      sr_term a \<le> sq_term s \<Longrightarrow> sq_last_included_index s \<le> int (A (member_id p) (sq_term s))"
    and "(i, p, s) \<in> snapshots_in c \<Longrightarrow> sq_term s \<le> termof (engines c (member_id p))"
  using assms unfolding logs_inv_def msgs_inv_def terms_inv_def snapshot_of_def by blast+

lemma step_ask_pre_vote:
  assumes "(i, SpawnPreVote p q g) \<in> rpcs c"
    and "j = member_id p"
    and "handle_request_vote R now q (engines c j) = (e, r)"
    and "sinv ms c" and "logs_inv ms H A F C c"
  shows "\<exists>H' A' F' C'. ghosts_grow H A H' A' \<and> logs_inv ms H' A' F' C' ((put j e c)\<lparr>prevote_answers := insert (i, p, g, r) (prevote_answers c)\<rparr>)"
proof -
  note s = assms
  have pre: "vq_pre_vote q" using s(1) sinv_node(8) [OF s(4)] unfolding asks_inv_def by blast
  have "\<exists>H' A' F' C'. ghosts_grow H A H' A' \<and> logs_inv ms H' A' F' C' (put j e c)"
    by (rule logs_event [OF s(4,5), of e now "EvRequestVote q"]) (use s(3) pre in \<open>simp_all add: match_event_def vote_ok_def\<close>)
  then obtain H' A' F' C' where g: "ghosts_grow H A H' A'" "logs_inv ms H' A' F' C' (put j e c)" by blast
  have "logs_inv ms H' A' F' C' ((put j e c)\<lparr>prevote_answers := insert (i, p, g, r) (prevote_answers c)\<rparr>)"
    by (intro logs_wires [OF g(2)] msgs_more [OF put_msgs(1) [OF g(2)]] sent(5) [OF g(2)]) simp_all
  then show ?thesis using g(1) by blast
qed

lemma step_pre_vote_reply:
  assumes "(i, p, g, r) \<in> prevote_answers c"
    and "sinv ms c" and "logs_inv ms H A F C c"
  shows "\<exists>H' A' F' C'. ghosts_grow H A H' A' \<and> logs_inv ms H' A' F' C' (put i (pre_vote_reply R now p g r (engines c i)) c)"
proof -
  note s = assms
  show ?thesis
    by (rule logs_event [OF s(2,3), of _ now "EvPreVoteReply p g r"]) (simp_all add: match_event_def vote_ok_def)
qed

lemma step_ask_vote:
  assumes "(i, SpawnVote p q) \<in> rpcs c"
    and "j = member_id p"
    and "handle_request_vote R now q (engines c j) = (e, r)"
    and "sinv ms c" and "logs_inv ms H A F C c"
  shows "\<exists>H' A' F' C'. ghosts_grow H A H' A' \<and> logs_inv ms H' A' F' C' ((put j e c)\<lparr>vote_answers := insert (i, p, q, r) (vote_answers c)\<rparr>)"
proof -
  note s = assms
  have cand: "\<exists>p. (vq_candidate_id q, SpawnVote p q) \<in> rpcs c"
    using s(1) sinv_node(9) [OF s(4)] unfolding wire_inv_def by metis
  have "\<exists>H' A' F' C'. ghosts_grow H A H' A' \<and> logs_inv ms H' A' F' C' (put j e c)"
    by (rule logs_event [OF s(4,5), of e now "EvRequestVote q"]) (use s(3) cand in \<open>simp_all add: match_event_def vote_ok_def\<close>)
  then obtain H' A' F' C' where g: "ghosts_grow H A H' A'" "logs_inv ms H' A' F' C' (put j e c)" by blast
  have "logs_inv ms H' A' F' C' ((put j e c)\<lparr>vote_answers := insert (i, p, q, r) (vote_answers c)\<rparr>)"
    by (intro logs_wires [OF g(2)] msgs_more [OF put_msgs(1) [OF g(2)]] sent(5) [OF g(2)]) simp_all
  then show ?thesis using g(1) by blast
qed

lemma step_vote_reply:
  assumes "(i, p, q, r) \<in> vote_answers c"
    and "sinv ms c" and "logs_inv ms H A F C c"
  shows "\<exists>H' A' F' C'. ghosts_grow H A H' A' \<and> logs_inv ms H' A' F' C' (put i (vote_reply R now p q r (engines c i)) c)"
proof -
  note s = assms
  from s have "vote_ok (cast c) (engines c i) (EvVoteReply p q r)"
    using sinv_node(1,9) [of ms c] by (auto simp: vote_ok_def wire_inv_def)
  then show ?thesis
    by (intro logs_event [OF s(2,3), of _ now "EvVoteReply p q r"]) (simp_all add: match_event_def)
qed

lemma step_replicate:
  assumes "(i, SpawnReplicator pid t w) \<in> rpcs c"
    and "replicate_round pid t w (engines c i) = (e, act)"
    and "sinv ms c" and "logs_inv ms H A F C c"
  shows "\<exists>H' A' F' C'. ghosts_grow H A H' A' \<and> logs_inv ms H' A' F' C' ((put i e c)\<lparr>append_msgs := append_msgs c \<union> (case act of SendEntries p q \<Rightarrow> {(i, p, q)} | _ \<Rightarrow> {})\<rparr>)"
proof -
  note s = assms
  have "\<exists>H' A' F' C'. ghosts_grow H A H' A' \<and> logs_inv ms H' A' F' C' (put i e c)"
    by (rule logs_event [OF s(3,4), of e undefined "EvReplicate pid t w"]) (use s(2) in \<open>simp_all add: match_event_def vote_ok_def\<close>)
  then obtain H' A' F' C' where g: "ghosts_grow H A H' A'" "logs_inv ms H' A' F' C' (put i e c)" by blast
  let ?c = "(put i e c)\<lparr>append_msgs := append_msgs c \<union> (case act of SendEntries p q \<Rightarrow> {(i, p, q)} | _ \<Rightarrow> {})\<rparr>"
  have "piece H' q \<and> (aq_leader_commit q \<le> 0 \<or> (\<exists>T k. committed ms H' A' T k \<and> T \<le> aq_term q \<and> nat (aq_leader_commit q) \<le> k))"
    if "(j, p, q) \<in> append_msgs ?c" "(j, p, q) \<notin> append_msgs c" for j p q
  proof -
    have "act = SendEntries p q" using that by (auto split: round_action.splits)
    then show ?thesis
      using replicate_piece [OF logs_node(1) [OF s(4), of i]] s(2) piece_grow [OF _ g(1)] by blast
  qed
  then have "logs_inv ms H' A' F' C' ?c"
    by (intro logs_wires [OF g(2)] msgs_more [OF put_msgs(1) [OF g(2)]] sent(5) [OF g(2)]) simp_all
  then show ?thesis using g(1) by blast
qed

lemma step_append:
  assumes "(i, p, q) \<in> append_msgs c"
    and "j = member_id p"
    and "handle_append_entries R now q (engines c j) = (e, r)"
    and "sinv ms c" and "logs_inv ms H A F C c"
  shows "\<exists>H' A' F' C'. ghosts_grow H A H' A' \<and> logs_inv ms H' A' F' C' ((put j e c)\<lparr>append_answers := insert (i, p, q, r) (append_answers c)\<rparr>)"
proof -
  note s = assms
  note n = sinv_node [OF s(4)]
  have q: "consecutive (aq_prev_log_index q + 1) (aq_entries q)" using n(9) s(1) by (auto simp: wire_inv_def)
  have f: "fits c j e" using s(3) by (intro fits_event [OF s(4), of e now "EvAppend q"]) auto
  have si: "snapshot_index (node (engines c j)) \<le> commit_index (node (engines c j))" using n(5,6) order_trans by blast
  obtain A' F' C' where g: "ghosts_grow H A H A'" "logs_inv ms H A' F' C' (put j e c)"
    "ar_success r \<Longrightarrow> max (aq_prev_log_index q + int (length (aq_entries q))) (ar_match_index r) \<le> int (A' j (aq_term q))"
    using logs_append [OF s(5) f si _ q _ s(3)] sent(1) [OF s(5,1)] by blast
  have "logs_inv ms H A' F' C' ((put j e c)\<lparr>append_answers := insert (i, p, q, r) (append_answers c)\<rparr>)"
    using g(3) s(2)
    by (intro logs_wires [OF g(2)] msgs_more [OF put_msgs(1) [OF g(2)]] sent(5) [OF g(2)]) auto
  then show ?thesis using g(1) by blast
qed

lemma step_append_reply:
  assumes "(i, p, q, r) \<in> append_answers c"
    and "sinv ms c" and "logs_inv ms H A F C c"
  shows "\<exists>H' A' F' C'. ghosts_grow H A H' A' \<and> logs_inv ms H' A' F' C' (put i (entries_reply R now p (aq_term q) seq q r (engines c i)) c)"
proof -
  note s = assms
  show ?thesis
    by (rule logs_event [OF s(2,3), of _ now "EvEntriesReply p (aq_term q) seq q r"])
      (use sent(2) [OF s(3,1)] in \<open>auto simp: match_event_def vote_ok_def\<close>)
qed

lemma step_send_snapshot:
  assumes "(i, SpawnReplicator pid t w) \<in> rpcs c"
    and "replicate_round pid t w (engines c i) = (e, SendSnapshot p)"
    and "snapshot_begin t (engines c i) = Some snap"
    and "sinv ms c" and "logs_inv ms H A F C c"
  shows "\<exists>H' A' F' C'. ghosts_grow H A H' A' \<and> logs_inv ms H' A' F' C' (c\<lparr>snapshot_msgs := snapshot_msgs c \<union> {(i, p, snapshot_chunk t snap content off (engines c i)) | off. True}\<rparr>)"
proof -
  note s = assms
  obtain k lt config where snap: "snap = (k, lt, config)" by (cases snap) auto
  obtain P where P: "k = int (length P)" "lt = lterm P" "snapshot_of ms H A t P"
    using begun_snapshot [OF logs_node(1) [OF s(5)] sinv_node(6) [OF s(4)] s(3) [unfolded snap]] by blast
  let ?c = "c\<lparr>snapshot_msgs := snapshot_msgs c \<union> {(i, p, snapshot_chunk t snap content off (engines c i)) | off. True}\<rparr>"
  have ok: "\<exists>P. sq_last_included_index q = int (length P) \<and> sq_last_included_term q = lterm P \<and> snapshot_of ms H A (sq_term q) P"
    if new: "(j, p', q) \<in> snapshot_msgs ?c" "(j, p', q) \<notin> snapshot_msgs c" for j p' q
  proof -
    obtain off where "q = snapshot_chunk t snap content off (engines c i)" using new by auto
    then have "sq_last_included_index q = int (length P)" "sq_last_included_term q = lterm P" "sq_term q = t"
      using P(1,2) snap by (simp_all add: snapshot_chunk_def Let_def)
    then show ?thesis using P(3) by blast
  qed
  have "msgs_inv ms H A c" using s(5) by (simp add: logs_inv_def)
  then have "msgs_inv ms H A ?c" 
  proof (rule msgs_more)
    show "\<exists>P. sq_last_included_index q = int (length P) \<and> sq_last_included_term q = lterm P \<and> snapshot_of ms H A (sq_term q) P"
      if "(j, p', q) \<in> snapshot_msgs ?c" "(j, p', q) \<notin> snapshot_msgs c" for j p' q by (rule ok [OF that])
  qed simp_all
  then have "logs_inv ms H A F C ?c" by (rule logs_wires [OF s(5), rotated 3]) (use sent(5) [OF s(5)] in simp_all)
  then show ?thesis using ghosts_grow_refl by blast
qed

lemma step_chunk:
  assumes "(i, p, q) \<in> snapshot_msgs c"
    and "j = member_id p"
    and "receive_chunk R now q (engines c j) = (e, res)"
    and "sinv ms c" and "logs_inv ms H A F C c"
  shows "\<exists>H' A' F' C'. ghosts_grow H A H' A' \<and> logs_inv ms H' A' F' C' ((put j e c)\<lparr>snapshot_answers := snapshot_answers c \<union> (case res of Reply r \<Rightarrow> {(i, p, q, r)} | _ \<Rightarrow> {}), snapshots_in := snapshots_in c \<union> (case res of Complete f \<Rightarrow> {(i, p, q)} | _ \<Rightarrow> {})\<rparr>)"
proof -
  note s = assms
  note n = sinv_node [OF s(4)]
  have f: "fits c j e" using s(3) by (intro fits_event [OF s(4), of e now "EvChunk q"]) auto
  obtain P where P: "sq_last_included_index q = int (length P)" "snapshot_of ms H A (sq_term q) P"
    using sent(3) [OF s(5,1)] by blast
  obtain A' F' C' where g: "ghosts_grow H A H A'" "logs_inv ms H A' F' C' (put j e c)"
    "\<And>r. res = Reply r \<Longrightarrow> sq_done q \<Longrightarrow> sr_success r \<Longrightarrow> sq_last_included_index q \<le> int (A' j (sq_term q))"
    "\<And>x. res = Complete x \<Longrightarrow> sq_term q \<le> termof e"
    using logs_chunk [OF s(5) f n(6) P s(3)] by blast
  let ?c = "(put j e c)\<lparr>snapshot_answers := snapshot_answers c \<union> (case res of Reply r \<Rightarrow> {(i, p, q, r)} | _ \<Rightarrow> {}),
       snapshots_in := snapshots_in c \<union> (case res of Complete f \<Rightarrow> {(i, p, q)} | _ \<Rightarrow> {})\<rparr>"
  have "sq_term x \<le> termof (engines (put j e c) (member_id y))" if "(z, y, x) \<in> snapshots_in ?c" for x y z
    using that sent(5) [OF g(2), of z y x] g(4) s(2) by (auto split: chunk_result.splits)
  then have "logs_inv ms H A' F' C' ?c"
    using g(3) s(2)
    by (intro logs_wires [OF g(2)] msgs_more [OF put_msgs(1) [OF g(2)]]) (auto split: chunk_result.splits)
  then show ?thesis using g(1) by blast
qed

lemma step_install:
  assumes "(i, p, q) \<in> snapshots_in c"
    and "j = member_id p"
    and "install_needed q (engines c j)"
    and "install_snapshot R now q (engines c j) = (e, r)"
    and "sinv ms c" and "logs_inv ms H A F C c"
  shows "\<exists>H' A' F' C'. ghosts_grow H A H' A' \<and> logs_inv ms H' A' F' C' ((put j e c)\<lparr>snapshot_answers := insert (i, p, q, r) (snapshot_answers c)\<rparr>)"
proof -
  note s = assms
  note n = sinv_node [OF s(5)]
  have f: "fits c j e" using s(4) by (intro fits_event [OF s(5), of e now "EvInstall q"]) auto
  have "(i, p, q) \<in> snapshot_msgs c" using n(9) s(1) by (auto simp: wire_inv_def)
  then obtain P where P: "sq_last_included_index q = int (length P)" "sq_last_included_term q = lterm P" "snapshot_of ms H A (sq_term q) P"
    using sent(3) [OF s(6)] by blast
  have t: "sq_term q \<le> termof (engines c j)" using sent(5) [OF s(6,1)] s(2) by simp
  have "0 \<le> snapshot_index (node (engines c j))"
    using log_invD(1) [OF logs_node(1) [OF s(6)]] by (simp add: stands_for_def)
  then have la: "0 \<le> last_applied (node (engines c j))" using n(5) order_trans by blast
  obtain A' F' C' where g: "ghosts_grow H A H A'" "logs_inv ms H A' F' C' (put j e c)"
    "sr_term r \<le> sq_term q \<Longrightarrow> sq_last_included_index q \<le> int (A' j (sq_term q))"
    using logs_install [OF s(6) f n(5) P t la s(3,4)] by blast
  have "logs_inv ms H A' F' C' ((put j e c)\<lparr>snapshot_answers := insert (i, p, q, r) (snapshot_answers c)\<rparr>)"
    using g(3) s(2)
    by (intro logs_wires [OF g(2)] msgs_more [OF put_msgs(1) [OF g(2)]] sent(5) [OF g(2)]) auto
  then show ?thesis using g(1) by blast
qed

lemma step_snapshot_reply:
  assumes "(i, p, q, r) \<in> snapshot_answers c"
    and "snapshot_reply R now p (sq_term q) seq r (engines c i) = (e, go_on)"
    and "sinv ms c" and "logs_inv ms H A F C c"
  shows "\<exists>H' A' F' C'. ghosts_grow H A H' A' \<and> logs_inv ms H' A' F' C' (put i e c)"
proof -
  note s = assms
  show ?thesis
    by (rule logs_event [OF s(3,4), of _ now "EvSnapshotReply p (sq_term q) seq r"])
      (use s(2) in \<open>auto simp: match_event_def vote_ok_def\<close>)
qed

lemma step_snapshot_done:
  assumes "(i, p, q, r) \<in> snapshot_answers c"
    and "sq_done q"
    and "sr_success r"
    and "sr_term r \<le> sq_term q"
    and "sinv ms c" and "logs_inv ms H A F C c"
  shows "\<exists>H' A' F' C'. ghosts_grow H A H' A' \<and> logs_inv ms H' A' F' C' (put i (snapshot_done p (sq_term q) (sq_last_included_index q) (engines c i)) c)"
proof -
  note s = assms
  show ?thesis
    by (rule logs_event [OF s(5,6), of _ undefined "EvSnapshotDone p (sq_term q) (sq_last_included_index q)"])
      (use sent(4) [OF s(6,1-4)] in \<open>auto simp: match_event_def vote_ok_def\<close>)
qed

theorem logs_step:
  "cstep R c c' \<Longrightarrow> sinv ms c \<Longrightarrow> logs_inv ms H A F C c \<Longrightarrow>
   \<exists>H' A' F' C'. ghosts_grow H A H' A' \<and> logs_inv ms H' A' F' C' c'"
proof (induction rule: cstep.induct)
  case (Internal ev c i now)
  show ?case by (rule logs_internal [OF Internal(4,5,1-3)])
next
  case (Crash c i now)
  show ?case by (rule logs_crash [OF Crash])
next
  case (AskPreVote i p q g c j now e r)
  then show ?case by (rule step_ask_pre_vote)
next
  case (PreVoteReply i p g r c now)
  then show ?case by (rule step_pre_vote_reply)
next
  case (AskVote i p q c j now e r)
  then show ?case by (rule step_ask_vote)
next
  case (VoteReply i p q r c now)
  then show ?case by (rule step_vote_reply)
next
  case (Replicate i pid t w c e act)
  then show ?case by (rule step_replicate)
next
  case (Append i p q c j now e r)
  then show ?case by (rule step_append)
next
  case (AppendReply i p q r c now seq)
  then show ?case by (rule step_append_reply)
next
  case (SendSnapshot i pid t w c e p snap content)
  then show ?case by (rule step_send_snapshot)
next
  case (Chunk i p q c j now e res)
  then show ?case by (rule step_chunk)
next
  case (Install i p q c j now e r)
  then show ?case by (rule step_install)
next
  case (SnapshotReply i p q r c now seq e go_on)
  then show ?case by (rule step_snapshot_reply)
next
  case (SnapshotDone i p q r c)
  then show ?case by (rule step_snapshot_done)
qed

end

context raft_storage_laws
begin

lemma logs_first:
  assumes "\<And>i. stored_ok (st i) \<and> load_op R (st i) = fresh_pstate"
  shows "logs_inv ms (\<lambda>_. []) (\<lambda>_ _. 0) (\<lambda>_. []) (\<lambda>_ _. []) (first_cluster R now addr ms timeouts threshold st :: ('s, 'r) cluster)"
proof -
  have e: "role (node e) = FOLLOWER \<and> commit_index (node e) = 0 \<and> stands_for [] (node e) \<and> termof e = 0"
    if "e = (new_engine R now i (addr i) ms timeouts threshold (st i) :: ('s, 'r) engine)" for e i
  proof -
    have s: "stored_ok (st i)" "load_op R (st i) = fresh_pstate" using assms by blast+
    have m: "load_op R (save_snapshot_op R 0 0 0 (Some ms) (st i)) = fresh_pstate\<lparr>p_snapshot_config := Some ms\<rparr>"
      using s load_snapshot [of "st i" 0 0 0 "Some ms"] by (simp add: fresh_pstate_def)
    show ?thesis
      using s m that by (simp add: new_engine_def restore_persistent_state_def Let_def fresh_pstate_def initial_node_def stands_for_def)
  qed
  have "log_inv ms (\<lambda>_. []) (\<lambda>_ _. 0) (\<lambda>_. []) (\<lambda>_ _. []) i (node e)"
    if "role (node e) = FOLLOWER \<and> commit_index (node e) = 0 \<and> stands_for [] (node e) \<and> termof e = 0"
    for i and e :: "('s, 'r) engine"
    using that by (simp add: log_inv_def kept_def acked_def commit_ok_def)
  then show ?thesis
    using e by (simp add: logs_inv_def wf_history_def votes_log_inv_def msgs_inv_def terms_inv_def first_cluster_def)
qed

lemma asks_first: "asks_inv (first_cluster R now addr ms timeouts threshold st :: ('s, 'r) cluster)"
proof -
  have e: "effects (new_engine R now i a ms timeouts threshold s :: ('s, 'r) engine) = []" for i a s
    by (simp add: new_engine_def restore_persistent_state_def Let_def refresh_config_def initial_node_def split: prod.split)
  show ?thesis by (simp add: asks_inv_def first_cluster_def flagged_def vote_rpcs_def e)
qed

lemma safety_reachable:
  assumes "reachable R stored_ok ms c"
  shows "sinv ms c \<and> (\<exists>H A F C. logs_inv ms H A F C c)"
  using assms
proof (induction rule: reachable.induct)
  case (Init st now addr timeouts threshold)
  have "cinv ms (first_cluster R now addr ms timeouts threshold st)" by (rule cinv_first) (rule Init)
  moreover have "logs_inv ms (\<lambda>_. []) (\<lambda>_ _. 0) (\<lambda>_. []) (\<lambda>_ _. []) (first_cluster R now addr ms timeouts threshold st)"
    by (rule logs_first) (rule Init)
  ultimately show ?case using asks_first unfolding safe_inv_def by blast
next
  case (Step c c')
  then show ?case using sinv_step logs_step by blast
qed

lemma safety_later:
  assumes "(cstep R)\<^sup>*\<^sup>* c c'" and "sinv ms c" and "logs_inv ms H A F C c"
  shows "sinv ms c' \<and> (\<exists>H' A' F' C'. ghosts_grow H A H' A' \<and> logs_inv ms H' A' F' C' c')"
  using assms
proof (induction rule: rtranclp_induct)
  case base
  then show ?case using ghosts_grow_refl by blast
next
  case (step c1 c2)
  then show ?case using sinv_step logs_step ghosts_grow_trans by meson
qed

lemma log_matching_rule:
  assumes c: "reachable R stored_ok ms c"
    and x: "entry_at (node (engines c i)) k = Some x" and y: "entry_at (node (engines c j)) k = Some y"
    and t: "e_term x = e_term y" and l: "l \<le> k" "snapshot_index (node (engines c i)) < l" "snapshot_index (node (engines c j)) < l"
  shows "entry_at (node (engines c i)) l = entry_at (node (engines c j)) l"
proof -
  obtain H A F C where inv: "logs_inv ms H A F C c" using safety_reachable [OF c] by blast
  note w = logs_node(2) [OF inv] and n = log_invD [OF logs_node(1) [OF inv]]
  have k: "k \<le> int (length (F i))" "x = F i ! (nat k - 1)" "k \<le> int (length (F j))" "y = F j ! (nat k - 1)"
    using x y unfolding stands_entry_at [OF n(1)] by (simp_all split: if_splits)
  have "0 \<le> snapshot_index (node (engines c i))" using n(1) [of i] by (simp add: stands_for_def)
  then have l0: "0 < l" using l by simp
  have nk: "0 < nat k" "nat k \<le> length (F i)" "nat k \<le> length (F j)" "nat l - 1 < nat k" using k(1,3) l l0 by auto
  then have "lterm (take (nat k) (F i)) = lterm (take (nat k) (F j))" using lterm_take t k(2,4) by simp
  then have "agree (F i) (nat k) (F j)" by (rule hist_match [OF w n(2) n(2) nk(2,3)])
  then have "F i ! (nat l - 1) = F j ! (nat l - 1)" by (rule agree_nth [OF _ nk(4)])
  then show ?thesis using k l unfolding stands_entry_at [OF n(1)] by simp
qed

lemma committed_prefix:
  assumes inv: "logs_inv ms H A F C c" and k: "k \<le> commit_index (node (engines c i))" "0 < k"
  obtains T m where "committed ms H A T m" "T \<le> termof (engines c i)" "nat k \<le> m" "agree (F i) (nat k) (H T)"
proof -
  note n = log_invD [OF logs_node(1) [OF inv, of i]]
  obtain T m where "committed ms H A T m" "T \<le> termof (engines c i)" "nat (commit_index (node (engines c i))) \<le> m"
    "agree (F i) (nat (commit_index (node (engines c i)))) (H T)"
    using n(7) k by (auto simp: commit_ok_def)
  moreover have "nat k \<le> nat (commit_index (node (engines c i)))" using k(1) by (rule nat_mono)
  ultimately show ?thesis using that agree_less order_trans by blast
qed

lemma leader_completeness_rule:
  assumes c: "reachable R stored_ok ms c" "(cstep R)\<^sup>*\<^sup>* c c'"
    and x: "entry_at (node (engines c i)) k = Some x" "k \<le> commit_index (node (engines c i))"
    and j: "role (node (engines c' j)) = LEADER" "termof (engines c i) \<le> termof (engines c' j)"
  shows "k \<le> last_log_index (node (engines c' j)) \<and>
    (snapshot_index (node (engines c' j)) < k \<longrightarrow> entry_at (node (engines c' j)) k = Some x)"
proof -
  obtain H A F C where s: "sinv ms c" and inv: "logs_inv ms H A F C c" using safety_reachable [OF c(1)] by blast
  obtain H' A' F' C' where g: "ghosts_grow H A H' A'" and inv': "logs_inv ms H' A' F' C' c'"
    using safety_later [OF c(2) s inv] by blast
  note n = log_invD [OF logs_node(1) [OF inv]] and n' = log_invD [OF logs_node(1) [OF inv']]
  have k: "0 < k" "k \<le> int (length (F i))" "x = F i ! (nat k - 1)"
    using x(1) n(1) [of i] unfolding stands_entry_at [OF n(1)] by (auto simp: stands_for_def split: if_splits)
  obtain T m where T: "committed ms H A T m" "T \<le> termof (engines c i)" "nat k \<le> m" "agree (F i) (nat k) (H T)"
    using committed_prefix [OF inv x(2) k(1)] .
  have L: "F' j = H' (termof (engines c' j))" "F' j \<noteq> []" using n'(8) [OF j(1)] unfolding leads_ok_def by metis+
  have "agree (F' j) m (H' T)"
    using leader_holds_committed [OF logs_node(3) [OF inv'] committed_mono [OF T(1) g]] T(2) j(2) L by simp
  moreover have "agree (F i) (nat k) (H' T)" using agree_committed [OF T(1) g T(3)] T(4) by blast
  ultimately have a: "agree (F' j) (nat k) (F i)" using T(3) agree_less agree_trans agree_sym by meson
  then have "k \<le> int (length (F' j))" "F' j ! (nat k - 1) = x"
    using agree_nth [OF a, of "nat k - 1"] k by (auto simp: agree_def)
  then show ?thesis using stands_last(1) [OF n'(1)] unfolding stands_entry_at [OF n'(1)] by simp
qed

lemma state_machine_safety_rule:
  assumes c: "reachable R stored_ok ms c" "(cstep R)\<^sup>*\<^sup>* c c'"
    and x: "entry_at (node (engines c i)) k = Some x" "k \<le> commit_index (node (engines c i))"
    and y: "entry_at (node (engines c' j)) k = Some y" "k \<le> commit_index (node (engines c' j))"
  shows "x = y"
proof -
  obtain H A F C where s: "sinv ms c" and inv: "logs_inv ms H A F C c" using safety_reachable [OF c(1)] by blast
  obtain H' A' F' C' where g: "ghosts_grow H A H' A'" and inv': "logs_inv ms H' A' F' C' c'"
    using safety_later [OF c(2) s inv] by blast
  note n = log_invD [OF logs_node(1) [OF inv]] and n' = log_invD [OF logs_node(1) [OF inv']]
  note el = logs_node(3) [OF inv']
  have k: "0 < k" "x = F i ! (nat k - 1)"
    using x(1) n(1) [of i] unfolding stands_entry_at [OF n(1)] by (auto simp: stands_for_def split: if_splits)
  have k': "y = F' j ! (nat k - 1)" using y(1) unfolding stands_entry_at [OF n'(1)] by (auto split: if_splits)
  obtain T m where T: "committed ms H A T m" "nat k \<le> m" "agree (F i) (nat k) (H T)"
    using committed_prefix [OF inv x(2) k(1)] .
  obtain S l where S: "committed ms H' A' S l" "nat k \<le> l" "agree (F' j) (nat k) (H' S)"
    using committed_prefix [OF inv' y(2) k(1)] .
  have T': "committed ms H' A' T m" "agree (F i) (nat k) (H' T)"
    using committed_mono [OF T(1) g] agree_committed [OF T(1) g T(2)] T(3) by blast+
  have ne: "H' T \<noteq> []" "H' S \<noteq> []" using committed_length [OF T'(1)] committed_length [OF S(1)] by auto
  have "agree (H' T) (nat k) (H' S)"
  proof (cases "T \<le> S")
    case True
    then show ?thesis using leader_holds_committed [OF el T'(1) True ne(2)] T(2) agree_less agree_sym by blast
  next
    case False
    then show ?thesis using leader_holds_committed [OF el S(1) _ ne(1)] S(2) agree_less by simp
  qed
  then have "agree (F i) (nat k) (F' j)" using T'(2) S(3) agree_trans agree_sym by blast
  then show ?thesis using k k' agree_nth [of "F i" "nat k" "F' j" "nat k - 1"] by simp
qed

end

end
