(* ===== verification/Raft_Consensus.thy ===== *)
theory Raft_Consensus
  imports Raft_Safety
begin

section \<open>The cluster agrees on one log\<close>

text \<open>
  Log matching, leader completeness and state machine safety, for every reachable state of the
  transition system of \<open>Raft_Cluster\<close>, the commit rule of a leader, and a run that commits an entry, to which they are
  applied.
\<close>

subsection \<open>The run goes on: an entry is committed on two nodes\<close>

definition noop_entry :: log_entry where
  "noop_entry = \<lparr>e_term = 1, e_index = 1, e_command = ''NOOP'', e_username = [], e_request_id = []\<rparr>"

definition send_b :: "int \<Rightarrow> log_entry list \<Rightarrow> append_request" where
  "send_b k es = \<lparr>aq_term = 1, aq_leader_id = ''a'', aq_prev_log_index = k, aq_prev_log_term = Some k,
                  aq_entries = es, aq_leader_commit = k, aq_leader_address = ''h:1''\<rparr>"

text \<open>The leader \<open>a\<close> and the voter \<open>b\<close> after the election.\<close>

definition voter_b :: "(mem_storage, unit) engine" where
  "voter_b = \<lparr>node_id = ''b'', self_address = ''h:1'', bootstrap = trio_members, min_timeout = 1500000,
     max_timeout = 3000000, snapshot_threshold = 1000,
     node = \<lparr>current_term = 1, voted_for = Some ''a'', log = [], role = FOLLOWER, commit_index = 0, last_applied = 0,
       next_index = [], match_index = [], leader_id = None, snapshot_index = 0, snapshot_term = 0,
       snapshot_config = Some trio_members\<rparr>,
     storage = \<lparr>m_term = 1, m_voted_for = Some ''a'', m_entries = [], m_snapshot_index = 0, m_snapshot_term = 0,
       m_last_applied = 0, m_config = Some trio_members\<rparr>,
     members = members_dict trio_members, config_index = 0, learners = [], term_start_index = 0, last_contact = [],
     send_seq = 0, last_ack_seq = [], last_leader_contact = 0, leader_addr = [], transferring = False,
     snapshot_rx = None, running = False, timer_generation = 2, timer_armed = False, replicators = [],
     next_event = 0, waiters = [], grants = [], votes = [], effects = []\<rparr>"

definition leader_a :: "(mem_storage, unit) engine" where
  "leader_a = voter_b\<lparr>node_id := ''a'',
     node := (node voter_b)\<lparr>log := [noop_entry], role := LEADER, next_index := [(''b'', 1), (''c'', 1)],
       match_index := [(''b'', 0), (''c'', 0)], leader_id := Some ''a''\<rparr>,
     storage := (storage voter_b)\<lparr>m_entries := [(1, noop_entry)]\<rparr>,
     term_start_index := 1, last_contact := [(''b'', 2000000), (''c'', 2000000)], leader_addr := ''h:1'',
     running := True, timer_generation := 4, replicators := [(''b'', 0), (''c'', 1)], next_event := 2,
     grants := [(2, [''b'', ''a''])], votes := [(1, [''b'', ''a''])],
     effects := [SpawnPreVote (trio_members ! 1) (ask_b True) 2, SpawnPreVote (trio_members ! 2) (ask_b True) 2,
       SpawnVote (trio_members ! 1) (ask_b False), SpawnVote (trio_members ! 2) (ask_b False),
       CallBecomeLeader, SpawnReplicator ''b'' 1 0, SpawnReplicator ''c'' 1 1, SpawnCheckQuorum 1]\<rparr>"

definition follower_b :: "(mem_storage, unit) engine" where
  "follower_b = fst (handle_append_entries memory_storage 2100000 (send_b 0 [noop_entry]) voter_b)"

definition sure_a :: "(mem_storage, unit) engine" where
  "sure_a = entries_reply memory_storage 2200000 (trio_members ! 1) 1 0 (send_b 0 [noop_entry])
     \<lparr>ar_term = 1, ar_success = True, ar_match_index = 1, ar_conflict_index = 0\<rparr> leader_a"

definition sure_b :: "(mem_storage, unit) engine" where
  "sure_b = fst (handle_append_entries memory_storage 2300000 (send_b 1 []) follower_b)"

definition stored :: "int \<Rightarrow> append_response" where
  "stored k = \<lparr>ar_term = 1, ar_success = True, ar_match_index = k, ar_conflict_index = 0\<rparr>"

lemma after_election: "engines trio6 ''a'' = leader_a" "engines trio6 ''b'' = voter_b" "append_msgs trio6 = {}" "append_answers trio6 = {}"
  by code_simp+

lemma trio_sections:
  "replicate_round ''b'' 1 0 leader_a = (leader_a, SendEntries (trio_members ! 1) (send_b 0 [noop_entry]))"
  "snd (handle_append_entries memory_storage 2100000 (send_b 0 [noop_entry]) voter_b) = stored 1"
  "replicate_round ''b'' 1 0 sure_a = (sure_a, SendEntries (trio_members ! 1) (send_b 1 []))"
  "snd (handle_append_entries memory_storage 2300000 (send_b 1 []) follower_b) = stored 1"
  "SpawnReplicator ''b'' 1 0 \<in> set (effects leader_a)"
  by code_simp+

definition trio7 :: "(mem_storage, unit) cluster" where
  "trio7 = (put ''a'' leader_a trio6)\<lparr>append_msgs := {(''a'', trio_members ! 1, send_b 0 [noop_entry])}\<rparr>"

definition trio8 :: "(mem_storage, unit) cluster" where
  "trio8 = (put ''b'' follower_b trio7)\<lparr>append_answers := {(''a'', trio_members ! 1, send_b 0 [noop_entry], stored 1)}\<rparr>"

definition trio9 :: "(mem_storage, unit) cluster" where
  "trio9 = put ''a'' sure_a trio8"

definition trio10 :: "(mem_storage, unit) cluster" where
  "trio10 = (put ''a'' sure_a trio9)\<lparr>append_msgs := append_msgs trio9 \<union> {(''a'', trio_members ! 1, send_b 1 [])}\<rparr>"

definition trio11 :: "(mem_storage, unit) cluster" where
  "trio11 = (put ''b'' sure_b trio10)\<lparr>append_answers := insert (''a'', trio_members ! 1, send_b 1 [], stored 1) (append_answers trio10)\<rparr>"

lemma trio_engines:
  "engines trio8 ''a'' = leader_a" "engines trio8 ''b'' = follower_b" "engines trio9 ''a'' = sure_a"
  "engines trio10 ''b'' = follower_b" "engines trio11 ''a'' = sure_a" "engines trio11 ''b'' = sure_b"
  "engines trio7 ''b'' = voter_b"
  by (simp_all add: trio7_def trio8_def trio9_def trio10_def trio11_def after_election)

lemma trio_nodes:
  "entry_at (node leader_a) 1 = Some noop_entry" "entry_at (node follower_b) 1 = Some noop_entry"
  "snapshot_index (node leader_a) = 0" "snapshot_index (node follower_b) = 0"
  "entry_at (node sure_a) 1 = Some noop_entry" "commit_index (node sure_a) = 1"
  "entry_at (node sure_b) 1 = Some noop_entry" "commit_index (node sure_b) = 1"
  "role (node sure_a) = LEADER" "current_term (node sure_a) = 1"
  "current_term (node sure_b) = 1" "snapshot_index (node sure_a) = 0"
  by code_simp+

lemma trio_end:
  "entry_at (node (engines trio8 ''a'')) 1 = Some noop_entry" "entry_at (node (engines trio8 ''b'')) 1 = Some noop_entry"
  "snapshot_index (node (engines trio8 ''a'')) = 0" "snapshot_index (node (engines trio8 ''b'')) = 0"
  "entry_at (node (engines trio9 ''a'')) 1 = Some noop_entry" "commit_index (node (engines trio9 ''a'')) = 1"
  "entry_at (node (engines trio11 ''b'')) 1 = Some noop_entry" "commit_index (node (engines trio11 ''b'')) = 1"
  "role (node (engines trio11 ''a'')) = LEADER" "current_term (node (engines trio11 ''a'')) = 1"
  "current_term (node (engines trio11 ''b'')) = 1" "snapshot_index (node (engines trio11 ''a'')) = 0"
  unfolding trio_engines by (fact trio_nodes)+

lemma put_rpcs: "x \<in> set (effects e) \<Longrightarrow> (i, x) \<in> rpcs (put i e c)" "y \<in> rpcs c \<Longrightarrow> y \<in> rpcs (put i e c)"
  by (simp_all add: put_def)

lemma trio_replicator:
  "(''a'', SpawnReplicator ''b'' 1 0) \<in> rpcs trio6" "(''a'', SpawnReplicator ''b'' 1 0) \<in> rpcs trio9"
proof -
  obtain e where e: "trio6 = put ''a'' e trio5" unfolding trio6_def by blast
  then have l: "e = leader_a" using after_election(1) put_wires(8) [of "''a''" e trio5 "''a''"] by simp
  show r: "(''a'', SpawnReplicator ''b'' 1 0) \<in> rpcs trio6" unfolding e l by (rule put_rpcs(1) [OF trio_sections(5)])
  have "rpcs trio7 = rpcs (put ''a'' leader_a trio6)" "rpcs trio8 = rpcs (put ''b'' follower_b trio7)"
    by (simp add: trio7_def, simp add: trio8_def)
  then show "(''a'', SpawnReplicator ''b'' 1 0) \<in> rpcs trio9"
    unfolding trio9_def using put_rpcs(2) r by metis
qed

lemma is_b: "''b'' = member_id (trio_members ! 1)"
  by code_simp

lemma trio_step7: "cstep memory_storage trio6 trio7"
proof -
  have "replicate_round ''b'' 1 0 (engines trio6 ''a'') = (leader_a, SendEntries (trio_members ! 1) (send_b 0 [noop_entry]))"
    unfolding after_election by (rule trio_sections(1))
  from cstep.Replicate [OF trio_replicator(1) this, of memory_storage] show ?thesis
    by (simp only: trio7_def after_election(3) round_action.case Un_empty_left)
qed

lemma trio_step8: "cstep memory_storage trio7 trio8"
proof -
  have m: "(''a'', trio_members ! 1, send_b 0 [noop_entry]) \<in> append_msgs trio7" by (simp add: trio7_def)
  have "append_answers trio7 = {}" by (simp add: trio7_def after_election)
  moreover have "handle_append_entries memory_storage 2100000 (send_b 0 [noop_entry]) (engines trio7 ''b'') = (follower_b, stored 1)"
    unfolding trio_engines follower_b_def trio_sections(2) [symmetric] by (rule prod.collapse [symmetric])
  from cstep.Append [OF m is_b this] calculation show ?thesis by (simp only: trio8_def)
qed

lemma trio_step9: "cstep memory_storage trio8 trio9"
proof -
  have "(''a'', trio_members ! 1, send_b 0 [noop_entry], stored 1) \<in> append_answers trio8" by (simp add: trio8_def)
  from cstep.AppendReply [OF this, of memory_storage 2200000 0] show ?thesis
    unfolding trio9_def trio_engines sure_a_def stored_def by (simp only: send_b_def append_request.simps)
qed

lemma trio_step10: "cstep memory_storage trio9 trio10"
proof -
  have "replicate_round ''b'' 1 0 (engines trio9 ''a'') = (sure_a, SendEntries (trio_members ! 1) (send_b 1 []))"
    unfolding trio_engines by (rule trio_sections(3))
  from cstep.Replicate [OF trio_replicator(2) this, of memory_storage] show ?thesis
    by (simp only: trio10_def round_action.case)
qed

lemma trio_step11: "cstep memory_storage trio10 trio11"
proof -
  have m: "(''a'', trio_members ! 1, send_b 1 []) \<in> append_msgs trio10" by (simp add: trio10_def)
  have "handle_append_entries memory_storage 2300000 (send_b 1 []) (engines trio10 ''b'') = (sure_b, stored 1)"
    unfolding trio_engines sure_b_def trio_sections(4) [symmetric] by (rule prod.collapse [symmetric])
  from cstep.Append [OF m is_b this] show ?thesis by (simp only: trio11_def)
qed

lemma trio_later: "reachable memory_storage mem_ok trio_members trio8" "reachable memory_storage mem_ok trio_members trio9"
  "reachable memory_storage mem_ok trio_members trio11" "(cstep memory_storage)\<^sup>*\<^sup>* trio9 trio11"
proof -
  show r8: "reachable memory_storage mem_ok trio_members trio8"
    using trio_reachable trio_step7 trio_step8 reachable.Step by meson
  show r9: "reachable memory_storage mem_ok trio_members trio9" using r8 trio_step9 by (rule reachable.Step)
  show "reachable memory_storage mem_ok trio_members trio11" using r9 trio_step10 trio_step11 reachable.Step by meson
  show "(cstep memory_storage)\<^sup>*\<^sup>* trio9 trio11"
    by (rule converse_rtranclp_into_rtranclp [OF trio_step10 r_into_rtranclp [where r = "cstep memory_storage", OF trio_step11]])
qed

subsection \<open>The safety properties\<close>

text \<open>
  C5: log matching. In any reachable state, if the logs of two nodes hold an entry of the same term at the
  same index, the entries are the same and so are all earlier ones that neither node has compacted.
\<close>

theorem log_matching:
  assumes "raft_storage_laws R ok" and "reachable R ok ms c"
    and "entry_at (node (engines c i)) k = Some x" and "entry_at (node (engines c j)) k = Some y" and "e_term x = e_term y"
    and "l \<le> k" and "snapshot_index (node (engines c i)) < l" and "snapshot_index (node (engines c j)) < l"
  shows "entry_at (node (engines c i)) l = entry_at (node (engines c j)) l"
  by (rule raft_storage_laws.log_matching_rule [OF assms])

text \<open>
  C3: leader completeness. An entry that some node knows to be committed is, at any later time, in the log of
  every leader whose term is not older: at the same index, or in what that leader has compacted.
\<close>

theorem leader_completeness:
  assumes "raft_storage_laws R ok" and "reachable R ok ms c" and "(cstep R)\<^sup>*\<^sup>* c c'"
    and "entry_at (node (engines c i)) k = Some x" and "k \<le> commit_index (node (engines c i))"
    and "role (node (engines c' j)) = LEADER" and "current_term (node (engines c i)) \<le> current_term (node (engines c' j))"
  shows "k \<le> last_log_index (node (engines c' j)) \<and>
    (snapshot_index (node (engines c' j)) < k \<longrightarrow> entry_at (node (engines c' j)) k = Some x)"
  by (rule raft_storage_laws.leader_completeness_rule [OF assms])

text \<open>
  C1: state machine safety. If two nodes, at any two times, know the entry at an index to be committed, it is the
  same entry; so no two nodes ever apply different commands at one index, crashes, lost messages and
  snapshots included.
\<close>

theorem state_machine_safety:
  assumes "raft_storage_laws R ok" and "reachable R ok ms c" and "(cstep R)\<^sup>*\<^sup>* c c'"
    and "entry_at (node (engines c i)) k = Some x" and "k \<le> commit_index (node (engines c i))"
    and "entry_at (node (engines c' j)) k = Some y" and "k \<le> commit_index (node (engines c' j))"
  shows "x = y"
  by (rule raft_storage_laws.state_machine_safety_rule [OF assms])

lemma log_matching_witness:
  "entry_at (node (engines trio8 ''a'')) 1 = entry_at (node (engines trio8 ''b'')) 1 \<and>
   entry_at (node (engines trio8 ''a'')) 1 = Some noop_entry"
  using log_matching [OF mem.raft_storage_laws_axioms trio_later(1) trio_end(1,2) refl order_refl] trio_end by simp

lemma leader_completeness_witness:
  "1 \<le> commit_index (node (engines trio11 ''b'')) \<and> entry_at (node (engines trio11 ''a'')) 1 = Some noop_entry"
  using leader_completeness [OF mem.raft_storage_laws_axioms trio_later(3) rtranclp.rtrancl_refl trio_end(7) _ trio_end(9)]
  by (simp add: trio_end)

lemma state_machine_safety_witness:
  "entry_at (node (engines trio9 ''a'')) 1 = Some noop_entry \<and> entry_at (node (engines trio11 ''b'')) 1 = Some noop_entry \<and>
   1 \<le> commit_index (node (engines trio11 ''b'')) \<and> noop_entry = noop_entry"
  using state_machine_safety [OF mem.raft_storage_laws_axioms trio_later(2,4) trio_end(5) _ trio_end(7)] trio_end by simp

subsection \<open>Committing\<close>

text \<open>The terms of the log of a node of a cluster never decrease and do not exceed its term.\<close>

lemma prefix_terms:
  assumes w: "wf_history H" and L: "hist H L" and ij: "i \<le> j" "j \<le> length L"
  shows "lterm (take i L) \<le> lterm (take j L)"
proof (cases "i = 0")
  case False
  have "prefix (take j L) (H (lterm (take j L)))" using hist_take [OF w L, of j] by (simp add: hist_def)
  then obtain ys where ys: "H (lterm (take j L)) = take j L @ ys" by (auto elim: prefixE)
  have k: "i - 1 < j" "i - 1 < length (H (lterm (take j L)))" using False ij by (simp_all add: ys)
  have "lterm (take i L) = e_term (L ! (i - 1))" by (rule lterm_take) (use False ij in simp_all)
  also have "L ! (i - 1) = H (lterm (take j L)) ! (i - 1)" using k(1) ij by (simp add: ys nth_append)
  also have "e_term \<dots> \<le> lterm (take j L)" using w k(2) unfolding wf_history_def by blast
  finally show ?thesis .
next
  case True
  show ?thesis
  proof (cases "j = 0")
    case False
    have "prefix (take j L) (H (lterm (take j L)))" using hist_take [OF w L, of j] by (simp add: hist_def)
    then obtain ys where ys: "H (lterm (take j L)) = take j L @ ys" by (auto elim: prefixE)
    have k: "j - 1 < length (H (lterm (take j L)))" using False ij by (simp add: ys)
    have "lterm (take j L) = e_term (L ! (j - 1))" by (rule lterm_take) (use False ij in simp_all)
    also have "L ! (j - 1) = H (lterm (take j L)) ! (j - 1)" using False ij by (simp add: ys nth_append)
    finally have "1 \<le> lterm (take j L)" using w k unfolding wf_history_def by metis
    then show ?thesis using True by simp
  qed (use True in simp)
qed

context raft_storage_laws
begin

lemma terms_sorted_reachable:
  assumes "reachable R stored_ok ms c"
  shows "terms_sorted (node (engines c i))"
proof -
  obtain H A F C where inv: "logs_inv ms H A F C c" using safety_reachable [OF assms] by blast
  note w = logs_node(2) [OF inv] and n = log_invD [OF logs_node(1) [OF inv, of i]]
  have "s \<le> t \<and> t \<le> current_term (node (engines c i))"
    if "j \<le> k" "term_at (node (engines c i)) j = Some s" "term_at (node (engines c i)) k = Some t" for j k s t
  proof -
    have j: "0 \<le> j" "nat j \<le> length (F i)" "s = lterm (take (nat j) (F i))"
      and k: "nat k \<le> length (F i)" "t = lterm (take (nat k) (F i))"
      using stands_term_at_Some [OF n(1) that(2)] stands_term_at_Some [OF n(1) that(3)] by blast+
    have "nat j \<le> nat k" using that(1) by simp
    then have "s \<le> t" unfolding j(3) k(2) by (rule prefix_terms [OF w n(2) _ k(1)])
    moreover have "t \<le> lterm (F i)" using prefix_terms [OF w n(2) k(1) order_refl] by (simp add: k(2))
    ultimately show ?thesis using n(3) by simp
  qed
  then show ?thesis unfolding terms_sorted_def by blast
qed

end

text \<open>
  C10: a leader commits exactly the entries it may. When a leader of a cluster, in whatever state the cluster has got into,
  learns that a peer stores its log up to \<open>k\<close>, it notes that in its tables, moves its commit index to the last entry of its own
  term that more than half of the members store by those tables, itself included, if there is a new one, and changes
  nothing else.
\<close>

theorem commit_rule:
  fixes c :: "('s, 'r) cluster" and e :: "('s, 'r) engine"
  assumes "raft_storage_laws R ok" and "reachable R ok ms c" and "engines c i = e" and "role (node e) = LEADER"
    and "M = dict_set (match_index (node e)) p (max (dict_get (match_index (node e)) p 0) k)"
  shows "record_match p k e = e\<lparr>node := (node e)\<lparr>match_index := M,
     next_index := dict_set (next_index (node e)) p (max (dict_get (match_index (node e)) p 0) k + 1),
     commit_index := Max (insert (commit_index (node e))
       {j. commit_index (node e) < j \<and> j \<le> last_log_index (node e) \<and> term_at (node e) j = Some (current_term (node e)) \<and>
           length (members e) < 2 * length (filter (\<lambda>m. m = node_id e \<or> j \<le> dict_get M m 0) (dict_keys (members e)))})\<rparr>\<rparr>"
proof -
  define e1 where "e1 = e\<lparr>node := (node e)\<lparr>match_index := M,
     next_index := dict_set (next_index (node e)) p (max (dict_get (match_index (node e)) p 0) k + 1)\<rparr>\<rparr>"
  have r: "record_match p k e = advance_commit_index e1" by (simp add: record_match_def Let_def e1_def assms(5))
  have same: "term_at (node e1) j = term_at (node e) j" "last_log_index (node e1) = last_log_index (node e)" for j
    by (rule log_same; simp add: e1_def)+
  have f: "current_term (node e1) = current_term (node e)" "commit_index (node e1) = commit_index (node e)" "role (node e1) = LEADER"
    "members e1 = members e" "node_id e1 = node_id e" "match_index (node e1) = M"
    using assms(4) by (simp_all add: e1_def)
  have "terms_sorted (node e)"
    using raft_storage_laws.terms_sorted_reachable [OF assms(1,2), of i] assms(3) by simp
  then have s: "terms_sorted (node e1)" by (simp add: terms_sorted_def same f(1))
  have half: "majority e1 \<le> replicas j e1 \<longleftrightarrow>
      length (members e) < 2 * length (filter (\<lambda>m. m = node_id e \<or> j \<le> dict_get M m 0) (dict_keys (members e)))" for j
    unfolding majority_def replicas_def f by linarith
  show ?thesis
    unfolding r advance_commit_to [OF f(3) s] half same f(1,2) by (simp add: e1_def)
qed

lemma commit_rule_witness:
  "commit_index (node leader_a) = 0 \<and> commit_index (node (record_match ''b'' 1 leader_a)) =
   Max (insert 0 {j. 0 < j \<and> j \<le> 1 \<and> term_at (node leader_a) j = Some 1 \<and>
     length (members leader_a) < 2 * length (filter (\<lambda>m. m = ''a'' \<or> j \<le> dict_get [(''b'', 1), (''c'', 0)] m 0) (dict_keys (members leader_a)))})"
proof -
  have f: "role (node leader_a) = LEADER" "commit_index (node leader_a) = 0" "last_log_index (node leader_a) = 1"
    "current_term (node leader_a) = 1" "node_id leader_a = ''a''"
    "dict_set (match_index (node leader_a)) ''b'' (max (dict_get (match_index (node leader_a)) ''b'' 0) 1) = [(''b'', 1), (''c'', 0)]"
    by code_simp+
  show ?thesis
    using commit_rule [OF mem.raft_storage_laws_axioms trio_later(1) trio_engines(1) f(1) refl, of "''b''" 1]
    by (simp add: f)
qed

end
