(* ===== verification/Effects.thy ===== *)
theory Effects
  imports Prelude
begin

section \<open>Code that changes a state and may raise\<close>

text \<open>
  An action maps a state to a result, or an exception, and the state it leaves behind: what was
  changed before an exception stays changed, as in Python.
\<close>

type_synonym ('s, 'a) act = "'s \<Rightarrow> (py_exn + 'a) \<times> 's"

definition ret :: "'a \<Rightarrow> ('s, 'a) act" where
  "ret x s = (Inr x, s)"

definition throw :: "py_exn \<Rightarrow> ('s, 'a) act" where
  "throw e s = (Inl e, s)"

definition bind :: "('s, 'a) act \<Rightarrow> ('a \<Rightarrow> ('s, 'b) act) \<Rightarrow> ('s, 'b) act" where
  "bind m f s = (case m s of (Inl e, s') \<Rightarrow> (Inl e, s') | (Inr x, s') \<Rightarrow> f x s')"

definition get_st :: "('s, 's) act" where
  "get_st s = (Inr s, s)"

definition modify :: "('s \<Rightarrow> 's) \<Rightarrow> ('s, unit) act" where
  "modify f s = (Inr (), f s)"

definition of_sum :: "py_exn + 'a \<Rightarrow> ('s, 'a) act" where
  "of_sum x s = (x, s)"

fun each :: "('a \<Rightarrow> ('s, unit) act) \<Rightarrow> 'a list \<Rightarrow> ('s, unit) act" where
  "each f [] = ret ()"
| "each f (x # xs) = bind (f x) (\<lambda>u. each f xs)"

text \<open>An action on a part of the state.\<close>

definition on_part :: "('s \<Rightarrow> 'd) \<Rightarrow> ('d \<Rightarrow> 's \<Rightarrow> 's) \<Rightarrow> ('d, 'a) act \<Rightarrow> ('s, 'a) act" where
  "on_part get put m s = (case m (get s) of (r, d) \<Rightarrow> (r, put d s))"

lemma bind_cases:
  "bind m f s = (case fst (m s) of Inl e \<Rightarrow> (Inl e, snd (m s)) | Inr x \<Rightarrow> f x (snd (m s)))"
  by (simp add: bind_def case_prod_beta split: sum.split prod.split)

lemma bind_ret [simp]: "bind (ret x) f = f x"
  by (rule ext) (simp add: bind_def ret_def)

lemma bind_throw [simp]: "bind (throw e) f = throw e"
  by (rule ext) (simp add: bind_def throw_def)

lemma bind_Inr:
  "bind m f s = (Inr y, s2) \<longleftrightarrow> (\<exists>x s1. m s = (Inr x, s1) \<and> f x s1 = (Inr y, s2))"
  by (simp add: bind_def split: prod.split sum.split)

lemma bind_Inl:
  "bind m f s = (Inl e, s2) \<longleftrightarrow> m s = (Inl e, s2) \<or> (\<exists>x s1. m s = (Inr x, s1) \<and> f x s1 = (Inl e, s2))"
  by (auto simp: bind_def split: prod.split sum.split)

lemma act_simps [simp]:
  "ret x s = (r, s') \<longleftrightarrow> r = Inr x \<and> s' = s"
  "throw e s = (r, s') \<longleftrightarrow> r = Inl e \<and> s' = s"
  "get_st s = (q, s') \<longleftrightarrow> q = Inr s \<and> s' = s"
  "modify f s = (u, s') \<longleftrightarrow> u = Inr () \<and> s' = f s"
  "of_sum v s = (r, s') \<longleftrightarrow> r = v \<and> s' = s"
  by (auto simp: ret_def throw_def get_st_def modify_def of_sum_def)

subsection \<open>Rules: what holds of every outcome\<close>

text \<open>\<open>outcome P m Q E\<close>: from a state with \<open>P\<close>, a result satisfies \<open>Q\<close>, an exception \<open>E\<close>.\<close>

definition outcome ::
  "('s \<Rightarrow> bool) \<Rightarrow> ('s, 'a) act \<Rightarrow> ('a \<Rightarrow> 's \<Rightarrow> bool) \<Rightarrow> ('s \<Rightarrow> bool) \<Rightarrow> bool" where
  "outcome P m Q E = (\<forall>s. P s \<longrightarrow> (case m s of (Inr x, s') \<Rightarrow> Q x s' | (Inl e, s') \<Rightarrow> E s'))"

named_theorems outcome_rules

lemma outcome_bind:
  "outcome P m Q E \<Longrightarrow> (\<And>x. outcome (Q x) (f x) Q' E) \<Longrightarrow> outcome P (bind m f) Q' E"
  unfolding outcome_def bind_def by (fastforce split: prod.splits sum.splits)

lemma outcome_ret [outcome_rules]: "outcome (Q x) (ret x) Q E"
  by (simp add: outcome_def ret_def)

lemma outcome_throw [outcome_rules]: "outcome E (throw e) Q E"
  by (simp add: outcome_def throw_def)

lemma outcome_modify [outcome_rules]: "outcome (\<lambda>s. Q () (f s)) (modify f) Q E"
  by (simp add: outcome_def modify_def)

lemma outcome_get [outcome_rules]: "outcome (\<lambda>s. Q s s) get_st Q E"
  by (simp add: outcome_def get_st_def)

lemma outcome_weaken:
  "outcome P m Q E \<Longrightarrow> (\<And>s. P' s \<Longrightarrow> P s) \<Longrightarrow> (\<And>x s. Q x s \<Longrightarrow> Q' x s) \<Longrightarrow>
   (\<And>s. E s \<Longrightarrow> E' s) \<Longrightarrow> outcome P' m Q' E'"
  unfolding outcome_def by (fastforce split: prod.splits sum.splits)

lemma outcome_each:
  "(\<And>x. x \<in> set xs \<Longrightarrow> outcome I (f x) (\<lambda>_. I) E) \<Longrightarrow> outcome I (each f xs) (\<lambda>_. I) E"
proof (induction xs)
  case Nil
  then show ?case by (simp add: outcome_def ret_def)
next
  case (Cons x xs)
  then show ?case by (auto intro!: outcome_bind [where Q = "\<lambda>_. I"])
qed

lemma outcomeD:
  "outcome P m Q E \<Longrightarrow> P s \<Longrightarrow> m s = (Inr x, s') \<Longrightarrow> Q x s'"
  "outcome P m Q E \<Longrightarrow> P s \<Longrightarrow> m s = (Inl e, s') \<Longrightarrow> E s'"
  unfolding outcome_def by fastforce+

end
