(* ===== verification/Db_Service.thy ===== *)
theory Db_Service
  imports Effects Json
begin

section \<open>apps/users/db_service.py: users, entries and sessions in the database\<close>

text \<open>
  The queries the functions make through Django's ORM are a parameter, the record \<open>orm\<close>, over the
  type of the database connection. A query may raise (the database is down, a column is too short,
  a unique key is taken). What the functions rely on is \<open>orm_laws\<close>: through a view of the rows as
  \<open>tables\<close>, a query that returns had the effect its documentation gives it, and a query that
  raises changed no row. Nothing is said of the order of rows, except where a query sorts.
  \<open>_db_call\<close> only renews the connection.
\<close>

subsection \<open>The queries\<close>

record 'd orm =
  q_user_create :: "string \<Rightarrow> string \<Rightarrow> ('d, unit) act"
  q_user_get :: "string \<Rightarrow> ('d, string option) act"
  q_users :: "('d, (string \<times> string) list) act"
  q_entry_upsert :: "string \<Rightarrow> string \<Rightarrow> string \<Rightarrow> int option \<Rightarrow> ('d, unit) act"
  q_entry_get :: "string \<Rightarrow> string \<Rightarrow> ('d, (string \<times> int option) option) act"
  q_entry_delete :: "string \<Rightarrow> string \<Rightarrow> ('d, nat) act"
  q_entry_expiry :: "string \<Rightarrow> string \<Rightarrow> int option \<Rightarrow> ('d, nat) act"
  q_entries_newest :: "string \<Rightarrow> ('d, (string \<times> string) list) act"
  q_expiries :: "string \<Rightarrow> ('d, (string \<times> int) list) act"
  q_live_keys :: "string \<Rightarrow> int \<Rightarrow> ('d, string list) act"
  q_delete_expired :: "int \<Rightarrow> ('d, nat) act"
  q_min_expiry :: "('d, int option) act"
  q_entry_rows :: "('d, (string \<times> string \<times> string \<times> int option) list) act"
  q_sessions :: "('d, (string \<times> int \<times> string \<times> int) list) act"
  q_session_upsert :: "string \<Rightarrow> int \<Rightarrow> string \<Rightarrow> int \<Rightarrow> ('d, unit) act"
  q_session_delete :: "string \<Rightarrow> ('d, unit) act"
  q_clear :: "('d, unit) act"
  q_bulk_users :: "(string \<times> string) list \<Rightarrow> ('d, unit) act"
  q_user_ids :: "string list \<Rightarrow> ('d, (string \<times> int) list) act"
  q_bulk_entries :: "(int \<times> string \<times> string \<times> int option) list \<Rightarrow> ('d, unit) act"
  q_bulk_sessions :: "(string \<times> int \<times> string \<times> int) list \<Rightarrow> ('d, unit) act"
  q_rollback :: "'d \<Rightarrow> 'd \<Rightarrow> 'd"

subsection \<open>The functions\<close>

definition save_user :: "'d orm \<Rightarrow> string \<Rightarrow> string \<Rightarrow> ('d, unit) act" where
  "save_user D u h = q_user_create D u h"

definition get_user :: "'d orm \<Rightarrow> string \<Rightarrow> ('d, string option) act" where
  "get_user D u = q_user_get D u"

definition save_entry :: "'d orm \<Rightarrow> string \<Rightarrow> string \<Rightarrow> string \<Rightarrow> int option \<Rightarrow> ('d, unit) act" where
  "save_entry D u k v exp =
     bind (q_user_get D u) (\<lambda>user.
       case user of None \<Rightarrow> ret () | Some _ \<Rightarrow> q_entry_upsert D u k v exp)"

definition get_entry_with_expiry :: "'d orm \<Rightarrow> string \<Rightarrow> string \<Rightarrow> ('d, (string \<times> int option) option) act" where
  "get_entry_with_expiry D u k = q_entry_get D u k"

definition get_entry :: "'d orm \<Rightarrow> string \<Rightarrow> string \<Rightarrow> ('d, string option) act" where
  "get_entry D u k = bind (q_entry_get D u k) (\<lambda>r. ret (map_option fst r))"

definition delete_entry :: "'d orm \<Rightarrow> string \<Rightarrow> string \<Rightarrow> ('d, bool) act" where
  "delete_entry D u k =
     bind (q_user_get D u) (\<lambda>user.
       case user of None \<Rightarrow> ret False | Some _ \<Rightarrow> bind (q_entry_delete D u k) (\<lambda>n. ret (n > 0)))"

definition set_expiry :: "'d orm \<Rightarrow> string \<Rightarrow> string \<Rightarrow> int option \<Rightarrow> ('d, bool) act" where
  "set_expiry D u k exp = bind (q_entry_expiry D u k exp) (\<lambda>n. ret (n > 0))"

text \<open>With a limit: the newest rows, oldest of them first.\<close>

definition get_all_entries :: "'d orm \<Rightarrow> string \<Rightarrow> int option \<Rightarrow> ('d, (string, string) dict) act" where
  "get_all_entries D u limit =
     bind (q_user_get D u) (\<lambda>user.
       case user of
         None \<Rightarrow> ret []
       | Some _ \<Rightarrow>
           bind (q_entries_newest D u) (\<lambda>rows.
             ret (dict_merge [] (case limit of None \<Rightarrow> rev rows | Some n \<Rightarrow> rev (take (nat n) rows)))))"

definition get_expiries :: "'d orm \<Rightarrow> string \<Rightarrow> ('d, (string, int) dict) act" where
  "get_expiries D u = bind (q_expiries D u) (\<lambda>rows. ret (dict_merge [] rows))"

definition list_keys :: "'d orm \<Rightarrow> string \<Rightarrow> int \<Rightarrow> ('d, string list) act" where
  "list_keys D u now = q_live_keys D u now"

definition delete_expired :: "'d orm \<Rightarrow> int \<Rightarrow> ('d, nat) act" where
  "delete_expired D now = q_delete_expired D now"

definition db_next_expiry :: "'d orm \<Rightarrow> ('d, int option) act" where
  "db_next_expiry D = q_min_expiry D"

definition load_all_users :: "'d orm \<Rightarrow> ('d, (string \<times> string) list) act" where
  "load_all_users D = q_users D"

definition load_sessions :: "'d orm \<Rightarrow> ('d, (string \<times> int \<times> string \<times> int) list) act" where
  "load_sessions D = q_sessions D"

definition save_session :: "'d orm \<Rightarrow> string \<Rightarrow> int \<Rightarrow> string \<Rightarrow> int \<Rightarrow> ('d, unit) act" where
  "save_session D c seq result i = q_session_upsert D c seq result i"

definition delete_session :: "'d orm \<Rightarrow> string \<Rightarrow> ('d, unit) act" where
  "delete_session D c = q_session_delete D c"

subsection \<open>Snapshot rows as JSON lines\<close>

text \<open>
  The three kinds of line, written and read in the same way by \<open>dump_to\<close> and \<open>replace_from\<close> here
  and by \<open>snapshot\<close> and \<open>restore\<close> of the state machine. A line that is no object, or holds a value
  of another type, is outside what is ever written (\<open>TypeError\<close>).
\<close>

definition opt_int :: "int option \<Rightarrow> json" where
  "opt_int x = (case x of None \<Rightarrow> JNull | Some i \<Rightarrow> JInt i)"

definition user_line :: "string \<Rightarrow> string \<Rightarrow> string" where
  "user_line u h = dumps (JObj [(''u'', JStr u), (''h'', JStr h)]) @ [char_of (10 :: nat)]"

definition entry_line :: "string \<Rightarrow> string \<Rightarrow> string \<Rightarrow> int option \<Rightarrow> string" where
  "entry_line u k v exp =
     dumps (JObj [(''e'', JArr [JStr u, JStr k, JStr v, opt_int exp])]) @ [char_of (10 :: nat)]"

definition session_line :: "string \<Rightarrow> int \<Rightarrow> string \<Rightarrow> int \<Rightarrow> string" where
  "session_line c seq result i =
     dumps (JObj [(''s'', JArr [JStr c, JInt seq, JStr result, JInt i])]) @ [char_of (10 :: nat)]"

datatype row =
    UserRow string string
  | EntryRow string string string "int option"
  | SessionRow string int string int
  | OtherRow

definition read_row :: "json \<Rightarrow> py_exn + row" where
  "read_row j =
     (case j of
        JObj kvs \<Rightarrow>
          (case map_of kvs ''u'' of
             Some (JStr u) \<Rightarrow>
               (case map_of kvs ''h'' of None \<Rightarrow> Inl KeyError | Some (JStr h) \<Rightarrow> Inr (UserRow u h) | _ \<Rightarrow> Inl TypeError)
           | Some _ \<Rightarrow> Inl TypeError
           | None \<Rightarrow>
               (case map_of kvs ''e'' of
                  Some (JArr [JStr u, JStr k, JStr v, JNull]) \<Rightarrow> Inr (EntryRow u k v None)
                | Some (JArr [JStr u, JStr k, JStr v, JInt t]) \<Rightarrow> Inr (EntryRow u k v (Some t))
                | Some (JArr xs) \<Rightarrow> Inl (if length xs = 4 then TypeError else ValueError)
                | Some _ \<Rightarrow> Inl TypeError
                | None \<Rightarrow>
                    (case map_of kvs ''s'' of
                       Some (JArr [JStr c, JInt seq, JStr r, JInt i]) \<Rightarrow> Inr (SessionRow c seq r i)
                     | Some (JArr xs) \<Rightarrow> Inl (if length xs = 4 then TypeError else ValueError)
                     | Some _ \<Rightarrow> Inl TypeError
                     | None \<Rightarrow> Inr OtherRow)))
      | _ \<Rightarrow> Inl TypeError)"

text \<open>One line of the file; a blank one is skipped.\<close>

definition read_line :: "string \<Rightarrow> py_exn + row" where
  "read_line line =
     (if str_strip line = [] then Inr OtherRow
      else case loads line of Inl e \<Rightarrow> Inl e | Inr j \<Rightarrow> read_row j)"

text \<open>The lines of a text file, each with its newline.\<close>

fun file_lines :: "string \<Rightarrow> string list" where
  "file_lines [] = []"
| "file_lines (c # cs) =
     (if of_char c = (10 :: nat) then [c] # file_lines cs
      else case file_lines cs of [] \<Rightarrow> [[c]] | l # ls \<Rightarrow> (c # l) # ls)"

subsection \<open>dump_to and replace_from\<close>

definition batch_size :: nat where
  "batch_size = 1000"

definition dump_to :: "'d orm \<Rightarrow> ('d, string) act" where
  "dump_to D =
     bind (q_users D) (\<lambda>us.
     bind (q_entry_rows D) (\<lambda>es.
     bind (q_sessions D) (\<lambda>ss.
       ret (concat (map (\<lambda>(u, h). user_line u h) us) @
            concat (map (\<lambda>(u, k, v, exp). entry_line u k v exp) es) @
            concat (map (\<lambda>(c, seq, r, i). session_line c seq r i) ss)))))"

text \<open>The local variables of \<open>replace_from\<close>.\<close>

record batches =
  b_ids :: "(string, int) dict"
  b_users :: "(string \<times> string) list"
  b_entries :: "(int \<times> string \<times> string \<times> int option) list"
  b_sessions :: "(string \<times> int \<times> string \<times> int) list"

definition flush_users :: "'d orm \<Rightarrow> batches \<Rightarrow> ('d, batches) act" where
  "flush_users D b =
     bind (q_bulk_users D (b_users b)) (\<lambda>_.
     bind (q_user_ids D (map fst (b_users b))) (\<lambda>ids.
       ret (b\<lparr>b_ids := dict_merge (b_ids b) ids, b_users := []\<rparr>)))"

definition replace_row :: "'d orm \<Rightarrow> row \<Rightarrow> batches \<Rightarrow> ('d, batches) act" where
  "replace_row D r b =
     (case r of
        UserRow u h \<Rightarrow>
          (let b1 = b\<lparr>b_users := b_users b @ [(u, h)]\<rparr>
           in if length (b_users b1) \<ge> batch_size then flush_users D b1 else ret b1)
      | EntryRow u k v exp \<Rightarrow>
          bind (if b_users b \<noteq> [] then flush_users D b else ret b) (\<lambda>b1.
            case map_of (b_ids b1) u of
              None \<Rightarrow> throw KeyError
            | Some i \<Rightarrow>
                let b2 = b1\<lparr>b_entries := b_entries b1 @ [(i, k, v, exp)]\<rparr>
                in if length (b_entries b2) \<ge> batch_size
                   then bind (q_bulk_entries D (b_entries b2)) (\<lambda>_. ret (b2\<lparr>b_entries := []\<rparr>))
                   else ret b2)
      | SessionRow c seq res i \<Rightarrow>
          (let b1 = b\<lparr>b_sessions := b_sessions b @ [(c, seq, res, i)]\<rparr>
           in if length (b_sessions b1) \<ge> batch_size
              then bind (q_bulk_sessions D (b_sessions b1)) (\<lambda>_. ret (b1\<lparr>b_sessions := []\<rparr>))
              else ret b1)
      | OtherRow \<Rightarrow> ret b)"

fun replace_lines :: "'d orm \<Rightarrow> string list \<Rightarrow> batches \<Rightarrow> ('d, batches) act" where
  "replace_lines D [] b = ret b"
| "replace_lines D (l # ls) b =
     bind (of_sum (read_line l)) (\<lambda>r. bind (replace_row D r b) (replace_lines D ls))"

text \<open>\<open>transaction.atomic\<close>: an exception undoes what the block did.\<close>

definition atomic :: "'d orm \<Rightarrow> ('d, 'a) act \<Rightarrow> ('d, 'a) act" where
  "atomic D m d = (case m d of (Inl e, d') \<Rightarrow> (Inl e, q_rollback D d d') | (Inr x, d') \<Rightarrow> (Inr x, d'))"

definition replace_from :: "'d orm \<Rightarrow> string \<Rightarrow> ('d, nat) act" where
  "replace_from D content =
     atomic D
       (bind (q_clear D) (\<lambda>_.
        bind (replace_lines D (file_lines content) \<lparr>b_ids = [], b_users = [], b_entries = [], b_sessions = []\<rparr>) (\<lambda>b.
        bind (if b_users b \<noteq> [] then flush_users D b else ret b) (\<lambda>b1.
        bind (q_bulk_entries D (b_entries b1)) (\<lambda>_.
        bind (q_bulk_sessions D (b_sessions b1)) (\<lambda>_.
          ret (length (b_ids b1))))))))"

subsection \<open>What the functions rely on\<close>

record tables =
  t_users :: "string \<Rightarrow> string option"
  t_entries :: "string \<times> string \<Rightarrow> (string \<times> int option) option"
  t_sessions :: "string \<Rightarrow> (int \<times> string \<times> int) option"

text \<open>
  A query does what \<open>spec\<close> allows, from the rows before to the result and the rows after; if it
  raises, the rows are unchanged.
\<close>

definition implements :: "('d \<Rightarrow> 't) \<Rightarrow> ('d, 'a) act \<Rightarrow> ('t \<Rightarrow> 'a \<Rightarrow> 't \<Rightarrow> bool) \<Rightarrow> bool" where
  "implements view q spec =
     (\<forall>d. case q d of (Inr x, d') \<Rightarrow> spec (view d) x (view d') | (Inl e, d') \<Rightarrow> view d' = view d)"

text \<open>A result list holds one row for every row of the table.\<close>

definition rows_of :: "('k \<Rightarrow> 'v option) \<Rightarrow> ('k \<times> 'v) list \<Rightarrow> bool" where
  "rows_of f xs = (distinct (map fst xs) \<and> map_of xs = f)"

definition expired_at :: "int \<Rightarrow> (string \<times> int option) option \<Rightarrow> bool" where
  "expired_at now r = (case r of Some (v, Some t) \<Rightarrow> t \<le> now | _ \<Rightarrow> False)"

definition orm_laws :: "'d orm \<Rightarrow> ('d \<Rightarrow> tables) \<Rightarrow> bool" where
  "orm_laws D view =
     ((\<forall>u h. implements view (q_user_create D u h) (\<lambda>T x T'. t_users T u = None \<and> T' = T\<lparr>t_users := (t_users T)(u \<mapsto> h)\<rparr>)) \<and>
      (\<forall>u. implements view (q_user_get D u) (\<lambda>T x T'. T' = T \<and> x = t_users T u)) \<and>
      implements view (q_users D) (\<lambda>T x T'. T' = T \<and> rows_of (t_users T) x) \<and>
      (\<forall>u k v exp. implements view (q_entry_upsert D u k v exp)
         (\<lambda>T x T'. T' = T\<lparr>t_entries := (t_entries T)((u, k) \<mapsto> (v, exp))\<rparr>)) \<and>
      (\<forall>u k. implements view (q_entry_get D u k) (\<lambda>T x T'. T' = T \<and> x = t_entries T (u, k))) \<and>
      (\<forall>u k. implements view (q_entry_delete D u k)
         (\<lambda>T x T'. T' = T\<lparr>t_entries := (t_entries T)((u, k) := None)\<rparr> \<and> (x > 0 \<longleftrightarrow> t_entries T (u, k) \<noteq> None))) \<and>
      (\<forall>u k exp. implements view (q_entry_expiry D u k exp)
         (\<lambda>T x T'. T' = T\<lparr>t_entries := (t_entries T)((u, k) := map_option (\<lambda>(v, _). (v, exp)) (t_entries T (u, k)))\<rparr> \<and>
                   (x > 0 \<longleftrightarrow> t_entries T (u, k) \<noteq> None))) \<and>
      (\<forall>u. implements view (q_entries_newest D u)
         (\<lambda>T x T'. T' = T \<and> rows_of (\<lambda>k. map_option fst (t_entries T (u, k))) x)) \<and>
      (\<forall>u. implements view (q_expiries D u)
         (\<lambda>T x T'. T' = T \<and> rows_of (\<lambda>k. Option.bind (t_entries T (u, k)) snd) x)) \<and>
      (\<forall>u now. implements view (q_live_keys D u now)
         (\<lambda>T x T'. T' = T \<and> distinct x \<and> set x = {k. t_entries T (u, k) \<noteq> None \<and> \<not> expired_at now (t_entries T (u, k))})) \<and>
      (\<forall>now. implements view (q_delete_expired D now)
         (\<lambda>T x T'. T' = T\<lparr>t_entries := (\<lambda>p. if expired_at now (t_entries T p) then None else t_entries T p)\<rparr> \<and>
                   x = card {p. expired_at now (t_entries T p)})) \<and>
      implements view (q_min_expiry D) (\<lambda>T x T'. T' = T \<and>
         (case x of None \<Rightarrow> \<forall>p. map_option snd (t_entries T p) \<in> {None, Some None}
          | Some t \<Rightarrow> (\<exists>p v. t_entries T p = Some (v, Some t)) \<and>
                      (\<forall>p v t'. t_entries T p = Some (v, Some t') \<longrightarrow> t \<le> t'))) \<and>
      implements view (q_entry_rows D)
         (\<lambda>T x T'. T' = T \<and> rows_of (t_entries T) (map (\<lambda>(u, k, v, exp). ((u, k), (v, exp))) x)) \<and>
      implements view (q_sessions D) (\<lambda>T x T'. T' = T \<and> rows_of (t_sessions T) x) \<and>
      (\<forall>c seq r i. implements view (q_session_upsert D c seq r i)
         (\<lambda>T x T'. T' = T\<lparr>t_sessions := (t_sessions T)(c \<mapsto> (seq, r, i))\<rparr>)) \<and>
      (\<forall>c. implements view (q_session_delete D c) (\<lambda>T x T'. T' = T\<lparr>t_sessions := (t_sessions T)(c := None)\<rparr>)) \<and>
      (\<forall>d d'. view (q_rollback D d d') = view d))"

end
