(* ===== verification/Cache.thy ===== *)
theory Cache
  imports Py_String
begin

section \<open>cache/: the plain cache, the LRU cache, the factory\<close>

text \<open>
  \<open>basic\<close> is \<open>Cache\<close> (cache_impl.py), \<open>lru\<close> is \<open>LRUCache\<close> (lru_cache.py); each operation is the
  body under the lock. An \<open>OrderedDict\<close> is an association list with the least recently used pair
  first. \<open>icache\<close> is the contract of \<open>ICache\<close>: a cache may forget a key when another one is set,
  but never shows a value other than the last one set. \<open>exact_cache\<close> never forgets.
\<close>

subsection \<open>Cache\<close>

type_synonym basic = "(string, string) dict"

definition basic_new :: basic where
  "basic_new = []"

definition basic_set :: "string \<Rightarrow> string \<Rightarrow> basic \<Rightarrow> py_exn + basic" where
  "basic_set k v c = (if k = [] then Inl ValueError else Inr (dict_set c k v))"

definition basic_get :: "string \<Rightarrow> basic \<Rightarrow> basic \<times> string option" where
  "basic_get k c = (c, map_of c k)"

definition basic_has :: "string \<Rightarrow> basic \<Rightarrow> bool" where
  "basic_has k c = dict_has c k"

definition basic_delete :: "string \<Rightarrow> basic \<Rightarrow> basic \<times> bool" where
  "basic_delete k c = (if dict_has c k then (dict_pop c k, True) else (c, False))"

definition basic_clear :: "basic \<Rightarrow> basic" where
  "basic_clear c = []"

definition basic_size :: "basic \<Rightarrow> nat" where
  "basic_size c = length c"

definition basic_items :: "basic \<Rightarrow> (string \<times> string) list" where
  "basic_items c = c"

definition basic_keys :: "basic \<Rightarrow> string list" where
  "basic_keys c = dict_keys c"

subsection \<open>LRUCache\<close>

record lru =
  lru_capacity :: int
  lru_data :: "(string, string) dict"
  lru_evictions :: nat

definition lru_new :: "int \<Rightarrow> py_exn + lru" where
  "lru_new cap =
     (if cap \<le> 0 then Inl ValueError
      else Inr \<lparr>lru_capacity = cap, lru_data = [], lru_evictions = 0\<rparr>)"

text \<open>\<open>_evict_lru\<close>: it returns the evicted key.\<close>

definition evict_lru :: "lru \<Rightarrow> lru \<times> string option" where
  "evict_lru c =
     (case lru_data c of
        [] \<Rightarrow> (c, None)
      | (k, v) # rest \<Rightarrow> (c\<lparr>lru_data := rest, lru_evictions := lru_evictions c + 1\<rparr>, Some k))"

definition move_to_end :: "(string, string) dict \<Rightarrow> string \<Rightarrow> (string, string) dict" where
  "move_to_end d k =
     (case map_of d k of None \<Rightarrow> d | Some v \<Rightarrow> dict_pop d k @ [(k, v)])"

definition lru_set :: "string \<Rightarrow> string \<Rightarrow> lru \<Rightarrow> py_exn + lru" where
  "lru_set k v c =
     (if k = [] then Inl ValueError
      else if dict_has (lru_data c) k
      then Inr (c\<lparr>lru_data := dict_set (move_to_end (lru_data c) k) k v\<rparr>)
      else
        let c1 = (if int (length (lru_data c)) \<ge> lru_capacity c then fst (evict_lru c) else c)
        in Inr (c1\<lparr>lru_data := dict_set (lru_data c1) k v\<rparr>))"

definition lru_get :: "string \<Rightarrow> lru \<Rightarrow> lru \<times> string option" where
  "lru_get k c =
     (if \<not> dict_has (lru_data c) k then (c, None)
      else let d = move_to_end (lru_data c) k in (c\<lparr>lru_data := d\<rparr>, map_of d k))"

definition lru_has :: "string \<Rightarrow> lru \<Rightarrow> bool" where
  "lru_has k c = dict_has (lru_data c) k"

definition lru_delete :: "string \<Rightarrow> lru \<Rightarrow> lru \<times> bool" where
  "lru_delete k c =
     (if dict_has (lru_data c) k then (c\<lparr>lru_data := dict_pop (lru_data c) k\<rparr>, True) else (c, False))"

definition lru_clear :: "lru \<Rightarrow> lru" where
  "lru_clear c = c\<lparr>lru_data := []\<rparr>"

definition lru_size :: "lru \<Rightarrow> nat" where
  "lru_size c = length (lru_data c)"

definition lru_items :: "lru \<Rightarrow> (string \<times> string) list" where
  "lru_items c = lru_data c"

definition peek_lru :: "lru \<Rightarrow> string option" where
  "peek_lru c = (case lru_data c of [] \<Rightarrow> None | (k, v) # rest \<Rightarrow> Some k)"

definition peek_mru :: "lru \<Rightarrow> string option" where
  "peek_mru c = (if lru_data c = [] then None else Some (fst (last (lru_data c))))"

subsection \<open>CacheFactory\<close>

datatype any_cache = Basic basic | LRU lru

definition cache_create :: "string \<Rightarrow> int \<Rightarrow> py_exn + any_cache" where
  "cache_create kind cap =
     (let k = str_lower kind
      in if k = ''lru'' then map_sum id LRU (lru_new cap)
         else if k = ''basic'' then Inr (Basic basic_new)
         else Inl ValueError)"

subsection \<open>The contract\<close>

locale icache =
  fixes cset :: "string \<Rightarrow> string \<Rightarrow> 'c \<Rightarrow> py_exn + 'c"
    and cget :: "string \<Rightarrow> 'c \<Rightarrow> 'c \<times> string option"
    and chas :: "string \<Rightarrow> 'c \<Rightarrow> bool"
    and cdelete :: "string \<Rightarrow> 'c \<Rightarrow> 'c \<times> bool"
    and cclear :: "'c \<Rightarrow> 'c"
    and csize :: "'c \<Rightarrow> nat"
    and citems :: "'c \<Rightarrow> (string \<times> string) list"
    and cok :: "'c \<Rightarrow> bool"
  assumes items_distinct: "cok c \<Longrightarrow> distinct (map fst (citems c))"
    and size_items: "csize c = length (citems c)"
    and has_items: "cok c \<Longrightarrow> chas k c \<longleftrightarrow> k \<in> fst ` set (citems c)"
    and set_empty: "cset [] v c = Inl ValueError"
    and set_ok: "cok c \<Longrightarrow> k \<noteq> [] \<Longrightarrow> \<exists>c'. cset k v c = Inr c' \<and> cok c' \<and> map_of (citems c') k = Some v \<and>
          map_of (citems c') \<subseteq>\<^sub>m (map_of (citems c))(k \<mapsto> v)"
    and get_ok: "cok c \<Longrightarrow> cget k c = (c', r) \<Longrightarrow> cok c' \<and> r = map_of (citems c) k \<and>
          map_of (citems c') = map_of (citems c)"
    and delete_ok: "cok c \<Longrightarrow> cdelete k c = (c', gone) \<Longrightarrow> cok c' \<and> (gone \<longleftrightarrow> k \<in> fst ` set (citems c)) \<and>
          map_of (citems c') = (map_of (citems c))(k := None)"
    and clear_ok: "cok c \<Longrightarrow> cok (cclear c) \<and> citems (cclear c) = []"

begin

text \<open>A client that keeps the exact map beside the cache never sees a value that differs from it.\<close>

lemma sound_set:
  "cok c \<Longrightarrow> map_of (citems c) \<subseteq>\<^sub>m m \<Longrightarrow> cset k v c = Inr c' \<Longrightarrow>
   cok c' \<and> map_of (citems c') \<subseteq>\<^sub>m m(k \<mapsto> v)"
  using set_ok [of c k v] set_empty [of v c] map_le_trans map_le_upd by (cases "k = []") fastforce+

lemma sound_get:
  "cok c \<Longrightarrow> map_of (citems c) \<subseteq>\<^sub>m m \<Longrightarrow> cget k c = (c', r) \<Longrightarrow>
   cok c' \<and> map_of (citems c') \<subseteq>\<^sub>m m \<and> (\<forall>v. r = Some v \<longrightarrow> m k = Some v)"
  using get_ok [of c k c' r] by (metis domI map_le_def)

lemma sound_delete:
  "cok c \<Longrightarrow> map_of (citems c) \<subseteq>\<^sub>m m \<Longrightarrow> cdelete k c = (c', gone) \<Longrightarrow>
   cok c' \<and> map_of (citems c') \<subseteq>\<^sub>m m(k := None) \<and> (gone \<longrightarrow> m k \<noteq> None)"
proof -
  assume c: "cok c" and m: "map_of (citems c) \<subseteq>\<^sub>m m" and d: "cdelete k c = (c', gone)"
  have "k \<in> fst ` set (citems c) \<longleftrightarrow> k \<in> dom (map_of (citems c))" by (simp add: dom_map_of_conv_image_fst)
  then show ?thesis using delete_ok [OF c d] m by (auto simp: map_le_def) (metis domI)
qed

lemma get_after_set:
  "cok c \<Longrightarrow> cset k v c = Inr c' \<Longrightarrow> snd (cget k c') = Some v"
proof -
  assume c: "cok c" and s: "cset k v c = Inr c'"
  have "k \<noteq> []" using s set_empty [of v c] by auto
  then have "cok c'" "map_of (citems c') k = Some v" using set_ok [OF c, of k v] s by auto
  then show ?thesis using get_ok [of c' k "fst (cget k c')" "snd (cget k c')"] by simp
qed

lemma get_after_delete:
  "cok c \<Longrightarrow> cdelete k c = (c', gone) \<Longrightarrow> snd (cget k c') = None"
proof -
  assume c: "cok c" and d: "cdelete k c = (c', gone)"
  then have "cok c'" "map_of (citems c') k = None" using delete_ok by auto
  then show ?thesis using get_ok [of c' k "fst (cget k c')" "snd (cget k c')"] by simp
qed

end

locale exact_cache = icache +
  assumes set_exact: "cok c \<Longrightarrow> cset k v c = Inr c' \<Longrightarrow> map_of (citems c') = (map_of (citems c))(k \<mapsto> v)"
begin

lemma set_other: "cok c \<Longrightarrow> cset k v c = Inr c' \<Longrightarrow> k' \<noteq> k \<Longrightarrow> snd (cget k' c') = snd (cget k' c)"
proof -
  assume c: "cok c" and s: "cset k v c = Inr c'" and k: "k' \<noteq> k"
  have "cok c'" using sound_set [OF c map_le_refl s] by blast
  then show ?thesis
    using get_ok [OF c, of k' "fst (cget k' c)" "snd (cget k' c)"] k
      get_ok [of c' k' "fst (cget k' c')" "snd (cget k' c')"] set_exact [OF c s] by simp
qed

end

subsection \<open>Both caches keep it\<close>

interpretation basic: exact_cache basic_set basic_get basic_has basic_delete basic_clear basic_size basic_items dict_ok
  by unfold_locales
    (auto simp: basic_set_def basic_get_def basic_has_def basic_delete_def basic_clear_def basic_size_def
      basic_items_def dict_has_iff dict_ok_def [symmetric] map_of_eq_None_iff split: if_splits intro!: ext)

definition lru_ok :: "lru \<Rightarrow> bool" where
  "lru_ok c = (0 < lru_capacity c \<and> dict_ok (lru_data c) \<and> int (length (lru_data c)) \<le> lru_capacity c)"

lemma dict_pop_append: "k \<notin> fst ` set d \<Longrightarrow> dict_pop (d @ [(k, v)]) k = d"
  unfolding dict_pop_def by (induction d) auto

lemma dict_set_append: "k \<notin> fst ` set d \<Longrightarrow> dict_set (d @ [(k, v)]) k w = d @ [(k, w)]"
  unfolding dict_set_def by (induction d) auto

lemma move_to_end_has:
  "dict_has d k \<Longrightarrow> move_to_end d k = dict_pop d k @ [(k, the (map_of d k))]"
  by (auto simp: move_to_end_def dict_has_def)

lemma map_of_move_to_end [simp]: "map_of (move_to_end d k) = map_of d"
  by (auto simp: move_to_end_def map_add_def split: option.split intro!: ext)

text \<open>The data after a \<open>set\<close>: the key goes to the end; a full cache loses its first pair.\<close>

lemma lru_set_data:
  assumes "lru_ok c" and "k \<noteq> []"
  shows "lru_set k v c = Inr (if dict_has (lru_data c) k then c\<lparr>lru_data := dict_pop (lru_data c) k @ [(k, v)]\<rparr>
    else if int (length (lru_data c)) = lru_capacity c
    then c\<lparr>lru_data := tl (lru_data c) @ [(k, v)], lru_evictions := lru_evictions c + 1\<rparr>
    else c\<lparr>lru_data := lru_data c @ [(k, v)]\<rparr>)"
proof (cases "dict_has (lru_data c) k")
  case True
  then show ?thesis using assms(2) by (simp add: lru_set_def move_to_end_has dict_set_append)
next
  case False
  then have k: "k \<notin> fst ` set (lru_data c)" by (simp add: dict_has_iff)
  show ?thesis
  proof (cases "int (length (lru_data c)) = lru_capacity c")
    case True
    then have "lru_data c \<noteq> []" using assms(1) by (auto simp: lru_ok_def)
    then obtain p rest where "lru_data c = p # rest" by (cases "lru_data c") auto
    with True False k assms(2) show ?thesis by (cases p) (simp add: lru_set_def evict_lru_def dict_set_new)
  next
    case False
    then have "\<not> lru_capacity c \<le> int (length (lru_data c))" using assms(1) by (simp add: lru_ok_def)
    with False \<open>\<not> dict_has (lru_data c) k\<close> k assms(2) show ?thesis by (simp add: lru_set_def dict_set_new)
  qed
qed

lemma lru_set_ok:
  assumes c: "lru_ok c" and k: "k \<noteq> []" and s: "lru_set k v c = Inr c'"
  shows "lru_ok c'" and "map_of (lru_data c') k = Some v"
    and "map_of (lru_data c') \<subseteq>\<^sub>m (map_of (lru_data c))(k \<mapsto> v)"
    and "lru_capacity c' = lru_capacity c"
    and "lru_evictions c' = lru_evictions c \<Longrightarrow> map_of (lru_data c') = (map_of (lru_data c))(k \<mapsto> v)"
    and "lru_evictions c \<le> lru_evictions c'"
proof -
  let ?d = "lru_data c"
  have pop: "map_of (dict_pop ?d k @ [(k, v)]) = (map_of ?d)(k \<mapsto> v)" for v
    by (auto simp: map_add_def split: option.split intro!: ext)
  have new: "map_of (d @ [(k, v)]) = (map_of d)(k \<mapsto> v)" if "k \<notin> fst ` set d" for d
  proof -
    have "map_of d k = None" using that by (simp add: map_of_eq_None_iff)
    then show ?thesis by (auto simp: map_add_def split: option.split intro!: ext)
  qed
  have ok: "dict_ok ?d" "0 < lru_capacity c" "int (length ?d) \<le> lru_capacity c" using c by (simp_all add: lru_ok_def)
  consider (has) "dict_has ?d k" "c' = c\<lparr>lru_data := dict_pop ?d k @ [(k, v)]\<rparr>"
    | (full) "k \<notin> fst ` set ?d" "int (length ?d) = lru_capacity c"
        "c' = c\<lparr>lru_data := tl ?d @ [(k, v)], lru_evictions := lru_evictions c + 1\<rparr>"
    | (room) "k \<notin> fst ` set ?d" "int (length ?d) < lru_capacity c" "c' = c\<lparr>lru_data := ?d @ [(k, v)]\<rparr>"
    using lru_set_data [OF c k, of v] s ok(3) unfolding dict_has_iff [symmetric]
    by (cases "dict_has ?d k"; cases "int (length ?d) = lru_capacity c") simp_all
  note cases = this
  have tl_ok: "dict_ok (tl ?d)" "map_of (tl ?d) \<subseteq>\<^sub>m map_of ?d" "fst ` set (tl ?d) \<subseteq> fst ` set ?d"
  proof -
    show "dict_ok (tl ?d)" "fst ` set (tl ?d) \<subseteq> fst ` set ?d"
      using ok(1) by (cases ?d; simp add: dict_ok_def subset_insertI)+
    show "map_of (tl ?d) \<subseteq>\<^sub>m map_of ?d"
    proof (cases ?d)
      case (Cons p d)
      then have "map_of d (fst p) = None" using ok(1) by (simp add: dict_ok_def map_of_eq_None_iff)
      with Cons show ?thesis by (auto simp: map_le_def)
    qed simp
  qed
  have len: "length (dict_pop ?d k) + 1 = length ?d" if "dict_has ?d k"
    using that ok(1) length_dict_pop [of ?d k] by (cases ?d) (auto simp: dict_has_iff)
  have app: "dict_ok (d @ [(k, v)])" if "dict_ok d" "k \<notin> fst ` set d" for d
    using that by (simp add: dict_ok_def)
  show "lru_ok c'"
    using cases
  proof cases
    case has
    then show ?thesis using ok len app [OF dict_ok_pop [OF ok(1)], of k] by (simp add: lru_ok_def)
  next
    case full
    then show ?thesis using ok tl_ok app [of "tl ?d"] by (auto simp: lru_ok_def)
  next
    case room
    then show ?thesis using ok app by (simp add: lru_ok_def)
  qed
  show "map_of (lru_data c') k = Some v" "map_of (lru_data c') \<subseteq>\<^sub>m (map_of ?d)(k \<mapsto> v)"
  proof -
    have "map_of (lru_data c') = (map_of ?d)(k \<mapsto> v) \<or> map_of (lru_data c') = (map_of (tl ?d))(k \<mapsto> v)"
      using cases
    proof cases
      case full
      then have "k \<notin> fst ` set (tl ?d)" using tl_ok(3) by blast
      then show ?thesis using full new [of "tl ?d"] by simp
    next
      case has
      then show ?thesis using pop [of v] by simp
    next
      case room
      then show ?thesis using new [of ?d] by simp
    qed
    then show "map_of (lru_data c') k = Some v" "map_of (lru_data c') \<subseteq>\<^sub>m (map_of ?d)(k \<mapsto> v)"
      using map_le_upd [OF tl_ok(2)] by auto
  qed
  show "lru_capacity c' = lru_capacity c" "lru_evictions c \<le> lru_evictions c'" using cases by (cases; simp)+
  show "lru_evictions c' = lru_evictions c \<Longrightarrow> map_of (lru_data c') = (map_of ?d)(k \<mapsto> v)"
    using cases
  proof cases
    case has
    then show ?thesis using pop [of v] by simp
  next
    case room
    then show ?thesis using new [of ?d] by simp
  qed simp
qed

lemma lru_get_data:
  "lru_get k c = (c\<lparr>lru_data := move_to_end (lru_data c) k\<rparr>, map_of (lru_data c) k)"
proof (cases "map_of (lru_data c) k")
  case None
  then show ?thesis by (simp add: lru_get_def dict_has_def move_to_end_def)
next
  case (Some v)
  then show ?thesis by (simp add: lru_get_def dict_has_def Let_def)
qed

lemma move_to_end_ok: "dict_ok d \<Longrightarrow> dict_ok (move_to_end d k)" "dict_ok d \<Longrightarrow> length (move_to_end d k) = length d"
proof -
  assume d: "dict_ok d"
  have "k \<notin> fst ` set (dict_pop d k)" by simp
  then show "dict_ok (move_to_end d k)" using d dict_ok_pop [OF d, of k]
    by (auto simp: move_to_end_def dict_ok_def simp del: dict_keys_pop split: option.split)
  show "length (move_to_end d k) = length d"
  proof (cases "map_of d k")
    case (Some v)
    then have "k \<in> fst ` set d" by (metis map_of_eq_None_iff option.distinct(1))
    moreover from this have "d \<noteq> []" by auto
    ultimately show ?thesis using Some length_dict_pop [OF d, of k] by (cases d) (simp_all add: move_to_end_def)
  qed (simp add: move_to_end_def)
qed

lemma lru_get_ok:
  assumes "lru_ok c"
  shows "lru_ok (fst (lru_get k c))" and "snd (lru_get k c) = map_of (lru_data c) k"
    and "map_of (lru_data (fst (lru_get k c))) = map_of (lru_data c)"
    and "lru_evictions (fst (lru_get k c)) = lru_evictions c" "lru_capacity (fst (lru_get k c)) = lru_capacity c"
  using assms by (simp_all add: lru_get_data lru_ok_def move_to_end_ok)

lemma lru_delete_ok:
  assumes "lru_ok c"
  shows "lru_ok (fst (lru_delete k c))" and "snd (lru_delete k c) \<longleftrightarrow> k \<in> fst ` set (lru_data c)"
    and "map_of (lru_data (fst (lru_delete k c))) = (map_of (lru_data c))(k := None)"
    and "lru_evictions (fst (lru_delete k c)) = lru_evictions c" "lru_capacity (fst (lru_delete k c)) = lru_capacity c"
  using assms length_dict_pop [of "lru_data c" k]
  by (auto simp: lru_delete_def lru_ok_def dict_has_iff map_of_eq_None_iff split: if_splits intro!: ext)

interpretation lru: icache lru_set lru_get lru_has lru_delete lru_clear lru_size lru_items lru_ok
proof (unfold_locales, goal_cases)
  case (5 c k v)
  then show ?case using lru_set_ok(1-3) [OF 5] lru_set_data [OF 5, of v] by (auto simp: lru_items_def)
next
  case (6 c k c' r)
  then show ?case using lru_get_ok [of c k] by (simp add: lru_items_def)
next
  case (7 c k c' gone)
  then show ?case using lru_delete_ok [of c k] by (simp add: lru_items_def)
qed (simp_all add: lru_ok_def dict_ok_def lru_size_def lru_items_def lru_has_def dict_has_iff lru_clear_def lru_set_def)

subsection \<open>Runs of the LRU cache\<close>

datatype cache_op = OpSet string string | OpGet string | OpDelete string | OpClear

fun lru_step :: "cache_op \<Rightarrow> lru \<Rightarrow> lru" where
  "lru_step (OpSet k v) c = (case lru_set k v c of Inl _ \<Rightarrow> c | Inr c' \<Rightarrow> c')"
| "lru_step (OpGet k) c = fst (lru_get k c)"
| "lru_step (OpDelete k) c = fst (lru_delete k c)"
| "lru_step OpClear c = lru_clear c"

text \<open>What a cache that never forgets would hold.\<close>

fun map_step :: "cache_op \<Rightarrow> (string \<Rightarrow> string option) \<Rightarrow> string \<Rightarrow> string option" where
  "map_step (OpSet k v) m = (if k = [] then m else m(k \<mapsto> v))"
| "map_step (OpGet k) m = m"
| "map_step (OpDelete k) m = m(k := None)"
| "map_step OpClear m = (\<lambda>k. None)"

lemma lru_step_ok:
  assumes "lru_ok c"
  shows "lru_ok (lru_step op c)" and "lru_capacity (lru_step op c) = lru_capacity c"
    and "lru_evictions c \<le> lru_evictions (lru_step op c)"
    and "map_of (lru_data c) \<subseteq>\<^sub>m m \<Longrightarrow> map_of (lru_data (lru_step op c)) \<subseteq>\<^sub>m map_step op m"
    and "lru_evictions (lru_step op c) = lru_evictions c \<Longrightarrow>
      map_of (lru_data (lru_step op c)) = map_step op (map_of (lru_data c))"
proof -
  have "lru_ok (lru_step op c) \<and> lru_capacity (lru_step op c) = lru_capacity c \<and>
    lru_evictions c \<le> lru_evictions (lru_step op c) \<and>
    (map_of (lru_data c) \<subseteq>\<^sub>m m \<longrightarrow> map_of (lru_data (lru_step op c)) \<subseteq>\<^sub>m map_step op m) \<and>
    (lru_evictions (lru_step op c) = lru_evictions c \<longrightarrow>
      map_of (lru_data (lru_step op c)) = map_step op (map_of (lru_data c)))"
  proof (cases op)
    case (OpSet k v)
    show ?thesis
    proof (cases "k = []")
      case True
      then show ?thesis using assms OpSet by (simp add: lru_set_def)
    next
      case False
      obtain c' where s: "lru_set k v c = Inr c'" using lru_set_data [OF assms False, of v] by blast
      show ?thesis
        using OpSet False s lru_set_ok [OF assms False s] map_le_upd [of "map_of (lru_data c)" m k "Some v"]
        by (auto intro: map_le_trans)
    qed
  next
    case (OpGet k)
    then show ?thesis using lru_get_ok [OF assms, of k] by simp
  next
    case (OpDelete k)
    have "map_of (lru_data c) \<subseteq>\<^sub>m m \<Longrightarrow> (map_of (lru_data c))(k := None) \<subseteq>\<^sub>m m(k := None)" by (rule map_le_upd)
    then show ?thesis using OpDelete lru_delete_ok [OF assms, of k] by simp
  next
    case OpClear
    then show ?thesis using assms by (auto simp: lru_clear_def lru_ok_def intro!: ext)
  qed
  then show "lru_ok (lru_step op c)" and "lru_capacity (lru_step op c) = lru_capacity c"
    and "lru_evictions c \<le> lru_evictions (lru_step op c)"
    and "map_of (lru_data c) \<subseteq>\<^sub>m m \<Longrightarrow> map_of (lru_data (lru_step op c)) \<subseteq>\<^sub>m map_step op m"
    and "lru_evictions (lru_step op c) = lru_evictions c \<Longrightarrow>
      map_of (lru_data (lru_step op c)) = map_step op (map_of (lru_data c))" by blast+
qed

lemma lru_run_ok:
  assumes "lru_ok c"
  shows "lru_ok (fold lru_step ops c)" and "lru_capacity (fold lru_step ops c) = lru_capacity c"
    and "lru_evictions c \<le> lru_evictions (fold lru_step ops c)"
    and "map_of (lru_data c) \<subseteq>\<^sub>m m \<Longrightarrow> map_of (lru_data (fold lru_step ops c)) \<subseteq>\<^sub>m fold map_step ops m"
    and "lru_evictions (fold lru_step ops c) = lru_evictions c \<Longrightarrow>
      map_of (lru_data (fold lru_step ops c)) = fold map_step ops (map_of (lru_data c))"
proof -
  have "lru_ok (fold lru_step ops c) \<and> lru_capacity (fold lru_step ops c) = lru_capacity c \<and>
    lru_evictions c \<le> lru_evictions (fold lru_step ops c) \<and>
    (map_of (lru_data c) \<subseteq>\<^sub>m m \<longrightarrow> map_of (lru_data (fold lru_step ops c)) \<subseteq>\<^sub>m fold map_step ops m) \<and>
    (lru_evictions (fold lru_step ops c) = lru_evictions c \<longrightarrow>
      map_of (lru_data (fold lru_step ops c)) = fold map_step ops (map_of (lru_data c)))"
    using assms
  proof (induction ops arbitrary: c m)
    case (Cons op ops)
    show ?case
      using Cons.IH [of "lru_step op c" "map_step op m"] lru_step_ok(1-3,5) [OF \<open>lru_ok c\<close>, where op = op]
        lru_step_ok(4) [OF \<open>lru_ok c\<close>, where op = op and m = m]
      by auto
  qed simp
  then show "lru_ok (fold lru_step ops c)" and "lru_capacity (fold lru_step ops c) = lru_capacity c"
    and "lru_evictions c \<le> lru_evictions (fold lru_step ops c)"
    and "map_of (lru_data c) \<subseteq>\<^sub>m m \<Longrightarrow> map_of (lru_data (fold lru_step ops c)) \<subseteq>\<^sub>m fold map_step ops m"
    and "lru_evictions (fold lru_step ops c) = lru_evictions c \<Longrightarrow>
      map_of (lru_data (fold lru_step ops c)) = fold map_step ops (map_of (lru_data c))" by blast+
qed

text \<open>
  What was set, least recently set first, as a list that is never cut: an LRU cache that only
  sees \<open>set\<close> holds exactly its last \<open>capacity\<close> pairs.
\<close>

definition touch :: "string \<times> string \<Rightarrow> (string, string) dict \<Rightarrow> (string, string) dict" where
  "touch p u = dict_pop u (fst p) @ [p]"

definition set_all :: "(string \<times> string) list \<Rightarrow> lru \<Rightarrow> lru" where
  "set_all kvs c = fold (\<lambda>(k, v). lru_step (OpSet k v)) kvs c"

lemma dict_pop_append2: "dict_pop (xs @ ys) k = dict_pop xs k @ dict_pop ys k"
  unfolding dict_pop_def by (induction xs) auto

lemma touch_ok: "dict_ok u \<Longrightarrow> dict_ok (touch p u)"
proof -
  assume "dict_ok u"
  then have "dict_ok (dict_pop u (fst p))" "fst p \<notin> fst ` set (dict_pop u (fst p))" by (auto simp del: dict_keys_pop simp: dict_keys_pop [of u])
  then show ?thesis by (simp add: touch_def dict_ok_def)
qed

lemma drop_tail:
  assumes "n \<le> length xs" and "c = length xs - n"
  shows "drop (length (ys @ xs) - c) (ys @ xs) = drop n xs"
  using assms by simp

lemma set_all_recent:
  assumes "lru_ok c" and "dict_ok u" and "lru_data c = drop (length u - nat (lru_capacity c)) u"
    and "list_all (\<lambda>p. fst p \<noteq> []) kvs"
  shows "lru_data (set_all kvs c) = drop (length (fold touch kvs u) - nat (lru_capacity c)) (fold touch kvs u)"
  using assms
proof (induction kvs arbitrary: c u)
  case Nil
  then show ?case by (simp add: set_all_def)
next
  case (Cons p kvs)
  obtain k v where p: "p = (k, v)" by (cases p)
  then have k: "k \<noteq> []" using Cons.prems(4) by simp
  let ?cap = "nat (lru_capacity c)" and ?n = "length u - nat (lru_capacity c)"
  define t where "t = take ?n u"
  define d where "d = drop ?n u"
  have u: "u = t @ d" by (simp add: t_def d_def)
  have data: "lru_data c = d" using Cons.prems(3) by (simp add: d_def)
  have lt: "length t = ?n" by (simp add: t_def)
  have dist: "dict_ok t" "dict_ok d" "fst ` set t \<inter> fst ` set d = {}" using Cons.prems(2) by (auto simp: u dict_ok_def)
  have pos: "0 < ?cap" using Cons.prems(1) by (simp add: lru_ok_def)
  have full: "length d = ?cap" if "t \<noteq> []"
  proof -
    have "0 < length t" using that by simp
    moreover have "length d = length u - ?n" by (simp add: d_def)
    ultimately show ?thesis using lt by linarith
  qed
  obtain c' where s: "lru_set k v c = Inr c'" using lru_set_data [OF Cons.prems(1) k, of v] by blast
  have step: "set_all (p # kvs) c = set_all kvs c'" by (simp add: set_all_def p s)
  note ok = lru_set_ok [OF Cons.prems(1) k s]
  have cap: "int (length d) = lru_capacity c \<longleftrightarrow> length d = ?cap" using Cons.prems(1) by (auto simp: lru_ok_def)
  have "lru_data c' = drop (length (touch p u) - ?cap) (touch p u)"
  proof (cases "k \<in> fst ` set d")
    case True
    then have t: "dict_pop t k = t" using dist by (intro dict_pop_absent) auto
    have "length (dict_pop d k) = length d - 1" using length_dict_pop [OF dist(2), of k] True by simp
    moreover have "length d \<noteq> 0" using True by auto
    moreover have tu: "touch p u = t @ dict_pop d k @ [(k, v)]" by (simp add: touch_def u p dict_pop_append2 t)
    ultimately have "length (touch p u) - ?cap = length t" using lt by (simp add: u)
    then have "drop (length (touch p u) - ?cap) (touch p u) = dict_pop d k @ [(k, v)]" by (simp only: tu) simp
    moreover have "lru_data c' = dict_pop d k @ [(k, v)]"
      using True s lru_set_data [OF Cons.prems(1) k, of v] by (auto simp: data dict_has_iff)
    ultimately show ?thesis by simp
  next
    case False
    then have d: "dict_pop d k = d" by (rule dict_pop_absent)
    have c': "lru_data c' = (if length d = ?cap then tl d @ [(k, v)] else d @ [(k, v)])"
      using False s lru_set_data [OF Cons.prems(1) k, of v] cap by (auto simp: data dict_has_iff)
    have lp: "length (dict_pop t k) = (if k \<in> fst ` set t then length t - 1 else length t)"
      by (rule length_dict_pop [OF dist(1)])
    have tu: "touch p u = dict_pop t k @ d @ [(k, v)]" by (simp add: touch_def u p dict_pop_append2 d)
    show ?thesis
    proof (cases "length d = ?cap")
      case True
      have "length (touch p u) - ?cap = length (dict_pop t k) + 1" using True by (simp add: tu)
      then have "drop (length (touch p u) - ?cap) (touch p u) = drop 1 (d @ [(k, v)])"
        by (simp add: tu)
      moreover have "d \<noteq> []" using True pos by auto
      ultimately show ?thesis using True c' by (cases d) simp_all
    next
      case False
      then have "t = []" using full by blast
      moreover have "length d < ?cap" using False Cons.prems(1) data by (auto simp: lru_ok_def)
      ultimately show ?thesis using False c' by (simp add: tu dict_pop_def)
    qed
  qed
  then have "lru_data (set_all kvs c') = drop (length (fold touch kvs (touch p u)) - nat (lru_capacity c')) (fold touch kvs (touch p u))"
    using Cons.prems(4) by (intro Cons.IH ok(1) touch_ok Cons.prems(2)) (simp_all add: ok(4))
  then show ?case by (simp add: step ok(4))
qed

lemma fold_touch_distinct:
  "distinct (map fst (u @ kvs)) \<Longrightarrow> fold touch kvs u = u @ kvs"
proof (induction kvs arbitrary: u)
  case (Cons p kvs)
  then have "touch p u = u @ [p]" by (simp add: touch_def dict_pop_absent)
  with Cons show ?case by simp
qed simp

lemma lru_new_ok: "lru_new cap = Inr c \<Longrightarrow> lru_ok c \<and> lru_data c = [] \<and> lru_capacity c = cap \<and> lru_evictions c = 0"
  by (auto simp: lru_new_def lru_ok_def split: if_splits)

subsection \<open>Properties of the caches\<close>

text \<open>C18: whatever is done to an LRU cache, it holds at most \<open>capacity\<close> pairs, every pair it shows
  is the one an unbounded map would show, and it shows all of them as long as nothing was
  evicted.\<close>

theorem lru_refines_map:
  assumes "lru_new cap = Inr c"
  shows "int (lru_size (fold lru_step ops c)) \<le> cap \<and>
    map_of (lru_items (fold lru_step ops c)) \<subseteq>\<^sub>m fold map_step ops (\<lambda>k. None) \<and>
    (lru_evictions (fold lru_step ops c) = 0 \<longrightarrow>
     map_of (lru_items (fold lru_step ops c)) = fold map_step ops (\<lambda>k. None))"
proof -
  note c = lru_new_ok [OF assms(1)]
  note r = lru_run_ok [of c, OF conjunct1 [OF c]]
  show ?thesis
    using r(1,2) [of ops] r(4) [of _ ops] r(5) [of ops] c by (simp add: lru_size_def lru_items_def lru_ok_def)
qed

lemma lru_refines_map_witness:
  "int (lru_size (fold lru_step [OpSet ''a'' ''1'', OpSet ''b'' ''2'', OpGet ''a'', OpSet ''c'' ''3'']
     \<lparr>lru_capacity = 2, lru_data = [], lru_evictions = 0\<rparr>)) \<le> 2"
  using lru_refines_map [of 2 "\<lparr>lru_capacity = 2, lru_data = [], lru_evictions = 0\<rparr>"
    "[OpSet ''a'' ''1'', OpSet ''b'' ''2'', OpGet ''a'', OpSet ''c'' ''3'']"]
  by (simp add: lru_new_def)

text \<open>
  The reference for the order: a list of pairs that is never cut, least recently used first. A \<open>set\<close> and a \<open>get\<close> that
  hits move the key to its end; a \<open>get\<close> hits if the key is among the last \<open>cap\<close>. A \<open>delete\<close> and a \<open>clear\<close> also forget the
  pairs that had dropped out, which can not come back.
\<close>

definition recent :: "nat \<Rightarrow> (string, string) dict \<Rightarrow> (string, string) dict" where
  "recent cap u = drop (length u - cap) u"

fun use :: "nat \<Rightarrow> cache_op \<Rightarrow> (string, string) dict \<Rightarrow> (string, string) dict" where
  "use cap (OpSet k v) u = (if k = [] then u else touch (k, v) u)"
| "use cap (OpGet k) u = (case map_of (recent cap u) k of None \<Rightarrow> u | Some v \<Rightarrow> touch (k, v) u)"
| "use cap (OpDelete k) u = dict_pop (recent cap u) k"
| "use cap OpClear u = []"

lemma recent_ok: "dict_ok u \<Longrightarrow> dict_ok (recent cap u)"
  by (simp add: recent_def dict_ok_def drop_map [symmetric])

lemma touch_length:
  "dict_ok u \<Longrightarrow> length (touch p u) = (if fst p \<in> fst ` set u then length u else length u + 1)"
proof -
  assume "dict_ok u"
  from length_dict_pop [OF this, of "fst p"] show ?thesis
    by (cases u) (auto simp: touch_def)
qed

lemma recent_hit:
  assumes u: "dict_ok u" and k: "map_of (recent cap u) k = Some v"
  shows "recent cap (touch (k, v) u) = dict_pop (recent cap u) k @ [(k, v)]"
proof -
  let ?n = "length u - cap"
  define t where "t = take ?n u"
  define d where "d = drop ?n u"
  have td: "u = t @ d" "length t = ?n" "recent cap u = d" by (simp_all add: t_def d_def recent_def)
  have kd: "k \<in> fst ` set d" using k td(3) by (metis map_of_eq_None_iff option.distinct(1))
  then have "k \<notin> fst ` set t" using u td(1) by (auto simp: dict_ok_def)
  then have "touch (k, v) u = t @ dict_pop d k @ [(k, v)]" by (simp add: touch_def td(1) dict_pop_append2 dict_pop_absent)
  moreover have "length (touch (k, v) u) - cap = length t"
    using touch_length [OF u, of "(k, v)"] kd td(1,2) by auto
  ultimately show ?thesis unfolding td(3) by (simp add: recent_def)
qed

lemma lru_step_recent:
  assumes "lru_ok c" and "dict_ok u" and "lru_data c = recent (nat (lru_capacity c)) u"
  shows "lru_data (lru_step op c) = recent (nat (lru_capacity c)) (use (nat (lru_capacity c)) op u) \<and>
    dict_ok (use (nat (lru_capacity c)) op u)"
proof (cases op)
  case (OpSet k v)
  show ?thesis
  proof (cases "k = []")
    case True
    then show ?thesis using assms OpSet by (simp add: lru_set_def)
  next
    case False
    then show ?thesis
      using set_all_recent [OF assms(1,2), of "[(k, v)]"] assms(3) OpSet touch_ok [OF assms(2)]
      by (simp add: recent_def set_all_def)
  qed
next
  case (OpGet k)
  show ?thesis
  proof (cases "map_of (lru_data c) k")
    case None
    then show ?thesis using assms OpGet by (simp add: lru_get_data move_to_end_def)
  next
    case (Some v)
    moreover have "move_to_end (lru_data c) k = dict_pop (lru_data c) k @ [(k, v)]"
      using Some by (simp add: move_to_end_def)
    ultimately show ?thesis
      using assms OpGet recent_hit [OF assms(2), of "nat (lru_capacity c)" k v] touch_ok [OF assms(2)]
      by (simp add: lru_get_data)
  qed
next
  case (OpDelete k)
  have "length (dict_pop (lru_data c) k) \<le> length (lru_data c)" by (simp add: dict_pop_def length_delete_le)
  then have "length (dict_pop (lru_data c) k) \<le> nat (lru_capacity c)" using assms(1) by (simp add: lru_ok_def le_nat_iff)
  then show ?thesis
    using assms OpDelete recent_ok [OF assms(2)]
    by (auto simp: lru_delete_def recent_def [of _ "dict_pop _ _"] dict_has_iff dict_pop_absent)
next
  case OpClear
  then show ?thesis by (simp add: lru_clear_def recent_def)
qed

lemma lru_run_recent:
  assumes "lru_ok c" and "dict_ok u" and "lru_data c = recent (nat (lru_capacity c)) u"
  shows "lru_data (fold lru_step ops c) = recent (nat (lru_capacity c)) (fold (use (nat (lru_capacity c))) ops u)"
  using assms
proof (induction ops arbitrary: c u)
  case (Cons op ops)
  have "lru_capacity (lru_step op c) = lru_capacity c" by (rule lru_step_ok(2) [OF Cons.prems(1)])
  then show ?case
    using Cons.IH [OF lru_step_ok(1) [OF Cons.prems(1)], of "use (nat (lru_capacity c)) op u" op] lru_step_recent [OF Cons.prems, of op]
    by simp
qed simp

text \<open>
  C19: after any sequence of operations an LRU cache holds exactly the \<open>capacity\<close> most recently used pairs, least recent
  first, where both a \<open>set\<close> and a \<open>get\<close> that hits count as a use of the key; and \<open>get\<close> answers exactly what is held.
\<close>

theorem lru_keeps_most_recent:
  assumes "lru_new cap = Inr c"
  shows "lru_items (fold lru_step ops c) = recent (nat cap) (fold (use (nat cap)) ops []) \<and>
    snd (lru_get k (fold lru_step ops c)) = map_of (recent (nat cap) (fold (use (nat cap)) ops [])) k"
  using lru_run_recent [of c "[]" ops] lru_new_ok [OF assms] by (simp add: lru_items_def recent_def lru_get_data)

lemma lru_keeps_most_recent_witness:
  "lru_items (fold lru_step [OpSet ''a'' ''1'', OpSet ''b'' ''2'', OpGet ''a'', OpSet ''c'' ''3'']
     \<lparr>lru_capacity = 2, lru_data = [], lru_evictions = 0\<rparr>) = [(''a'', ''1''), (''c'', ''3'')]"
proof -
  have "lru_new 2 = Inr \<lparr>lru_capacity = 2, lru_data = [], lru_evictions = 0\<rparr>" by (simp add: lru_new_def)
  note lru_keeps_most_recent [OF this, of "[OpSet ''a'' ''1'', OpSet ''b'' ''2'', OpGet ''a'', OpSet ''c'' ''3'']" "[]"]
  then show ?thesis by (simp add: touch_def dict_pop_def recent_def)
qed

text \<open>Re-inserting the items of an LRU cache in their order into a new cache of the same
  capacity rebuilds its contents and its order.\<close>

theorem lru_reload:
  assumes "lru_ok c" and "list_all (\<lambda>p. fst p \<noteq> []) (lru_items c)" and "lru_new (lru_capacity c) = Inr c0"
  shows "lru_items (set_all (lru_items c) c0) = lru_items c"
proof -
  have "fold touch (lru_items c) [] = lru_items c"
    using fold_touch_distinct [of "[]" "lru_items c"] assms(1) by (simp add: lru_ok_def dict_ok_def lru_items_def)
  moreover have "length (lru_items c) \<le> nat (lru_capacity c)" using assms(1) by (simp add: lru_ok_def lru_items_def le_nat_iff)
  ultimately show ?thesis
    using set_all_recent [of c0 "[]" "lru_items c"] lru_new_ok [OF assms(3)] assms(2) by (simp add: lru_items_def)
qed

lemma lru_reload_witness:
  "lru_items (set_all [(''b'', ''2''), (''a'', ''1'')] \<lparr>lru_capacity = 2, lru_data = [], lru_evictions = 0\<rparr>) =
     [(''b'', ''2''), (''a'', ''1'')]"
  using lru_reload [of "\<lparr>lru_capacity = 2, lru_data = [(''b'', ''2''), (''a'', ''1'')], lru_evictions = 3\<rparr>"]
  by (simp add: lru_ok_def dict_ok_def lru_items_def lru_new_def)

end
