(* ===== verification/State_Machine.thy ===== *)
theory State_Machine
  imports Db_Service Cache Raft_Types
begin

section \<open>store/store.py and server/state_machine.py: the replicated data\<close>

text \<open>
  \<open>store\<close> is one user's \<open>Store\<close>, \<open>machine\<close> the \<open>CacheStateMachine\<close> with the database \<open>db\<close> it
  talks to. Every method is an action on the machine: a raise of the database, of \<open>int()\<close> or of an
  unpacking leaves the method where it was raised. A store object is always reached through the
  dictionary \<open>stores\<close>, so that a change of the object is a change of the dictionary's value. The
  locks make each method one step. The clock is the argument \<open>now\<close> (milliseconds).
  \<open>check_password\<close> of Django is a parameter. The results are JSON values: True, False, None, an int.
\<close>

subsection \<open>Store\<close>

record store =
  st_username :: string
  st_hash :: string
  st_cache :: lru
  st_expiry :: "(string, int) dict"

definition new_store :: "string \<Rightarrow> string \<Rightarrow> int \<Rightarrow> py_exn + store" where
  "new_store u h cap =
     map_sum id (\<lambda>c. \<lparr>st_username = u, st_hash = h, st_cache = c, st_expiry = []\<rparr>) (lru_new cap)"

definition store_verify :: "(string \<Rightarrow> string \<Rightarrow> bool) \<Rightarrow> store \<Rightarrow> string \<Rightarrow> bool" where
  "store_verify check_password st pw = check_password pw (st_hash st)"

text \<open>\<open>store.cache.set(key, value)\<close>, which raises for an empty key.\<close>

definition store_set :: "string \<Rightarrow> string \<Rightarrow> store \<Rightarrow> py_exn + store" where
  "store_set k v st = map_sum id (\<lambda>c. st\<lparr>st_cache := c\<rparr>) (lru_set k v (st_cache st))"

text \<open>\<open>store.expiry.pop(key, None)\<close>, or \<open>store.expiry[key] = expire_at\<close>.\<close>

definition store_expire :: "string \<Rightarrow> int option \<Rightarrow> store \<Rightarrow> store" where
  "store_expire k exp st =
     st\<lparr>st_expiry := (case exp of None \<Rightarrow> dict_pop (st_expiry st) k | Some t \<Rightarrow> dict_set (st_expiry st) k t)\<rparr>"

subsection \<open>The machine\<close>

record 'd machine =
  use_db :: bool
  capacity :: int
  stores :: "(string, store) dict"
  sessions :: "(string, int \<times> json \<times> int) dict"
  db :: 'd

definition new_machine :: "bool \<Rightarrow> int \<Rightarrow> 'd \<Rightarrow> 'd machine" where
  "new_machine udb cap d = \<lparr>use_db = udb, capacity = cap, stores = [], sessions = [], db = d\<rparr>"

definition on_db :: "('d, 'a) act \<Rightarrow> ('d machine, 'a) act" where
  "on_db m = on_part db (\<lambda>d s. s\<lparr>db := d\<rparr>) m"

definition put_store :: "string \<Rightarrow> store \<Rightarrow> ('d machine, unit) act" where
  "put_store u st = modify (\<lambda>s. s\<lparr>stores := dict_set (stores s) u st\<rparr>)"

definition max_sessions :: nat where
  "max_sessions = 10000"

definition expired :: "int option \<Rightarrow> int \<Rightarrow> bool" where
  "expired exp at_ms = (case exp of None \<Rightarrow> False | Some t \<Rightarrow> t \<le> at_ms)"

definition parse_request_id :: "string \<Rightarrow> py_exn + string \<times> int" where
  "parse_request_id rid =
     (let (client, _, seq) = str_rpartition (CHR '':'') rid
      in map_sum id (Pair client) (py_int seq))"

subsection \<open>Loading from the database\<close>

text \<open>\<open>for key, value in entries.items(): store.cache.set(key, value)\<close>.\<close>

fun warm :: "(string \<times> string) list \<Rightarrow> store \<Rightarrow> py_exn + store" where
  "warm [] st = Inr st"
| "warm ((k, v) # kvs) st = (case store_set k v st of Inl e \<Rightarrow> Inl e | Inr st1 \<Rightarrow> warm kvs st1)"

definition load_store :: "'d orm \<Rightarrow> string \<Rightarrow> string \<Rightarrow> int \<Rightarrow> ('d, store) act" where
  "load_store D u h cap =
     bind (of_sum (new_store u h cap)) (\<lambda>st.
     bind (get_all_entries D u (Some cap)) (\<lambda>entries.
     bind (of_sum (warm entries st)) (\<lambda>st1.
     bind (get_expiries D u) (\<lambda>exps.
       ret (st1\<lparr>st_expiry := filter (\<lambda>(k, _). dict_has entries k) exps\<rparr>)))))"

fun load_stores :: "'d orm \<Rightarrow> int \<Rightarrow> (string \<times> string) list \<Rightarrow> ('d, (string, store) dict) act" where
  "load_stores D cap [] = ret []"
| "load_stores D cap ((u, h) # us) =
     bind (load_store D u h cap) (\<lambda>st.
     bind (load_stores D cap us) (\<lambda>sts. ret ((u, st) # sts)))"

fun read_sessions :: "(string \<times> int \<times> string \<times> int) list \<Rightarrow> py_exn + (string, int \<times> json \<times> int) dict" where
  "read_sessions [] = Inr []"
| "read_sessions ((c, seq, r, i) # rows) =
     (case loads r of
        Inl e \<Rightarrow> Inl e
      | Inr j \<Rightarrow> map_sum id (\<lambda>d. (c, seq, j, i) # d) (read_sessions rows))"

text \<open>
  \<open>load_from_db\<close>; any exception is a \<open>StateLoadError\<close>, and the machine is only changed at the
  end. User names and client ids are unique columns, so no row overwrites another.
\<close>

definition load_from_db :: "'d orm \<Rightarrow> ('d machine, unit) act" where
  "load_from_db D =
     bind get_st (\<lambda>s.
     bind (on_db (load_all_users D)) (\<lambda>us.
     bind (on_db (load_stores D (capacity s) us)) (\<lambda>sts.
     bind (on_db (load_sessions D)) (\<lambda>rows.
     bind (of_sum (read_sessions rows)) (\<lambda>ss.
       modify (\<lambda>s. s\<lparr>stores := sts, sessions := ss\<rparr>))))))"

definition load_user_from_db :: "'d orm \<Rightarrow> string \<Rightarrow> ('d machine, store option) act" where
  "load_user_from_db D u =
     bind get_st (\<lambda>s.
     bind (on_db (get_user D u)) (\<lambda>row.
       case row of
         None \<Rightarrow> ret None
       | Some h \<Rightarrow>
           bind (on_db (load_store D u h (capacity s))) (\<lambda>st.
           bind get_st (\<lambda>s1.
             case map_of (stores s1) u of
               Some st1 \<Rightarrow> ret (Some st1)
             | None \<Rightarrow> bind (put_store u st) (\<lambda>_. ret (Some st))))))"

definition get_store :: "'d orm \<Rightarrow> string \<Rightarrow> ('d machine, store option) act" where
  "get_store D u =
     bind get_st (\<lambda>s.
       case map_of (stores s) u of
         Some st \<Rightarrow> ret (Some st)
       | None \<Rightarrow> if use_db s then load_user_from_db D u else ret None)"

text \<open>\<open>_lookup\<close>: value and expiry from RAM, or from the database, which warms RAM again.\<close>

definition lookup :: "'d orm \<Rightarrow> store \<Rightarrow> string \<Rightarrow> string \<Rightarrow> ('d machine, (string \<times> int option) option) act" where
  "lookup D st u k =
     bind get_st (\<lambda>s.
       case lru_get k (st_cache st) of
         (c, Some v) \<Rightarrow>
           bind (put_store u (st\<lparr>st_cache := c\<rparr>)) (\<lambda>_. ret (Some (v, map_of (st_expiry st) k)))
       | (c, None) \<Rightarrow>
           if \<not> use_db s then ret None
           else
             bind (on_db (get_entry_with_expiry D u k)) (\<lambda>r.
               case r of
                 None \<Rightarrow> ret None
               | Some (v, exp) \<Rightarrow>
                   bind (of_sum (store_set k v (st\<lparr>st_cache := c\<rparr>))) (\<lambda>st1.
                   bind (put_store u (store_expire k exp st1)) (\<lambda>_. ret (Some (v, exp))))))"

subsection \<open>Reads\<close>

definition user_exists :: "'d orm \<Rightarrow> string \<Rightarrow> ('d machine, bool) act" where
  "user_exists D u = bind (get_store D u) (\<lambda>st. ret (st \<noteq> None))"

definition verify_password ::
  "'d orm \<Rightarrow> (string \<Rightarrow> string \<Rightarrow> bool) \<Rightarrow> string \<Rightarrow> string \<Rightarrow> ('d machine, bool) act" where
  "verify_password D check_password u pw =
     bind (get_store D u) (\<lambda>st.
       ret (case st of None \<Rightarrow> False | Some x \<Rightarrow> store_verify check_password x pw))"

text \<open>\<open>get\<close> with its optional time \<open>at_ms\<close>; a time of 0 counts as not given.\<close>

definition sm_get :: "'d orm \<Rightarrow> int \<Rightarrow> string \<Rightarrow> string \<Rightarrow> int option \<Rightarrow> ('d machine, string option) act" where
  "sm_get D now u k at_ms =
     bind (get_store D u) (\<lambda>st.
       case st of
         None \<Rightarrow> ret None
       | Some x \<Rightarrow>
           bind (lookup D x u k) (\<lambda>item.
             ret (case item of
                    None \<Rightarrow> None
                  | Some (v, exp) \<Rightarrow>
                      if expired exp (case at_ms of None \<Rightarrow> now | Some t \<Rightarrow> if t = 0 then now else t)
                      then None else Some v)))"

definition sm_has :: "'d orm \<Rightarrow> int \<Rightarrow> string \<Rightarrow> string \<Rightarrow> ('d machine, bool) act" where
  "sm_has D now u k = bind (sm_get D now u k None) (\<lambda>v. ret (v \<noteq> None))"

definition sm_ttl :: "'d orm \<Rightarrow> int \<Rightarrow> string \<Rightarrow> string \<Rightarrow> ('d machine, int) act" where
  "sm_ttl D now u k =
     bind (get_store D u) (\<lambda>st.
     bind (case st of None \<Rightarrow> ret None | Some x \<Rightarrow> lookup D x u k) (\<lambda>item.
       ret (case item of
              None \<Rightarrow> - 2
            | Some (v, exp) \<Rightarrow>
                if expired exp now then - 2
                else case exp of None \<Rightarrow> - 1 | Some t \<Rightarrow> - ((- (t - now)) div 1000))))"

text \<open>
  \<open>fnmatch.fnmatchcase\<close>: \<open>*\<close> matches any text, \<open>?\<close> one character, \<open>[...]\<close> a set of characters
  and ranges, negated after \<open>!\<close>; a \<open>[\<close> that is never closed stands for itself.
\<close>

fun in_ranges :: "string \<Rightarrow> char \<Rightarrow> bool" where
  "in_ranges (a # b # c # cs) x =
     (if b = CHR ''-'' then ((of_char a :: nat) \<le> of_char x \<and> (of_char x :: nat) \<le> of_char c) \<or> in_ranges cs x
      else a = x \<or> in_ranges (b # c # cs) x)"
| "in_ranges [a, b] x = (a = x \<or> b = x)"
| "in_ranges [a] x = (a = x)"
| "in_ranges [] x = False"

text \<open>The body of a bracket expression and what follows it; the first character is never the end.\<close>

definition bracket :: "string \<Rightarrow> (string \<times> string) option" where
  "bracket p =
     (let neg = (p \<noteq> [] \<and> hd p = CHR ''!''); q = (if neg then tl p else p);
          lead = take 1 q; rest = drop 1 q
      in if CHR '']'' \<in> set rest
         then Some ((if neg then [CHR ''!''] else []) @ lead @ takeWhile (\<lambda>x. x \<noteq> CHR '']'') rest,
                    drop 1 (dropWhile (\<lambda>x. x \<noteq> CHR '']'') rest))
         else None)"

definition in_bracket :: "string \<Rightarrow> char \<Rightarrow> bool" where
  "in_bracket body x =
     (if body \<noteq> [] \<and> hd body = CHR ''!'' then \<not> in_ranges (tl body) x else in_ranges body x)"

lemma bracket_shorter: "bracket p = Some (b, q) \<Longrightarrow> length q < Suc (length p)"
proof -
  have "length (drop 1 (dropWhile P (drop 1 xs))) \<le> length (xs :: string)" for P xs
    using length_dropWhile_le [of P "drop 1 xs"] by simp
  note n = this
  assume b: "bracket p = Some (b, q)"
  define xs where "xs = (if p \<noteq> [] \<and> hd p = CHR ''!'' then tl p else p)"
  have "q = drop 1 (dropWhile (\<lambda>x. x \<noteq> CHR '']'') (drop 1 xs))"
    using b by (auto simp: bracket_def Let_def xs_def split: if_splits)
  then have "length q \<le> length xs" using n by simp
  moreover have "length xs \<le> length p" by (simp add: xs_def)
  ultimately show ?thesis by simp
qed

function glob :: "string \<Rightarrow> string \<Rightarrow> bool" where
  "glob [] s = (s = [])"
| "glob (c # p) s =
     (if c = CHR ''*'' then glob p s \<or> (case s of [] \<Rightarrow> False | x # xs \<Rightarrow> glob (c # p) xs)
      else case s of
             [] \<Rightarrow> False
           | x # xs \<Rightarrow>
               if c = CHR ''?'' then glob p xs
               else if c = CHR ''['' then
                 (case bracket p of
                    None \<Rightarrow> x = c \<and> glob p xs
                  | Some (body, q) \<Rightarrow> in_bracket body x \<and> glob q xs)
               else x = c \<and> glob p xs)"
  by pat_completeness auto
termination
  by (relation "measure (\<lambda>(p, s). length p + length s)") (auto dest: bracket_shorter)

text \<open>\<open>keys\<close>: the live keys, sorted; an empty pattern counts as none.\<close>

definition sm_keys :: "'d orm \<Rightarrow> int \<Rightarrow> string \<Rightarrow> string option \<Rightarrow> ('d machine, string list) act" where
  "sm_keys D now u pattern =
     bind (get_store D u) (\<lambda>st.
       case st of
         None \<Rightarrow> ret []
       | Some x \<Rightarrow>
           bind get_st (\<lambda>s.
           bind (if use_db s then on_db (list_keys D u now)
                 else ret (sort_strings (filter (\<lambda>k. \<not> expired (map_of (st_expiry x) k) now)
                                           (map fst (lru_items (st_cache x)))))) (\<lambda>names.
             ret (case pattern of
                    None \<Rightarrow> names
                  | Some p \<Rightarrow> if p = [] then names else filter (glob p) names))))"

fun min_list_opt :: "int list \<Rightarrow> int option" where
  "min_list_opt [] = None"
| "min_list_opt (x # xs) = (case min_list_opt xs of None \<Rightarrow> Some x | Some y \<Rightarrow> Some (min x y))"

definition sm_next_expiry :: "'d orm \<Rightarrow> ('d machine, int option) act" where
  "sm_next_expiry D =
     bind get_st (\<lambda>s.
       if use_db s then on_db (db_next_expiry D)
       else ret (min_list_opt (concat (map (\<lambda>st. dict_values (st_expiry st)) (dict_values (stores s))))))"

definition session_result :: "string \<Rightarrow> ('d machine, json) act" where
  "session_result rid =
     bind (of_sum (parse_request_id rid)) (\<lambda>(c, seq).
     bind get_st (\<lambda>s.
       ret (case map_of (sessions s) c of
              Some (q, r, i) \<Rightarrow> if q = seq then r else JNull
            | None \<Rightarrow> JNull)))"

subsection \<open>Writes\<close>

definition apply_signup :: "'d orm \<Rightarrow> string \<Rightarrow> string \<Rightarrow> ('d machine, bool) act" where
  "apply_signup D u h =
     bind (get_store D u) (\<lambda>st.
       if st \<noteq> None then ret False
       else
         bind get_st (\<lambda>s.
         bind (if use_db s then on_db (save_user D u h) else ret ()) (\<lambda>_.
         bind (of_sum (new_store u h (capacity s))) (\<lambda>st1.
         bind (put_store u st1) (\<lambda>_. ret True)))))"

definition apply_set :: "'d orm \<Rightarrow> string \<Rightarrow> string \<Rightarrow> string \<Rightarrow> int option \<Rightarrow> ('d machine, bool) act" where
  "apply_set D u k v exp =
     bind (get_store D u) (\<lambda>st.
       case st of
         None \<Rightarrow> ret False
       | Some x \<Rightarrow>
           bind get_st (\<lambda>s.
           bind (if use_db s then on_db (save_entry D u k v exp) else ret ()) (\<lambda>_.
           bind (of_sum (store_set k v x)) (\<lambda>x1.
           bind (put_store u (store_expire k exp x1)) (\<lambda>_. ret True)))))"

text \<open>The store a user has now; \<open>lookup\<close> may have changed the object.\<close>

definition change_store :: "string \<Rightarrow> (store \<Rightarrow> store) \<Rightarrow> ('d machine, unit) act" where
  "change_store u f =
     modify (\<lambda>s. case map_of (stores s) u of None \<Rightarrow> s | Some x \<Rightarrow> s\<lparr>stores := dict_set (stores s) u (f x)\<rparr>)"

definition apply_delete :: "'d orm \<Rightarrow> string \<Rightarrow> string \<Rightarrow> int option \<Rightarrow> ('d machine, bool) act" where
  "apply_delete D u k at_ms =
     bind (get_store D u) (\<lambda>st.
       case st of
         None \<Rightarrow> ret False
       | Some x \<Rightarrow>
           bind (lookup D x u k) (\<lambda>item.
           bind get_st (\<lambda>s.
           bind (if use_db s then bind (on_db (delete_entry D u k)) (\<lambda>_. ret ()) else ret ()) (\<lambda>_.
           bind (change_store u (\<lambda>y. store_expire k None (y\<lparr>st_cache := fst (lru_delete k (st_cache y))\<rparr>))) (\<lambda>_.
             ret (case item of
                    None \<Rightarrow> False
                  | Some (v, exp) \<Rightarrow> \<not> (case at_ms of None \<Rightarrow> False | Some t \<Rightarrow> expired exp t)))))))"

definition apply_expiry :: "'d orm \<Rightarrow> string \<Rightarrow> string \<Rightarrow> int option \<Rightarrow> int \<Rightarrow> ('d machine, bool) act" where
  "apply_expiry D u k exp at_ms =
     bind (get_store D u) (\<lambda>st.
       case st of
         None \<Rightarrow> ret False
       | Some x \<Rightarrow>
           bind (lookup D x u k) (\<lambda>item.
             case item of
               None \<Rightarrow> ret False
             | Some (v, old) \<Rightarrow>
                 if expired old at_ms then ret False
                 else if exp = None \<and> old = None then ret False
                 else
                   bind get_st (\<lambda>s.
                   bind (if use_db s then bind (on_db (set_expiry D u k exp)) (\<lambda>_. ret ()) else ret ()) (\<lambda>_.
                   bind (change_store u (store_expire k exp)) (\<lambda>_. ret True)))))"

text \<open>The sweep of one store, and how many cached keys it deleted.\<close>

fun sweep_keys :: "int \<Rightarrow> (string \<times> int) list \<Rightarrow> store \<Rightarrow> store \<times> nat" where
  "sweep_keys now [] st = (st, 0)"
| "sweep_keys now ((k, t) # kts) st =
     (if t \<le> now
      then
        let (c, gone) = lru_delete k (st_cache st);
            (st1, n) = sweep_keys now kts (st\<lparr>st_expiry := dict_pop (st_expiry st) k, st_cache := c\<rparr>)
        in (st1, (if gone then 1 else 0) + n)
      else sweep_keys now kts st)"

definition sweep_store :: "int \<Rightarrow> store \<Rightarrow> store \<times> nat" where
  "sweep_store now st = sweep_keys now (st_expiry st) st"

definition apply_sweep :: "'d orm \<Rightarrow> int \<Rightarrow> ('d machine, nat) act" where
  "apply_sweep D now =
     bind get_st (\<lambda>s.
     bind (if use_db s then on_db (delete_expired D now) else ret 0) (\<lambda>removed.
     bind get_st (\<lambda>s1.
     bind (modify (\<lambda>s. s\<lparr>stores := map (\<lambda>(u, st). (u, fst (sweep_store now st))) (stores s)\<rparr>)) (\<lambda>_.
       ret (if use_db s then removed
            else sum_list (map (\<lambda>(u, st). snd (sweep_store now st)) (stores s1)))))))"

subsection \<open>Applying a log entry\<close>

definition apply_command :: "'d orm \<Rightarrow> log_entry \<Rightarrow> ('d machine, json) act" where
  "apply_command D x =
     (let (verb, _, rest) = str_partition (CHR '' '') (e_command x); u = e_username x
      in if verb = ''SIGNUP'' then bind (apply_signup D u rest) (\<lambda>b. ret (JBool b))
         else if verb = ''SET'' then
           (let (k, _, v) = str_partition (CHR '' '') rest
            in bind (apply_set D u k v None) (\<lambda>b. ret (JBool b)))
         else if verb = ''SETEX'' then
           (case str_split_max 2 (CHR '' '') rest of
              [k, exp, v] \<Rightarrow>
                bind (of_sum (py_int exp)) (\<lambda>t. bind (apply_set D u k v (Some t)) (\<lambda>b. ret (JBool b)))
            | _ \<Rightarrow> throw ValueError)
         else if verb = ''DELETE'' then
           (let (k, _, now) = str_partition (CHR '' '') rest
            in bind (if now = [] then ret None else bind (of_sum (py_int now)) (\<lambda>t. ret (Some t))) (\<lambda>at_ms.
               bind (apply_delete D u k at_ms) (\<lambda>b. ret (JBool b))))
         else if verb = ''EXPIREAT'' then
           (case str_split (CHR '' '') rest of
              [k, exp, now] \<Rightarrow>
                bind (of_sum (py_int exp)) (\<lambda>t.
                bind (of_sum (py_int now)) (\<lambda>n.
                bind (apply_expiry D u k (Some t) n) (\<lambda>b. ret (JBool b))))
            | _ \<Rightarrow> throw ValueError)
         else if verb = ''PERSIST'' then
           (case str_split (CHR '' '') rest of
              [k, now] \<Rightarrow>
                bind (of_sum (py_int now)) (\<lambda>n. bind (apply_expiry D u k None n) (\<lambda>b. ret (JBool b)))
            | _ \<Rightarrow> throw ValueError)
         else if verb = ''SWEEP'' then
           bind (of_sum (py_int rest)) (\<lambda>n. bind (apply_sweep D n) (\<lambda>r. ret (JInt (int r))))
         else ret JNull)"

subsection \<open>Sessions\<close>

text \<open>\<open>_check_session\<close>: \<open>None\<close> is \<open>_MISS\<close>, a new request; \<open>Some r\<close> the answer to a duplicate.\<close>

definition check_session :: "string \<Rightarrow> ('d machine, json option) act" where
  "check_session rid =
     bind (of_sum (parse_request_id rid)) (\<lambda>(c, seq).
     bind get_st (\<lambda>s.
       ret (case map_of (sessions s) c of
              None \<Rightarrow> None
            | Some (q, r, i) \<Rightarrow> if seq > q then None else if seq = q then Some r else Some JNull)))"

text \<open>The session used longest ago: the first one with the least log index.\<close>

fun oldest_session :: "(string, int \<times> json \<times> int) dict \<Rightarrow> string option" where
  "oldest_session [] = None"
| "oldest_session [(c, s)] = Some c"
| "oldest_session ((c, s) # (c', s') # rest) =
     (if snd (snd s') < snd (snd s) then oldest_session ((c', s') # rest) else oldest_session ((c, s) # rest))"

text \<open>RAM first, then the database.\<close>

definition record_session :: "'d orm \<Rightarrow> string \<Rightarrow> json \<Rightarrow> int \<Rightarrow> ('d machine, unit) act" where
  "record_session D rid result i =
     bind (of_sum (parse_request_id rid)) (\<lambda>(c, seq).
     bind (modify (\<lambda>s. s\<lparr>sessions := dict_set (sessions s) c (seq, result, i)\<rparr>)) (\<lambda>_.
     bind get_st (\<lambda>s.
       let evict = (if length (sessions s) > max_sessions then oldest_session (sessions s) else None)
       in bind (modify (\<lambda>s. case evict of None \<Rightarrow> s | Some o1 \<Rightarrow> s\<lparr>sessions := dict_pop (sessions s) o1\<rparr>)) (\<lambda>_.
          if \<not> use_db s then ret ()
          else
            bind (on_db (save_session D c seq (dumps result) i)) (\<lambda>_.
              case evict of
                None \<Rightarrow> ret ()
              | Some o1 \<Rightarrow> if o1 = [] then ret () else on_db (delete_session D o1))))))"

definition apply_entry :: "'d orm \<Rightarrow> log_entry \<Rightarrow> ('d machine, json) act" where
  "apply_entry D x =
     bind (if e_request_id x \<noteq> [] then check_session (e_request_id x) else ret None) (\<lambda>cached.
       case cached of
         Some r \<Rightarrow> ret r
       | None \<Rightarrow>
           bind (apply_command D x) (\<lambda>result.
           bind (if e_request_id x \<noteq> [] then record_session D (e_request_id x) result (e_index x) else ret ()) (\<lambda>_.
             ret result)))"

subsection \<open>Snapshots\<close>

definition sm_snapshot :: "'d orm \<Rightarrow> ('d machine, string) act" where
  "sm_snapshot D =
     bind get_st (\<lambda>s.
       if use_db s then on_db (dump_to D)
       else ret (concat (map (\<lambda>(u, st). user_line (st_username st) (st_hash st)) (stores s)) @
                 concat (concat (map (\<lambda>(u, st).
                   map (\<lambda>(k, v). entry_line (st_username st) k v (map_of (st_expiry st) k)) (lru_items (st_cache st)))
                   (stores s))) @
                 concat (map (\<lambda>(c, seq, r, i). session_line c seq (dumps r) i) (sessions s))))"

text \<open>One row of a snapshot, into the stores and sessions built so far.\<close>

type_synonym ram = "(string, store) dict \<times> (string, int \<times> json \<times> int) dict"

definition restore_row :: "int \<Rightarrow> row \<Rightarrow> ram \<Rightarrow> py_exn + ram" where
  "restore_row cap r rs =
     (let (sts, ss) = rs
      in case r of
           UserRow u h \<Rightarrow> map_sum id (\<lambda>st. (dict_set sts u st, ss)) (new_store u h cap)
         | EntryRow u k v exp \<Rightarrow>
             (case map_of sts u of
                None \<Rightarrow> Inl KeyError
              | Some st \<Rightarrow>
                  map_sum id (\<lambda>st1. (dict_set sts u (if exp = None then st1 else store_expire k exp st1), ss))
                    (store_set k v st))
         | SessionRow c seq res i \<Rightarrow>
             map_sum id (\<lambda>j. (sts, dict_set ss c (seq, j, i))) (loads res)
         | OtherRow \<Rightarrow> Inr rs)"

fun restore_lines :: "int \<Rightarrow> string list \<Rightarrow> ram \<Rightarrow> py_exn + ram" where
  "restore_lines cap [] rs = Inr rs"
| "restore_lines cap (l # ls) rs =
     (case read_line l of
        Inl e \<Rightarrow> Inl e
      | Inr r \<Rightarrow> (case restore_row cap r rs of Inl e \<Rightarrow> Inl e | Inr rs1 \<Rightarrow> restore_lines cap ls rs1))"

definition sm_restore :: "'d orm \<Rightarrow> string \<Rightarrow> ('d machine, unit) act" where
  "sm_restore D content =
     bind get_st (\<lambda>s.
       if use_db s then bind (on_db (replace_from D content)) (\<lambda>_. load_from_db D)
       else
         bind (of_sum (restore_lines (capacity s) (file_lines content) ([], []))) (\<lambda>(sts, ss).
           modify (\<lambda>s. s\<lparr>stores := sts, sessions := ss\<rparr>)))"

end
