(* ===== verification/Sm_Database.thy ===== *)
theory Sm_Database
  imports State_Machine
begin

section \<open>The state machine over the database\<close>

text \<open>
  With \<open>use_db\<close>, the rows of the database are the truth and the stores in RAM a cache of a part
  of them. \<open>db_ok\<close> is the coherence of the two, seen through a view of the rows as \<open>tables\<close>;
  \<open>spec_cmd\<close> is a command's effect on the tables alone. Every action keeps \<open>db_ok\<close>, also when a
  query raises, and a command that returns has the effect and the result of \<open>spec_cmd\<close>: neither
  depends on what the LRU caches hold.
\<close>

subsection \<open>Commands\<close>

datatype command =
    Signup string
  | SetKey string string "int option"
  | DeleteKey string "int option"
  | ExpireKey string "int option" int
  | Sweep int
  | Unknown

definition parse_command :: "string \<Rightarrow> py_exn + command" where
  "parse_command cmd =
     (let (verb, _, rest) = str_partition (CHR '' '') cmd
      in if verb = ''SIGNUP'' then Inr (Signup rest)
         else if verb = ''SET'' then (let (k, _, v) = str_partition (CHR '' '') rest in Inr (SetKey k v None))
         else if verb = ''SETEX'' then
           (case str_split_max 2 (CHR '' '') rest of
              [k, exp, v] \<Rightarrow> map_sum id (\<lambda>t. SetKey k v (Some t)) (py_int exp)
            | _ \<Rightarrow> Inl ValueError)
         else if verb = ''DELETE'' then
           (let (k, _, now) = str_partition (CHR '' '') rest
            in if now = [] then Inr (DeleteKey k None) else map_sum id (\<lambda>t. DeleteKey k (Some t)) (py_int now))
         else if verb = ''EXPIREAT'' then
           (case str_split (CHR '' '') rest of
              [k, exp, now] \<Rightarrow>
                (case py_int exp of Inl e \<Rightarrow> Inl e | Inr t \<Rightarrow> map_sum id (ExpireKey k (Some t)) (py_int now))
            | _ \<Rightarrow> Inl ValueError)
         else if verb = ''PERSIST'' then
           (case str_split (CHR '' '') rest of
              [k, now] \<Rightarrow> map_sum id (ExpireKey k None) (py_int now)
            | _ \<Rightarrow> Inl ValueError)
         else if verb = ''SWEEP'' then map_sum id Sweep (py_int rest)
         else Inr Unknown)"

fun run_command :: "'d orm \<Rightarrow> string \<Rightarrow> command \<Rightarrow> ('d machine, json) act" where
  "run_command D u (Signup h) = bind (apply_signup D u h) (\<lambda>b. ret (JBool b))"
| "run_command D u (SetKey k v exp) = bind (apply_set D u k v exp) (\<lambda>b. ret (JBool b))"
| "run_command D u (DeleteKey k at_ms) = bind (apply_delete D u k at_ms) (\<lambda>b. ret (JBool b))"
| "run_command D u (ExpireKey k exp now) = bind (apply_expiry D u k exp now) (\<lambda>b. ret (JBool b))"
| "run_command D u (Sweep now) = bind (apply_sweep D now) (\<lambda>n. ret (JInt (int n)))"
| "run_command D u Unknown = ret JNull"

lemma of_sum_simps [simp]: "of_sum (Inr x) = ret x" "of_sum (Inl e) = throw e"
  by (rule ext, simp add: of_sum_def ret_def throw_def)+

lemma bind_of_sum_map [simp]: "bind (of_sum (map_sum id f r)) g = bind (of_sum r) (\<lambda>x. g (f x))"
  by (cases r) simp_all

lemma bind_of_sum_case [simp]:
  "bind (of_sum (case r of Inl e \<Rightarrow> Inl e | Inr x \<Rightarrow> f x)) g = bind (of_sum r) (\<lambda>x. bind (of_sum (f x)) g)"
  by (cases r) simp_all

lemma bind_assoc [simp]: "bind (bind m f) g = bind m (\<lambda>x. bind (f x) g)"
  by (rule ext) (simp add: bind_def split: prod.split sum.split)

lemma apply_command_parse:
  "apply_command D x = bind (of_sum (parse_command (e_command x))) (run_command D (e_username x))"
  by (simp add: apply_command_def parse_command_def Let_def split: prod.split list.split sum.split)

subsection \<open>The effect on the tables\<close>

definition spec_lookup :: "tables \<Rightarrow> string \<Rightarrow> string \<Rightarrow> (string \<times> int option) option" where
  "spec_lookup T u k = t_entries T (u, k)"

fun spec_cmd :: "string \<Rightarrow> command \<Rightarrow> tables \<Rightarrow> json \<times> tables" where
  "spec_cmd u (Signup h) T =
     (if t_users T u \<noteq> None then (JBool False, T) else (JBool True, T\<lparr>t_users := (t_users T)(u \<mapsto> h)\<rparr>))"
| "spec_cmd u (SetKey k v exp) T =
     (if t_users T u = None then (JBool False, T)
      else (JBool True, T\<lparr>t_entries := (t_entries T)((u, k) \<mapsto> (v, exp))\<rparr>))"
| "spec_cmd u (DeleteKey k at_ms) T =
     (if t_users T u = None then (JBool False, T)
      else (JBool (case t_entries T (u, k) of None \<Rightarrow> False
                   | Some (v, exp) \<Rightarrow> \<not> (case at_ms of None \<Rightarrow> False | Some t \<Rightarrow> expired exp t)),
            T\<lparr>t_entries := (t_entries T)((u, k) := None)\<rparr>))"
| "spec_cmd u (ExpireKey k exp now) T =
     (if t_users T u = None then (JBool False, T)
      else case t_entries T (u, k) of
             None \<Rightarrow> (JBool False, T)
           | Some (v, old) \<Rightarrow>
               if expired old now \<or> (exp = None \<and> old = None) then (JBool False, T)
               else (JBool True, T\<lparr>t_entries := (t_entries T)((u, k) \<mapsto> (v, exp))\<rparr>))"
| "spec_cmd u (Sweep now) T =
     (JInt (int (card {p. expired_at now (t_entries T p)})),
      T\<lparr>t_entries := (\<lambda>p. if expired_at now (t_entries T p) then None else t_entries T p)\<rparr>)"
| "spec_cmd u Unknown T = (JNull, T)"

subsection \<open>Coherence of RAM and the tables\<close>

definition seen :: "('d \<Rightarrow> tables) \<Rightarrow> 'd machine \<Rightarrow> tables machine" where
  "seen view s = \<lparr>use_db = use_db s, capacity = capacity s, stores = stores s, sessions = sessions s,
     db = view (db s)\<rparr>"

definition store_ok :: "tables \<Rightarrow> string \<Rightarrow> store \<Rightarrow> bool" where
  "store_ok T u st =
     (t_users T u = Some (st_hash st) \<and> st_username st = u \<and> lru_ok (st_cache st) \<and> dict_ok (st_expiry st) \<and>
      map_of (lru_data (st_cache st)) [] = None \<and>
      (\<forall>k v. map_of (lru_data (st_cache st)) k = Some v \<longrightarrow>
         t_entries T (u, k) = Some (v, map_of (st_expiry st) k)))"

definition db_ok :: "tables machine \<Rightarrow> bool" where
  "db_ok s = (use_db s \<and> 0 < capacity s \<and> dict_ok (stores s) \<and>
     (\<forall>u st. map_of (stores s) u = Some st \<longrightarrow> store_ok (db s) u st))"

subsection \<open>Reasoning about actions\<close>

text \<open>\<open>runs\<close>: started where the machine is seen as \<open>t\<close>, a result satisfies \<open>Q\<close>, an exception \<open>E\<close>.\<close>

definition runs ::
  "('d \<Rightarrow> tables) \<Rightarrow> ('d machine, 'a) act \<Rightarrow> tables machine \<Rightarrow>
   ('a \<Rightarrow> tables machine \<Rightarrow> bool) \<Rightarrow> (tables machine \<Rightarrow> bool) \<Rightarrow> bool" where
  "runs view m t Q E =
     (\<forall>s. seen view s = t \<longrightarrow>
        (case m s of (Inr x, s') \<Rightarrow> Q x (seen view s') | (Inl e, s') \<Rightarrow> E (seen view s')))"

lemma runs_ret [simp]: "Q x t \<Longrightarrow> runs view (ret x) t Q E"
  by (simp add: runs_def ret_def)

lemma runs_throw [simp]: "E t \<Longrightarrow> runs view (throw e) t Q E"
  by (simp add: runs_def throw_def)

lemma runs_bind:
  assumes "runs view m t Q' E" and "\<And>x t'. Q' x t' \<Longrightarrow> runs view (f x) t' Q E"
  shows "runs view (bind m f) t Q E"
  unfolding runs_def
proof (intro allI impI)
  fix s assume s: "seen view s = t"
  obtain r s1 where m: "m s = (r, s1)" by (cases "m s")
  show "case bind m f s of (Inr x, s') \<Rightarrow> Q x (seen view s') | (Inl e, s') \<Rightarrow> E (seen view s')"
  proof (cases r)
    case (Inl e)
    then show ?thesis using assms(1) s m unfolding runs_def by (auto simp: bind_def)
  next
    case (Inr x)
    then have "Q' x (seen view s1)" using assms(1) s m unfolding runs_def by fastforce
    then have "runs view (f x) (seen view s1) Q E" by (rule assms(2))
    then show ?thesis using Inr m unfolding runs_def by (auto simp: bind_def)
  qed
qed

lemma runs_weaken:
  assumes "runs view m t Q E" and "\<And>x t. Q x t \<Longrightarrow> Q' x t" and "\<And>t. E t \<Longrightarrow> E' t"
  shows "runs view m t Q' E'"
  unfolding runs_def
proof (intro allI impI)
  fix s assume "seen view s = t"
  with assms(1) have "case m s of (Inr x, s') \<Rightarrow> Q x (seen view s') | (Inl e, s') \<Rightarrow> E (seen view s')"
    by (simp add: runs_def)
  then show "case m s of (Inr x, s') \<Rightarrow> Q' x (seen view s') | (Inl e, s') \<Rightarrow> E' (seen view s')"
    using assms(2,3) by (auto split: prod.splits sum.splits)
qed

lemma runs_get:
  assumes "\<And>s. use_db s = use_db t \<Longrightarrow> capacity s = capacity t \<Longrightarrow> stores s = stores t \<Longrightarrow> sessions s = sessions t \<Longrightarrow>
    runs view (f s) t Q E"
  shows "runs view (bind get_st f) t Q E"
  unfolding runs_def
proof (intro allI impI)
  fix s assume s: "seen view s = t"
  then have "runs view (f s) t Q E" by (intro assms) (auto simp: seen_def)
  with s show "case bind get_st f s of (Inr x, s') \<Rightarrow> Q x (seen view s') | (Inl e, s') \<Rightarrow> E (seen view s')"
    by (simp add: runs_def bind_def get_st_def)
qed

lemma runs_db:
  assumes "implements view q spec" and "\<And>x T. spec (db t) x T \<Longrightarrow> Q x (t\<lparr>db := T\<rparr>)" and "E t"
  shows "runs view (on_db q) t Q E"
  unfolding runs_def
proof (intro allI impI)
  fix s assume s: "seen view s = t"
  obtain r d where q: "q (db s) = (r, d)" by (cases "q (db s)")
  have v: "view (db s) = db t" "seen view (s\<lparr>db := d\<rparr>) = t\<lparr>db := view d\<rparr>" using s by (auto simp: seen_def)
  have "case q (db s) of (Inr x, d') \<Rightarrow> spec (view (db s)) x (view d') | (Inl e, d') \<Rightarrow> view d' = view (db s)"
    using assms(1) by (simp add: implements_def)
  then show "case on_db q s of (Inr x, s') \<Rightarrow> Q x (seen view s') | (Inl e, s') \<Rightarrow> E (seen view s')"
    using assms(2,3) v by (cases r) (auto simp: on_db_def on_part_def q)
qed

lemma runs_modify:
  assumes "\<And>s. seen view s = t \<Longrightarrow> Q () (seen view (f s))"
  shows "runs view (modify f) t Q E"
  using assms by (simp add: runs_def modify_def)

lemma runs_put_store: "Q () (t\<lparr>stores := dict_set (stores t) u st\<rparr>) \<Longrightarrow> runs view (put_store u st) t Q E"
  unfolding put_store_def by (rule runs_modify) (auto simp: seen_def)

lemma runs_change_store:
  "Q () (case map_of (stores t) u of None \<Rightarrow> t | Some x \<Rightarrow> t\<lparr>stores := dict_set (stores t) u (f x)\<rparr>) \<Longrightarrow>
   runs view (change_store u f) t Q E"
  unfolding change_store_def by (rule runs_modify) (auto simp: seen_def split: option.splits)

subsection \<open>Single queries\<close>

lemma implementsD:
  assumes "implements view q spec"
  shows "q d = (Inr x, d') \<Longrightarrow> spec (view d) x (view d')" and "q d = (Inl e, d') \<Longrightarrow> view d' = view d"
proof -
  have "case q d of (Inr x, d') \<Rightarrow> spec (view d) x (view d') | (Inl e, d') \<Rightarrow> view d' = view d"
    using assms by (simp add: implements_def)
  then show "q d = (Inr x, d') \<Longrightarrow> spec (view d) x (view d')" "q d = (Inl e, d') \<Longrightarrow> view d' = view d"
    by simp_all
qed

lemma implements_ret:
  assumes "implements view q spec"
  shows "implements view (bind q (\<lambda>x. ret (g x))) (\<lambda>T y T'. \<exists>x. spec T x T' \<and> y = g x)"
  unfolding implements_def
proof
  fix d
  obtain r d' where q: "q d = (r, d')" by (cases "q d")
  have "case q d of (Inr x, d') \<Rightarrow> spec (view d) x (view d') | (Inl e, d') \<Rightarrow> view d' = view d"
    using assms by (simp add: implements_def)
  then show "case bind q (\<lambda>x. ret (g x)) d of (Inr y, d') \<Rightarrow> \<exists>x. spec (view d) x (view d') \<and> y = g x
      | (Inl e, d') \<Rightarrow> view d' = view d"
    by (cases r) (auto simp: bind_def q ret_def)
qed

lemma implements_bind_read:
  assumes "implements view q (\<lambda>T x T'. T' = T \<and> P T x)" and "\<And>x. implements view (f x) (spec x)"
  shows "implements view (bind q f) (\<lambda>T y T'. \<exists>x. P T x \<and> spec x T y T')"
  unfolding implements_def
proof
  fix d
  obtain r d1 where q: "q d = (r, d1)" by (cases "q d")
  show "case bind q f d of (Inr y, d') \<Rightarrow> \<exists>x. P (view d) x \<and> spec x (view d) y (view d')
      | (Inl e, d') \<Rightarrow> view d' = view d"
  proof (cases r)
    case (Inl e)
    have "view d1 = view d" using implementsD(2) [OF assms(1)] q Inl by blast
    then show ?thesis using q Inl by (simp add: bind_def)
  next
    case (Inr x)
    have 1: "view d1 = view d" "P (view d) x"
      using implementsD(1) [OF assms(1)] q Inr by blast+
    have "case f x d1 of (Inr y, d') \<Rightarrow> spec x (view d1) y (view d') | (Inl e, d') \<Rightarrow> view d' = view d1"
      using assms(2) by (simp add: implements_def)
    then show ?thesis using q Inr 1 by (auto simp: bind_def split: prod.splits sum.splits)
  qed
qed

lemma implements_const: "implements view (ret x) (\<lambda>T y T'. T' = T \<and> y = x)"
  by (simp add: implements_def ret_def)

subsection \<open>The service functions\<close>

lemma orm_query:
  assumes "orm_laws D view"
  shows "implements view (q_user_create D u h) (\<lambda>T x T'. t_users T u = None \<and> T' = T\<lparr>t_users := (t_users T)(u \<mapsto> h)\<rparr>)"
    and "implements view (q_user_get D u) (\<lambda>T x T'. T' = T \<and> x = t_users T u)"
    and "implements view (q_users D) (\<lambda>T x T'. T' = T \<and> rows_of (t_users T) x)"
    and "implements view (q_entry_upsert D u k v exp)
         (\<lambda>T x T'. T' = T\<lparr>t_entries := (t_entries T)((u, k) \<mapsto> (v, exp))\<rparr>)"
    and "implements view (q_entry_get D u k) (\<lambda>T x T'. T' = T \<and> x = t_entries T (u, k))"
    and "implements view (q_entry_delete D u k)
         (\<lambda>T x T'. T' = T\<lparr>t_entries := (t_entries T)((u, k) := None)\<rparr> \<and> (x > 0 \<longleftrightarrow> t_entries T (u, k) \<noteq> None))"
    and "implements view (q_entry_expiry D u k exp)
         (\<lambda>T x T'. T' = T\<lparr>t_entries := (t_entries T)((u, k) := map_option (\<lambda>(v, _). (v, exp)) (t_entries T (u, k)))\<rparr> \<and>
                   (x > 0 \<longleftrightarrow> t_entries T (u, k) \<noteq> None))"
    and "implements view (q_entries_newest D u)
         (\<lambda>T x T'. T' = T \<and> rows_of (\<lambda>k. map_option fst (t_entries T (u, k))) x)"
    and "implements view (q_expiries D u)
         (\<lambda>T x T'. T' = T \<and> rows_of (\<lambda>k. Option.bind (t_entries T (u, k)) snd) x)"
    and "implements view (q_delete_expired D now)
         (\<lambda>T x T'. T' = T\<lparr>t_entries := (\<lambda>p. if expired_at now (t_entries T p) then None else t_entries T p)\<rparr> \<and>
                   x = card {p. expired_at now (t_entries T p)})"
    and "implements view (q_sessions D) (\<lambda>T x T'. T' = T \<and> rows_of (t_sessions T) x)"
    and "implements view (q_session_upsert D c seq r i)
         (\<lambda>T x T'. T' = T\<lparr>t_sessions := (t_sessions T)(c \<mapsto> (seq, r, i))\<rparr>)"
    and "implements view (q_session_delete D c) (\<lambda>T x T'. T' = T\<lparr>t_sessions := (t_sessions T)(c := None)\<rparr>)"
    and "view (q_rollback D d d') = view d"
  using assms unfolding orm_laws_def by simp_all

lemma implements_weaken:
  assumes "implements view q spec" and "\<And>T x T'. spec T x T' \<Longrightarrow> spec' T x T'"
  shows "implements view q spec'"
  unfolding implements_def
proof
  fix d
  obtain r d' where q: "q d = (r, d')" by (cases "q d")
  show "case q d of (Inr x, d') \<Rightarrow> spec' (view d) x (view d') | (Inl e, d') \<Rightarrow> view d' = view d"
    using implementsD [OF assms(1), of d] assms(2) q by (cases r) auto
qed

lemma save_entry_law:
  assumes "orm_laws D view"
  shows "implements view (save_entry D u k v exp)
    (\<lambda>T x T'. T' = (if t_users T u = None then T else T\<lparr>t_entries := (t_entries T)((u, k) \<mapsto> (v, exp))\<rparr>))"
proof -
  have "implements view (case user of None \<Rightarrow> ret () | Some _ \<Rightarrow> q_entry_upsert D u k v exp)
    (\<lambda>T x T'. T' = (if user = None then T else T\<lparr>t_entries := (t_entries T)((u, k) \<mapsto> (v, exp))\<rparr>))" for user
    using orm_query(4) [OF assms, of u k v exp] by (cases user) (auto intro: implements_weaken [OF implements_const])
  from implements_bind_read [OF orm_query(2) [OF assms, of u] this]
  show ?thesis unfolding save_entry_def by (rule implements_weaken) auto
qed

lemma delete_entry_law:
  assumes "orm_laws D view"
  shows "implements view (delete_entry D u k)
    (\<lambda>T x T'. T' = (if t_users T u = None then T else T\<lparr>t_entries := (t_entries T)((u, k) := None)\<rparr>))"
proof -
  have "implements view (case user of None \<Rightarrow> ret False | Some _ \<Rightarrow> bind (q_entry_delete D u k) (\<lambda>n. ret (n > 0)))
    (\<lambda>T x T'. T' = (if user = None then T else T\<lparr>t_entries := (t_entries T)((u, k) := None)\<rparr>))" for user
    using implements_ret [OF orm_query(6) [OF assms, of u k], of "\<lambda>n. n > 0"]
    by (cases user) (auto intro: implements_weaken [OF implements_const] elim: implements_weaken)
  from implements_bind_read [OF orm_query(2) [OF assms, of u] this]
  show ?thesis unfolding delete_entry_def by (rule implements_weaken) auto
qed

lemma set_expiry_law:
  assumes "orm_laws D view"
  shows "implements view (set_expiry D u k exp)
    (\<lambda>T x T'. T' = T\<lparr>t_entries := (t_entries T)((u, k) := map_option (\<lambda>(v, _). (v, exp)) (t_entries T (u, k)))\<rparr>)"
  unfolding set_expiry_def using implements_ret [OF orm_query(7) [OF assms, of u k exp]]
  by (rule implements_weaken) auto

lemma dict_merge_distinct: "distinct (map fst xs) \<Longrightarrow> dict_merge [] xs = xs"
  using dict_merge_fresh [of "[]" xs] by simp

lemma get_all_entries_law:
  assumes "orm_laws D view"
  shows "implements view (get_all_entries D u (Some n))
    (\<lambda>T x T'. T' = T \<and> dict_ok x \<and> map_of x \<subseteq>\<^sub>m (\<lambda>k. map_option fst (t_entries T (u, k))))"
proof -
  have m: "dict_ok (dict_merge [] (rev (take m rows))) \<and> map_of (dict_merge [] (rev (take m rows))) \<subseteq>\<^sub>m f"
    if "rows_of f rows" for m rows f
  proof -
    have d: "distinct (map fst rows)" "map_of rows = f" using that by (simp_all add: rows_of_def)
    have t: "distinct (map fst (take m rows))" using d(1) by (simp add: take_map [symmetric])
    then have r: "distinct (map fst (rev (take m rows)))" by (simp add: rev_map [symmetric])
    have "map_of (rev (take m rows)) k = Some v \<Longrightarrow> f k = Some v" for k v
      using r d t map_of_is_SomeI [of rows k v] by (auto dest!: map_of_SomeD in_set_takeD)
    then show ?thesis using r by (auto simp: dict_merge_distinct dict_ok_def map_le_def)
  qed
  have "implements view (case user of None \<Rightarrow> ret [] | Some _ \<Rightarrow> bind (q_entries_newest D u) (\<lambda>rows.
             ret (dict_merge [] (rev (take (nat n) rows)))))
     (\<lambda>T x T'. T' = T \<and> dict_ok x \<and> map_of x \<subseteq>\<^sub>m (\<lambda>k. map_option fst (t_entries T (u, k))))" for user
  proof (cases user)
    case None
    then show ?thesis by (auto intro: implements_weaken [OF implements_const])
  next
    case (Some h)
    show ?thesis unfolding Some option.case
      by (rule implements_weaken [OF implements_ret [OF orm_query(8) [OF assms, of u]]]) (use m in blast)
  qed
  from implements_bind_read [OF orm_query(2) [OF assms, of u] this]
  show ?thesis unfolding get_all_entries_def option.case by (rule implements_weaken) auto
qed

lemma get_expiries_law:
  assumes "orm_laws D view"
  shows "implements view (get_expiries D u)
    (\<lambda>T x T'. T' = T \<and> dict_ok x \<and> map_of x = (\<lambda>k. Option.bind (t_entries T (u, k)) snd))"
  unfolding get_expiries_def
  by (rule implements_weaken [OF implements_ret [OF orm_query(9) [OF assms, of u]]])
    (auto simp: rows_of_def dict_merge_distinct dict_ok_def)

subsection \<open>Reading keeps the coherence\<close>

text \<open>\<open>warmer t0 t\<close>: at most the RAM caches changed, and they are still coherent.\<close>

definition warmer :: "tables machine \<Rightarrow> tables machine \<Rightarrow> bool" where
  "warmer t0 t = (db_ok t \<and> db t = db t0 \<and> sessions t = sessions t0 \<and> capacity t = capacity t0)"

lemma warmer_refl: "db_ok t \<Longrightarrow> warmer t t"
  by (simp add: warmer_def)

lemma warmer_trans: "warmer t0 t1 \<Longrightarrow> warmer t1 t2 \<Longrightarrow> warmer t0 t2"
  by (simp add: warmer_def)

lemma store_set_cases:
  assumes "lru_ok (st_cache st)" and "store_set k v st = Inr st'"
  shows "lru_ok (st_cache st')" and "st_hash st' = st_hash st" and "st_username st' = st_username st"
    and "st_expiry st' = st_expiry st" and "k \<noteq> []"
    and "map_of (lru_data (st_cache st')) k = Some v"
    and "map_of (lru_data (st_cache st')) \<subseteq>\<^sub>m (map_of (lru_data (st_cache st)))(k \<mapsto> v)"
proof -
  obtain c where c: "lru_set k v (st_cache st) = Inr c" "st' = st\<lparr>st_cache := c\<rparr>"
    using assms(2) by (cases "lru_set k v (st_cache st)") (auto simp: store_set_def)
  show k: "k \<noteq> []" using c(1) by (auto simp: lru_set_def)
  show "lru_ok (st_cache st')" "st_hash st' = st_hash st" "st_username st' = st_username st"
    "st_expiry st' = st_expiry st" "map_of (lru_data (st_cache st')) k = Some v"
    "map_of (lru_data (st_cache st')) \<subseteq>\<^sub>m (map_of (lru_data (st_cache st)))(k \<mapsto> v)"
    using lru_set_ok(1-3) [OF assms(1) k c(1)] c(2) by simp_all
qed

lemma store_set_no_empty:
  assumes "lru_ok (st_cache st)" and "store_set k v st = Inr st'" and "map_of (lru_data (st_cache st)) [] = None"
  shows "map_of (lru_data (st_cache st')) [] = None"
proof (rule ccontr)
  note q = store_set_cases [OF assms(1,2)]
  assume "map_of (lru_data (st_cache st')) [] \<noteq> None"
  then have "[] \<in> dom (map_of (lru_data (st_cache st')))" by auto
  then have "map_of (lru_data (st_cache st')) [] = ((map_of (lru_data (st_cache st)))(k \<mapsto> v)) []"
    using q(7) unfolding map_le_def by blast
  with \<open>map_of (lru_data (st_cache st')) [] \<noteq> None\<close> assms(3) q(5) show False by simp
qed

lemma store_set_raises: "k \<noteq> [] \<Longrightarrow> lru_ok (st_cache st) \<Longrightarrow> \<exists>st'. store_set k v st = Inr st'"
  using lru_set_data [of "st_cache st" k v] by (simp add: store_set_def)

lemma warm_ok:
  assumes "warm kvs st = Inr st'" and "lru_ok (st_cache st)" and "dict_ok kvs"
    and "map_of (lru_data (st_cache st)) \<subseteq>\<^sub>m f" and "map_of kvs \<subseteq>\<^sub>m f"
  shows "lru_ok (st_cache st') \<and> st_hash st' = st_hash st \<and> st_username st' = st_username st \<and>
    map_of (lru_data (st_cache st')) \<subseteq>\<^sub>m f \<and>
    (map_of (lru_data (st_cache st)) [] = None \<longrightarrow> map_of (lru_data (st_cache st')) [] = None) \<and>
    dom (map_of (lru_data (st_cache st'))) \<subseteq> dom (map_of (lru_data (st_cache st))) \<union> dom (map_of kvs)"
  using assms
proof (induction kvs st rule: warm.induct)
  case (1 st)
  then show ?case by simp
next
  case (2 k v kvs st)
  then obtain st1 where st1: "store_set k v st = Inr st1" "warm kvs st1 = Inr st'"
    by (cases "store_set k v st") simp_all
  note s = store_set_cases [OF 2(3) st1(1)]
  have fk: "f k = Some v"
  proof -
    have "k \<in> dom (map_of ((k, v) # kvs))" by simp
    then have "map_of ((k, v) # kvs) k = f k" using 2(6) unfolding map_le_def by blast
    then show ?thesis by simp
  qed
  have none: "map_of kvs k = None" using 2(4) by (simp add: dict_ok_def map_of_eq_None_iff)
  have ok: "dict_ok kvs" using 2(4) by (simp add: dict_ok_def)
  have le: "map_of kvs \<subseteq>\<^sub>m f"
    unfolding map_le_def
  proof
    fix a assume a: "a \<in> dom (map_of kvs)"
    with none have "a \<noteq> k" by auto
    have "a \<in> dom (map_of ((k, v) # kvs))" using a by auto
    then have "map_of ((k, v) # kvs) a = f a" using 2(6) unfolding map_le_def by blast
    with \<open>a \<noteq> k\<close> show "map_of kvs a = f a" by simp
  qed
  have "(map_of (lru_data (st_cache st)))(k \<mapsto> v) \<subseteq>\<^sub>m f" using 2(5) fk by (simp add: map_le_def)
  then have le1: "map_of (lru_data (st_cache st1)) \<subseteq>\<^sub>m f" using s(7) map_le_trans by blast
  have d: "dom (map_of (lru_data (st_cache st1))) \<subseteq> insert k (dom (map_of (lru_data (st_cache st))))"
    using map_le_implies_dom_le [OF s(7)] by simp
  note IH = "2.IH" [OF st1(1,2) s(1) ok le1 le]
  have "dom (map_of (lru_data (st_cache st'))) \<subseteq> insert k (dom (map_of (lru_data (st_cache st)))) \<union> dom (map_of kvs)"
    using IH d by blast
  moreover have "insert k (dom (map_of kvs)) = dom (map_of ((k, v) # kvs))" by auto
  ultimately have D: "dom (map_of (lru_data (st_cache st'))) \<subseteq> dom (map_of (lru_data (st_cache st))) \<union> dom (map_of ((k, v) # kvs))"
    by blast
  show ?case by (intro conjI D) (use IH s(2,3) store_set_no_empty [OF 2(3) st1(1)] in simp_all)
qed

lemma load_store_law:
  assumes D: "orm_laws D view"
  shows "implements view (load_store D u h cap) (\<lambda>T st T'. T' = T \<and> (t_users T u = Some h \<longrightarrow> store_ok T u st))"
proof -
  have new: "implements view (bind (get_all_entries D u (Some cap)) (\<lambda>entries.
    bind (of_sum (warm entries st)) (\<lambda>st1. bind (get_expiries D u) (\<lambda>exps.
     ret (st1\<lparr>st_expiry := filter (\<lambda>(k, _). dict_has entries k) exps\<rparr>)))))
    (\<lambda>T st T'. T' = T \<and> (t_users T u = Some h \<longrightarrow> store_ok T u st))"
    if st: "new_store u h cap = Inr st" for st
  proof -
    have c: "lru_ok (st_cache st)" "lru_data (st_cache st) = []" "st_hash st = h" "st_username st = u"
      using st lru_new_ok by (auto simp: new_store_def split: sum.splits) (cases "lru_new cap"; fastforce)+
    have w: "implements view (bind (of_sum (warm entries st)) (\<lambda>st1. bind (get_expiries D u) (\<lambda>exps.
       ret (st1\<lparr>st_expiry := filter (\<lambda>(k, _). dict_has entries k) exps\<rparr>))))
      (\<lambda>T st' T'. dict_ok entries \<longrightarrow> map_of entries \<subseteq>\<^sub>m (\<lambda>k. map_option fst (t_entries T (u, k))) \<longrightarrow>
         T' = T \<and> (t_users T u = Some h \<longrightarrow> store_ok T u st'))" for entries
    proof (cases "warm entries st")
      case (Inl e)
      then show ?thesis by (simp add: implements_def throw_def)
    next
      case (Inr st1)
      show ?thesis
        unfolding Inr of_sum_simps bind_ret
      proof (rule implements_weaken [OF implements_ret [OF get_expiries_law [OF D, of u]]], intro impI, elim exE conjE)
        fix T T' :: tables and st' exps
        assume e: "dict_ok entries" "map_of entries \<subseteq>\<^sub>m (\<lambda>k. map_option fst (t_entries T (u, k)))"
          and T: "T' = T" "dict_ok exps" "map_of exps = (\<lambda>k. Option.bind (t_entries T (u, k)) snd)"
          and st': "st' = st1\<lparr>st_expiry := filter (\<lambda>(k, _). dict_has entries k) exps\<rparr>"
        show "T' = T \<and> (t_users T u = Some h \<longrightarrow> store_ok T u st')"
        proof (intro conjI impI)
          show "T' = T" by (rule T(1))
          assume u: "t_users T u = Some h"
          let ?f = "\<lambda>k. map_option fst (t_entries T (u, k))"
          have st1: "lru_ok (st_cache st1)" "st_hash st1 = h" "st_username st1 = u"
            "map_of (lru_data (st_cache st1)) \<subseteq>\<^sub>m ?f"
            "dom (map_of (lru_data (st_cache st1))) \<subseteq> dom (map_of entries)"
            "map_of (lru_data (st_cache st1)) [] = None"
            using warm_ok [OF Inr c(1) e(1) _ e(2)] c by simp_all
          have "t_entries T (u, k) = Some (v, map_of (st_expiry st') k)"
            if k: "map_of (lru_data (st_cache st1)) k = Some v" for k v
          proof -
            have "k \<in> dom (map_of entries)" using k st1(5) by auto
            then have "dict_has entries k" by (auto simp: dict_has_def)
            then have x: "map_of (st_expiry st') k = Option.bind (t_entries T (u, k)) snd"
              by (simp add: st' map_of_filter_key T(3))
            have "?f k = Some v" using k st1(4) unfolding map_le_def by (metis domI)
            then show ?thesis using x by auto
          qed
          then show "store_ok T u st'"
            using u st1(1-3,6) T(2) by (simp add: store_ok_def st' dict_ok_filter)
        qed
      qed
    qed
    show ?thesis
      by (rule implements_weaken [OF implements_bind_read [OF get_all_entries_law [OF D, of u cap] w]]) auto
  qed
  show ?thesis
  proof (cases "new_store u h cap")
    case (Inl e)
    then show ?thesis by (simp add: load_store_def implements_def throw_def)
  next
    case (Inr st)
    with new show ?thesis by (simp add: load_store_def)
  qed
qed

lemma db_ok_store: "db_ok t \<Longrightarrow> map_of (stores t) u = Some st \<Longrightarrow> store_ok (db t) u st"
  by (simp add: db_ok_def)

lemma db_ok_put:
  assumes "db_ok t" and "store_ok (db t) u st"
  shows "db_ok (t\<lparr>stores := dict_set (stores t) u st\<rparr>)"
  using assms by (auto simp: db_ok_def)

subsection \<open>Symbolic execution\<close>

lemma db_same [simp]: "(t :: tables machine)\<lparr>db := db t\<rparr> = t"
  by (cases t) simp

lemma runs_bind_db:
  assumes "implements view q spec"
    and "\<And>x T. spec (db t) x T \<Longrightarrow> runs view (f x) (t\<lparr>db := T\<rparr>) Q E" and "E t"
  shows "runs view (bind (on_db q) f) t Q E"
  by (rule runs_bind [where Q' = "\<lambda>x t'. \<exists>T. spec (db t) x T \<and> t' = t\<lparr>db := T\<rparr>"], rule runs_db [OF assms(1)])
    (use assms(2,3) in auto)

lemma runs_bind_put:
  "runs view (f ()) (t\<lparr>stores := dict_set (stores t) u st\<rparr>) Q E \<Longrightarrow> runs view (bind (put_store u st) f) t Q E"
  by (rule runs_bind [where Q' = "\<lambda>_ t'. t' = t\<lparr>stores := dict_set (stores t) u st\<rparr>"], rule runs_put_store) auto

lemma runs_bind_change:
  "runs view (f ()) (case map_of (stores t) u of None \<Rightarrow> t | Some x \<Rightarrow> t\<lparr>stores := dict_set (stores t) u (g x)\<rparr>) Q E \<Longrightarrow>
   runs view (bind (change_store u g) f) t Q E"
  by (rule runs_bind [where Q' = "\<lambda>_ t'. t' = (case map_of (stores t) u of None \<Rightarrow> t
        | Some x \<Rightarrow> t\<lparr>stores := dict_set (stores t) u (g x)\<rparr>)"], rule runs_change_store) auto

lemma runs_bind_sum:
  "(\<And>x. r = Inr x \<Longrightarrow> runs view (f x) t Q E) \<Longrightarrow> (\<And>e. r = Inl e \<Longrightarrow> E t) \<Longrightarrow> runs view (bind (of_sum r) f) t Q E"
  by (cases r) simp_all

lemma store_ok_set:
  assumes ok: "store_ok T u st" and set: "store_set k v st = Inr st1"
    and T': "t_users T' u = t_users T u" "t_entries T' (u, k) = Some (v, exp)"
      "\<And>k'. k' \<noteq> k \<Longrightarrow> t_entries T' (u, k') = t_entries T (u, k')"
  shows "store_ok T' u (store_expire k exp st1)"
proof -
  have c: "lru_ok (st_cache st)" using ok by (simp add: store_ok_def)
  note q = store_set_cases [OF c set]
  have exp: "map_of (st_expiry (store_expire k exp st1)) k' = (if k' = k then exp else map_of (st_expiry st) k')" for k'
    using q(4) by (cases exp) (simp_all add: store_expire_def)
  have d: "dict_ok (st_expiry (store_expire k exp st1))"
    using ok q(4) by (cases exp) (simp_all add: store_expire_def store_ok_def)
  have "t_entries T' (u, k') = Some (v', if k' = k then exp else map_of (st_expiry st) k')"
    if k': "map_of (lru_data (st_cache st1)) k' = Some v'" for k' v'
  proof (cases "k' = k")
    case True
    with k' q(6) T'(2) show ?thesis by simp
  next
    case False
    have "map_of (lru_data (st_cache st1)) k' = ((map_of (lru_data (st_cache st)))(k \<mapsto> v)) k'"
      using q(7) k' unfolding map_le_def by blast
    then have "map_of (lru_data (st_cache st)) k' = Some v'" using k' False by simp
    then show ?thesis using ok T'(3) [OF False] False by (simp add: store_ok_def)
  qed
  then show ?thesis
    using ok q(1-3) store_set_no_empty [OF c set] T'(1) d exp by (simp add: store_ok_def) (simp add: store_expire_def)
qed

lemma load_user_runs:
  assumes D: "orm_laws D view" and t: "db_ok t" and u: "map_of (stores t) u = None"
  shows "runs view (load_user_from_db D u) t
    (\<lambda>r t'. warmer t t' \<and> r = map_of (stores t') u \<and> (r = None \<longleftrightarrow> t_users (db t) u = None)) (warmer t)"
  unfolding load_user_from_db_def get_user_def
proof (intro runs_get runs_bind_db [OF orm_query(2) [OF D]], goal_cases)
  case (1 s x T)
  then have [simp]: "T = db t" "x = t_users (db t) u" by auto
  show ?case
  proof (cases "t_users (db t) u")
    case None
    then show ?thesis using t u by (simp add: warmer_refl)
  next
    case (Some h)
    show ?thesis
      unfolding \<open>T = db t\<close> db_same \<open>x = t_users (db t) u\<close> Some option.case
    proof (intro runs_bind_db [OF load_store_law [OF D]] runs_get, goal_cases)
      case (1 st T s1)
      then have [simp]: "T = db t" and st: "store_ok (db t) u st" using Some by auto
      have "db_ok (t\<lparr>stores := dict_set (stores t) u st\<rparr>)" using db_ok_put [OF t st] .
      then show ?case using 1 u Some by (auto intro!: runs_bind_put simp: warmer_def)
    qed (use t in \<open>simp add: warmer_refl\<close>)
  qed
qed (use t in \<open>simp add: warmer_refl\<close>)

lemma get_store_runs:
  assumes D: "orm_laws D view" and t: "db_ok t"
  shows "runs view (get_store D u) t
    (\<lambda>r t'. warmer t t' \<and> r = map_of (stores t') u \<and> (r = None \<longleftrightarrow> t_users (db t) u = None)) (warmer t)"
  unfolding get_store_def
proof (rule runs_get, goal_cases)
  case (1 s)
  show ?case
  proof (cases "map_of (stores t) u")
    case (Some st)
    then show ?thesis using 1 t db_ok_store [OF t Some] by (simp add: warmer_refl store_ok_def)
  next
    case None
    then show ?thesis using 1 t load_user_runs [OF D t None] by (simp add: db_ok_def)
  qed
qed

lemma lookup_runs:
  assumes D: "orm_laws D view" and t: "db_ok t" and st: "map_of (stores t) u = Some st"
  shows "runs view (lookup D st u k) t
    (\<lambda>r t'. warmer t t' \<and> r = t_entries (db t) (u, k) \<and> map_of (stores t') u \<noteq> None) (warmer t)"
  unfolding lookup_def get_entry_with_expiry_def
proof (rule runs_get, goal_cases)
  case (1 s)
  note ok = db_ok_store [OF t st]
  then have c: "lru_ok (st_cache st)" by (simp add: store_ok_def)
  obtain c' r where g: "lru_get k (st_cache st) = (c', r)" by (cases "lru_get k (st_cache st)")
  have c': "lru_ok c'" "r = map_of (lru_data (st_cache st)) k" "map_of (lru_data c') = map_of (lru_data (st_cache st))"
    using lru_get_ok(1-3) [OF c, of k] g by simp_all
  have ok': "store_ok (db t) u (st\<lparr>st_cache := c'\<rparr>)" using ok c' by (simp add: store_ok_def)
  have udb: "(\<not> use_db s) = False" using t 1 by (simp add: db_ok_def)
  show ?case
  proof (cases r)
    case (Some v)
    then have e: "t_entries (db t) (u, k) = Some (v, map_of (st_expiry st) k)"
      using ok c'(2) by (simp add: store_ok_def)
    show ?thesis
      unfolding g Some prod.case option.case
      using db_ok_put [OF t ok'] by (intro runs_bind_put runs_ret) (simp add: warmer_def e)
  next
    case None
    show ?thesis
      unfolding g None prod.case option.case udb if_False
    proof (intro runs_bind_db [OF orm_query(5) [OF D]], goal_cases)
      case (1 r1 T)
      then have [simp]: "T = db t" and r1: "r1 = t_entries (db t) (u, k)" by simp_all
      show ?case
      proof (cases "t_entries (db t) (u, k)")
        case None
        then show ?thesis using r1 t st by (simp add: warmer_refl)
      next
        case (Some p)
        obtain v exp where p: "p = (v, exp)" by (cases p)
        show ?thesis
          unfolding r1 Some p option.case prod.case \<open>T = db t\<close> db_same
        proof (intro runs_bind_sum runs_bind_put runs_ret, goal_cases)
          case (1 st1)
          have "store_ok (db t) u (store_expire k exp st1)"
            using Some p by (intro store_ok_set [OF ok' 1]) simp_all
          then show ?case using Some p db_ok_put [OF t] by (simp add: warmer_def)
        qed (use t in \<open>simp add: warmer_refl\<close>)
      qed
    qed (use t in \<open>simp add: warmer_refl\<close>)
  qed
qed

subsection \<open>Every command has its effect on the tables\<close>

text \<open>After a command: the coherence holds, and the tables changed as \<open>spec_cmd\<close> says, or, if a
  query raised, not at all; only a SET with an empty key raises after it has changed them.\<close>

definition applied :: "string \<Rightarrow> command \<Rightarrow> tables machine \<Rightarrow> json \<Rightarrow> tables machine \<Rightarrow> bool" where
  "applied u c t r t' =
     (db_ok t' \<and> sessions t' = sessions t \<and> capacity t' = capacity t \<and> spec_cmd u c (db t) = (r, db t'))"

definition half_applied :: "string \<Rightarrow> command \<Rightarrow> tables machine \<Rightarrow> tables machine \<Rightarrow> bool" where
  "half_applied u c t t' =
     (db_ok t' \<and> sessions t' = sessions t \<and> capacity t' = capacity t \<and>
      (db t' = db t \<or> (\<exists>v exp. c = SetKey [] v exp \<and> db t' = snd (spec_cmd u c (db t)))))"

lemma half_warmer: "warmer t t' \<Longrightarrow> half_applied u c t t'"
  by (simp add: warmer_def half_applied_def)

lemma warm_ok_fields: "warmer t t' \<Longrightarrow> db_ok t' \<and> db t' = db t \<and> sessions t' = sessions t \<and> capacity t' = capacity t"
  by (simp add: warmer_def)

text \<open>The tables change for one entry; the caches of the other users stay coherent.\<close>

lemma db_ok_update:
  assumes "db_ok t" and "t_users T = t_users (db t)"
    and "\<And>u' k. u' \<noteq> u \<Longrightarrow> t_entries T (u', k) = t_entries (db t) (u', k)"
    and "store_ok T u st"
  shows "db_ok (t\<lparr>db := T, stores := dict_set (stores t) u st\<rparr>)"
  using assms by (auto simp: db_ok_def store_ok_def)

lemma runs_bind_weaken:
  assumes "runs view m t Q' E'" and "\<And>x t'. Q' x t' \<Longrightarrow> runs view (f x) t' Q E" and "\<And>t'. E' t' \<Longrightarrow> E t'"
  shows "runs view (bind m f) t Q E"
  by (rule runs_bind [OF runs_weaken [OF assms(1)]]) (use assms(2,3) in auto)

lemma new_store_ok:
  assumes "new_store u h cap = Inr st" and "t_users T u = Some h"
  shows "store_ok T u st"
proof -
  obtain c where c: "lru_new cap = Inr c" "st = \<lparr>st_username = u, st_hash = h, st_cache = c, st_expiry = []\<rparr>"
    using assms(1) by (cases "lru_new cap") (auto simp: new_store_def)
  show ?thesis using lru_new_ok [OF c(1)] c(2) assms(2) by (simp add: store_ok_def)
qed

lemma signup_runs:
  assumes D: "orm_laws D view" and t: "db_ok t"
  shows "runs view (run_command D u (Signup h)) t (applied u (Signup h) t) (half_applied u (Signup h) t)"
  unfolding run_command.simps apply_signup_def bind_assoc
proof (rule runs_bind_weaken [OF get_store_runs [OF D t, of u]], goal_cases)
  case (1 r t1)
  then have w: "warmer t t1" and r: "r = map_of (stores t1) u" "r = None \<longleftrightarrow> t_users (db t) u = None" by auto
  note f = warm_ok_fields [OF w]
  show ?case
  proof (cases "r = None")
    case False
    then have "t_users (db t) u \<noteq> None" using r(2) by blast
    then show ?thesis using False f by (simp add: applied_def)
  next
    case True
    then have u: "t_users (db t) u = None" using r by simp
    show ?thesis
    proof (simp only: True simp_thms if_False bind_assoc, rule runs_get, goal_cases)
      case (1 s)
      then have udb: "use_db s = True" using f by (simp add: db_ok_def)
      show ?case
        unfolding udb if_True save_user_def
      proof (intro runs_bind_db [OF orm_query(1) [OF D]] runs_bind_sum runs_bind_put, goal_cases)
        case (1 x T st)
        have st: "store_ok T u st" using 1 by (intro new_store_ok [OF 1(2)]) simp
        have "db_ok (t1\<lparr>db := T, stores := dict_set (stores t1) u st\<rparr>)"
          unfolding db_ok_def
        proof (intro conjI allI impI)
          fix u' st' assume "map_of (stores (t1\<lparr>db := T, stores := dict_set (stores t1) u st\<rparr>)) u' = Some st'"
          then show "store_ok (db (t1\<lparr>db := T, stores := dict_set (stores t1) u st\<rparr>)) u' st'"
            using f st 1 by (cases "u' = u") (auto simp: db_ok_def store_ok_def)
        qed (use f in \<open>auto simp: db_ok_def\<close>)
        then show ?case using 1 f u by (simp add: applied_def)
      next
        case (2 x T e)
        have "capacity s > 0" using 2(1) f \<open>capacity s = capacity t1\<close> by (simp add: db_ok_def)
        then show ?case using 2(2) by (simp add: new_store_def lru_new_def)
      qed (use f in \<open>simp add: half_applied_def\<close>)
    qed
  qed
qed (rule half_warmer)

lemma set_runs:
  assumes D: "orm_laws D view" and t: "db_ok t"
  shows "runs view (run_command D u (SetKey k v exp)) t (applied u (SetKey k v exp) t) (half_applied u (SetKey k v exp) t)"
  unfolding run_command.simps apply_set_def bind_assoc
proof (rule runs_bind_weaken [OF get_store_runs [OF D t, of u]], goal_cases)
  case (1 r t1)
  then have w: "warmer t t1" and r: "r = map_of (stores t1) u" "r = None \<longleftrightarrow> t_users (db t) u = None" by auto
  note f = warm_ok_fields [OF w]
  show ?case
  proof (cases r)
    case None
    then show ?thesis using f r by (simp add: applied_def)
  next
    case (Some st)
    then have u: "t_users (db t) u \<noteq> None" and st: "store_ok (db t) u st"
      using r f db_ok_store [of t1 u st] by auto
    show ?thesis
    proof (simp only: Some option.case bind_assoc, rule runs_get, goal_cases)
      case (1 s)
      then have udb: "use_db s = True" using f by (simp add: db_ok_def)
      let ?T = "(db t)\<lparr>t_entries := (t_entries (db t))((u, k) \<mapsto> (v, exp))\<rparr>"
      show ?case
        unfolding udb if_True
      proof (intro runs_bind_db [OF save_entry_law [OF D]] runs_bind_sum runs_bind_put, goal_cases)
        case (1 x T st1)
        then have T: "T = ?T" using f u by simp
        have "store_ok T u (store_expire k exp st1)" by (rule store_ok_set [OF st 1(2)]) (simp_all add: T)
        then have "db_ok (t1\<lparr>db := T, stores := dict_set (stores t1) u (store_expire k exp st1)\<rparr>)"
          using f by (intro db_ok_update) (simp_all add: T)
        then show ?case using T f u by (simp add: applied_def)
      next
        case (2 x T e)
        then have T: "T = ?T" using f u by simp
        have k: "k = []" using 2(2) store_set_raises [of k st v] st by (auto simp: store_ok_def)
        have "db_ok (t1\<lparr>db := T\<rparr>)"
          unfolding db_ok_def
        proof (intro conjI allI impI)
          fix u' st' assume "map_of (stores (t1\<lparr>db := T\<rparr>)) u' = Some st'"
          then have "store_ok (db t1) u' st'" using db_ok_store [of t1 u' st'] f by simp
          then have "store_ok (db t) u' st'" using f by simp
          then show "store_ok (db (t1\<lparr>db := T\<rparr>)) u' st'" by (auto simp: T k store_ok_def)
        qed (use f in \<open>auto simp: db_ok_def\<close>)
        then show ?case using T f u k by (auto simp: half_applied_def)
      qed (use f in \<open>simp add: half_applied_def\<close>)
    qed
  qed
qed (rule half_warmer)

lemma store_expire_delete:
  assumes "store_ok T u st"
    and "\<And>k'. k' \<noteq> k \<Longrightarrow> t_entries T' (u, k') = t_entries T (u, k')" and "t_users T' = t_users T"
  shows "store_ok T' u (store_expire k None (st\<lparr>st_cache := fst (lru_delete k (st_cache st))\<rparr>))"
proof -
  have c: "lru_ok (st_cache st)" using assms(1) by (simp add: store_ok_def)
  show ?thesis
    using assms lru_delete_ok [OF c, of k] by (auto simp: store_ok_def store_expire_def)
qed

lemma store_expire_ok:
  assumes "store_ok T u st" and "t_entries T (u, k) = Some (v, old)" and "t_entries T' (u, k) = Some (v, exp)"
    and "\<And>k'. k' \<noteq> k \<Longrightarrow> t_entries T' (u, k') = t_entries T (u, k')" and "t_users T' = t_users T"
  shows "store_ok T' u (store_expire k exp st)"
proof -
  have "map_of (st_expiry (store_expire k exp st)) k' = (if k' = k then exp else map_of (st_expiry st) k')" for k'
    by (cases exp) (simp_all add: store_expire_def)
  moreover have "dict_ok (st_expiry (store_expire k exp st))"
    using assms(1) by (cases exp) (simp_all add: store_expire_def store_ok_def)
  moreover have "st_cache (store_expire k exp st) = st_cache st" "st_hash (store_expire k exp st) = st_hash st"
    "st_username (store_expire k exp st) = st_username st"
    by (simp_all add: store_expire_def)
  ultimately show ?thesis using assms by (auto simp: store_ok_def)
qed

lemma delete_runs:
  assumes D: "orm_laws D view" and t: "db_ok t"
  shows "runs view (run_command D u (DeleteKey k at_ms)) t
    (applied u (DeleteKey k at_ms) t) (half_applied u (DeleteKey k at_ms) t)"
  unfolding run_command.simps apply_delete_def bind_assoc
proof (rule runs_bind_weaken [OF get_store_runs [OF D t, of u]], goal_cases)
  case (1 r t1)
  then have w: "warmer t t1" and r: "r = map_of (stores t1) u" "r = None \<longleftrightarrow> t_users (db t) u = None" by auto
  note f = warm_ok_fields [OF w]
  then have t1: "db_ok t1" by simp
  show ?case
  proof (cases r)
    case None
    then show ?thesis using f r by (simp add: applied_def)
  next
    case (Some st)
    then have u: "t_users (db t) u \<noteq> None" using r(2) by blast
    have st: "map_of (stores t1) u = Some st" using Some r(1) by simp
    let ?T = "(db t)\<lparr>t_entries := (t_entries (db t))((u, k) := None)\<rparr>"
    show ?thesis
      unfolding Some option.case bind_assoc
    proof (rule runs_bind_weaken [OF lookup_runs [OF D t1 st, of k]], goal_cases)
      case (1 item t2)
      then have w2: "warmer t t2" using w by (auto intro: warmer_trans)
      note f2 = warm_ok_fields [OF w2]
      obtain st2 where st2: "map_of (stores t2) u = Some st2" using 1 by auto
      have ok2: "store_ok (db t) u st2" using db_ok_store [OF _ st2] f2 by simp
      show ?case
      proof (rule runs_get, goal_cases)
        case (1 s)
        then have udb: "use_db s = True" using f2 by (simp add: db_ok_def)
        show ?case
          unfolding udb if_True bind_assoc bind_ret
        proof (intro runs_bind_db [OF delete_entry_law [OF D]] runs_bind_change, goal_cases)
          case (1 x T)
          then have T: "T = ?T" using f2 u by simp
          have "store_ok T u (store_expire k None (st2\<lparr>st_cache := fst (lru_delete k (st_cache st2))\<rparr>))"
            by (rule store_expire_delete [OF ok2]) (simp_all add: T)
          then have "db_ok (t2\<lparr>db := T, stores := dict_set (stores t2) u
              (store_expire k None (st2\<lparr>st_cache := fst (lru_delete k (st_cache st2))\<rparr>))\<rparr>)"
            using f2 by (intro db_ok_update) (simp_all add: T)
          then show ?case
            using T f f2 u st2 \<open>warmer t1 t2 \<and> item = t_entries (db t1) (u, k) \<and> map_of (stores t2) u \<noteq> None\<close>
            by (intro runs_ret) (auto simp: applied_def split: option.splits)
        qed (use f2 in \<open>simp add: half_applied_def\<close>)
      qed
    next
      case (2 t2)
      then show ?case using w by (auto intro: half_warmer warmer_trans)
    qed
  qed
qed (rule half_warmer)

lemma expire_runs:
  assumes D: "orm_laws D view" and t: "db_ok t"
  shows "runs view (run_command D u (ExpireKey k exp now)) t
    (applied u (ExpireKey k exp now) t) (half_applied u (ExpireKey k exp now) t)"
  unfolding run_command.simps apply_expiry_def bind_assoc
proof (rule runs_bind_weaken [OF get_store_runs [OF D t, of u]], goal_cases)
  case (1 r t1)
  then have w: "warmer t t1" and r: "r = map_of (stores t1) u" "r = None \<longleftrightarrow> t_users (db t) u = None" by auto
  note f = warm_ok_fields [OF w]
  then have t1: "db_ok t1" by simp
  show ?case
  proof (cases r)
    case None
    then show ?thesis using f r by (simp add: applied_def)
  next
    case (Some st)
    then have u: "t_users (db t) u \<noteq> None" using r(2) by blast
    have st: "map_of (stores t1) u = Some st" using Some r(1) by simp
    show ?thesis
      unfolding Some option.case bind_assoc
    proof (rule runs_bind_weaken [OF lookup_runs [OF D t1 st, of k]], goal_cases)
      case (1 item t2)
      then have w2: "warmer t t2" using w by (auto intro: warmer_trans)
      note f2 = warm_ok_fields [OF w2]
      obtain st2 where st2: "map_of (stores t2) u = Some st2" using 1 by auto
      have ok2: "store_ok (db t) u st2" using db_ok_store [OF _ st2] f2 by simp
      have item: "item = t_entries (db t) (u, k)" using 1 f by simp
      show ?case
      proof (cases item)
        case None
        then show ?thesis using f2 u item by (simp add: applied_def)
      next
        case (Some p)
        obtain v old where p: "p = (v, old)" by (cases p)
        have e: "t_entries (db t) (u, k) = Some (v, old)" using item Some p by simp
        let ?T = "(db t)\<lparr>t_entries := (t_entries (db t))((u, k) \<mapsto> (v, exp))\<rparr>"
        show ?thesis
        proof (cases "expired old now \<or> (exp = None \<and> old = None)")
          case True
          then show ?thesis using Some p f2 u e by (auto simp: applied_def)
        next
          case False
          then have no: "expired old now = False" "(exp = None \<and> old = None) = False" by blast+
          show ?thesis
            unfolding Some p option.case prod.case no if_False bind_assoc
          proof (rule runs_get, goal_cases)
            case (1 s)
            then have udb: "use_db s = True" using f2 by (simp add: db_ok_def)
            show ?case
              unfolding udb if_True bind_assoc bind_ret
            proof (intro runs_bind_db [OF set_expiry_law [OF D]] runs_bind_change, goal_cases)
              case (1 x T)
              then have T: "T = ?T" using f2 e by simp
              have "store_ok T u (store_expire k exp st2)"
                by (rule store_expire_ok [OF ok2 e]) (simp_all add: T)
              then have "db_ok (t2\<lparr>db := T, stores := dict_set (stores t2) u (store_expire k exp st2)\<rparr>)"
                using f2 by (intro db_ok_update) (simp_all add: T)
              then show ?case
                using T f2 u st2 e False by (intro runs_ret) (auto simp: applied_def)
            qed (use f2 in \<open>simp add: half_applied_def\<close>)
          qed
        qed
      qed
    next
      case (2 t2)
      then show ?case using w by (auto intro: half_warmer warmer_trans)
    qed
  qed
qed (rule half_warmer)

lemma sweep_keys_ok:
  assumes "lru_ok (st_cache st)" and "dict_ok (st_expiry st)" and "distinct (map fst kts)"
  shows "lru_ok (st_cache (fst (sweep_keys now kts st))) \<and> dict_ok (st_expiry (fst (sweep_keys now kts st))) \<and>
    st_hash (fst (sweep_keys now kts st)) = st_hash st \<and> st_username (fst (sweep_keys now kts st)) = st_username st \<and>
    map_of (lru_data (st_cache (fst (sweep_keys now kts st)))) =
      (\<lambda>k. if (\<exists>t. map_of kts k = Some t \<and> t \<le> now) then None else map_of (lru_data (st_cache st)) k) \<and>
    map_of (st_expiry (fst (sweep_keys now kts st))) =
      (\<lambda>k. if (\<exists>t. map_of kts k = Some t \<and> t \<le> now) then None else map_of (st_expiry st) k)"
  using assms
proof (induction now kts st rule: sweep_keys.induct)
  case (1 now st)
  then show ?case by simp
next
  case (2 now k t kts st)
  have none: "map_of kts k = None" using 2(5) by (simp add: map_of_eq_None_iff)
  show ?case
  proof (cases "t \<le> now")
    case False
    then show ?thesis using 2 none by (auto intro!: ext)
  next
    case True
    obtain c gone where g: "lru_delete k (st_cache st) = (c, gone)" by (cases "lru_delete k (st_cache st)")
    have c: "lru_ok c" "map_of (lru_data c) = (map_of (lru_data (st_cache st)))(k := None)"
      using lru_delete_ok(1,3) [OF 2(3), of k] g by simp_all
    let ?s = "st\<lparr>st_expiry := dict_pop (st_expiry st) k, st_cache := c\<rparr>"
    have e: "fst (sweep_keys now ((k, t) # kts) st) = fst (sweep_keys now kts ?s)"
      using True g by (simp add: Let_def split: prod.split)
    have "distinct (map fst kts)" using 2(5) by simp
    then show ?thesis
      unfolding e using 2(1) [OF True g [symmetric] refl] c 2(4) none True by (auto intro!: ext)
  qed
qed

lemma sweep_store_ok:
  assumes "store_ok T u st" and "t_users T' = t_users T"
    and "t_entries T' = (\<lambda>p. if expired_at now (t_entries T p) then None else t_entries T p)"
  shows "store_ok T' u (fst (sweep_store now st))"
proof -
  have q: "lru_ok (st_cache st)" "dict_ok (st_expiry st)" "distinct (map fst (st_expiry st))"
    using assms(1) by (simp_all add: store_ok_def dict_ok_def)
  have "\<not> expired_at now (t_entries T (u, k))"
    if "map_of (lru_data (st_cache st)) k = Some v" "\<not> (\<exists>t. map_of (st_expiry st) k = Some t \<and> t \<le> now)" for k v
    using that assms(1) by (auto simp: store_ok_def expired_at_def split: option.splits)
  then have "t_entries T' (u, k) = Some (v, map_of (st_expiry (fst (sweep_store now st))) k)"
    if "map_of (lru_data (st_cache (fst (sweep_store now st)))) k = Some v" for k v
    using that sweep_keys_ok [OF q, of now] assms(1,3) by (auto simp: store_ok_def sweep_store_def split: if_splits)
  then show ?thesis
    using sweep_keys_ok [OF q, of now] assms(1,2) by (simp add: store_ok_def sweep_store_def)
qed

lemma sweep_runs:
  assumes D: "orm_laws D view" and t: "db_ok t"
  shows "runs view (run_command D u (Sweep now)) t (applied u (Sweep now) t) (half_applied u (Sweep now) t)"
  unfolding run_command.simps apply_sweep_def delete_expired_def bind_assoc
proof (rule runs_get, goal_cases)
  case (1 s)
  then have udb: "use_db s = True" using t by (simp add: db_ok_def)
  show ?case
    unfolding udb if_True
  proof (intro runs_bind_db [OF orm_query(10) [OF D]] runs_get, goal_cases)
    case (1 x T s1)
    let ?f = "\<lambda>s :: 'a machine. s\<lparr>stores := map (\<lambda>(u, st). (u, fst (sweep_store now st))) (stores s)\<rparr>"
    let ?t = "t\<lparr>db := T, stores := map (\<lambda>(u, st). (u, fst (sweep_store now st))) (stores t)\<rparr>"
    have "map_of (map (\<lambda>(u, st). (u, fst (sweep_store now st))) xs) u' = map_option (\<lambda>st. fst (sweep_store now st)) (map_of xs u')"
      for u' :: string and xs
      by (induction xs) auto
    moreover have "map fst (map (\<lambda>(u, st). (u, fst (sweep_store now st))) xs) = map fst xs" for xs :: "(string, store) dict"
      by (induction xs) auto
    then have "dict_ok (map (\<lambda>(u, st). (u, fst (sweep_store now st))) (stores t))"
      using t unfolding db_ok_def dict_ok_def by (simp only:)
    ultimately have ok: "db_ok ?t"
      using t 1(1) sweep_store_ok [of "db t" _ _ T now] unfolding db_ok_def by (simp, blast)
    have "runs view (modify ?f) (t\<lparr>db := T\<rparr>) (\<lambda>_ t'. t' = ?t) (half_applied u (Sweep now) t)"
      by (rule runs_modify) (cases t; simp add: seen_def)
    then show ?case
      by (rule runs_bind) (use ok 1(1) in \<open>simp add: applied_def\<close>)
  qed (use t in \<open>simp add: half_applied_def\<close>)
qed

lemma run_command_runs:
  assumes "orm_laws D view" and "db_ok t"
  shows "runs view (run_command D u c) t (applied u c t) (half_applied u c t)"
proof (cases c)
  case Unknown
  then show ?thesis using assms(2) by (simp add: applied_def)
qed (simp_all only: signup_runs [OF assms] set_runs [OF assms] delete_runs [OF assms] expire_runs [OF assms]
  sweep_runs [OF assms])

end
