(* ===== verification/Db_Table.thy ===== *)
theory Db_Table
  imports Db_Service
begin

section \<open>A database of lists\<close>

text \<open>
  One database that keeps \<open>orm_laws\<close>: the rows of each table in a list, entries in the order of
  their last \<open>save\<close>, and a schedule that says which of the next queries raise. The laws of the
  queries can therefore hold, and a run of the code over a database can be computed.
\<close>

record sql =
  r_users :: "(string \<times> string) list"
  r_entries :: "((string \<times> string) \<times> (string \<times> int option)) list"
  r_sessions :: "(string \<times> (int \<times> string \<times> int)) list"
  r_fail :: "bool list"

definition query :: "(sql \<Rightarrow> 'a \<times> sql) \<Rightarrow> (sql, 'a) act" where
  "query f d =
     (case r_fail d of
        [] \<Rightarrow> map_prod Inr id (f d)
      | b # bs \<Rightarrow> if b then (Inl DatabaseError, d\<lparr>r_fail := bs\<rparr>) else map_prod Inr id (f (d\<lparr>r_fail := bs\<rparr>)))"

definition sql_view :: "sql \<Rightarrow> tables" where
  "sql_view d = \<lparr>t_users = map_of (r_users d), t_entries = map_of (r_entries d), t_sessions = map_of (r_sessions d)\<rparr>"

definition entries_of :: "string \<Rightarrow> sql \<Rightarrow> (string \<times> (string \<times> int option)) list" where
  "entries_of u d = map (\<lambda>((u', k), r). (k, r)) (filter (\<lambda>((u', k), r). u' = u) (AList.clearjunk (r_entries d)))"

definition sql_user_create :: "string \<Rightarrow> string \<Rightarrow> (sql, unit) act" where
  "sql_user_create u h d =
     (if map_of (r_users d) u \<noteq> None then (Inl DatabaseError, d)
      else query (\<lambda>d. ((), d\<lparr>r_users := r_users d @ [(u, h)]\<rparr>)) d)"

definition sql_bulk_users :: "(string \<times> string) list \<Rightarrow> (sql, unit) act" where
  "sql_bulk_users rows d =
     (if list_ex (\<lambda>(u, h). map_of (r_users d) u \<noteq> None) rows \<or> \<not> distinct (map fst rows) then (Inl DatabaseError, d)
      else query (\<lambda>d. ((), d\<lparr>r_users := r_users d @ rows\<rparr>)) d)"

definition sql_expired :: "int \<Rightarrow> string \<times> int option \<Rightarrow> bool" where
  "sql_expired now r = expired_at now (Some r)"

definition sql_min_expiry :: "sql \<Rightarrow> int option" where
  "sql_min_expiry d =
     (let ts = List.map_filter (\<lambda>(p, v, t). t) (AList.clearjunk (r_entries d))
      in if ts = [] then None else Some (Min (set ts)))"

definition list_orm :: "sql orm" where
  "list_orm = \<lparr>
     q_user_create = sql_user_create,
     q_user_get = \<lambda>u. query (\<lambda>d. (map_of (r_users d) u, d)),
     q_users = query (\<lambda>d. (AList.clearjunk (r_users d), d)),
     q_entry_upsert = \<lambda>u k v exp. query (\<lambda>d. ((), d\<lparr>r_entries := AList.delete (u, k) (r_entries d) @ [((u, k), (v, exp))]\<rparr>)),
     q_entry_get = \<lambda>u k. query (\<lambda>d. (map_of (r_entries d) (u, k), d)),
     q_entry_delete = \<lambda>u k. query (\<lambda>d. (if map_of (r_entries d) (u, k) = None then 0 else 1,
                                             d\<lparr>r_entries := AList.delete (u, k) (r_entries d)\<rparr>)),
     q_entry_expiry = \<lambda>u k exp. query (\<lambda>d. case map_of (r_entries d) (u, k) of
                                  None \<Rightarrow> (0, d)
                                | Some (v, _) \<Rightarrow> (1, d\<lparr>r_entries := AList.update (u, k) (v, exp) (r_entries d)\<rparr>)),
     q_entries_newest = \<lambda>u. query (\<lambda>d. (map (\<lambda>(k, v, t). (k, v)) (rev (entries_of u d)), d)),
     q_expiries = \<lambda>u. query (\<lambda>d. (List.map_filter (\<lambda>(k, v, t). map_option (Pair k) t) (entries_of u d), d)),
     q_live_keys = \<lambda>u now. query (\<lambda>d. (map fst (filter (\<lambda>(k, r). \<not> sql_expired now r) (entries_of u d)), d)),
     q_delete_expired = \<lambda>now. query (\<lambda>d. (length (filter (\<lambda>(p, r). sql_expired now r) (AList.clearjunk (r_entries d))),
                                 d\<lparr>r_entries := filter (\<lambda>(p, r). \<not> sql_expired now r) (AList.clearjunk (r_entries d))\<rparr>)),
     q_min_expiry = query (\<lambda>d. (sql_min_expiry d, d)),
     q_entry_rows = query (\<lambda>d. (map (\<lambda>((u, k), (v, t)). (u, k, v, t)) (AList.clearjunk (r_entries d)), d)),
     q_sessions = query (\<lambda>d. (AList.clearjunk (r_sessions d), d)),
     q_session_upsert = \<lambda>c seq r i. query (\<lambda>d. ((), d\<lparr>r_sessions := AList.update c (seq, r, i) (r_sessions d)\<rparr>)),
     q_session_delete = \<lambda>c. query (\<lambda>d. ((), d\<lparr>r_sessions := AList.delete c (r_sessions d)\<rparr>)),
     q_clear = query (\<lambda>d. ((), d\<lparr>r_users := [], r_entries := [], r_sessions := []\<rparr>)),
     q_bulk_users = sql_bulk_users,
     q_user_ids = \<lambda>us. query (\<lambda>d. (List.map_filter (\<lambda>(i, u, h). if u \<in> set us then Some (u, int i) else None)
                                              (enumerate 0 (r_users d)), d)),
     q_bulk_entries = \<lambda>rows. query (\<lambda>d. ((), d\<lparr>r_entries := r_entries d @
                          map (\<lambda>(i, k, v, t). ((fst (r_users d ! nat i), k), (v, t))) rows\<rparr>)),
     q_bulk_sessions = \<lambda>rows. query (\<lambda>d. ((), d\<lparr>r_sessions := r_sessions d @ rows\<rparr>)),
     q_rollback = \<lambda>d d'. d\<lparr>r_fail := r_fail d'\<rparr>\<rparr>"

lemma implements_query:
  assumes "\<And>d. spec (sql_view d) (fst (f d)) (sql_view (snd (f d)))"
  shows "implements sql_view (query f) spec"
  unfolding implements_def
proof
  fix d
  have v: "sql_view (d\<lparr>r_fail := bs\<rparr>) = sql_view d" for bs by (simp add: sql_view_def)
  show "case query f d of (Inr x, d') \<Rightarrow> spec (sql_view d) x (sql_view d') | (Inl e, d') \<Rightarrow> sql_view d' = sql_view d"
  proof (cases "r_fail d")
    case Nil
    then show ?thesis using assms [of d] by (cases "f d") (simp add: query_def)
  next
    case (Cons b bs)
    then show ?thesis using assms [of "d\<lparr>r_fail := bs\<rparr>"] v by (cases "f (d\<lparr>r_fail := bs\<rparr>)") (simp add: query_def)
  qed
qed

lemma entries_of: "distinct (map fst (entries_of u d)) \<and> map_of (entries_of u d) = (\<lambda>k. map_of (r_entries d) (u, k))"
proof -
  have "distinct (map fst xs) \<Longrightarrow>
    (let ys = map (\<lambda>((u', k), r). (k, r)) (filter (\<lambda>((u', k), r). u' = u) xs) in
      distinct (map fst ys) \<and> map_of ys = (\<lambda>k. map_of xs (u, k)))" for xs :: "((string \<times> string) \<times> (string \<times> int option)) list"
  proof (induction xs)
    case Nil
    then show ?case by simp
  next
    case (Cons x xs)
    obtain u' k r where x: "x = ((u', k), r)" by (metis surj_pair)
    define ys where "ys = map (\<lambda>((u', k), r). (k, r)) (filter (\<lambda>((u', k), r). u' = u) xs)"
    have IH: "distinct (map fst ys)" "map_of ys = (\<lambda>k. map_of xs (u, k))"
      using Cons by (simp_all add: Let_def ys_def)
    have n: "map_of xs (u', k) = None" using Cons(2) x by (simp add: map_of_eq_None_iff)
    have k: "k \<notin> fst ` set ys" if "u' = u"
    proof -
      have "map_of ys k = None" using IH(2) n that by simp
      then show ?thesis by (simp only: map_of_eq_None_iff not_False_eq_True)
    qed
    moreover have "map (\<lambda>((u', k), r). (k, r)) (filter (\<lambda>((u', k), r). u' = u) (x # xs)) =
      (if u' = u then (k, r) # ys else ys)" by (simp add: x ys_def)
    ultimately show ?case using IH x by (auto simp: Let_def fun_eq_iff)
  qed
  from this [of "AList.clearjunk (r_entries d)"] show ?thesis
    by (simp add: entries_of_def Let_def map_of_clearjunk)
qed

lemma map_of_map_filter:
  "distinct (map fst xs) \<Longrightarrow>
   distinct (map fst (List.map_filter (\<lambda>(k, v, t). map_option (Pair k) t) xs)) \<and>
   map_of (List.map_filter (\<lambda>(k, v, t). map_option (Pair k) t) xs) = (\<lambda>k. Option.bind (map_of xs k) snd)"
proof (induction xs)
  case Nil
  then show ?case by (simp add: List.map_filter_def)
next
  case (Cons x xs)
  obtain k v t where x: "x = (k, v, t)" by (metis surj_pair)
  have sub: "fst ` set (List.map_filter (\<lambda>(k, v, t). map_option (Pair k) t) xs) \<subseteq> fst ` set xs"
    by (force simp: List.map_filter_def)
  have n: "map_of xs k = None" using Cons(2) x by (simp add: map_of_eq_None_iff)
  show ?case
  proof (cases t)
    case None
    then show ?thesis using Cons x n by (auto simp: List.map_filter_simps fun_eq_iff simp del: map_of_eq_None_iff)
  next
    case (Some i)
    then show ?thesis using Cons x sub by (auto simp: List.map_filter_simps fun_eq_iff)
  qed
qed

lemma rows_of_clearjunk: "rows_of (map_of xs) (AList.clearjunk xs)"
  by (simp add: rows_of_def map_of_clearjunk)

lemma sql_min_expiry:
  "case sql_min_expiry d of None \<Rightarrow> \<forall>p. map_option snd (map_of (r_entries d) p) \<in> {None, Some None}
   | Some t \<Rightarrow> (\<exists>p v. map_of (r_entries d) p = Some (v, Some t)) \<and>
               (\<forall>p v t'. map_of (r_entries d) p = Some (v, Some t') \<longrightarrow> t \<le> t')"
proof -
  let ?xs = "AList.clearjunk (r_entries d)"
  have m: "t \<in> set (List.map_filter (\<lambda>(p, v, t). t) ?xs) \<longleftrightarrow> (\<exists>p v. map_of (r_entries d) p = Some (v, Some t))" for t
  proof -
    have "t \<in> set (List.map_filter (\<lambda>(p, v, t). t) ?xs) \<longleftrightarrow> (\<exists>p v. (p, v, Some t) \<in> set ?xs)"
      by (force simp: List.map_filter_def)
    also have "\<dots> \<longleftrightarrow> (\<exists>p v. map_of ?xs p = Some (v, Some t))"
      by (simp add: map_of_eq_Some_iff distinct_clearjunk)
    finally show ?thesis by (simp add: map_of_clearjunk)
  qed
  show ?thesis
  proof (cases "List.map_filter (\<lambda>(p, v, t). t) ?xs = []")
    case True
    then have "map_of (r_entries d) p \<noteq> Some (v, Some t)" for p v t
      using m [of t] by (cases p) auto
    then have "map_option snd (map_of (r_entries d) p) \<in> {None, Some None}" for p
      by (cases "map_of (r_entries d) p"; cases "snd (the (map_of (r_entries d) p))") (simp, simp, simp, metis option.sel prod.collapse)
    then show ?thesis using True by (simp add: sql_min_expiry_def)
  next
    case False
    then have "Min (set (List.map_filter (\<lambda>(p, v, t). t) ?xs)) \<in> set (List.map_filter (\<lambda>(p, v, t). t) ?xs)"
      by (intro Min_in) simp_all
    moreover have "Min (set (List.map_filter (\<lambda>(p, v, t). t) ?xs)) \<le> t" if "map_of (r_entries d) p = Some (v, Some t)" for p v t
      using m [of t] that by (intro Min_le finite_set) (cases p, blast)
    ultimately show ?thesis using False m by (auto simp: sql_min_expiry_def)
  qed
qed

lemma card_expired: "card {p. expired_at now (map_of xs p)} = length (filter (\<lambda>(p, r). sql_expired now r) (AList.clearjunk xs))"
proof -
  let ?ys = "filter (\<lambda>(p, r). sql_expired now r) (AList.clearjunk xs)"
  have "distinct (map fst ?ys)" by (rule distinct_map_filter) (rule distinct_clearjunk)
  then have "card (set (map fst ?ys)) = length ?ys" by (metis distinct_card length_map)
  moreover have "set (map fst ?ys) = {p. expired_at now (map_of xs p)}"
  proof -
    have "p \<in> set (map fst ?ys) \<longleftrightarrow> (\<exists>r. map_of xs p = Some r \<and> sql_expired now r)" for p
      by (force simp: map_of_eq_Some_iff [OF distinct_clearjunk, symmetric] map_of_clearjunk)
    moreover have "expired_at now (map_of xs p) \<longleftrightarrow> (\<exists>r. map_of xs p = Some r \<and> sql_expired now r)" for p
      by (cases "map_of xs p") (simp_all add: sql_expired_def expired_at_def)
    ultimately show ?thesis by blast
  qed
  ultimately show ?thesis by simp
qed

lemma map_of_not_expired:
  "map_of (filter (\<lambda>(p, r). \<not> sql_expired now r) (AList.clearjunk xs)) =
   (\<lambda>p. if expired_at now (map_of xs p) then None else map_of xs p)"
proof -
  have "map_of (filter (\<lambda>(p, r). \<not> sql_expired now r) ys) = (\<lambda>p. if expired_at now (map_of ys p) then None else map_of ys p)"
    if "distinct (map fst ys)" for ys
    using that
  proof (induction ys)
    case Nil
    then show ?case by (simp add: expired_at_def)
  next
    case (Cons y ys)
    have "map_of ys (fst y) = None" using Cons(2) by (simp add: map_of_eq_None_iff)
    then show ?case using Cons by (auto simp: fun_eq_iff sql_expired_def expired_at_def split: option.splits)
  qed
  from this [OF distinct_clearjunk] show ?thesis by (simp only: map_of_clearjunk)
qed

lemma map_of_rev_distinct:
  assumes "distinct (map fst xs)"
  shows "map_of (rev xs) = map_of xs"
proof
  fix k
  have d: "distinct (map fst (rev xs))" using assms by (simp add: rev_map [symmetric])
  have "map_of (rev xs) k = Some v \<longleftrightarrow> map_of xs k = Some v" for v
    using map_of_eq_Some_iff [OF assms] map_of_eq_Some_iff [OF d] by simp
  then show "map_of (rev xs) k = map_of xs k" by (metis not_Some_eq)
qed

lemma sql_bulk: "implements sql_view (sql_user_create u h)
    (\<lambda>T x T'. t_users T u = None \<and> T' = T\<lparr>t_users := (t_users T)(u \<mapsto> h)\<rparr>)"
  unfolding implements_def
proof
  fix d
  show "case sql_user_create u h d of (Inr x, d') \<Rightarrow>
      t_users (sql_view d) u = None \<and> sql_view d' = (sql_view d)\<lparr>t_users := (t_users (sql_view d))(u \<mapsto> h)\<rparr>
    | (Inl e, d') \<Rightarrow> sql_view d' = sql_view d"
  proof (cases "map_of (r_users d) u")
    case None
    have "map_of (r_users d @ [(u, h)]) = (map_of (r_users d))(u \<mapsto> h)"
      using None by (auto simp: map_add_def fun_eq_iff split: option.splits)
    then show ?thesis using None
      by (cases "r_fail d") (simp_all add: sql_user_create_def query_def sql_view_def)
  qed (simp add: sql_user_create_def)
qed

theorem list_orm_laws: "orm_laws list_orm sql_view"
  unfolding orm_laws_def
proof (intro conjI allI, goal_cases)
  case (1 u h)
  then show ?case by (simp add: list_orm_def sql_bulk)
next
  case (4 u k v exp)
  have "map_of (AList.delete (u, k) xs @ [((u, k), (v, exp))]) = (map_of xs)((u, k) \<mapsto> (v, exp))"
    for xs :: "((string \<times> string) \<times> (string \<times> int option)) list"
    by (auto simp: map_add_def fun_eq_iff delete_conv' split: option.splits)
  then show ?case by (auto simp: list_orm_def sql_view_def intro!: implements_query)
next
  case (8 u)
  have "rows_of (\<lambda>k. map_option fst (map_of (r_entries d) (u, k))) (map (\<lambda>(k, v, t). (k, v)) (rev (entries_of u d)))" for d
  proof -
    have r: "distinct (map fst (rev (entries_of u d)))" "map_of (rev (entries_of u d)) = (\<lambda>k. map_of (r_entries d) (u, k))"
      using entries_of [of u d] by (simp_all add: rev_map [symmetric] map_of_rev_distinct)
    have "map fst (map (\<lambda>(k, v, t). (k, v)) ys) = map fst ys" for ys :: "(string \<times> string \<times> int option) list"
      by (induction ys) auto
    moreover have "map_of (map (\<lambda>(k, v, t). (k, v)) ys) k = map_option fst (map_of ys k)" for ys :: "(string \<times> string \<times> int option) list" and k
      by (induction ys) auto
    ultimately show ?thesis using r unfolding rows_of_def by (simp only: fun_eq_iff simp_thms)
  qed
  then show ?case by (auto simp: list_orm_def sql_view_def intro!: implements_query)
next
  case (9 u)
  have "rows_of (\<lambda>k. Option.bind (map_of (r_entries d) (u, k)) snd)
      (List.map_filter (\<lambda>(k, v, t). map_option (Pair k) t) (entries_of u d))" for d
    using map_of_map_filter [of "entries_of u d"] entries_of [of u d] by (simp add: rows_of_def)
  then show ?case by (auto simp: list_orm_def sql_view_def intro!: implements_query)
next
  case (10 u now)
  have "distinct (map fst (filter (\<lambda>(k, r). \<not> sql_expired now r) (entries_of u d)))" for d
    by (rule distinct_map_filter) (use entries_of in blast)
  moreover have "set (map fst (filter (\<lambda>(k, r). \<not> sql_expired now r) (entries_of u d))) =
    {k. map_of (r_entries d) (u, k) \<noteq> None \<and> \<not> expired_at now (map_of (r_entries d) (u, k))}" for d
  proof -
    have e: "distinct (map fst (entries_of u d))" "map_of (entries_of u d) = (\<lambda>k. map_of (r_entries d) (u, k))"
      using entries_of by blast+
    have "k \<in> set (map fst (filter (\<lambda>(k, r). \<not> sql_expired now r) (entries_of u d))) \<longleftrightarrow>
      (\<exists>r. map_of (entries_of u d) k = Some r \<and> \<not> sql_expired now r)" for k
      by (force simp: map_of_eq_Some_iff [OF e(1)])
    moreover have "(map_of (r_entries d) (u, k) \<noteq> None \<and> \<not> expired_at now (map_of (r_entries d) (u, k))) \<longleftrightarrow>
      (\<exists>r. map_of (entries_of u d) k = Some r \<and> \<not> sql_expired now r)" for k
      using e(2) by (cases "map_of (r_entries d) (u, k)") (simp_all add: sql_expired_def)
    ultimately show ?thesis by blast
  qed
  ultimately show ?case by (auto simp: list_orm_def sql_view_def intro!: implements_query)
next
  case (11 now)
  then show ?case
    by (auto simp: list_orm_def sql_view_def map_of_not_expired card_expired intro!: implements_query cong: if_cong)
next
  case 12
  have t: "t_entries (sql_view d) = map_of (r_entries d)" for d by (simp add: sql_view_def)
  show ?case
    by (simp add: list_orm_def, intro implements_query) (simp only: fst_conv snd_conv t sql_min_expiry simp_thms)
next
  case 13
  have "map (\<lambda>(u, k, v, exp). ((u, k), (v, exp))) (map (\<lambda>((u, k), (v, t)). (u, k, v, t)) xs) = xs" for xs :: "((string \<times> string) \<times> (string \<times> int option)) list"
    by (induction xs) auto
  then show ?case by (auto simp: list_orm_def sql_view_def rows_of_clearjunk intro!: implements_query simp del: map_map)
qed (auto simp: list_orm_def sql_view_def rows_of_clearjunk delete_conv' update_conv' fun_eq_iff intro!: implements_query
    split: option.splits if_splits)

end
