(* ===== verification/Sm_Sessions.thy ===== *)
theory Sm_Sessions
  imports Sm_Database Db_Table
begin

section \<open>Log entries and client sessions\<close>

text \<open>
  What applying a whole log entry does: the session check, the command, the new session. Over the
  database it is a function \<open>spec_entry\<close> of the tables and the sessions alone, so that replicas that
  apply the same log agree whatever their caches hold. In both modes a request that was answered is
  answered the same way again.
\<close>

subsection \<open>Sessions\<close>

definition new_sessions ::
  "string \<Rightarrow> int \<Rightarrow> json \<Rightarrow> int \<Rightarrow> (string, int \<times> json \<times> int) dict \<Rightarrow> (string, int \<times> json \<times> int) dict \<times> string option" where
  "new_sessions c seq r i ss =
     (let ss1 = dict_set ss c (seq, r, i);
          evict = (if length ss1 > max_sessions then oldest_session ss1 else None)
      in (case evict of None \<Rightarrow> ss1 | Some o1 \<Rightarrow> dict_pop ss1 o1, evict))"

lemma oldest_session_min:
  "oldest_session ss = Some c \<Longrightarrow>
   \<exists>p\<in>set ss. fst p = c \<and> (\<forall>p'\<in>set ss. snd (snd (snd p)) \<le> snd (snd (snd p')))"
proof (induction ss rule: oldest_session.induct)
  case (3 a s b s' rest)
  show ?case
  proof (cases "snd (snd s') < snd (snd s)")
    case True
    then have "oldest_session ((b, s') # rest) = Some c" using 3(3) by simp
    from 3(1) [OF True this] show ?thesis using True by (auto intro: order.trans less_imp_le)
  next
    case False
    then have "oldest_session ((a, s) # rest) = Some c" using 3(3) by simp
    from 3(2) [OF False this] show ?thesis using False by (auto intro: order.trans)
  qed
qed auto

lemma new_sessions_own:
  assumes "dict_ok ss" and "\<And>c' q r' j. map_of ss c' = Some (q, r', j) \<Longrightarrow> j < i"
  shows "map_of (fst (new_sessions c seq r i ss)) c = Some (seq, r, i)"
proof (cases "length (dict_set ss c (seq, r, i)) > max_sessions")
  case False
  then show ?thesis by (simp add: new_sessions_def)
next
  case True
  let ?ss = "dict_set ss c (seq, r, i)"
  have d: "distinct (map fst ?ss)" using assms(1) by (simp add: dict_ok_def [symmetric])
  show ?thesis
  proof (cases "oldest_session ?ss")
    case None
    then show ?thesis using True by (simp add: new_sessions_def)
  next
    case (Some o1)
    obtain v where v: "(o1, v) \<in> set ?ss" "\<forall>p'\<in>set ?ss. snd (snd v) \<le> snd (snd (snd p'))"
      using oldest_session_min [OF Some] by auto
    have "o1 \<noteq> c"
    proof
      assume "o1 = c"
      then have "snd (snd v) = i"
        using v(1) map_of_is_SomeI [OF d v(1)] by auto
      define ks where "ks = set (map fst ?ss)"
      have "card ks = length ?ss" unfolding ks_def using distinct_card [OF d] by (simp only: length_map)
      then have "1 < card ks" using True by (simp add: max_sessions_def)
      moreover have "card ks \<le> 1" if "ks \<subseteq> {c}" using card_mono [OF _ that] by simp
      ultimately obtain c' where "c' \<in> ks" "c' \<noteq> c" by fastforce
      then have "c' \<in> fst ` set ?ss" unfolding ks_def by (simp only: set_map)
      then obtain p' where p': "c' = fst p'" "p' \<in> set ?ss" by (rule imageE)
      define w where "w = snd p'"
      have w: "(c', w) \<in> set ?ss" unfolding w_def p'(1) prod.collapse by (rule p'(2))
      then have "map_of ?ss c' = Some w" using map_of_is_SomeI [OF d] by blast
      then have "map_of ss c' = Some w" using \<open>c' \<noteq> c\<close> by simp
      then have "snd (snd w) < i" using assms(2) by (cases w) auto
      then show False using v(2) w \<open>snd (snd v) = i\<close> by fastforce
    qed
    then show ?thesis using Some True by (simp add: new_sessions_def)
  qed
qed

lemma check_session_cases:
  "check_session rid s =
     (case parse_request_id rid of
        Inl e \<Rightarrow> (Inl e, s)
      | Inr (c, seq) \<Rightarrow>
          (Inr (case map_of (sessions s) c of
                  None \<Rightarrow> None
                | Some (q, r, i) \<Rightarrow> if seq > q then None else if seq = q then Some r else Some JNull), s))"
  by (simp add: check_session_def bind_def of_sum_def get_st_def ret_def split: sum.split prod.split)

subsection \<open>A command leaves the sessions alone\<close>

named_theorems keeps

definition keeps_sessions :: "('d machine, 'a) act \<Rightarrow> bool" where
  "keeps_sessions m = (\<forall>s. sessions (snd (m s)) = sessions s)"

lemma keeps_basic [keeps]:
  "keeps_sessions (ret x)" "keeps_sessions (throw e)" "keeps_sessions get_st" "keeps_sessions (of_sum r)"
  "keeps_sessions (on_db q)" "keeps_sessions (put_store u st)" "keeps_sessions (change_store u f)"
  by (auto simp: keeps_sessions_def ret_def throw_def get_st_def of_sum_def on_db_def on_part_def put_store_def
    modify_def change_store_def split: prod.split option.split)

lemma keeps_bind [keeps]: "keeps_sessions m \<Longrightarrow> (\<And>x. keeps_sessions (f x)) \<Longrightarrow> keeps_sessions (bind m f)"
  unfolding keeps_sessions_def bind_def by (auto split: prod.split sum.split) (metis snd_conv)+

lemma keeps_if [keeps]: "keeps_sessions m \<Longrightarrow> keeps_sessions m' \<Longrightarrow> keeps_sessions (if b then m else m')"
  by simp

lemma keeps_option [keeps]:
  "(\<And>x. keeps_sessions (f x)) \<Longrightarrow> keeps_sessions m \<Longrightarrow> keeps_sessions (case r of None \<Rightarrow> m | Some x \<Rightarrow> f x)"
  by (cases r) simp_all

lemma keeps_prod [keeps]: "(\<And>x y. keeps_sessions (f x y)) \<Longrightarrow> keeps_sessions (case p of (x, y) \<Rightarrow> f x y)"
  by (cases p) simp

lemma keeps_get_store [keeps]: "keeps_sessions (get_store D u)"
  unfolding get_store_def load_user_from_db_def by (intro keeps)

lemma keeps_lookup [keeps]: "keeps_sessions (lookup D st u k)"
  unfolding lookup_def by (intro keeps)

lemma keeps_command: "keeps_sessions (run_command D u c)"
proof (cases c)
  case (Sweep now)
  have "keeps_sessions (modify (\<lambda>s. s\<lparr>stores := map f (stores s)\<rparr>))" for f
    by (simp add: keeps_sessions_def modify_def)
  then show ?thesis unfolding Sweep run_command.simps apply_sweep_def by (intro keeps)
qed (simp_all only: run_command.simps apply_signup_def apply_set_def apply_delete_def apply_expiry_def, (intro keeps)+)

lemma apply_command_sessions: "sessions (snd (apply_command D x s)) = sessions s"
proof -
  have "keeps_sessions (apply_command D x)"
    unfolding apply_command_parse by (intro keeps keeps_command)
  then show ?thesis by (simp add: keeps_sessions_def)
qed

subsection \<open>A request is answered once\<close>

definition save_sessions ::
  "'d orm \<Rightarrow> string \<Rightarrow> int \<Rightarrow> json \<Rightarrow> int \<Rightarrow> string option \<Rightarrow> ('d machine, unit) act" where
  "save_sessions D c seq r i evict =
     bind (on_db (save_session D c seq (dumps r) i)) (\<lambda>_.
       case evict of None \<Rightarrow> ret () | Some o1 \<Rightarrow> if o1 = [] then ret () else on_db (delete_session D o1))"

lemma record_session_split:
  assumes "parse_request_id rid = Inr (c, seq)" and "new_sessions c seq r i (sessions s) = (ss, evict)"
  shows "record_session D rid r i s =
    (if use_db s then save_sessions D c seq r i evict else ret ()) (s\<lparr>sessions := ss\<rparr>)"
proof -
  let ?ss = "dict_set (sessions s) c (seq, r, i)"
  let ?e = "if length ?ss > max_sessions then oldest_session ?ss else None"
  have e: "evict = ?e" "ss = (case ?e of None \<Rightarrow> ?ss | Some o1 \<Rightarrow> dict_pop ?ss o1)"
    using assms(2) by (auto simp: new_sessions_def Let_def)
  have m: "(case ?e of None \<Rightarrow> s\<lparr>sessions := ?ss\<rparr> | Some o1 \<Rightarrow> s\<lparr>sessions := dict_pop ?ss o1\<rparr>) = s\<lparr>sessions := ss\<rparr>"
    unfolding e(2) by (cases ?e) simp_all
  have "record_session D rid r i s = (if \<not> use_db s then ret () else save_sessions D c seq r i ?e)
      (case ?e of None \<Rightarrow> s\<lparr>sessions := ?ss\<rparr> | Some o1 \<Rightarrow> s\<lparr>sessions := dict_pop ?ss o1\<rparr>)"
    using assms(1) unfolding record_session_def save_sessions_def Let_def
    by (simp add: bind_def [of "of_sum _"] bind_def [of "modify _"] bind_def [of get_st] of_sum_def
        modify_def get_st_def cong: option.case_cong)
  then show ?thesis unfolding m e(1) by simp
qed

lemma record_session_state:
  assumes "parse_request_id rid = Inr (c, seq)"
  shows "sessions (snd (record_session D rid r i s)) = fst (new_sessions c seq r i (sessions s))"
proof -
  obtain ss evict where n: "new_sessions c seq r i (sessions s) = (ss, evict)" by (cases "new_sessions c seq r i (sessions s)")
  have "keeps_sessions (if use_db s then save_sessions D c seq r i evict else ret ())"
    unfolding save_sessions_def by (intro keeps)
  then show ?thesis
    unfolding record_session_split [OF assms n] n keeps_sessions_def by simp
qed

lemma apply_entry_again:
  assumes rid: "e_request_id x \<noteq> []" "e_request_id y = e_request_id x"
    and ok: "dict_ok (sessions s)"
    and idx: "\<forall>c q r j. map_of (sessions s) c = Some (q, r, j) \<longrightarrow> j < e_index x"
    and run: "apply_entry D x s = (Inr r, s')"
  shows "apply_entry D y s' = (Inr r, s')"
proof -
  obtain c seq where p: "parse_request_id (e_request_id x) = Inr (c, seq)"
    using run rid(1) by (cases "parse_request_id (e_request_id x)")
      (auto simp: apply_entry_def bind_def check_session_cases split: prod.splits sum.splits)
  let ?cached = "case map_of (sessions s) c of None \<Rightarrow> None
    | Some (q, r, i) \<Rightarrow> if seq > q then None else if seq = q then Some r else Some JNull"
  show ?thesis
  proof (cases ?cached)
    case (Some r1)
    then have "r = r1 \<and> s' = s"
      using run rid(1) p by (simp add: apply_entry_def bind_def check_session_cases ret_def)
    then show ?thesis
      using Some rid p by (simp add: apply_entry_def bind_def check_session_cases ret_def)
  next
    case None
    then obtain s1 where s1: "apply_command D x s = (Inr r, s1)"
        "record_session D (e_request_id x) r (e_index x) s1 = (Inr (), s')"
      using run rid(1) p
      by (auto simp: apply_entry_def bind_def check_session_cases ret_def split: prod.splits sum.splits)
    have "sessions s1 = sessions s" using apply_command_sessions [of D x s] s1(1) by simp
    then have "sessions s' = fst (new_sessions c seq r (e_index x) (sessions s))"
      using record_session_state [OF p, of D r "e_index x" s1] s1(2) by simp
    then have "map_of (sessions s') c = Some (seq, r, e_index x)"
      using new_sessions_own [OF ok] idx by metis
    then show ?thesis using rid p by (simp add: apply_entry_def bind_def check_session_cases ret_def)
  qed
qed

subsection \<open>Log entries over the database\<close>

type_synonym session_dict = "(string, int \<times> json \<times> int) dict"

definition run_spec :: "log_entry \<Rightarrow> tables \<Rightarrow> py_exn + json \<times> tables" where
  "run_spec x T = map_sum id (\<lambda>c. spec_cmd (e_username x) c T) (parse_command (e_command x))"

definition session_rows :: "string \<Rightarrow> int \<Rightarrow> json \<Rightarrow> int \<Rightarrow> string option \<Rightarrow> tables \<Rightarrow> tables" where
  "session_rows c seq r i evict T =
     T\<lparr>t_sessions := (let f = (t_sessions T)(c \<mapsto> (seq, dumps r, i))
                     in case evict of None \<Rightarrow> f | Some o1 \<Rightarrow> if o1 = [] then f else f(o1 := None))\<rparr>"

definition spec_entry :: "log_entry \<Rightarrow> tables \<times> session_dict \<Rightarrow> py_exn + json \<times> (tables \<times> session_dict)" where
  "spec_entry x = (\<lambda>(T, ss).
     if e_request_id x = [] then map_sum id (\<lambda>(r, T'). (r, (T', ss))) (run_spec x T)
     else case parse_request_id (e_request_id x) of
            Inl e \<Rightarrow> Inl e
          | Inr (c, seq) \<Rightarrow>
              (case (case map_of ss c of
                       None \<Rightarrow> None
                     | Some (q, r, i) \<Rightarrow> if seq > q then None else if seq = q then Some r else Some JNull) of
                 Some r \<Rightarrow> Inr (r, (T, ss))
               | None \<Rightarrow>
                   map_sum id (\<lambda>(r, T').
                     let (ss', evict) = new_sessions c seq r (e_index x) ss
                     in (r, (session_rows c seq r (e_index x) evict T', ss'))) (run_spec x T)))"

lemma runs_outcome:
  assumes "runs view m (seen view s) Q E"
  shows "m s = (Inr x, s') \<Longrightarrow> Q x (seen view s')" and "m s = (Inl e, s') \<Longrightarrow> E (seen view s')"
proof -
  have "case m s of (Inr x, s') \<Rightarrow> Q x (seen view s') | (Inl e, s') \<Rightarrow> E (seen view s')"
    using assms by (simp add: runs_def)
  then show "m s = (Inr x, s') \<Longrightarrow> Q x (seen view s')" "m s = (Inl e, s') \<Longrightarrow> E (seen view s')" by simp_all
qed

lemma command_outcome:
  assumes "orm_laws D view" and "db_ok (seen view s)"
  shows "apply_command D x s = (Inr r, s') \<Longrightarrow>
      \<exists>c. parse_command (e_command x) = Inr c \<and> applied (e_username x) c (seen view s) r (seen view s')"
    and "apply_command D x s = (Inl e, s') \<Longrightarrow>
      s' = s \<or> (\<exists>c. parse_command (e_command x) = Inr c \<and> half_applied (e_username x) c (seen view s) (seen view s'))"
proof -
  note R = run_command_runs [OF assms]
  show "apply_command D x s = (Inr r, s') \<Longrightarrow>
      \<exists>c. parse_command (e_command x) = Inr c \<and> applied (e_username x) c (seen view s) r (seen view s')"
    unfolding apply_command_parse using runs_outcome(1) [OF R] by (cases "parse_command (e_command x)") simp_all
  show "apply_command D x s = (Inl e, s') \<Longrightarrow>
      s' = s \<or> (\<exists>c. parse_command (e_command x) = Inr c \<and> half_applied (e_username x) c (seen view s) (seen view s'))"
    unfolding apply_command_parse using runs_outcome(2) [OF R] by (cases "parse_command (e_command x)") auto
qed

lemma seen_simps [simp]:
  "use_db (seen view s) = use_db s" "capacity (seen view s) = capacity s" "stores (seen view s) = stores s"
  "sessions (seen view s) = sessions s" "db (seen view s) = view (db s)"
  by (simp_all add: seen_def)

lemma seen_sessions: "seen view (s\<lparr>sessions := ss\<rparr>) = (seen view s)\<lparr>sessions := ss\<rparr>"
  by (simp add: seen_def)

lemma db_ok_sessions:
  "db_ok (t\<lparr>sessions := ss\<rparr>) = db_ok t"
  "db_ok (t\<lparr>db := (db t)\<lparr>t_sessions := f\<rparr>\<rparr>) = db_ok t"
  by (simp_all add: db_ok_def store_ok_def)

definition same_but_rows :: "string \<Rightarrow> int \<times> string \<times> int \<Rightarrow> tables machine \<Rightarrow> tables machine \<Rightarrow> bool" where
  "same_but_rows c row t t' =
     (\<exists>f \<in> {t_sessions (db t), (t_sessions (db t))(c \<mapsto> row)}. t' = t\<lparr>db := (db t)\<lparr>t_sessions := f\<rparr>\<rparr>)"

lemma save_sessions_runs:
  assumes "orm_laws D view"
  shows "runs view (save_sessions D c seq r i evict) t
    (\<lambda>_ t'. t' = t\<lparr>db := session_rows c seq r i evict (db t)\<rparr>) (same_but_rows c (seq, dumps r, i) t)"
proof -
  let ?same = "same_but_rows c (seq, dumps r, i) t"
  have same: "?same t" unfolding same_but_rows_def by (rule bexI [of _ "t_sessions (db t)"]) (cases t; simp)+
  show ?thesis
    unfolding save_sessions_def save_session_def
  proof (intro runs_bind_db [OF orm_query(12) [OF assms]] same, goal_cases)
    case (1 x T)
    then have T: "T = (db t)\<lparr>t_sessions := (t_sessions (db t))(c \<mapsto> (seq, dumps r, i))\<rparr>" by simp
    have e: "?same (t\<lparr>db := T\<rparr>)" unfolding same_but_rows_def T by blast
    show ?case
    proof (cases evict)
      case None
      then show ?thesis by (simp add: session_rows_def T)
    next
      case (Some o1)
      have "runs view (on_db (q_session_delete D o1)) (t\<lparr>db := T\<rparr>)
          (\<lambda>_ t'. t' = t\<lparr>db := T\<lparr>t_sessions := (t_sessions T)(o1 := None)\<rparr>\<rparr>) ?same"
        by (rule runs_db [OF orm_query(13) [OF assms]]) (simp_all add: e)
      then show ?thesis using Some by (simp add: session_rows_def T Let_def delete_session_def)
    qed
  qed
qed

lemma entry_effect:
  assumes D: "orm_laws D view" and ok: "db_ok (seen view s)" and run: "apply_entry D x s = (Inr r, s')"
  shows "spec_entry x (view (db s), sessions s) = Inr (r, (view (db s'), sessions s')) \<and>
    db_ok (seen view s')"
proof (cases "e_request_id x = []")
  case True
  then have "apply_command D x s = (Inr r, s')"
    using run by (auto simp: apply_entry_def bind_def ret_def split: prod.splits sum.splits)
  from command_outcome(1) [OF D ok this] show ?thesis
    using True by (auto simp: spec_entry_def run_spec_def applied_def)
next
  case False
  obtain c seq where p: "parse_request_id (e_request_id x) = Inr (c, seq)"
    using run False by (cases "parse_request_id (e_request_id x)")
      (auto simp: apply_entry_def bind_def check_session_cases split: prod.splits sum.splits)
  show ?thesis
  proof (cases "case map_of (sessions s) c of None \<Rightarrow> None
    | Some (q, r, i) \<Rightarrow> if seq > q then None else if seq = q then Some r else Some JNull")
    case (Some r1)
    then have "r = r1 \<and> s' = s"
      using run False p by (simp add: apply_entry_def bind_def check_session_cases ret_def)
    then show ?thesis using Some p False ok by (simp add: spec_entry_def)
  next
    case None
    then obtain s1 where s1: "apply_command D x s = (Inr r, s1)"
        "record_session D (e_request_id x) r (e_index x) s1 = (Inr (), s')"
      using run False p
      by (auto simp: apply_entry_def bind_def check_session_cases ret_def split: prod.splits sum.splits)
    obtain cmd where cmd: "parse_command (e_command x) = Inr cmd"
        "applied (e_username x) cmd (seen view s) r (seen view s1)"
      using command_outcome(1) [OF D ok s1(1)] by blast
    obtain ss evict where n: "new_sessions c seq r (e_index x) (sessions s1) = (ss, evict)" by (metis surj_pair)
    have "use_db s1" using cmd(2) by (simp add: applied_def db_ok_def)
    then have sv: "save_sessions D c seq r (e_index x) evict (s1\<lparr>sessions := ss\<rparr>) = (Inr (), s')"
      using s1(2) unfolding record_session_split [OF p n] by simp
    have s': "seen view s' = (seen view (s1\<lparr>sessions := ss\<rparr>))\<lparr>db := session_rows c seq r (e_index x) evict (view (db s1))\<rparr>"
      using runs_outcome(1) [OF save_sessions_runs [OF D] sv] by simp
    have "db (seen view s') = session_rows c seq r (e_index x) evict (view (db s1))" "sessions (seen view s') = ss"
      "db_ok (seen view s')"
      unfolding s' using cmd(2) by (simp_all add: seen_sessions db_ok_sessions session_rows_def applied_def)
      (simp_all add: db_ok_def store_ok_def)
    then show ?thesis
      using p False None cmd n by (simp add: spec_entry_def run_spec_def applied_def)
  qed
qed

fun apply_log :: "'d orm \<Rightarrow> log_entry list \<Rightarrow> ('d machine, json list) act" where
  "apply_log D [] = ret []"
| "apply_log D (x # xs) = bind (apply_entry D x) (\<lambda>r. bind (apply_log D xs) (\<lambda>rs. ret (r # rs)))"

fun spec_log :: "log_entry list \<Rightarrow> tables \<times> session_dict \<Rightarrow> py_exn + json list \<times> (tables \<times> session_dict)" where
  "spec_log [] T = Inr ([], T)"
| "spec_log (x # xs) T =
     (case spec_entry x T of
        Inl e \<Rightarrow> Inl e
      | Inr (r, T1) \<Rightarrow> map_sum id (\<lambda>(rs, T2). (r # rs, T2)) (spec_log xs T1))"

lemma log_effect:
  assumes "orm_laws D view" and "db_ok (seen view s)" and "apply_log D xs s = (Inr rs, s')"
  shows "spec_log xs (view (db s), sessions s) = Inr (rs, (view (db s'), sessions s'))"
  using assms(2,3)
proof (induction xs arbitrary: s rs)
  case Nil
  then show ?case by simp
next
  case (Cons x xs)
  then obtain r s1 rs1 where *: "apply_entry D x s = (Inr r, s1)" "apply_log D xs s1 = (Inr rs1, s')" "rs = r # rs1"
    by (auto simp: bind_def ret_def split: prod.splits sum.splits)
  note e = entry_effect [OF assms(1) Cons(2) *(1)]
  show ?case using e Cons.IH [OF conjunct2 [OF e] *(2)] *(3) by simp
qed

subsection \<open>Retrying\<close>

text \<open>The raft loop applies an entry again until it does not raise; \<open>ms\<close> are the states that the failures leave.\<close>

inductive retried :: "'d orm \<Rightarrow> log_entry \<Rightarrow> 'd machine \<Rightarrow> 'd machine list \<Rightarrow> json \<Rightarrow> 'd machine \<Rightarrow> bool" for D x where
  done1: "apply_entry D x s = (Inr r, s') \<Longrightarrow> retried D x s [] r s'"
| again: "apply_entry D x s = (Inl e, s1) \<Longrightarrow> retried D x s1 ms r s' \<Longrightarrow> retried D x s (s1 # ms) r s'"

inductive_cases retried_cases: "retried D x s ms r s'"

lemma retried_done: "apply_entry D x s = (Inr r1, s1) \<Longrightarrow> retried D x s ms r s' \<Longrightarrow> r = r1 \<and> s' = s1"
  by (erule retried_cases) auto

text \<open>Everything but the rows of the session table.\<close>

definition data_of :: "tables \<Rightarrow> tables" where
  "data_of T = T\<lparr>t_sessions := (\<lambda>_. None)\<rparr>"

lemma data_of_simps [simp]:
  "t_users (data_of T) = t_users T" "t_entries (data_of T) = t_entries T" "data_of (data_of T) = data_of T"
  "data_of (T\<lparr>t_sessions := f\<rparr>) = data_of T" "data_of (session_rows c seq r i evict T) = data_of T"
  by (simp_all add: data_of_def session_rows_def)

lemma data_of_eq: "data_of T = data_of T' \<longleftrightarrow> t_users T = t_users T' \<and> t_entries T = t_entries T'"
  by (cases T; cases T') (simp add: data_of_def)

lemma spec_cmd_data:
  "data_of T = data_of T' \<Longrightarrow>
   fst (spec_cmd u c T) = fst (spec_cmd u c T') \<and> data_of (snd (spec_cmd u c T)) = data_of (snd (spec_cmd u c T'))"
  by (cases c) (auto simp: data_of_eq split: option.split)

definition same_run :: "log_entry \<Rightarrow> tables \<Rightarrow> tables \<Rightarrow> bool" where
  "same_run x T T' = (map_sum id (map_prod id data_of) (run_spec x T) = map_sum id (map_prod id data_of) (run_spec x T'))"

lemma same_run_data: "data_of T = data_of T' \<Longrightarrow> same_run x T T'"
  using spec_cmd_data [of T T' "e_username x"]
  by (cases "parse_command (e_command x)") (simp_all add: same_run_def run_spec_def map_prod_def case_prod_beta)

lemma same_run_set:
  "parse_command (e_command x) = Inr (SetKey k v exp) \<Longrightarrow>
   data_of T' = data_of (snd (spec_cmd (e_username x) (SetKey k v exp) T)) \<Longrightarrow> same_run x T' T"
  by (auto simp: same_run_def run_spec_def data_of_eq split: if_splits)

text \<open>The entry is new: the session check does not answer it.\<close>

definition unanswered :: "log_entry \<Rightarrow> session_dict \<Rightarrow> bool" where
  "unanswered x ss =
     (e_request_id x = [] \<or>
      (case parse_request_id (e_request_id x) of
         Inl e \<Rightarrow> False
       | Inr (c, seq) \<Rightarrow> (case map_of ss c of None \<Rightarrow> True | Some (q, r, i) \<Rightarrow> seq > q)))"

lemma spec_cmd_sessions: "t_sessions (snd (spec_cmd u c T)) = t_sessions T"
  by (cases c) (auto split: option.split)

lemma run_spec_sessions: "run_spec x T = Inr (r, T') \<Longrightarrow> t_sessions T' = t_sessions T"
proof (cases "parse_command (e_command x)")
  case (Inr k)
  assume "run_spec x T = Inr (r, T')"
  then have "spec_cmd (e_username x) k T = (r, T')" using Inr by (simp add: run_spec_def)
  then show ?thesis using spec_cmd_sessions [of "e_username x" k T] by simp
qed (simp add: run_spec_def)

lemma tables_eq: "data_of T = data_of T' \<Longrightarrow> t_sessions T = t_sessions T' \<Longrightarrow> T = T'"
  by (cases T; cases T') (simp add: data_of_def)

lemma spec_entry_same_run:
  assumes "same_run x T' T" and "unanswered x ss" and "spec_entry x (T', ss) = Inr (r, (T1, ss1))" and "t_sessions T' = t_sessions T"
  shows "spec_entry x (T, ss) = Inr (r, (T1, ss1))"
proof -
  obtain T2 where T2: "run_spec x T' = Inr (r, T2)"
    using assms(2,3)
    by (cases "run_spec x T'") (auto simp: spec_entry_def unanswered_def Let_def split: if_splits sum.splits option.splits prod.splits)
  then obtain T3 where T3: "run_spec x T = Inr (r, T3)" "data_of T3 = data_of T2"
    using assms(1) by (cases "run_spec x T") (auto simp: same_run_def)
  moreover have "t_sessions T3 = t_sessions T2"
    using run_spec_sessions [OF T2] run_spec_sessions [OF T3(1)] assms(4) by simp
  ultimately have "run_spec x T = run_spec x T'" using T2 tables_eq by metis
  then show ?thesis
    using assms(2,3) T2
    by (auto simp: spec_entry_def unanswered_def Let_def split: if_splits sum.splits option.splits prod.splits)
qed

text \<open>Every way applying an entry can raise.\<close>

lemma entry_failure:
  assumes D: "orm_laws D view" and ok: "db_ok (seen view s)" and run: "apply_entry D x s = (Inl e, s')"
  shows "db_ok (seen view s') \<and>
    ((sessions s' = sessions s \<and> (s' = s \<or> unanswered x (sessions s)) \<and> same_run x (view (db s')) (view (db s)) \<and>
        t_sessions (view (db s')) = t_sessions (view (db s))) \<or>
     (\<exists>c seq r T. t_sessions (view (db s')) \<in> {t_sessions (view (db s)), (t_sessions (view (db s)))(c \<mapsto> (seq, dumps r, e_index x))} \<and> e_request_id x \<noteq> [] \<and> parse_request_id (e_request_id x) = Inr (c, seq) \<and>
        unanswered x (sessions s) \<and> run_spec x (view (db s)) = Inr (r, T) \<and> data_of (view (db s')) = data_of T \<and>
        sessions s' = fst (new_sessions c seq r (e_index x) (sessions s))))"
proof -
  have cmd: "db_ok (seen view s1) \<and> sessions s1 = sessions s \<and> same_run x (view (db s1)) (view (db s)) \<and>
      t_sessions (view (db s1)) = t_sessions (view (db s))"
    if run1: "apply_command D x s = (Inl e1, s1)" for e1 s1
  proof (cases "s1 = s")
    case True
    then show ?thesis using ok by (simp add: same_run_def)
  next
    case False
    obtain c where c: "parse_command (e_command x) = Inr c"
        "half_applied (e_username x) c (seen view s) (seen view s1)"
      using command_outcome(2) [OF D ok run1] False by blast
    then show ?thesis
      by (auto simp: half_applied_def spec_cmd_sessions simp del: spec_cmd.simps intro: same_run_data same_run_set)
  qed
  show ?thesis
  proof (cases "e_request_id x = []")
    case True
    then have "apply_command D x s = (Inl e, s')"
      using run by (auto simp: apply_entry_def bind_def ret_def split: prod.splits sum.splits)
    from cmd [OF this] show ?thesis using True by (simp add: unanswered_def)
  next
    case False
    show ?thesis
    proof (cases "parse_request_id (e_request_id x)")
      case (Inl e1)
      then have "s' = s" using run False by (simp add: apply_entry_def bind_def check_session_cases)
      then show ?thesis using ok by (simp add: same_run_def)
    next
      case (Inr q)
      obtain c seq where p: "parse_request_id (e_request_id x) = Inr (c, seq)" using Inr by (cases q) simp
      have new: "(case map_of (sessions s) c of None \<Rightarrow> None
        | Some (q, r, i) \<Rightarrow> if seq > q then None else if seq = q then Some r else Some JNull) = None"
        using run False p
        by (auto simp: apply_entry_def bind_def check_session_cases ret_def split: option.splits if_splits)
      then have un: "unanswered x (sessions s)"
        using p by (cases "map_of (sessions s) c") (auto simp: unanswered_def split: if_splits)
      obtain res s1 where s1: "apply_command D x s = (res, s1)" by (cases "apply_command D x s")
      show ?thesis
      proof (cases res)
        case (Inl e1)
        then have "s' = s1" using run False p new s1 by (simp add: apply_entry_def bind_def check_session_cases)
        then show ?thesis using cmd s1 Inl un by blast
      next
        case (Inr r)
        then have rec: "record_session D (e_request_id x) r (e_index x) s1 = (Inl e, s')"
          using run False p new s1
          by (auto simp: apply_entry_def bind_def check_session_cases ret_def split: prod.splits sum.splits)
        obtain k where k: "parse_command (e_command x) = Inr k" "applied (e_username x) k (seen view s) r (seen view s1)"
          using command_outcome(1) [OF D ok, of x r s1] s1 Inr by blast
        obtain ss evict where n: "new_sessions c seq r (e_index x) (sessions s1) = (ss, evict)" by (metis surj_pair)
        have "use_db s1" using k(2) by (simp add: applied_def db_ok_def)
        then have sv: "save_sessions D c seq r (e_index x) evict (s1\<lparr>sessions := ss\<rparr>) = (Inl e, s')"
          using rec unfolding record_session_split [OF p n] by simp
        have "same_but_rows c (seq, dumps r, e_index x) (seen view (s1\<lparr>sessions := ss\<rparr>)) (seen view s')"
          by (rule runs_outcome(2) [OF save_sessions_runs [OF D] sv])
        moreover have "db (seen view (s1\<lparr>sessions := ss\<rparr>)) = view (db s1)" by (simp add: seen_def)
        ultimately obtain f where s': "seen view s' = (seen view (s1\<lparr>sessions := ss\<rparr>))\<lparr>db := (view (db s1))\<lparr>t_sessions := f\<rparr>\<rparr>"
          and f: "f \<in> {t_sessions (view (db s1)), (t_sessions (view (db s1)))(c \<mapsto> (seq, dumps r, e_index x))}"
          unfolding same_but_rows_def by metis
        have rs: "run_spec x (view (db s)) = Inr (r, view (db s1))" "sessions s1 = sessions s"
          using k by (simp_all add: run_spec_def applied_def)
        have "t_sessions (db (seen view s')) = f" unfolding s' by simp
        then have "t_sessions (view (db s')) \<in> {t_sessions (view (db s)), (t_sessions (view (db s)))(c \<mapsto> (seq, dumps r, e_index x))}"
          using f run_spec_sessions [OF rs(1)] by (simp add: seen_def)
        moreover have "data_of (db (seen view s')) = data_of (view (db s1))" "sessions (seen view s') = ss" "db_ok (seen view s')"
          unfolding s' using k(2) by (simp_all add: seen_sessions applied_def) (simp add: db_ok_def store_ok_def)
        ultimately show ?thesis using False p un n rs by fastforce
      qed
    qed
  qed
qed

lemma new_sessions_evict: "new_sessions c seq r i ss = (ss1, Some o1) \<Longrightarrow> map_of ss1 o1 = None"
  by (auto simp: new_sessions_def Let_def split: option.splits if_splits)

text \<open>Each row of the session table is the one of one application, or the one from before.\<close>

definition rows_late :: "tables \<Rightarrow> tables \<Rightarrow> tables \<Rightarrow> bool" where
  "rows_late T0 T T' = (data_of T' = data_of T \<and> (\<forall>c. t_sessions T' c = t_sessions T c \<or> t_sessions T' c = t_sessions T0 c))"

lemma retried_effect:
  assumes "retried D x s ms r s'" and D: "orm_laws D view" and "db_ok (seen view s)" and "dict_ok (sessions s)"
    and "\<forall>c q r j. map_of (sessions s) c = Some (q, r, j) \<longrightarrow> j < e_index x"
  shows "\<exists>T. spec_entry x (view (db s), sessions s) = Inr (r, (T, sessions s')) \<and> rows_late (view (db s)) T (view (db s')) \<and>
    ((\<forall>m \<in> set ms. sessions m = sessions s) \<longrightarrow> view (db s') = T)"
  using assms(1,3-5)
proof (induction s ms r s' rule: retried.induct)
  case (done1 s r s')
  then show ?case using entry_effect [OF D done1(2,1)] by (auto simp: rows_late_def)
next
  case (again s e s1 ms r s')
  note f = entry_failure [OF D again(4,1)]
  show ?case
  proof (cases "sessions s1 = sessions s \<and> (s1 = s \<or> unanswered x (sessions s)) \<and> same_run x (view (db s1)) (view (db s)) \<and>
        t_sessions (view (db s1)) = t_sessions (view (db s))")
    case True
    have "dict_ok (sessions s1)" "\<forall>c q r j. map_of (sessions s1) c = Some (q, r, j) \<longrightarrow> j < e_index x"
      using True again(5,6) by simp_all
    from again(3) [OF conjunct1 [OF f] this]
    obtain T where T: "spec_entry x (view (db s1), sessions s1) = Inr (r, (T, sessions s'))"
      "rows_late (view (db s1)) T (view (db s'))" "(\<forall>m \<in> set ms. sessions m = sessions s1) \<longrightarrow> view (db s') = T"
      by blast
    have "rows_late (view (db s)) T (view (db s'))" using T(2) True by (simp add: rows_late_def)
    moreover have "spec_entry x (view (db s), sessions s) = Inr (r, (T, sessions s'))"
    proof (cases "s1 = s")
      case True
      then show ?thesis using T by simp
    next
      case False
      then have "unanswered x (sessions s)" using True by blast
      from spec_entry_same_run [OF _ this] show ?thesis using T(1) True by metis
    qed
    ultimately show ?thesis using T(3) True by auto
  next
    case False
    then obtain c seq r1 T where c: "e_request_id x \<noteq> []" "parse_request_id (e_request_id x) = Inr (c, seq)"
        "unanswered x (sessions s)" "run_spec x (view (db s)) = Inr (r1, T)" "data_of (view (db s1)) = data_of T"
        "sessions s1 = fst (new_sessions c seq r1 (e_index x) (sessions s))"
        "t_sessions (view (db s1)) \<in> {t_sessions (view (db s)), (t_sessions (view (db s)))(c \<mapsto> (seq, dumps r1, e_index x))}"
      using f by blast
    have own: "map_of (sessions s1) c = Some (seq, r1, e_index x)"
      using new_sessions_own [OF again(5)] again(6) c(6) by metis
    then have "apply_entry D x s1 = (Inr r1, s1)"
      using c(1,2) by (simp add: apply_entry_def bind_def check_session_cases ret_def)
    then have r: "r = r1" "s' = s1" using retried_done again(2) by blast+
    obtain ss ev where n: "new_sessions c seq r1 (e_index x) (sessions s) = (ss, ev)" by (metis surj_pair)
    let ?T = "session_rows c seq r1 (e_index x) ev T"
    have "spec_entry x (view (db s), sessions s) = Inr (r1, (?T, ss))"
      using c(1-4) n by (auto simp: spec_entry_def unanswered_def split: option.splits)
    moreover have "ev \<noteq> Some c" using new_sessions_evict [of c seq r1 "e_index x" "sessions s" ss c] n own c(6) by auto
    then have "rows_late (view (db s)) ?T (view (db s1))"
      using c(5,7) run_spec_sessions [OF c(4)] by (auto simp: rows_late_def session_rows_def Let_def split: option.split)
    moreover have "sessions s1 \<noteq> sessions s" using own again(6) by fastforce
    ultimately show ?thesis using r c(6) n by auto
  qed
qed

subsection \<open>Reads\<close>

text \<open>What the tables hold of a live key.\<close>

definition live :: "tables \<Rightarrow> int \<Rightarrow> string \<Rightarrow> string \<Rightarrow> (string \<times> int option) option" where
  "live T now u k =
     (if t_users T u = None \<or> expired_at now (t_entries T (u, k)) then None else t_entries T (u, k))"

lemma expired_at_eq: "expired_at now (Some (v, exp)) = expired exp now"
  by (simp add: expired_at_def expired_def)

lemma get_runs:
  assumes D: "orm_laws D view" and t: "db_ok t"
  shows "runs view (sm_get D now u k at_ms) t
    (\<lambda>r t'. warmer t t' \<and>
       r = map_option fst (live (db t) (case at_ms of None \<Rightarrow> now | Some a \<Rightarrow> if a = 0 then now else a) u k)) (warmer t)"
  unfolding sm_get_def
proof (rule runs_bind [OF get_store_runs [OF D t]], goal_cases)
  case (1 r t1)
  note f = warm_ok_fields [OF conjunct1 [OF 1]]
  show ?case
  proof (cases r)
    case None
    then have "t_users (db t) u = None" using 1 by blast
    then show ?thesis using None 1 by (simp add: live_def)
  next
    case (Some st)
    then have u: "t_users (db t) u \<noteq> None" and st: "map_of (stores t1) u = Some st" using 1 by auto
    show ?thesis
      unfolding Some option.case
    proof (rule runs_bind_weaken [OF lookup_runs [OF D conjunct1 [OF f] st, of k]], goal_cases)
      case (1 item t2)
      then have "warmer t t2" "item = t_entries (db t) (u, k)" using f by (auto simp: warmer_def)
      then show ?case using u
        by (cases "t_entries (db t) (u, k)") (auto simp: live_def expired_at_eq expired_at_def [of _ None] split: option.split)
    next
      case (2 t2)
      then show ?case using f by (auto simp: warmer_def)
    qed
  qed
qed

lemma ttl_runs:
  assumes D: "orm_laws D view" and t: "db_ok t"
  shows "runs view (sm_ttl D now u k) t
    (\<lambda>r t'. warmer t t' \<and>
       r = (case live (db t) now u k of
              None \<Rightarrow> - 2
            | Some (v, exp) \<Rightarrow> (case exp of None \<Rightarrow> - 1 | Some e \<Rightarrow> - ((- (e - now)) div 1000)))) (warmer t)"
  unfolding sm_ttl_def
proof (rule runs_bind [OF get_store_runs [OF D t]], goal_cases)
  case (1 r t1)
  note f = warm_ok_fields [OF conjunct1 [OF 1]]
  show ?case
  proof (cases r)
    case None
    then have "t_users (db t) u = None" using 1 by blast
    then show ?thesis using None 1 by (simp add: live_def)
  next
    case (Some st)
    then have u: "t_users (db t) u \<noteq> None" and st: "map_of (stores t1) u = Some st" using 1 by auto
    show ?thesis
      unfolding Some option.case
    proof (rule runs_bind_weaken [OF lookup_runs [OF D conjunct1 [OF f] st, of k]], goal_cases)
      case (1 item t2)
      then have "warmer t t2" "item = t_entries (db t) (u, k)" using f by (auto simp: warmer_def)
      then show ?case using u
        by (cases "t_entries (db t) (u, k)") (auto simp: live_def expired_at_eq expired_at_def [of _ None] split: option.split)
    next
      case (2 t2)
      then show ?case using f by (auto simp: warmer_def)
    qed
  qed
qed

lemma ceil_bounds:
  assumes "(n :: int) = - ((- d) div 1000)" and "0 < d"
  shows "0 < n" and "(n - 1) * 1000 < d" and "d \<le> n * 1000"
proof -
  define q where "q = (- d) div 1000"
  define r where "r = (- d) mod 1000"
  have "- d = q * 1000 + r" "0 \<le> r" "r < 1000" "n = - q" using assms(1) by (simp_all add: q_def r_def)
  then show "0 < n" "(n - 1) * 1000 < d" "d \<le> n * 1000" using assms(2) by auto
qed

subsection \<open>Starting from the database\<close>

definition loaded :: "tables \<Rightarrow> (string \<times> string) list \<Rightarrow> (string, store) dict \<Rightarrow> bool" where
  "loaded T us sts =
     (map fst sts = map fst us \<and>
      ((\<forall>(u, h) \<in> set us. t_users T u = Some h) \<longrightarrow> (\<forall>(u, st) \<in> set sts. store_ok T u st)))"

lemma loaded_Cons:
  "loaded T us sts \<Longrightarrow> (t_users T u = Some h \<longrightarrow> store_ok T u st) \<Longrightarrow> loaded T ((u, h) # us) ((u, st) # sts)"
  by (simp add: loaded_def)

lemma load_stores_law:
  assumes D: "orm_laws D view"
  shows "implements view (load_stores D cap us) (\<lambda>T sts T'. T' = T \<and> loaded T us sts)"
proof (induction us)
  case Nil
  then show ?case by (auto simp: loaded_def intro: implements_weaken [OF implements_const])
next
  case (Cons p us)
  obtain u h where p: "p = (u, h)" by (cases p)
  have one: "implements view (bind (load_stores D cap us) (\<lambda>sts. ret ((u, st) # sts)))
    (\<lambda>T sts T'. (t_users T u = Some h \<longrightarrow> store_ok T u st) \<longrightarrow> T' = T \<and> loaded T ((u, h) # us) sts)" for st
    by (rule implements_weaken [OF implements_ret [OF Cons]]) (blast intro: loaded_Cons)
  show ?case
    unfolding p load_stores.simps
    by (rule implements_weaken [OF implements_bind_read [OF load_store_law [OF D, of u h cap] one]]) blast
qed

lemma read_sessions_dumps:
  assumes "read_sessions rows = Inr ss" and "\<forall>(c, q, r, i) \<in> set rows. \<exists>j. r = dumps j \<and> loads r = Inr j"
  shows "map fst ss = map fst rows \<and> map (\<lambda>(c, q, j, i). (c, q, dumps j, i)) ss = rows"
  using assms
proof (induction rows arbitrary: ss)
  case Nil
  then show ?case by simp
next
  case (Cons row rows)
  obtain c q r i where row: "row = (c, q, r, i)" by (metis surj_pair)
  obtain j where j: "r = dumps j" "loads r = Inr j" using Cons(3) row by auto
  then obtain ss1 where ss1: "read_sessions rows = Inr ss1" "ss = (c, q, j, i) # ss1"
    using Cons(2) row by (cases "read_sessions rows") auto
  show ?case using Cons.IH [OF ss1(1)] Cons(3) row j ss1(2) by simp
qed

lemma load_from_db_runs:
  assumes D: "orm_laws D view" and t: "use_db t" "0 < capacity t"
  shows "runs view (load_from_db D) t
    (\<lambda>_ t'. db_ok t' \<and> db t' = db t \<and> capacity t' = capacity t \<and>
       (\<exists>rows. rows_of (t_sessions (db t)) rows \<and> read_sessions rows = Inr (sessions t'))) ((=) t)"
  unfolding load_from_db_def load_all_users_def load_sessions_def
proof (intro runs_get runs_bind_db [OF orm_query(3) [OF D]], goal_cases)
  case (1 s us T)
  then have us: "T = db t" "rows_of (t_users (db t)) us" by auto
  then have d: "distinct (map fst us)" "map_of us = t_users (db t)" by (simp_all add: rows_of_def)
  have sat: "\<forall>(u, h) \<in> set us. t_users (db t) u = Some h" "distinct (map fst us)"
    using d(1) map_of_is_SomeI [OF d(1)] d(2) by auto
  show ?case
    unfolding us(1) db_same
  proof (intro runs_bind_db [OF load_stores_law [OF D]] runs_bind_db [OF orm_query(11) [OF D]] runs_bind_sum, goal_cases)
    case (1 sts T1 rows T2 ss)
    then have *: "T1 = db t" "T2 = db t" "map fst sts = map fst us" "\<forall>(u, st) \<in> set sts. store_ok (db t) u st"
        "rows_of (t_sessions (db t)) rows" "read_sessions rows = Inr ss"
      using sat(1) by (auto simp: loaded_def)
    have "dict_ok sts" using *(3) sat(2) by (simp add: dict_ok_def)
    moreover have "map_of sts u = Some st \<Longrightarrow> store_ok (db t) u st" for u st
      using *(4) by (auto dest: map_of_SomeD)
    ultimately have "db_ok (t\<lparr>stores := sts, sessions := ss\<rparr>)" using t by (simp add: db_ok_def)
    then show ?case
      using * by (intro runs_modify) (auto simp: seen_def)
  qed (use us in simp_all)
qed simp_all

end
