(* ===== verification/Sm_Theorems.thy ===== *)
theory Sm_Theorems
  imports Sm_Sessions
begin

section \<open>Properties of the state machine\<close>

text \<open>
  The properties of the replicated data over a database, each with a run of the code over
  \<open>list_orm\<close> at which its hypotheses hold.
\<close>

subsection \<open>A small run\<close>

definition entry :: "int \<Rightarrow> string \<Rightarrow> string \<Rightarrow> string \<Rightarrow> log_entry" where
  "entry i u cmd rid = \<lparr>e_term = 1, e_index = i, e_command = cmd, e_username = u, e_request_id = rid\<rparr>"

definition demo_machine :: "int \<Rightarrow> bool list \<Rightarrow> sql machine" where
  "demo_machine cap fails = new_machine True cap \<lparr>r_users = [], r_entries = [], r_sessions = [], r_fail = fails\<rparr>"

definition demo_log :: "log_entry list" where
  "demo_log =
     [entry 1 ''u'' ''SIGNUP h'' ''c:1'', entry 2 ''u'' ''SET k v'' ''c:2'', entry 3 ''u'' ''SETEX l 5 w'' ''c:3'',
      entry 4 ''u'' ''SET k v'' ''c:3'', entry 5 ''u'' ''DELETE k'' [], entry 6 ''u'' ''SWEEP 6'' []]"

definition returned :: "(py_exn + 'a) \<times> 's \<Rightarrow> bool" where
  "returned p = (case fst p of Inl e \<Rightarrow> False | Inr x \<Rightarrow> True)"

lemma returnedE: "returned p \<Longrightarrow> \<exists>x. p = (Inr x, snd p)"
  by (cases p; cases "fst p") (auto simp: returned_def)

lemma demo_ok: "0 < cap \<Longrightarrow> db_ok (seen sql_view (demo_machine cap fails))"
  by (simp add: demo_machine_def new_machine_def db_ok_def)

lemma demo_log_runs1: "returned (apply_log list_orm demo_log (demo_machine 1 []))"
  by code_simp

lemma demo_log_runs2: "returned (apply_log list_orm demo_log (demo_machine 2 []))"
  by code_simp

text \<open>The machine after the first three entries.\<close>

definition demo_full :: "sql machine" where
  "demo_full = snd (apply_log list_orm (take 3 demo_log) (demo_machine 1 []))"

text \<open>
  C4: replicas agree. Two nodes that hold the same rows and sessions, with whatever LRU caches and
  capacities, and apply the same log entries without an exception give the same results and end
  with the same rows and sessions.
\<close>

theorem replicas_agree:
  assumes "orm_laws D1 view1" and "orm_laws D2 view2"
    and "db_ok (seen view1 s1)" and "db_ok (seen view2 s2)"
    and "view1 (db s1) = view2 (db s2)" and "sessions s1 = sessions s2"
    and "apply_log D1 xs s1 = (Inr rs1, s1')" and "apply_log D2 xs s2 = (Inr rs2, s2')"
  shows "rs1 = rs2 \<and> view1 (db s1') = view2 (db s2') \<and> sessions s1' = sessions s2'"
  using log_effect [OF assms(1,3,7)] log_effect [OF assms(2,4,8)] assms(5,6) by simp

theorem replicas_agree_witness:
  "\<exists>rs. fst (apply_log list_orm demo_log (demo_machine 1 [])) = Inr rs \<and>
        fst (apply_log list_orm demo_log (demo_machine 2 [])) = Inr rs"
proof -
  obtain rs1 rs2 where "apply_log list_orm demo_log (demo_machine 1 []) = (Inr rs1, snd (apply_log list_orm demo_log (demo_machine 1 [])))"
    "apply_log list_orm demo_log (demo_machine 2 []) = (Inr rs2, snd (apply_log list_orm demo_log (demo_machine 2 [])))"
    using returnedE [OF demo_log_runs1] returnedE [OF demo_log_runs2] by blast
  moreover from replicas_agree [OF list_orm_laws list_orm_laws demo_ok demo_ok _ _ this]
  have "rs1 = rs2" by (simp add: demo_machine_def new_machine_def)
  ultimately show ?thesis by (metis fst_conv)
qed

text \<open>
  C7: applying an entry is a function of the rows and the sessions: the result, the rows and the
  sessions after it are those of \<open>spec_entry\<close>, and RAM stays coherent with the rows.
\<close>

theorem apply_entry_refines:
  assumes "orm_laws D view" and "db_ok (seen view s)" and "apply_entry D x s = (Inr r, s')"
  shows "spec_entry x (view (db s), sessions s) = Inr (r, (view (db s'), sessions s')) \<and> db_ok (seen view s')"
  by (rule entry_effect [OF assms])

lemma demo_signup: "returned (apply_entry list_orm (entry 1 ''u'' ''SIGNUP h'' ''c:1'') (demo_machine 1 []))"
  by code_simp

theorem apply_entry_refines_witness:
  "\<exists>r s'. apply_entry list_orm (entry 1 ''u'' ''SIGNUP h'' ''c:1'') (demo_machine 1 []) = (Inr r, s') \<and>
     spec_entry (entry 1 ''u'' ''SIGNUP h'' ''c:1'') (sql_view (db (demo_machine 1 [])), sessions (demo_machine 1 [])) =
       Inr (r, (sql_view (db s'), sessions s')) \<and> db_ok (seen sql_view s')"
proof -
  obtain r s' where run: "apply_entry list_orm (entry 1 ''u'' ''SIGNUP h'' ''c:1'') (demo_machine 1 []) = (Inr r, s')"
    using returnedE [OF demo_signup] by blast
  show ?thesis using run apply_entry_refines [OF list_orm_laws demo_ok run] by simp
qed

text \<open>
  C6: an entry whose application raised, any number of times and at any query, and was then applied again until it
  returned, gives the result, the users, the entries and the sessions in RAM of one application in which no query fails.
  So do the rows of the session table, if no failure came while the session was saved (after such a failure the sessions
  in RAM are new already); otherwise each of these rows is the one of that application or still the one from before. Such a
  row is never made good (\<open>session_row_lost\<close>): a node that restarts then has forgotten the session.
\<close>

theorem retries_apply_once:
  assumes "retried D x s ms r s'" and "orm_laws D view" and "db_ok (seen view s)" and "dict_ok (sessions s)"
    and "\<forall>c q r j. map_of (sessions s) c = Some (q, r, j) \<longrightarrow> j < e_index x"
  shows "\<exists>T. spec_entry x (view (db s), sessions s) = Inr (r, (T, sessions s')) \<and>
    t_users (view (db s')) = t_users T \<and> t_entries (view (db s')) = t_entries T \<and>
    (\<forall>c. t_sessions (view (db s')) c = t_sessions T c \<or> t_sessions (view (db s')) c = t_sessions (view (db s)) c) \<and>
    ((\<forall>m \<in> set ms. sessions m = sessions s) \<longrightarrow> view (db s') = T)"
  using retried_effect [OF assms] unfolding rows_late_def data_of_eq by blast

theorem retries_apply_once_witness:
  "\<exists>ms s' T. retried list_orm (entry 1 ''u'' ''SIGNUP h'' ''c:1'') (demo_machine 1 [True, False, True]) ms (JBool True) s' \<and>
     spec_entry (entry 1 ''u'' ''SIGNUP h'' ''c:1'') (sql_view (db (demo_machine 1 [True, False, True])), []) =
       Inr (JBool True, (T, sessions s')) \<and> t_users (sql_view (db s')) = t_users T"
proof -
  let ?x = "entry 1 ''u'' ''SIGNUP h'' ''c:1''" and ?s = "demo_machine 1 [True, False, True]"
  let ?a = "apply_entry list_orm ?x"
  let ?s3 = "snd (?a (snd (?a (snd (?a ?s)))))"
  have 1: "?a ?s = (Inl DatabaseError, snd (?a ?s))" by code_simp
  have 2: "?a (snd (?a ?s)) = (Inl DatabaseError, snd (?a (snd (?a ?s))))" by code_simp
  have 3: "?a (snd (?a (snd (?a ?s)))) = (Inr (JBool True), ?s3)" by code_simp
  have r: "retried list_orm ?x ?s [snd (?a ?s), snd (?a (snd (?a ?s)))] (JBool True) ?s3"
    by (rule again [OF 1 again [OF 2 done1 [OF 3]]])
  have s: "sessions ?s = []" by (simp add: demo_machine_def new_machine_def)
  then have d: "dict_ok (sessions ?s)" "\<forall>c q r j. map_of (sessions ?s) c = Some (q, r, j) \<longrightarrow> j < e_index ?x" by simp_all
  have "\<exists>T. spec_entry ?x (sql_view (db ?s), sessions ?s) = Inr (JBool True, (T, sessions ?s3)) \<and> t_users (sql_view (db ?s3)) = t_users T"
    using retries_apply_once [OF r list_orm_laws demo_ok d] by auto
  then show ?thesis using r unfolding s by blast
qed

text \<open>
  C16: GET reads the rows: it answers the value the tables hold of a live key of an existing user,
  whether the key is cached or was evicted, and changes no row.
\<close>

theorem get_reads_tables:
  assumes "orm_laws D view" and "db_ok (seen view s)" and "sm_get D now u k None s = (Inr r, s')"
  shows "r = map_option fst (live (view (db s)) now u k) \<and> view (db s') = view (db s) \<and> db_ok (seen view s')"
  using runs_outcome(1) [OF get_runs [OF assms(1,2)] assms(3)] by (simp add: warmer_def)

definition demo_rows :: "sql machine" where
  "demo_rows = new_machine True 1
     \<lparr>r_users = [(''u'', ''h'')], r_entries = [((''u'', ''k''), (''v'', None)), ((''u'', ''l''), (''w'', Some 5000))],
      r_sessions = [], r_fail = []\<rparr>"

lemma demo_rows_ok: "db_ok (seen sql_view demo_rows)"
  by (simp add: demo_rows_def new_machine_def db_ok_def)

theorem get_reads_tables_witness: "fst (sm_get list_orm 0 ''u'' ''k'' None demo_rows) = Inr (Some ''v'')"
proof -
  have "returned (sm_get list_orm 0 ''u'' ''k'' None demo_rows)" by code_simp
  then obtain r s' where run: "sm_get list_orm 0 ''u'' ''k'' None demo_rows = (Inr r, s')" using returnedE by blast
  show ?thesis
    using run get_reads_tables [OF list_orm_laws demo_rows_ok run]
    by (simp add: live_def demo_rows_def new_machine_def sql_view_def expired_at_def)
qed

text \<open>
  C20: TTL answers -2 for a key that is not live, -1 for a live key without an expiry, and else the
  remaining time in seconds rounded up, which is positive.
\<close>

theorem ttl_bounds:
  assumes "orm_laws D view" and "db_ok (seen view s)" and "sm_ttl D now u k s = (Inr n, s')"
  shows "case live (view (db s)) now u k of
           None \<Rightarrow> n = - 2
         | Some (v, None) \<Rightarrow> n = - 1
         | Some (v, Some e) \<Rightarrow> 0 < n \<and> (n - 1) * 1000 < e - now \<and> e - now \<le> n * 1000"
proof -
  have n: "n = (case live (view (db s)) now u k of None \<Rightarrow> - 2
    | Some (v, exp) \<Rightarrow> (case exp of None \<Rightarrow> - 1 | Some e \<Rightarrow> - ((- (e - now)) div 1000)))"
    using runs_outcome(1) [OF ttl_runs [OF assms(1,2)] assms(3)] by simp
  have "now < e" if "live (view (db s)) now u k = Some (v, Some e)" for v e
    using that by (auto simp: live_def expired_at_def split: if_splits)
  then show ?thesis using n ceil_bounds by (auto split: option.split)
qed

theorem ttl_bounds_witness: "fst (sm_ttl list_orm 2001 ''u'' ''l'' demo_rows) = Inr 3"
proof -
  have "returned (sm_ttl list_orm 2001 ''u'' ''l'' demo_rows)" by code_simp
  then obtain n s' where run: "sm_ttl list_orm 2001 ''u'' ''l'' demo_rows = (Inr n, s')" using returnedE by blast
  have "0 < n \<and> (n - 1) * 1000 < (2999 :: int) \<and> (2999 :: int) \<le> n * 1000"
    using ttl_bounds [OF list_orm_laws demo_rows_ok run]
    by (simp add: live_def demo_rows_def new_machine_def sql_view_def expired_at_def)
  then have "(n - 1) * 1000 < (2999 :: int)" "(2999 :: int) \<le> n * 1000" by blast+
  then have "n < 4" "2 < n" by simp_all
  then have "n = 3" by simp
  then show ?thesis using run by simp
qed

text \<open>
  C15: in both modes, with or without a database, a request that was answered is answered the same
  way again, whatever command the second entry carries, and nothing changes.
\<close>

theorem duplicate_is_ignored:
  assumes "e_request_id x \<noteq> []" and "e_request_id y = e_request_id x" and "dict_ok (sessions s)"
    and "\<forall>c q r j. map_of (sessions s) c = Some (q, r, j) \<longrightarrow> j < e_index x"
    and "apply_entry D x s = (Inr r, s')"
  shows "apply_entry D y s' = (Inr r, s')"
  by (rule apply_entry_again [OF assms])

definition ram_machine :: "int \<Rightarrow> unit machine" where
  "ram_machine cap = new_machine False cap ()"


theorem duplicate_is_ignored_witness:
  "\<exists>s'. apply_entry undefined (entry 1 ''u'' ''SIGNUP h'' ''c:1'') (ram_machine 1) = (Inr (JBool True), s') \<and>
        apply_entry undefined (entry 2 ''u'' ''SIGNUP g'' ''c:1'') s' = (Inr (JBool True), s')"
proof -
  let ?x = "entry 1 ''u'' ''SIGNUP h'' ''c:1''" and ?y = "entry 2 ''u'' ''SIGNUP g'' ''c:1''"
  have "fst (apply_entry D ?x (ram_machine 1)) = Inr (JBool True)" for D
    by code_simp
  then have run: "apply_entry undefined ?x (ram_machine 1) = (Inr (JBool True), snd (apply_entry undefined ?x (ram_machine 1)))"
    by (metis prod.collapse)
  have "apply_entry undefined ?y (snd (apply_entry undefined ?x (ram_machine 1))) =
      (Inr (JBool True), snd (apply_entry undefined ?x (ram_machine 1)))"
    by (rule duplicate_is_ignored [OF _ _ _ _ run]) (simp_all add: entry_def ram_machine_def new_machine_def)
  with run show ?thesis by blast
qed

text \<open>
  C17: after a start from the database the caches are coherent with the rows, and, where every session
  row holds a result the code wrote, the sessions are those of the rows.
\<close>

theorem restart_loads_rows:
  assumes "orm_laws D view" and "use_db s" and "0 < capacity s" and "load_from_db D s = (Inr u, s')"
    and "\<forall>c q r i. t_sessions (view (db s)) c = Some (q, r, i) \<longrightarrow> (\<exists>j. r = dumps j \<and> wf_json j)"
  shows "db_ok (seen view s') \<and> view (db s') = view (db s) \<and>
    t_sessions (view (db s)) = (\<lambda>c. map_option (\<lambda>(q, j, i). (q, dumps j, i)) (map_of (sessions s') c))"
proof -
  have r: "db_ok (seen view s') \<and> view (db s') = view (db s) \<and>
    (\<exists>rows. rows_of (t_sessions (view (db s))) rows \<and> read_sessions rows = Inr (sessions s'))"
    using runs_outcome(1) [OF load_from_db_runs [OF assms(1), of "seen view s"] assms(4)] assms(2,3) by simp
  then obtain rows where rows: "rows_of (t_sessions (view (db s))) rows" "read_sessions rows = Inr (sessions s')" by blast
  then have d: "distinct (map fst rows)" "map_of rows = t_sessions (view (db s))" by (simp_all add: rows_of_def)
  have "\<exists>j. r = dumps j \<and> loads r = Inr j" if "(c, q, r, i) \<in> set rows" for c q r i
    using map_of_is_SomeI [OF d(1) that] d(2) assms(5) loads_dumps by metis
  then have "\<forall>(c, q, r, i) \<in> set rows. \<exists>j. r = dumps j \<and> loads r = Inr j" by fast
  from read_sessions_dumps [OF rows(2) this]
  have "map fst (sessions s') = map fst rows" "map (\<lambda>(c, q, j, i). (c, q, dumps j, i)) (sessions s') = rows"
    by simp_all
  moreover have "map_of (map (\<lambda>(c, q, j, i). (c, q, dumps j, i)) ss) c = map_option (\<lambda>(q, j, i). (q, dumps j, i)) (map_of ss c)"
    for ss :: session_dict and c
    by (induction ss) auto
  ultimately show ?thesis using r d(2) by (metis (no_types, lifting) ext)
qed

lemma demo_saved: "t_sessions (sql_view (db (demo_rows\<lparr>db := (db demo_rows)\<lparr>r_sessions := [(''c'', 4, ''true'', 5)]\<rparr>\<rparr>))) c =
  (if c = ''c'' then Some (4, ''true'', 5) else None)"
  by (simp add: sql_view_def)

theorem restart_loads_rows_witness:
  "\<exists>s'. load_from_db list_orm (demo_rows\<lparr>db := (db demo_rows)\<lparr>r_sessions := [(''c'', 4, ''true'', 5)]\<rparr>\<rparr>) = (Inr (), s') \<and>
     db_ok (seen sql_view s')"
proof -
  let ?s = "demo_rows\<lparr>db := (db demo_rows)\<lparr>r_sessions := [(''c'', 4, ''true'', 5)]\<rparr>\<rparr>"
  have "returned (load_from_db list_orm ?s)" by code_simp
  then obtain u s' where run: "load_from_db list_orm ?s = (Inr u, s')" using returnedE by blast
  have "\<forall>c q r i. t_sessions (sql_view (db ?s)) c = Some (q, r, i) \<longrightarrow> (\<exists>j. r = dumps j \<and> wf_json j)"
    unfolding demo_saved by (auto intro!: exI [of _ "JBool True"])
  from restart_loads_rows [OF list_orm_laws _ _ run this] show ?thesis
    using run by (simp add: demo_rows_def new_machine_def)
qed

text \<open>
  C21: SET with an empty key for an existing user is never applied: every attempt raises, so the loop
  that applies the log retries it for ever, with the row already saved.
\<close>

theorem empty_key_never_applied:
  assumes "orm_laws D view" and "db_ok (seen view s)" and "t_users (view (db s)) (e_username x) \<noteq> None"
    and "parse_command (e_command x) = Inr (SetKey [] v exp)"
  shows "\<not> returned (apply_command D x s)"
proof
  assume r: "returned (apply_command D x s)"
  let ?u = "e_username x"
  have "runs view (run_command D ?u (SetKey [] v exp)) (seen view s) (\<lambda>_ _. False) (\<lambda>_. True)"
    unfolding run_command.simps apply_set_def bind_assoc
  proof (rule runs_bind_weaken [OF get_store_runs [OF assms(1,2), of ?u]], goal_cases)
    case (1 r t1)
    then have "r \<noteq> None" "db_ok t1" "map_of (stores t1) ?u = r" using assms(3) by (auto simp: warmer_def)
    then obtain st where st: "r = Some st" by blast
    have "store_set [] v st = Inl ValueError" by (simp add: store_set_def lru_set_def)
    then have *: "bind (of_sum (store_set [] v st)) f = throw ValueError" for f :: "store \<Rightarrow> ('a machine, json) act" by simp
    show ?case
      unfolding st option.case bind_assoc *
    proof (rule runs_get, goal_cases)
      case (1 s)
      have "runs view (if use_db s then on_db (save_entry D ?u [] v exp) else ret ()) t1 (\<lambda>_ _. True) (\<lambda>_. True)"
        using runs_db [OF save_entry_law [OF assms(1)]] by auto
      then show ?case by (rule runs_bind) simp
    qed
  qed simp
  then have "runs view (apply_command D x) (seen view s) (\<lambda>_ _. False) (\<lambda>_. True)"
    by (simp add: apply_command_parse assms(4))
  from runs_outcome(1) [OF this] show False using returnedE [OF r] by blast
qed

theorem empty_key_never_applied_witness:
  "\<not> returned (apply_command list_orm (entry 1 ''u'' ''SET  v'' []) demo_rows)"
proof -
  have "parse_command ''SET  v'' = Inr (SetKey [] ''v'' None)" by code_simp
  then show ?thesis
    using empty_key_never_applied [OF list_orm_laws demo_rows_ok, of "entry 1 ''u'' ''SET  v'' []" "''v''" None]
    by (simp add: entry_def demo_rows_def new_machine_def sql_view_def)
qed

text \<open>
  A failed save of the session row is never made good: when the third query of a SIGNUP (the
  session row) fails, the retry is answered from RAM, and the row stays missing, so that a restart
  forgets the session.
\<close>

theorem session_row_lost:
  "\<exists>ms s'. retried list_orm (entry 1 ''u'' ''SIGNUP h'' ''c:1'') (demo_machine 1 [False, False, True]) ms (JBool True) s' \<and>
     sessions s' = [(''c'', 1, JBool True, 1)] \<and> r_sessions (db s') = [] \<and> r_users (db s') = [(''u'', ''h'')]"
proof -
  let ?a = "apply_entry list_orm (entry 1 ''u'' ''SIGNUP h'' ''c:1'')" and ?s = "demo_machine 1 [False, False, True]"
  have 1: "?a ?s = (Inl DatabaseError, snd (?a ?s))" by code_simp
  have 2: "?a (snd (?a ?s)) = (Inr (JBool True), snd (?a (snd (?a ?s))))" by code_simp
  have "let s' = snd (?a (snd (?a ?s))) in
      sessions s' = [(''c'', 1, JBool True, 1)] \<and> r_sessions (db s') = [] \<and> r_users (db s') = [(''u'', ''h'')]"
    by code_simp
  then have "sessions (snd (?a (snd (?a ?s)))) = [(''c'', 1, JBool True, 1)] \<and>
      r_sessions (db (snd (?a (snd (?a ?s))))) = [] \<and> r_users (db (snd (?a (snd (?a ?s))))) = [(''u'', ''h'')]"
    by (simp only: Let_def)
  then show ?thesis using again [OF 1 done1 [OF 2]] by blast
qed

end
