(* ===== verification/Tcp_Server.thy ===== *)
theory Tcp_Server
  imports State_Machine Raft_Rpc
begin

section \<open>server/tcp_server.py: the client protocol\<close>

text \<open>
  One client connection, from the first line to the last. The input is the text the client sends; the
  answers are collected in \<open>c_output\<close>. What the server calls on the Raft engine, the state machine and
  the clock is a record of operations on the node's world \<open>'w\<close>: a call of \<open>submit\<close> or \<open>read_index\<close>
  blocks, and whatever the rest of the program does meanwhile is part of its effect. Lines are
  counted in characters, as on the wire for ASCII. A call that proposes an entry gives one of the errors of
  Raft, or raises another exception, as when the storage of the node fails. Exceptions of a handler are caught by
  \<open>_dispatch\<close>; the text of one is a parameter. Sockets, TLS and threads are not modelled.
\<close>

subsection \<open>The node behind the server\<close>

record 'w node_ops =
  op_submit :: "string \<Rightarrow> string \<Rightarrow> string \<Rightarrow> ('w, raft_error + json) act"
  op_read_index :: "'w \<Rightarrow> (raft_error + unit) \<times> 'w"
  op_add_member :: "member \<Rightarrow> ('w, raft_error + unit) act"
  op_remove_member :: "string \<Rightarrow> ('w, raft_error + unit) act"
  op_user_exists :: "string \<Rightarrow> ('w, bool) act"
  op_verify_password :: "string \<Rightarrow> string \<Rightarrow> ('w, bool) act"
  op_session_result :: "string \<Rightarrow> ('w, json) act"
  op_get :: "string \<Rightarrow> string \<Rightarrow> ('w, string option) act"
  op_has :: "string \<Rightarrow> string \<Rightarrow> ('w, bool) act"
  op_ttl :: "string \<Rightarrow> string \<Rightarrow> ('w, int) act"
  op_keys :: "string \<Rightarrow> string option \<Rightarrow> ('w, string list) act"
  op_make_password :: "string \<Rightarrow> ('w, string) act"
  op_now :: "'w \<Rightarrow> int"
  op_status :: "'w \<Rightarrow> (string \<times> json) list"
  op_leader :: "'w \<Rightarrow> string option"
  op_members :: "'w \<Rightarrow> member list"
  op_member :: "string \<Rightarrow> 'w \<Rightarrow> member option"

record server_config =
  stale_reads :: bool
  admin_token :: "string option"
  client_addresses :: "(string, string) dict"
  exn_text :: "py_exn \<Rightarrow> string"

definition max_line_bytes :: nat where
  "max_line_bytes = 1024 * 1024"

definition max_key_length :: nat where
  "max_key_length = 512"

definition max_ttl_seconds :: int where
  "max_ttl_seconds = 10 * 365 * 24 * 3600"

definition min_username_len :: nat where
  "min_username_len = 3"

definition max_username_len :: nat where
  "max_username_len = 150"

definition min_password_len :: nat where
  "min_password_len = 4"

definition no_leader :: string where
  "no_leader = ''ERROR: NO_LEADER election in progress, retry shortly''"

subsection \<open>A connection\<close>

text \<open>\<open>c_client\<close> is the random id of the connection, \<open>c_seq\<close> the next number of its counter.\<close>

record 'w conn =
  c_output :: "string list"
  c_client :: string
  c_seq :: int
  c_node :: 'w

definition on_node :: "('w, 'a) act \<Rightarrow> ('w conn, 'a) act" where
  "on_node m = on_part c_node (\<lambda>w c. c\<lparr>c_node := w\<rparr>) m"

definition send :: "string \<Rightarrow> ('w conn, unit) act" where
  "send msg = modify (\<lambda>c. c\<lparr>c_output := c_output c @ [msg]\<rparr>)"

definition next_request_id :: "('w conn, string) act" where
  "next_request_id =
     bind get_st (\<lambda>c.
     bind (modify (\<lambda>c. c\<lparr>c_seq := c_seq c + 1\<rparr>)) (\<lambda>_.
       ret (c_client c @ '':'' @ show_int (c_seq c))))"

text \<open>\<open>readline(n)\<close>: a line with its newline, cut after \<open>n\<close> characters; and what is left.\<close>

definition readline :: "nat \<Rightarrow> string \<Rightarrow> string \<times> string" where
  "readline n s =
     (let l = take n (takeWhile (\<lambda>c. c \<noteq> newline) s);
          line = (if length l < n then take (Suc (length l)) s else l)
      in (line, drop (length line) s))"

text \<open>\<open>recv\<close>: \<open>None\<close> when the client is gone or sent too long a line.\<close>

definition recv :: "string \<times> 'w conn \<Rightarrow> string option \<times> string \<times> 'w conn" where
  "recv ic =
     (let (input, c) = ic; (line, rest) = readline (max_line_bytes + 1) input
      in if line = [] then (None, rest, c)
         else if length line > max_line_bytes
         then (None, rest, c\<lparr>c_output := c_output c @ [''ERROR: Line too long'']\<rparr>)
         else (Some (str_strip line), rest, c))"

lemma recv_shorter: "recv (input, c) = (r, rest, c') \<Longrightarrow> length rest \<le> length input"
  by (auto simp: recv_def readline_def Let_def split: if_splits)

lemma recv_consumes: "recv (input, c) = (Some l, rest, c') \<Longrightarrow> length rest < length input"
  by (auto simp: recv_def readline_def Let_def split: if_splits)

subsection \<open>Parsing helpers\<close>

definition id_char :: "char \<Rightarrow> bool" where
  "id_char c =
     (let n = (of_char c :: nat)
      in 65 \<le> n \<and> n \<le> 90 \<or> 97 \<le> n \<and> n \<le> 122 \<or> is_decimal c \<or> c = CHR ''_'' \<or> c = CHR ''.'' \<or> c = CHR ''-'')"

text \<open>The pattern \<open>_NODE_ID\<close> on a string without newline.\<close>

definition node_id_match :: "string \<Rightarrow> bool" where
  "node_id_match s = (s \<noteq> [] \<and> length s \<le> 64 \<and> list_all id_char s)"

datatype tag = NoTag | BadTag | Tag string

text \<open>\<open>_split_tag\<close> with the pattern \<open>_TAG\<close>; a client id has no colon, so the first one separates.\<close>

definition split_tag :: "string \<Rightarrow> tag \<times> string" where
  "split_tag line =
     (if \<not> str_startswith line ''@'' then (NoTag, line)
      else
        let (head, _, rest) = str_partition (CHR '' '') line;
            (client, colon, seq) = str_partition (CHR '':'') (drop 1 head)
        in if node_id_match client \<and> colon \<noteq> [] \<and> seq \<noteq> [] \<and> length seq \<le> 18 \<and> list_all is_decimal seq
           then (Tag (client @ '':'' @ seq), str_strip rest)
           else (BadTag, str_strip rest))"

text \<open>\<open>_seconds\<close>: \<open>isdigit\<close> accepts superscripts, on which \<open>int\<close> raises.\<close>

definition seconds :: "string \<Rightarrow> py_exn + int option" where
  "seconds text =
     (if \<not> str_isdigit text then Inr None
      else case py_int text of
             Inl e \<Rightarrow> Inl e
           | Inr v \<Rightarrow> Inr (if 1 \<le> v \<and> v \<le> max_ttl_seconds then Some v else None))"

lemma seconds_superscript: "seconds [CHR 0xB2] = Inl ValueError"
  by code_simp

definition is_address :: "string \<Rightarrow> py_exn + bool" where
  "is_address text =
     (let (host, _, port) = str_rpartition (CHR '':'') text
      in if host = [] \<or> \<not> str_isdigit port then Inr False
         else case py_int port of Inl e \<Rightarrow> Inl e | Inr p \<Rightarrow> Inr (0 < p \<and> p < 65536))"

definition validate_username :: "string \<Rightarrow> string option" where
  "validate_username u =
     (if length u < min_username_len
      then Some (''Username must be at least '' @ show_nat min_username_len @ '' characters'')
      else if length u > max_username_len
      then Some (''Username must be at most '' @ show_nat max_username_len @ '' characters'')
      else if list_ex is_space u then Some ''Username cannot contain spaces''
      else None)"

text \<open>The truth value and the text of a result.\<close>

fun truthy :: "json \<Rightarrow> bool" where
  "truthy JNull = False"
| "truthy (JBool b) = b"
| "truthy (JInt i) = (i \<noteq> 0)"
| "truthy (JStr s) = (s \<noteq> [])"
| "truthy (JArr xs) = (xs \<noteq> [])"
| "truthy (JObj kvs) = (kvs \<noteq> [])"

fun status_text :: "json \<Rightarrow> string" where
  "status_text (JInt i) = show_int i"
| "status_text (JStr s) = s"
| "status_text _ = ''None''"


subsection \<open>Raft glue\<close>

text \<open>
  \<open>_submit\<close>: the apply result, or \<open>None\<close> after the client was told. \<open>submit\<close> raises no
  \<open>ConfigChangeError\<close>; it would leave the method.
\<close>

definition submit :: "'w node_ops \<Rightarrow> string \<Rightarrow> string \<Rightarrow> tag \<Rightarrow> ('w conn, json option) act" where
  "submit N username command tag =
     bind (case tag of Tag t \<Rightarrow> ret t | _ \<Rightarrow> next_request_id) (\<lambda>rid.
     bind (on_node (op_submit N command username rid)) (\<lambda>r.
       case r of
         Inr result \<Rightarrow> ret (Some result)
       | Inl (NotLeaderError _) \<Rightarrow> bind (send no_leader) (\<lambda>_. ret None)
       | Inl (ProposalError msg) \<Rightarrow> bind (send (''ERROR: '' @ msg)) (\<lambda>_. ret None)
       | Inl (ConfigChangeError msg) \<Rightarrow> throw ValueError))"

definition read_barrier :: "server_config \<Rightarrow> 'w node_ops \<Rightarrow> ('w conn, bool) act" where
  "read_barrier S N =
     (if stale_reads S then ret True
      else
        bind (on_node (\<lambda>w. case op_read_index N w of (r, w1) \<Rightarrow> (Inr r, w1))) (\<lambda>r.
          case r of
            Inr _ \<Rightarrow> ret True
          | Inl (NotLeaderError _) \<Rightarrow> bind (send no_leader) (\<lambda>_. ret False)
          | Inl (ProposalError msg) \<Rightarrow> bind (send (''ERROR: '' @ msg)) (\<lambda>_. ret False)
          | Inl (ConfigChangeError msg) \<Rightarrow> throw ValueError))"

definition valid_key :: "string \<Rightarrow> ('w conn, bool) act" where
  "valid_key key =
     (if length key > max_key_length
      then bind (send (''ERROR: Key longer than '' @ show_nat max_key_length @ '' characters'')) (\<lambda>_. ret False)
      else ret True)"

definition not_leader_message :: "server_config \<Rightarrow> 'w node_ops \<Rightarrow> string option \<Rightarrow> 'w \<Rightarrow> string" where
  "not_leader_message S N leader w =
     (let member = (case leader of None \<Rightarrow> None | Some l \<Rightarrow> if l = [] then None else op_member N l w);
          address =
            (case member of
               Some m \<Rightarrow> if client_address m \<noteq> [] then Some (client_address m)
                         else (case leader of None \<Rightarrow> None | Some l \<Rightarrow> map_of (client_addresses S) l)
             | None \<Rightarrow> (case leader of None \<Rightarrow> None | Some l \<Rightarrow> map_of (client_addresses S) l))
      in case address of
           None \<Rightarrow> no_leader
         | Some a \<Rightarrow> if a = [] then no_leader else ''ERROR: NOT_LEADER '' @ a)"

subsection \<open>User commands\<close>

type_synonym 'w cmd = "string \<Rightarrow> string \<Rightarrow> tag \<Rightarrow> ('w conn, unit) act"

definition clock :: "'w node_ops \<Rightarrow> ('w conn, int) act" where
  "clock N = bind get_st (\<lambda>c. ret (op_now N (c_node c)))"

text \<open>Answer with \<open>f result\<close>, if there is one.\<close>

definition reply :: "('w conn, json option) act \<Rightarrow> (json \<Rightarrow> string) \<Rightarrow> ('w conn, unit) act" where
  "reply m f = bind m (\<lambda>r. case r of None \<Rightarrow> ret () | Some x \<Rightarrow> send (f x))"

definition cmd_set :: "'w node_ops \<Rightarrow> 'w cmd" where
  "cmd_set N username args tag =
     (case words_max 1 args of
        [key, value] \<Rightarrow>
          bind (valid_key key) (\<lambda>ok.
            if \<not> ok then ret ()
            else reply (submit N username (''SET '' @ key @ '' '' @ value) tag) (\<lambda>_. ''OK''))
      | _ \<Rightarrow> send ''ERROR: Usage: SET <key> <value>'')"

definition cmd_setex :: "'w node_ops \<Rightarrow> 'w cmd" where
  "cmd_setex N username args tag =
     (let usage = send (''ERROR: Usage: SETEX <key> <seconds 1..'' @ show_int max_ttl_seconds @ ''> <value>'')
      in case words_max 2 args of
           [key, text, value] \<Rightarrow>
             bind (of_sum (seconds text)) (\<lambda>secs.
               case secs of
                 None \<Rightarrow> usage
               | Some n \<Rightarrow>
                   bind (valid_key key) (\<lambda>ok.
                     if \<not> ok then ret ()
                     else
                       bind (clock N) (\<lambda>now.
                         reply (submit N username
                           (''SETEX '' @ key @ '' '' @ show_int (now + n * 1000) @ '' '' @ value) tag) (\<lambda>_. ''OK''))))
         | _ \<Rightarrow> usage)"

definition cmd_get :: "server_config \<Rightarrow> 'w node_ops \<Rightarrow> 'w cmd" where
  "cmd_get S N username args tag =
     (case str_words args of
        [key] \<Rightarrow>
          bind (read_barrier S N) (\<lambda>ok.
            if \<not> ok then ret ()
            else
              bind (on_node (op_get N username key)) (\<lambda>v.
                send (case v of None \<Rightarrow> ''NULL'' | Some x \<Rightarrow> x)))
      | _ \<Rightarrow> send ''ERROR: Usage: GET <key>'')"

definition cmd_has :: "server_config \<Rightarrow> 'w node_ops \<Rightarrow> 'w cmd" where
  "cmd_has S N username args tag =
     (case str_words args of
        [key] \<Rightarrow>
          bind (read_barrier S N) (\<lambda>ok.
            if \<not> ok then ret ()
            else bind (on_node (op_has N username key)) (\<lambda>b. send (if b then ''1'' else ''0'')))
      | _ \<Rightarrow> send ''ERROR: Usage: HAS <key>'')"

definition cmd_delete :: "'w node_ops \<Rightarrow> 'w cmd" where
  "cmd_delete N username args tag =
     (case str_words args of
        [key] \<Rightarrow>
          bind (clock N) (\<lambda>now.
            reply (submit N username (''DELETE '' @ key @ '' '' @ show_int now) tag)
              (\<lambda>existed. if truthy existed then ''OK'' else ''NULL''))
      | _ \<Rightarrow> send ''ERROR: Usage: DELETE <key>'')"

definition cmd_expire :: "'w node_ops \<Rightarrow> 'w cmd" where
  "cmd_expire N username args tag =
     (let usage = send (''ERROR: Usage: EXPIRE <key> <seconds 1..'' @ show_int max_ttl_seconds @ ''>'')
      in case str_words args of
           [key, text] \<Rightarrow>
             bind (of_sum (seconds text)) (\<lambda>secs.
               case secs of
                 None \<Rightarrow> usage
               | Some n \<Rightarrow>
                   bind (clock N) (\<lambda>now.
                     reply (submit N username
                       (''EXPIREAT '' @ key @ '' '' @ show_int (now + n * 1000) @ '' '' @ show_int now) tag)
                       (\<lambda>done. if truthy done then ''1'' else ''0'')))
         | _ \<Rightarrow> usage)"

definition cmd_persist :: "'w node_ops \<Rightarrow> 'w cmd" where
  "cmd_persist N username args tag =
     (case str_words args of
        [key] \<Rightarrow>
          bind (clock N) (\<lambda>now.
            reply (submit N username (''PERSIST '' @ key @ '' '' @ show_int now) tag)
              (\<lambda>done. if truthy done then ''1'' else ''0''))
      | _ \<Rightarrow> send ''ERROR: Usage: PERSIST <key>'')"

definition cmd_ttl :: "server_config \<Rightarrow> 'w node_ops \<Rightarrow> 'w cmd" where
  "cmd_ttl S N username args tag =
     (case str_words args of
        [key] \<Rightarrow>
          bind (read_barrier S N) (\<lambda>ok.
            if \<not> ok then ret ()
            else bind (on_node (op_ttl N username key)) (\<lambda>n. send (show_int n)))
      | _ \<Rightarrow> send ''ERROR: Usage: TTL <key>'')"

definition cmd_keys :: "server_config \<Rightarrow> 'w node_ops \<Rightarrow> 'w cmd" where
  "cmd_keys S N username args tag =
     (let parts = str_words args
      in if length parts > 1 then send ''ERROR: Usage: KEYS [pattern]''
         else
           bind (read_barrier S N) (\<lambda>ok.
             if \<not> ok then ret ()
             else
               bind (on_node (op_keys N username (case parts of [] \<Rightarrow> None | p # _ \<Rightarrow> Some p))) (\<lambda>ks.
                 send (str_join '' '' (show_nat (length ks) # ks)))))"

definition cmd_info :: "'w node_ops \<Rightarrow> 'w cmd" where
  "cmd_info N username args tag =
     bind get_st (\<lambda>c. send (str_join '' '' (map (\<lambda>(k, v). k @ ''='' @ status_text v) (op_status N (c_node c)))))"

definition cmd_members :: "server_config \<Rightarrow> 'w node_ops \<Rightarrow> 'w cmd" where
  "cmd_members S N username args tag =
     (let dash = (\<lambda>s. if s = [] then ''-'' else s)
      in bind get_st (\<lambda>c.
           send (str_join '' ''
             ((''leader='' @ dash (case op_leader N (c_node c) of None \<Rightarrow> [] | Some l \<Rightarrow> l)) #
              map (\<lambda>m. member_id m @ ''='' @
                        dash (if client_address m \<noteq> [] then client_address m
                              else dict_get (client_addresses S) (member_id m) []) @ ''/'' @ dash (raft_address m))
                (op_members N (c_node c))))))"


subsection \<open>Admin commands\<close>

definition membership_change ::
  "server_config \<Rightarrow> 'w node_ops \<Rightarrow> ('w, raft_error + unit) act \<Rightarrow> ('w conn, unit) act" where
  "membership_change S N change =
     bind (on_node change) (\<lambda>r.
       case r of
         Inr _ \<Rightarrow> send ''OK''
       | Inl (NotLeaderError l) \<Rightarrow>
           bind get_st (\<lambda>c.
             send (not_leader_message S N
                     (if l = None \<or> l = Some [] then op_leader N (c_node c) else l) (c_node c)))
       | Inl (ProposalError msg) \<Rightarrow> send (''ERROR: '' @ msg)
       | Inl (ConfigChangeError msg) \<Rightarrow> send (''ERROR: '' @ msg))"

definition admin_add_node :: "server_config \<Rightarrow> 'w node_ops \<Rightarrow> 'w cmd" where
  "admin_add_node S N username args tag =
     (let usage = send ''ERROR: Usage: ADDNODE <id> <client host:port> <raft host:port>''
      in case str_words args of
           [i, client, raft] \<Rightarrow>
             if \<not> node_id_match i then usage
             else
               bind (of_sum (is_address client)) (\<lambda>ok1.
                 if \<not> ok1 then usage
                 else
                   bind (of_sum (is_address raft)) (\<lambda>ok2.
                     if \<not> ok2 then usage
                     else membership_change S N (op_add_member N
                            \<lparr>member_id = i, raft_address = raft, client_address = client\<rparr>)))
         | _ \<Rightarrow> usage)"

definition admin_remove_node :: "server_config \<Rightarrow> 'w node_ops \<Rightarrow> 'w cmd" where
  "admin_remove_node S N username args tag =
     (case str_words args of
        [i] \<Rightarrow> membership_change S N (op_remove_member N i)
      | _ \<Rightarrow> send ''ERROR: Usage: REMOVENODE <id>'')"

definition admin_import_user :: "'w node_ops \<Rightarrow> 'w cmd" where
  "admin_import_user N username args tag =
     (case str_words args of
        [u, h] \<Rightarrow>
          if validate_username u \<noteq> None
          then send ''ERROR: Usage: IMPORTUSER <username> <password_hash>''
          else reply (submit N u (''SIGNUP '' @ h) tag) (\<lambda>created. if truthy created then ''OK'' else ''EXISTS'')
      | _ \<Rightarrow> send ''ERROR: Usage: IMPORTUSER <username> <password_hash>'')"

definition admin_import_set :: "'w node_ops \<Rightarrow> 'w cmd" where
  "admin_import_set N username args tag =
     (let usage = send ''ERROR: Usage: IMPORTSET <username> <key> <expire_at_ms or 0> <value>''
      in case words_max 3 args of
           [u, key, text, value] \<Rightarrow>
             if \<not> str_isdigit text then usage
             else
               bind (valid_key key) (\<lambda>ok.
                 if \<not> ok then ret ()
                 else
                   bind (of_sum (py_int text)) (\<lambda>expire_at.
                   bind (clock N) (\<lambda>now.
                     if expire_at \<noteq> 0 \<and> expire_at \<le> now then send ''EXPIRED''
                     else
                       reply (submit N u
                           (if expire_at \<noteq> 0 then ''SETEX '' @ key @ '' '' @ show_int expire_at @ '' '' @ value
                            else ''SET '' @ key @ '' '' @ value) tag)
                         (\<lambda>stored. if truthy stored then ''OK'' else ''ERROR: Unknown user''))))
         | _ \<Rightarrow> usage)"

subsection \<open>Dispatching\<close>

text \<open>The tables \<open>handlers\<close>.\<close>

definition user_handlers :: "server_config \<Rightarrow> 'w node_ops \<Rightarrow> (string, 'w cmd) dict" where
  "user_handlers S N =
     [(''SET'', cmd_set N), (''SETEX'', cmd_setex N), (''GET'', cmd_get S N), (''HAS'', cmd_has S N),
      (''DELETE'', cmd_delete N), (''EXPIRE'', cmd_expire N), (''PERSIST'', cmd_persist N), (''TTL'', cmd_ttl S N),
      (''KEYS'', cmd_keys S N), (''INFO'', cmd_info N), (''MEMBERS'', cmd_members S N)]"

definition admin_handlers :: "server_config \<Rightarrow> 'w node_ops \<Rightarrow> (string, 'w cmd) dict" where
  "admin_handlers S N =
     [(''ADDNODE'', admin_add_node S N), (''REMOVENODE'', admin_remove_node S N),
      (''IMPORTUSER'', admin_import_user N), (''IMPORTSET'', admin_import_set N),
      (''MEMBERS'', cmd_members S N), (''INFO'', cmd_info N)]"

text \<open>One line of a session; the flag says that the session goes on.\<close>

definition handle_line ::
  "server_config \<Rightarrow> (string, 'w cmd) dict \<Rightarrow> string \<Rightarrow> string \<Rightarrow> string \<Rightarrow> 'w conn \<Rightarrow> bool \<times> 'w conn" where
  "handle_line S handlers usage who line c =
     (let (tag, raw) = split_tag line; tell = (\<lambda>msg c. c\<lparr>c_output := c_output c @ [msg]\<rparr>)
      in if tag = BadTag then (True, tell ''ERROR: Bad request tag (use @client_id:seq)'' c)
         else case words_max 1 raw of
                [] \<Rightarrow> (True, c)
              | w # ws \<Rightarrow>
                  let command = str_upper w; args = (case ws of [] \<Rightarrow> [] | a # _ \<Rightarrow> a)
                  in if command = ''QUIT'' then (False, tell ''Bye!'' c)
                     else case map_of handlers command of
                            None \<Rightarrow> (True, tell (''ERROR: Unknown command. '' @ usage) c)
                          | Some handler \<Rightarrow>
                              (case handler who args tag c of
                                 (Inr _, c1) \<Rightarrow> (True, c1)
                               | (Inl e, c1) \<Rightarrow> (True, tell (''ERROR: '' @ command @ '' failed: '' @ exn_text S e) c1)))"

text \<open>\<open>_dispatch\<close>: until the client quits or is gone.\<close>

function dispatch ::
  "server_config \<Rightarrow> (string, 'w cmd) dict \<Rightarrow> string \<Rightarrow> string \<Rightarrow> string \<Rightarrow> 'w conn \<Rightarrow> string \<times> 'w conn" where
  "dispatch S handlers usage who input c =
     (case recv (input, c) of
        (None, rest, c1) \<Rightarrow> (rest, c1)
      | (Some line, rest, c1) \<Rightarrow>
          (case handle_line S handlers usage who line c1 of
             (False, c2) \<Rightarrow> (rest, c2)
           | (True, c2) \<Rightarrow> dispatch S handlers usage who rest c2))"
  by pat_completeness auto
termination
  by (relation "measure (\<lambda>(S, handlers, usage, who, input, c). length input)") (auto dest: recv_consumes [OF sym])

declare dispatch.simps [simp del]

definition handle_commands :: "server_config \<Rightarrow> 'w node_ops \<Rightarrow> string \<Rightarrow> string \<Rightarrow> 'w conn \<Rightarrow> string \<times> 'w conn" where
  "handle_commands S N username =
     dispatch S (user_handlers S N)
       ''Use SET/SETEX/GET/HAS/DELETE/EXPIRE/PERSIST/TTL/KEYS/INFO/MEMBERS/QUIT'' username"

text \<open>The principal of an admin session is a marker that no handler reads.\<close>

definition handle_admin_commands :: "server_config \<Rightarrow> 'w node_ops \<Rightarrow> string \<Rightarrow> 'w conn \<Rightarrow> string \<times> 'w conn" where
  "handle_admin_commands S N =
     dispatch S (admin_handlers S N) ''Use ADDNODE/REMOVENODE/IMPORTUSER/IMPORTSET/MEMBERS/INFO/QUIT'' []"


subsection \<open>Authentication\<close>

text \<open>
  The dialogues read further lines: they are actions on the rest of the input and the connection.
  An exception in them ends the session.
\<close>

type_synonym ('w, 'a) dialogue = "(string \<times> 'w conn, 'a) act"

definition read_in :: "('w, string option) dialogue" where
  "read_in s = (case recv s of (r, s1) \<Rightarrow> (Inr r, s1))"

definition with_conn :: "('w conn, 'a) act \<Rightarrow> ('w, 'a) dialogue" where
  "with_conn m = on_part snd (\<lambda>c s. (fst s, c)) m"

definition tell :: "string \<Rightarrow> ('w, unit) dialogue" where
  "tell msg = with_conn (send msg)"

definition do_login :: "server_config \<Rightarrow> 'w node_ops \<Rightarrow> ('w, string option) dialogue" where
  "do_login S N =
     bind (tell ''Username:'') (\<lambda>_.
     bind read_in (\<lambda>u.
       case u of
         None \<Rightarrow> ret None
       | Some username \<Rightarrow>
           bind (with_conn (on_node (op_user_exists N username))) (\<lambda>known.
           bind (if \<not> known \<and> \<not> stale_reads S then with_conn (read_barrier S N) else ret True) (\<lambda>ok.
             if \<not> ok then ret None
             else
               bind (with_conn (on_node (op_user_exists N username))) (\<lambda>known.
                 if \<not> known then bind (tell ''ERROR: User not found. Try SIGNUP'') (\<lambda>_. ret None)
                 else
                   bind (tell ''Password:'') (\<lambda>_.
                   bind read_in (\<lambda>p.
                     case p of
                       None \<Rightarrow> ret None
                     | Some password \<Rightarrow>
                         bind (with_conn (on_node (op_verify_password N username password))) (\<lambda>ok.
                           if ok then ret (Some username)
                           else bind (tell ''ERROR: Wrong password'') (\<lambda>_. ret None)))))))))"

definition do_signup :: "'w node_ops \<Rightarrow> tag \<Rightarrow> ('w, string option) dialogue" where
  "do_signup N tag =
     bind (tell ''Choose username:'') (\<lambda>_.
     bind read_in (\<lambda>u.
       case u of
         None \<Rightarrow> ret None
       | Some username \<Rightarrow>
           (case validate_username username of
              Some error \<Rightarrow> bind (tell (''ERROR: '' @ error)) (\<lambda>_. ret None)
            | None \<Rightarrow>
                bind (with_conn (on_node (op_user_exists N username))) (\<lambda>known.
                  if known then
                    bind (case tag of
                            Tag t \<Rightarrow> bind (with_conn (on_node (op_session_result N t))) (\<lambda>r. ret (r = JBool True))
                          | _ \<Rightarrow> ret False) (\<lambda>mine.
                      if mine then
                        bind (tell ''Choose password:'') (\<lambda>_.
                        bind read_in (\<lambda>p.
                        bind (case p of
                                None \<Rightarrow> ret False
                              | Some password \<Rightarrow> with_conn (on_node (op_verify_password N username password))) (\<lambda>ok.
                          if ok then ret (Some username)
                          else bind (tell ''ERROR: Wrong password'') (\<lambda>_. ret None))))
                      else bind (tell ''ERROR: Username already taken'') (\<lambda>_. ret None))
                  else
                    bind (tell ''Choose password:'') (\<lambda>_.
                    bind read_in (\<lambda>p.
                      case p of
                        None \<Rightarrow> ret None
                      | Some password \<Rightarrow>
                          if length password < min_password_len
                          then bind (tell (''ERROR: Password must be at least '' @ show_nat min_password_len @ '' characters''))
                                 (\<lambda>_. ret None)
                          else
                            bind (with_conn (on_node (op_make_password N password))) (\<lambda>hash.
                            bind (with_conn (submit N username (''SIGNUP '' @ hash) tag)) (\<lambda>r.
                              case r of
                                None \<Rightarrow> ret None
                              | Some created \<Rightarrow>
                                  if \<not> truthy created
                                  then bind (tell ''ERROR: Username already taken'') (\<lambda>_. ret None)
                                  else ret (Some username)))))))))"

definition do_admin :: "server_config \<Rightarrow> ('w, bool) dialogue" where
  "do_admin S =
     bind (tell ''Token:'') (\<lambda>_.
     bind read_in (\<lambda>t.
       case t of
         None \<Rightarrow> ret False
       | Some token \<Rightarrow>
           (case admin_token S of
              None \<Rightarrow> bind (tell ''ERROR: Admin access is disabled (set CACHE_ADMIN_TOKEN)'') (\<lambda>_. ret False)
            | Some expected \<Rightarrow>
                if expected = []
                then bind (tell ''ERROR: Admin access is disabled (set CACHE_ADMIN_TOKEN)'') (\<lambda>_. ret False)
                else if token \<noteq> expected then bind (tell ''ERROR: Wrong token'') (\<lambda>_. ret False)
                else ret True)))"

datatype principal = User string | Admin

text \<open>One round of \<open>_handle_auth\<close>; the flag says whether it asks again. An empty user name counts as none.\<close>

definition auth_round ::
  "server_config \<Rightarrow> 'w node_ops \<Rightarrow> string \<Rightarrow> ('w, principal option \<times> bool) dialogue" where
  "auth_round S N line =
     (let (tag, raw) = split_tag line; kind = str_upper raw;
          found = (\<lambda>u. case u of Some (x # xs) \<Rightarrow> (Some (User (x # xs)), False) | _ \<Rightarrow> (None, True))
      in if tag = BadTag then bind (tell ''ERROR: Bad request tag (use @client_id:seq)'') (\<lambda>_. ret (None, True))
         else if kind = ''LOGIN'' then bind (do_login S N) (\<lambda>u. ret (found u))
         else if kind = ''SIGNUP'' then bind (do_signup N tag) (\<lambda>u. ret (found u))
         else if kind = ''ADMIN'' then bind (do_admin S) (\<lambda>ok. ret (if ok then (Some Admin, False) else (None, True)))
         else if kind = ''QUIT'' then bind (tell ''Bye!'') (\<lambda>_. ret (None, False))
         else bind (tell ''ERROR: Type LOGIN or SIGNUP'') (\<lambda>_. ret (None, True)))"

text \<open>A dialogue never gives characters back.\<close>

definition consumes :: "('w, 'a) dialogue \<Rightarrow> bool" where
  "consumes m = (\<forall>s. length (fst (snd (m s))) \<le> length (fst s))"

lemma consumes_bind:
  assumes "consumes m" and "\<And>x. consumes (f x)"
  shows "consumes (bind m f)"
proof -
  have "length (fst (snd (bind m f s))) \<le> length (fst s)" for s
  proof -
    have "length (fst (snd (m s))) \<le> length (fst s)" using assms(1) unfolding consumes_def by blast
    moreover have "length (fst (snd (f x s'))) \<le> length (fst s')" for x s'
      using assms(2) [of x] unfolding consumes_def by blast
    note f = this
    have "length (fst (snd (f x (snd (m s))))) \<le> length (fst s)" for x
      using f [of x "snd (m s)"] calculation by (rule order_trans)
    with calculation show ?thesis by (simp add: bind_cases split: sum.split)
  qed
  then show ?thesis unfolding consumes_def by blast
qed

lemma consumes_basic:
  "consumes (ret x)" "consumes (throw e)" "consumes (with_conn m)" "consumes (tell msg)" "consumes read_in"
  by (auto simp: consumes_def ret_def throw_def with_conn_def on_part_def tell_def read_in_def
      split: prod.split dest: recv_shorter)

lemma consumes_if: "consumes a \<Longrightarrow> consumes b \<Longrightarrow> consumes (if P then a else b)"
  by simp

lemma consumes_option: "consumes a \<Longrightarrow> (\<And>x. consumes (f x)) \<Longrightarrow> consumes (case z of None \<Rightarrow> a | Some x \<Rightarrow> f x)"
  by (cases z) simp_all

lemma consumes_tag: "consumes a \<Longrightarrow> consumes b \<Longrightarrow> (\<And>x. consumes (f x)) \<Longrightarrow>
  consumes (case z of NoTag \<Rightarrow> a | BadTag \<Rightarrow> b | Tag x \<Rightarrow> f x)"
  by (cases z) simp_all

lemmas consumes_rules = consumes_basic consumes_bind consumes_if consumes_option consumes_tag

lemma consumes_admin: "consumes (do_admin S)"
  unfolding do_admin_def by (intro consumes_rules)

lemma consumes_login: "consumes (do_login S N)"
  unfolding do_login_def by (intro consumes_rules)

lemma consumes_signup: "consumes (do_signup N tag)"
  unfolding do_signup_def by (intro consumes_rules)

lemmas consumes_dialogues = consumes_admin consumes_login consumes_signup

lemma consumes_auth_round: "consumes (auth_round S N line)"
proof -
  obtain tag raw where t: "split_tag line = (tag, raw)" by (metis surj_pair)
  show ?thesis
    unfolding auth_round_def t Let_def prod.case by (intro consumes_rules consumes_dialogues)
qed

lemma auth_shorter:
  "recv s = (Some line, s1) \<Longrightarrow> auth_round S N line s1 = (r, s2) \<Longrightarrow> length (fst s2) < length (fst s)"
  using consumes_auth_round [of S N line] recv_consumes [of "fst s" "snd s" line "fst s1" "snd s1"]
  unfolding consumes_def by (metis fst_conv le_less_trans prod.collapse snd_conv)

function handle_auth ::
  "server_config \<Rightarrow> 'w node_ops \<Rightarrow> string \<times> 'w conn \<Rightarrow> (py_exn + principal option) \<times> string \<times> 'w conn" where
  "handle_auth S N s =
     (case recv s of
        (None, s1) \<Rightarrow> (Inr None, s1)
      | (Some line, s1) \<Rightarrow>
          (case auth_round S N line s1 of
             (Inl e, s2) \<Rightarrow> (Inl e, s2)
           | (Inr (p, again), s2) \<Rightarrow> if again then handle_auth S N s2 else (Inr p, s2)))"
  by pat_completeness auto
termination
  by (relation "measure (\<lambda>(S, N, s). length (fst s))") (auto dest: auth_shorter [OF sym sym])

declare handle_auth.simps [simp del]

text \<open>\<open>_handle_client\<close>, after the TLS handshake; what leaves it ends the connection.\<close>

definition handle_client :: "server_config \<Rightarrow> 'w node_ops \<Rightarrow> string \<Rightarrow> 'w conn \<Rightarrow> string \<times> 'w conn" where
  "handle_client S N input c =
     (let welcome = (\<lambda>msg c. c\<lparr>c_output := c_output c @ [msg]\<rparr>)
      in case handle_auth S N (input, welcome ''Welcome! Type LOGIN or SIGNUP'' c) of
           (Inr (Some Admin), rest, c1) \<Rightarrow> handle_admin_commands S N rest (welcome ''READY:admin'' c1)
         | (Inr (Some (User u)), rest, c1) \<Rightarrow> handle_commands S N u rest (welcome (''READY:'' @ u) c1)
         | (_, rest, c1) \<Rightarrow> (rest, c1))"

subsection \<open>Expired keys\<close>

text \<open>
  One round of \<open>_expiry_loop\<close>: what it submits, given whether the node leads, what \<open>next_expiry\<close>
  returned or raised, and the clock. It submits without user and request id, and ignores the result.
\<close>

definition expiry_round :: "bool \<Rightarrow> py_exn + int option \<Rightarrow> int \<Rightarrow> string option" where
  "expiry_round leads first now =
     (if \<not> leads then None
      else case first of
             Inl e \<Rightarrow> None
           | Inr None \<Rightarrow> None
           | Inr (Some t) \<Rightarrow> if t \<le> now then Some (''SWEEP '' @ show_int now) else None)"

end
