(* ===== verification/Tcp_Theorems.thy ===== *)
theory Tcp_Theorems
  imports Tcp_Server Sm_Theorems
begin

section \<open>Properties of the client protocol\<close>

subsection \<open>Words\<close>

lemma words_max_first:
  assumes "words_max (Suc n) s = w # ws"
  shows "plain_word w" and "\<exists>t. ws = words_max n t"
proof -
  let ?t = "dropWhile is_space s"
  have "?t \<noteq> []" and w: "w = takeWhile (\<lambda>x. \<not> is_space x) ?t" "ws = words_max n (dropWhile (\<lambda>x. \<not> is_space x) ?t)"
    using assms by (auto simp: Let_def split: if_splits)
  then have "\<not> is_space (hd ?t)" by (simp add: hd_dropWhile)
  then have "w \<noteq> []" using w(1) \<open>?t \<noteq> []\<close> by (cases ?t) auto
  then show "plain_word w" using w(1) by (auto simp: plain_word_def list_all_iff dest: set_takeWhileD)
  show "\<exists>t. ws = words_max n t" using w(2) by blast
qed

lemma words_max_two: "words_max 1 s = [k, v] \<Longrightarrow> plain_word k"
  using words_max_first(1) [of 0 s k "[v]"] by simp

lemma words_max_three:
  assumes "words_max 2 s = [k, t, v]"
  shows "plain_word k" and "plain_word t"
proof -
  have a: "words_max (Suc 1) s = k # [t, v]" using assms by (simp add: numeral_2_eq_2 del: words_max.simps)
  show "plain_word k" by (rule words_max_first(1) [OF a])
  obtain r where "[t, v] = words_max 1 r" using words_max_first(2) [OF a] by blast
  then show "plain_word t" using words_max_two [of r t v] by simp
qed

lemma words_max_four:
  assumes "words_max 3 s = [u, k, t, v]"
  shows "plain_word u" and "plain_word k" and "plain_word t"
proof -
  have a: "words_max (Suc 2) s = u # [k, t, v]" using assms by (simp add: numeral_3_eq_3 numeral_2_eq_2 del: words_max.simps)
  show "plain_word u" by (rule words_max_first(1) [OF a])
  obtain r where "[k, t, v] = words_max 2 r" using words_max_first(2) [OF a] by blast
  then show "plain_word k" "plain_word t" using words_max_three [of r k t v] by simp_all
qed

lemma words_plain: "length s \<le> n \<Longrightarrow> w \<in> set (words_max n s) \<Longrightarrow> plain_word w"
proof (induction n arbitrary: s)
  case (Suc n)
  let ?t = "dropWhile is_space s"
  show ?case
  proof (cases "?t = []")
    case False
    let ?w = "takeWhile (\<lambda>x. \<not> is_space x) ?t" and ?r = "dropWhile (\<lambda>x. \<not> is_space x) ?t"
    have e: "words_max (Suc n) s = ?w # words_max n ?r" using False by (simp add: Let_def)
    have "\<not> is_space (hd ?t)" using False by (simp add: hd_dropWhile)
    then have "length ?r < length ?t" using False
      by (metis dropWhile.simps(2) length_dropWhile_le less_Suc_eq_le list.collapse list.size(4) add.right_neutral add_Suc_right)
    then have "length ?r \<le> n" using length_dropWhile_le [of is_space s] Suc.prems(1) by linarith
    then show ?thesis using Suc.IH Suc.prems(2) words_max_first(1) [OF e] e by auto
  qed (use Suc.prems in \<open>simp add: Let_def\<close>)
qed simp

lemma str_words_plain: "w \<in> set (str_words s) \<Longrightarrow> plain_word w"
  unfolding str_words_def by (rule words_plain) simp_all

lemma plain_word_no_space: "plain_word w \<Longrightarrow> CHR '' '' \<notin> set w"
  by (auto simp: plain_word_def list_all_iff is_space_def)

subsection \<open>What the server may submit\<close>

text \<open>
  A command and a request id that the state machine can apply: they parse, the key is not empty, and
  the command is none of Raft's own.
\<close>

definition good_submit :: "string \<Rightarrow> string \<Rightarrow> bool" where
  "good_submit cmd rid =
     ((\<exists>c. parse_command cmd = Inr c \<and> c \<noteq> Unknown \<and> (\<forall>v exp. c \<noteq> SetKey [] v exp)) \<and>
      (\<exists>p. parse_request_id rid = Inr p) \<and> config_of cmd = None \<and> cmd \<noteq> noop_command)"

lemma show_int_decimal: "c \<in> set (show_int i) \<Longrightarrow> is_decimal c \<or> c = CHR ''-''"
  by (auto simp: show_int_def dest: show_nat_decimal split: if_splits)

lemma show_int_no_char: "\<not> is_decimal c \<Longrightarrow> c \<noteq> CHR ''-'' \<Longrightarrow> c \<notin> set (show_int i)"
  using show_int_decimal by blast

lemma colon_not_decimal: "\<not> is_decimal (CHR '':'')" "\<not> is_decimal (CHR '' '')"
  by (simp_all add: is_decimal_def)

lemma request_id_parses: "parse_request_id (client @ '':'' @ show_int n) = Inr (client, n)"
  using str_rpartition_found [of "CHR '':''" "show_int n" client] show_int_no_char [OF colon_not_decimal(1)]
  by (simp add: parse_request_id_def py_int_show_int)

lemma py_int_decimals:
  assumes "s \<noteq> []" and "list_all is_decimal s"
  shows "\<exists>i. py_int s = Inr i"
proof -
  have "str_strip s = s" using assms(2) by (intro str_strip_no_space) (auto simp: list_all_iff decimal_not_space)
  moreover obtain c cs where s: "s = c # cs" using assms(1) by (cases s) auto
  then have "is_decimal c" using assms(2) by simp
  then have "c \<noteq> CHR ''-''" "c \<noteq> CHR ''+''" by (auto simp: is_decimal_def)
  moreover have "scan_digits False 0 (s @ []) = Some (foldl (\<lambda>a d. a * 10 + digit_value d) 0 s)"
    using scan_digits_append [OF assms(2,1), of False 0 "[]"] by simp
  ultimately show ?thesis using s by (simp add: py_int_def Let_def)
qed

lemma tag_parses: "split_tag line = (Tag t, raw) \<Longrightarrow> \<exists>p. parse_request_id t = Inr p"
proof -
  assume a: "split_tag line = (Tag t, raw)"
  obtain head sp rest where h: "str_partition (CHR '' '') line = (head, sp, rest)" by (metis prod_cases3)
  obtain client colon seq where c: "str_partition (CHR '':'') (drop 1 head) = (client, colon, seq)" by (metis prod_cases3)
  have t: "t = client @ '':'' @ seq" "seq \<noteq> []" "list_all is_decimal seq"
    using a by (auto simp: split_tag_def h c [simplified] split: if_splits)
  then have "CHR '':'' \<notin> set seq" using colon_not_decimal(1) by (auto simp: list_all_iff)
  then show ?thesis
    using t py_int_decimals [OF t(2,3)] str_rpartition_found [of "CHR '':''" seq client]
    by (auto simp: parse_request_id_def)
qed

lemma verb_partition: "CHR '' '' \<notin> set v \<Longrightarrow> str_partition (CHR '' '') (v @ CHR '' '' # rest) = (v, '' '', rest)"
  by (rule str_partition_found)

lemma not_config: "\<not> str_startswith cmd ''CONFIG '' \<Longrightarrow> config_of cmd = None"
  using config_of_other [of cmd] by (simp add: config_word_def)

lemma good_commands:
  assumes "\<exists>p. parse_request_id rid = Inr p" and k: "plain_word k"
  shows "good_submit (''SET '' @ k @ '' '' @ v) rid"
    and "good_submit (''SETEX '' @ k @ '' '' @ show_int t @ '' '' @ v) rid"
    and "good_submit (''DELETE '' @ k @ '' '' @ show_int n) rid"
    and "good_submit (''EXPIREAT '' @ k @ '' '' @ show_int t @ '' '' @ show_int n) rid"
    and "good_submit (''PERSIST '' @ k @ '' '' @ show_int n) rid"
proof -
  obtain p q where pq: "parse_request_id rid = Inr (p, q)" using assms(1) by auto
  have ks: "CHR '' '' \<notin> set k" "k \<noteq> []" using k plain_word_no_space by (auto simp: plain_word_def)
  have ns: "CHR '' '' \<notin> set (show_int i)" for i by (rule show_int_no_char [OF colon_not_decimal(2)]) simp
  have 2: "str_split_max 2 (CHR '' '') (k @ CHR '' '' # show_int t @ CHR '' '' # v) = [k, show_int t, v]"
    using str_split_max_found [OF ks(1), of 1 "show_int t @ CHR '' '' # v"] str_split_max_found [OF ns, of 0 t v]
    by (simp add: numeral_2_eq_2 del: str_split_max.simps) simp
  have 3: "str_split (CHR '' '') (k @ CHR '' '' # show_int n) = [k, show_int n]"
    using str_split_found [OF ks(1)] str_split_absent [OF ns] by simp
  have 4: "str_split (CHR '' '') (k @ CHR '' '' # show_int t @ CHR '' '' # show_int n) = [k, show_int t, show_int n]"
    using str_split_found [OF ks(1)] str_split_found [OF ns] str_split_absent [OF ns] by simp
  note part = str_partition_found [of "CHR '' ''" "''SET''"] str_partition_found [of "CHR '' ''" "''SETEX''"]
    str_partition_found [of "CHR '' ''" "''DELETE''"] str_partition_found [of "CHR '' ''" "''EXPIREAT''"]
    str_partition_found [of "CHR '' ''" "''PERSIST''"]
    str_partition_found [OF ks(1)]
  note defs = good_submit_def pq not_config str_startswith_def noop_command_def parse_command_def Let_def py_int_show_int ks(2)
  show "good_submit (''SET '' @ k @ '' '' @ v) rid" using part by (simp add: defs)
  show "good_submit (''SETEX '' @ k @ '' '' @ show_int t @ '' '' @ v) rid" using part 2 by (simp add: defs)
  show "good_submit (''DELETE '' @ k @ '' '' @ show_int n) rid" using part by (simp add: defs)
  show "good_submit (''EXPIREAT '' @ k @ '' '' @ show_int t @ '' '' @ show_int n) rid" using part 4 by (simp add: defs)
  show "good_submit (''PERSIST '' @ k @ '' '' @ show_int n) rid" using part 3 by (simp add: defs)
qed

lemma good_signup: "\<exists>p. parse_request_id rid = Inr p \<Longrightarrow> good_submit (''SIGNUP '' @ h) rid"
  using str_partition_found [of "CHR '' ''" "''SIGNUP''" h]
  by (simp add: good_submit_def not_config str_startswith_def noop_command_def parse_command_def)


subsection \<open>Invariants of the node under a connection\<close>

text \<open>
  A predicate on the node that every operation keeps, \<open>submit\<close> for good commands only, is kept by the
  whole connection.
\<close>

definition keeps_act :: "('w \<Rightarrow> bool) \<Rightarrow> ('w, 'a) act \<Rightarrow> bool" where
  "keeps_act I m = (\<forall>w. I w \<longrightarrow> I (snd (m w)))"

definition node_keeps :: "('w \<Rightarrow> bool) \<Rightarrow> 'w node_ops \<Rightarrow> bool" where
  "node_keeps I N =
     ((\<forall>cmd u rid w. I w \<and> good_submit cmd rid \<longrightarrow> I (snd (op_submit N cmd u rid w))) \<and>
      (\<forall>w. I w \<longrightarrow> I (snd (op_read_index N w))) \<and>
      (\<forall>m w. I w \<longrightarrow> I (snd (op_add_member N m w))) \<and>
      (\<forall>i w. I w \<longrightarrow> I (snd (op_remove_member N i w))) \<and>
      (\<forall>u. keeps_act I (op_user_exists N u)) \<and> (\<forall>u pw. keeps_act I (op_verify_password N u pw)) \<and>
      (\<forall>t. keeps_act I (op_session_result N t)) \<and> (\<forall>u k. keeps_act I (op_get N u k)) \<and>
      (\<forall>u k. keeps_act I (op_has N u k)) \<and> (\<forall>u k. keeps_act I (op_ttl N u k)) \<and>
      (\<forall>u p. keeps_act I (op_keys N u p)) \<and> (\<forall>pw. keeps_act I (op_make_password N pw)))"

abbreviation conn_keeps :: "('w \<Rightarrow> bool) \<Rightarrow> ('w conn, 'a) act \<Rightarrow> bool" where
  "conn_keeps I \<equiv> keeps_act (\<lambda>c. I (c_node c))"

abbreviation dialogue_keeps :: "('w \<Rightarrow> bool) \<Rightarrow> ('w, 'a) dialogue \<Rightarrow> bool" where
  "dialogue_keeps I \<equiv> keeps_act (\<lambda>s. I (c_node (snd s)))"

lemma keeps_act_bind: "keeps_act I m \<Longrightarrow> (\<And>x. keeps_act I (f x)) \<Longrightarrow> keeps_act I (bind m f)"
  unfolding keeps_act_def by (simp add: bind_cases split: sum.split)

lemma keeps_act_basic: "keeps_act I (ret x)" "keeps_act I (throw e)" "keeps_act I get_st" "keeps_act I (of_sum r)"
  by (simp_all add: keeps_act_def ret_def throw_def get_st_def of_sum_def)

lemma keeps_act_if: "keeps_act I a \<Longrightarrow> keeps_act I b \<Longrightarrow> keeps_act I (if P then a else b)"
  by simp

lemma keeps_act_option:
  "keeps_act I a \<Longrightarrow> (\<And>x. keeps_act I (f x)) \<Longrightarrow> keeps_act I (case z of None \<Rightarrow> a | Some x \<Rightarrow> f x)"
  by (cases z) simp_all

lemma keeps_act_tag: "keeps_act I a \<Longrightarrow> keeps_act I b \<Longrightarrow> (\<And>x. keeps_act I (f x)) \<Longrightarrow>
  keeps_act I (case z of NoTag \<Rightarrow> a | BadTag \<Rightarrow> b | Tag x \<Rightarrow> f x)"
  by (cases z) simp_all

lemma keeps_act_answer:
  assumes "\<And>x. keeps_act I (f x)" and "\<And>l. keeps_act I (g l)" and "\<And>m. keeps_act I (h m)" and "\<And>m. keeps_act I (k m)"
  shows "keeps_act I (case r of Inr x \<Rightarrow> f x | Inl (NotLeaderError l) \<Rightarrow> g l | Inl (ProposalError m) \<Rightarrow> h m
    | Inl (ConfigChangeError m) \<Rightarrow> k m)"
  using assms by (cases r) (auto split: raft_error.split)

lemma conn_keeps_basic:
  "conn_keeps I (send msg)" "conn_keeps I next_request_id" "conn_keeps I (valid_key k)" "conn_keeps I (clock N)"
proof -
  have m: "conn_keeps I (modify f)" if "\<And>c. c_node (f c) = c_node c" for f
    using that by (simp add: keeps_act_def modify_def)
  show s: "conn_keeps I (send msg)" for msg unfolding send_def by (rule m) simp
  have "conn_keeps I (modify (\<lambda>c. c\<lparr>c_seq := c_seq c + 1\<rparr>))" by (rule m) simp
  then show "conn_keeps I next_request_id" unfolding next_request_id_def
    by (intro keeps_act_bind keeps_act_basic)
  show "conn_keeps I (valid_key k)" unfolding valid_key_def
    by (intro keeps_act_if keeps_act_bind s keeps_act_basic)
  show "conn_keeps I (clock N)" unfolding clock_def by (intro keeps_act_bind keeps_act_basic)
qed

lemma keeps_on_node: "keeps_act I m \<Longrightarrow> conn_keeps I (on_node m)"
  by (simp add: keeps_act_def on_node_def on_part_def case_prod_beta)

lemma keeps_call:
  assumes "\<And>w. I w \<Longrightarrow> I (snd (g w))"
  shows "conn_keeps I (on_node (\<lambda>w. case g w of (r, w1) \<Rightarrow> (Inr r, w1)))"
  using assms by (intro keeps_on_node) (force simp: keeps_act_def split: prod.split)

lemma keeps_with_conn: "conn_keeps I m \<Longrightarrow> dialogue_keeps I (with_conn m)"
  by (simp add: keeps_act_def with_conn_def on_part_def case_prod_beta)

lemma keeps_read_in: "dialogue_keeps I read_in"
  by (auto simp: keeps_act_def read_in_def recv_def Let_def split: prod.split)

lemma keeps_reply: "conn_keeps I m \<Longrightarrow> conn_keeps I (reply m f)"
  unfolding reply_def by (intro keeps_act_bind keeps_act_option keeps_act_basic conn_keeps_basic)

lemma node_keepsD:
  assumes "node_keeps I N"
  shows "good_submit cmd rid \<Longrightarrow> I w \<Longrightarrow> I (snd (op_submit N cmd u rid w))" and "I w \<Longrightarrow> I (snd (op_read_index N w))"
    and "I w \<Longrightarrow> I (snd (op_add_member N m w))" and "I w \<Longrightarrow> I (snd (op_remove_member N i w))"
    and "keeps_act I (op_user_exists N u)" and "keeps_act I (op_verify_password N u pw)"
    and "keeps_act I (op_session_result N t)" and "keeps_act I (op_get N u k)" and "keeps_act I (op_has N u k)"
    and "keeps_act I (op_ttl N u k)" and "keeps_act I (op_keys N u p)" and "keeps_act I (op_make_password N pw)"
  using assms unfolding node_keeps_def by simp_all

lemmas keeps_intros = keeps_act_bind keeps_act_basic keeps_act_if keeps_act_option keeps_act_tag keeps_act_answer
  conn_keeps_basic keeps_on_node keeps_reply keeps_with_conn keeps_read_in

text \<open>A tag that came from \<open>split_tag\<close>.\<close>

definition tag_ok :: "tag \<Rightarrow> bool" where
  "tag_ok tag = (\<forall>t. tag = Tag t \<longrightarrow> (\<exists>p. parse_request_id t = Inr p))"

lemma tag_ok_split: "split_tag line = (tag, raw) \<Longrightarrow> tag_ok tag"
  using tag_parses by (auto simp: tag_ok_def)

lemma keeps_request_id:
  assumes "\<And>rid. \<exists>p. parse_request_id rid = Inr p \<Longrightarrow> conn_keeps I (f rid)"
  shows "conn_keeps I (bind next_request_id f)"
proof -
  have "bind next_request_id f c = f (c_client c @ '':'' @ show_int (c_seq c)) (c\<lparr>c_seq := c_seq c + 1\<rparr>)" for c
    by (simp add: next_request_id_def bind_def get_st_def modify_def ret_def)
  then show ?thesis using assms request_id_parses unfolding keeps_act_def by force
qed

lemma keeps_submit:
  assumes N: "node_keeps I N" and "tag_ok tag" and "\<And>rid. \<exists>p. parse_request_id rid = Inr p \<Longrightarrow> good_submit cmd rid"
  shows "conn_keeps I (submit N u cmd tag)"
proof -
  let ?f = "\<lambda>rid. bind (on_node (op_submit N cmd u rid)) (\<lambda>r.
       case r of
         Inr result \<Rightarrow> ret (Some result)
       | Inl (NotLeaderError _) \<Rightarrow> bind (send no_leader) (\<lambda>_. ret None)
       | Inl (ProposalError msg) \<Rightarrow> bind (send (''ERROR: '' @ msg)) (\<lambda>_. ret None)
       | Inl (ConfigChangeError msg) \<Rightarrow> throw ValueError)"
  have k: "conn_keeps I (?f rid)" if "\<exists>p. parse_request_id rid = Inr p" for rid
    using node_keepsD(1) [OF N assms(3) [OF that]] by (intro keeps_intros) (simp add: keeps_act_def)
  show ?thesis
  proof (cases tag)
    case (Tag t)
    then show ?thesis using k [of t] assms(2) by (simp add: submit_def tag_ok_def)
  next
    case NoTag
    show ?thesis unfolding submit_def NoTag tag.case by (rule keeps_request_id) (rule k)
  next
    case BadTag
    show ?thesis unfolding submit_def BadTag tag.case by (rule keeps_request_id) (rule k)
  qed
qed


lemma keeps_read_barrier:
  assumes "node_keeps I N"
  shows "conn_keeps I (read_barrier S N)"
  unfolding read_barrier_def by (intro keeps_intros keeps_call node_keepsD(2) [OF assms])

lemma keeps_membership_change:
  assumes "\<And>w. I w \<Longrightarrow> I (snd (change w))"
  shows "conn_keeps I (membership_change S N change)"
proof -
  have "conn_keeps I (case r of Inr x \<Rightarrow> send ''OK''
       | Inl (NotLeaderError l) \<Rightarrow>
           bind get_st (\<lambda>c. send (not_leader_message S N (if l = None \<or> l = Some [] then op_leader N (c_node c) else l) (c_node c)))
       | Inl (ProposalError msg) \<Rightarrow> send (''ERROR: '' @ msg)
       | Inl (ConfigChangeError msg) \<Rightarrow> send (''ERROR: '' @ msg))" for r :: "raft_error + unit"
    by (intro keeps_intros)
  then show ?thesis unfolding membership_change_def using assms by (intro keeps_act_bind keeps_on_node) (simp add: keeps_act_def)
qed

definition keeps_cmd :: "('w \<Rightarrow> bool) \<Rightarrow> 'w cmd \<Rightarrow> bool" where
  "keeps_cmd I f = (\<forall>u args tag. tag_ok tag \<longrightarrow> conn_keeps I (f u args tag))"

lemma keeps_list:
  "keeps_act I a \<Longrightarrow> (\<And>x. xs = [x] \<Longrightarrow> keeps_act I (f x)) \<Longrightarrow> keeps_act I (case xs of [x] \<Rightarrow> f x | _ \<Rightarrow> a)"
  "keeps_act I a \<Longrightarrow> (\<And>x y. xs = [x, y] \<Longrightarrow> keeps_act I (g x y)) \<Longrightarrow> keeps_act I (case xs of [x, y] \<Rightarrow> g x y | _ \<Rightarrow> a)"
  "keeps_act I a \<Longrightarrow> (\<And>x y z. xs = [x, y, z] \<Longrightarrow> keeps_act I (h x y z)) \<Longrightarrow>
     keeps_act I (case xs of [x, y, z] \<Rightarrow> h x y z | _ \<Rightarrow> a)"
  "keeps_act I a \<Longrightarrow> (\<And>x y z v. xs = [x, y, z, v] \<Longrightarrow> keeps_act I (k x y z v)) \<Longrightarrow>
     keeps_act I (case xs of [x, y, z, v] \<Rightarrow> k x y z v | _ \<Rightarrow> a)"
  by (auto split: list.split)

lemma str_words_one: "str_words s = [k] \<Longrightarrow> plain_word k" "str_words s = [k, t] \<Longrightarrow> plain_word k"
  using str_words_plain [of k s] by simp_all

lemmas key_words = words_max_two words_max_three(1) words_max_four(2) str_words_one

lemmas cmd_defs = keeps_cmd_def cmd_set_def cmd_setex_def cmd_get_def cmd_has_def cmd_delete_def cmd_expire_def
  cmd_persist_def cmd_ttl_def cmd_keys_def cmd_info_def cmd_members_def admin_add_node_def admin_remove_node_def
  admin_import_user_def admin_import_set_def Let_def

lemma keeps_if_string: "conn_keeps I (submit N u a tag) \<Longrightarrow> conn_keeps I (submit N u b tag) \<Longrightarrow>
  conn_keeps I (submit N u (if P then a else b) tag)"
  by simp

lemma keeps_commands:
  assumes N: "node_keeps I N"
  shows "keeps_cmd I (cmd_set N)" and "keeps_cmd I (cmd_setex N)" and "keeps_cmd I (cmd_get S N)"
    and "keeps_cmd I (cmd_has S N)" and "keeps_cmd I (cmd_delete N)" and "keeps_cmd I (cmd_expire N)"
    and "keeps_cmd I (cmd_persist N)" and "keeps_cmd I (cmd_ttl S N)" and "keeps_cmd I (cmd_keys S N)"
    and "keeps_cmd I (cmd_info N)" and "keeps_cmd I (cmd_members S N)" and "keeps_cmd I (admin_add_node S N)"
    and "keeps_cmd I (admin_remove_node S N)" and "keeps_cmd I (admin_import_user N)" and "keeps_cmd I (admin_import_set N)"
  unfolding cmd_defs
  by (intro allI impI keeps_list keeps_if_string keeps_intros keeps_read_barrier [OF N] node_keepsD [OF N]
        keeps_membership_change keeps_submit [OF N];
      (assumption | (erule good_commands, erule key_words) | erule good_signup))+


lemma keeps_handle_line:
  assumes "\<forall>f \<in> snd ` set handlers. keeps_cmd I f" and "I (c_node c)"
  shows "I (c_node (snd (handle_line S handlers usage who line c)))"
proof -
  obtain tag raw where t: "split_tag line = (tag, raw)" by (metis surj_pair)
  have h: "I (c_node (snd (f u args tag c)))" if "map_of handlers k = Some f" for f k u args
  proof -
    have "keeps_cmd I f" using assms(1) that by (force dest: map_of_SomeD)
    then show ?thesis using tag_ok_split [OF t] assms(2) by (simp add: keeps_cmd_def keeps_act_def)
  qed
  show ?thesis
  proof (cases "words_max 1 raw")
    case Nil
    then show ?thesis using assms(2) by (simp add: handle_line_def t Let_def del: words_max.simps)
  next
    case (Cons w ws)
    let ?args = "case ws of [] \<Rightarrow> [] | a # _ \<Rightarrow> a"
    show ?thesis
    proof (cases "map_of handlers (str_upper w)")
      case None
      then show ?thesis using assms(2) Cons by (simp add: handle_line_def t Let_def del: words_max.simps)
    next
      case (Some f)
      obtain r c1 where "f who ?args tag c = (r, c1)" by (metis surj_pair)
      then show ?thesis using assms(2) Cons Some h [OF Some, of who ?args]
        by (simp add: handle_line_def t Let_def del: words_max.simps split: sum.split)
    qed
  qed
qed

lemma keeps_recv: "I (c_node c) \<Longrightarrow> recv (input, c) = (r, rest, c1) \<Longrightarrow> I (c_node c1)"
  by (auto simp: recv_def Let_def split: if_splits prod.splits)

lemma keeps_dispatch:
  assumes "\<forall>f \<in> snd ` set handlers. keeps_cmd I f" and "I (c_node c)"
  shows "I (c_node (snd (dispatch S handlers usage who input c)))"
  using assms(2)
proof (induction "length input" arbitrary: input c rule: less_induct)
  case less
  obtain r rest c1 where r: "recv (input, c) = (r, rest, c1)" by (metis prod_cases3)
  have c1: "I (c_node c1)" by (rule keeps_recv [of I c input r rest, OF less.prems r])
  show ?case
  proof (cases r)
    case None
    then show ?thesis using r c1 by (simp add: dispatch.simps [of S handlers usage who input c])
  next
    case (Some line)
    obtain go c2 where h: "handle_line S handlers usage who line c1 = (go, c2)" by (metis surj_pair)
    have "I (c_node c2)" using keeps_handle_line [of handlers I c1 S usage who line] assms(1) c1 h by simp
    moreover from this have "I (c_node (snd (dispatch S handlers usage who rest c2)))"
      using less.hyps [of rest c2] recv_consumes r Some by blast
    ultimately show ?thesis using r Some h
      by (simp add: dispatch.simps [of S handlers usage who input c] split: bool.split)
  qed
qed

lemma keeps_auth_round:
  assumes N: "node_keeps I N"
  shows "dialogue_keeps I (auth_round S N line)"
proof -
  obtain tag raw where t: "split_tag line = (tag, raw)" by (metis surj_pair)
  have l: "dialogue_keeps I (do_login S N)" unfolding do_login_def tell_def
    by (intro keeps_intros keeps_read_barrier [OF N] node_keepsD(5-) [OF N])
  have a: "dialogue_keeps I (do_admin S)" unfolding do_admin_def tell_def by (intro keeps_intros)
  have s: "dialogue_keeps I (do_signup N tag)" unfolding do_signup_def tell_def
    by (intro keeps_intros node_keepsD(5-) [OF N] keeps_submit [OF N tag_ok_split [OF t]] good_signup)
  show ?thesis unfolding auth_round_def t Let_def prod.case tell_def by (intro keeps_intros l a s)
qed


lemma keeps_handle_auth:
  assumes N: "node_keeps I N" and "I (c_node (snd s))"
  shows "I (c_node (snd (snd (handle_auth S N s))))"
  using assms(2)
proof (induction "length (fst s)" arbitrary: s rule: less_induct)
  case less
  obtain r s1 where r: "recv s = (r, s1)" by (metis surj_pair)
  have s1: "I (c_node (snd s1))" using keeps_recv [of I "snd s" "fst s" r "fst s1" "snd s1"] less.prems r by simp
  show ?case
  proof (cases r)
    case None
    then show ?thesis using r s1 by (simp add: handle_auth.simps [of S N s])
  next
    case (Some line)
    obtain x s2 where x: "auth_round S N line s1 = (x, s2)" by (metis surj_pair)
    have s2: "I (c_node (snd s2))"
      using keeps_auth_round [OF N, of S line] s1 x unfolding keeps_act_def by (metis snd_conv)
    show ?thesis
    proof (cases x)
      case (Inl e)
      then show ?thesis using r Some x s2 by (simp add: handle_auth.simps [of S N s])
    next
      case (Inr pa)
      have "I (c_node (snd (snd (handle_auth S N s2))))"
        using less.hyps [of s2] auth_shorter [OF r [unfolded Some] x] s2 by blast
      then show ?thesis using r Some x Inr s2 by (cases pa) (simp add: handle_auth.simps [of S N s])
    qed
  qed
qed

lemma keeps_handle_client:
  assumes N: "node_keeps I N" and "I (c_node c)"
  shows "I (c_node (snd (handle_client S N input c)))"
proof -
  obtain r rest c1 where r: "handle_auth S N (input, c\<lparr>c_output := c_output c @ [''Welcome! Type LOGIN or SIGNUP'']\<rparr>) = (r, rest, c1)"
    by (metis prod_cases3)
  have c1: "I (c_node c1)"
    using keeps_handle_auth [OF N, of "(input, c\<lparr>c_output := c_output c @ [''Welcome! Type LOGIN or SIGNUP'']\<rparr>)" S] assms(2) r
    by simp
  have u: "\<forall>f \<in> snd ` set (user_handlers S N). keeps_cmd I f" and a: "\<forall>f \<in> snd ` set (admin_handlers S N). keeps_cmd I f"
    using keeps_commands [OF N] by (simp_all add: user_handlers_def admin_handlers_def)
  show ?thesis
    using c1 keeps_dispatch [OF u] keeps_dispatch [OF a]
    by (auto simp: handle_client_def r handle_commands_def handle_admin_commands_def Let_def
        split: sum.split option.split principal.split)
qed

subsection \<open>Without a database nothing that a client sends can fail to be applied\<close>

definition ram :: "'d machine \<Rightarrow> bool" where
  "ram s = (\<not> use_db s \<and> 0 < capacity s)"

abbreviation total :: "('d machine, 'a) act \<Rightarrow> bool" where
  "total m \<equiv> outcome ram m (\<lambda>_. ram) (\<lambda>_. False)"

lemma total_bind: "total m \<Longrightarrow> (\<And>x. total (f x)) \<Longrightarrow> total (bind m f)"
  by (rule outcome_bind [where Q = "\<lambda>_. ram"])

lemma total_basic: "total (ret x)" "total (of_sum (Inr x))" "total get_st"
  by (simp_all add: outcome_def ret_def get_st_def of_sum_def)

lemma total_get: "(\<And>s. ram s \<Longrightarrow> total (f s)) \<Longrightarrow> total (bind get_st f)"
  by (auto simp: outcome_def bind_def get_st_def)

lemma total_modify: "(\<And>s. ram (f s) = ram s) \<Longrightarrow> total (modify f)"
  by (simp add: outcome_def modify_def)

lemma total_if: "(P \<Longrightarrow> total a) \<Longrightarrow> (\<not> P \<Longrightarrow> total b) \<Longrightarrow> total (if P then a else b)"
  by simp

lemma total_option: "total a \<Longrightarrow> (\<And>x. z = Some x \<Longrightarrow> total (f x)) \<Longrightarrow> total (case z of None \<Rightarrow> a | Some x \<Rightarrow> f x)"
  by (cases z) simp_all

lemma total_prod: "(\<And>a b. z = (a, b) \<Longrightarrow> total (f a b)) \<Longrightarrow> total (case z of (a, b) \<Rightarrow> f a b)"
  by (cases z) simp

lemma total_put: "total (put_store u st)"
  unfolding put_store_def by (rule total_modify) (simp add: ram_def)

lemma total_change: "total (change_store u f)"
  unfolding change_store_def by (rule total_modify) (simp add: ram_def split: option.split)

lemma total_get_store: "total (get_store D u)"
  unfolding get_store_def by (intro total_get total_option total_if total_basic) (simp_all add: ram_def)

lemma total_lookup: "total (lookup D st u k)"
proof -
  have "total (case lru_get k (st_cache st) of
         (c, Some v) \<Rightarrow> bind (put_store u (st\<lparr>st_cache := c\<rparr>)) (\<lambda>_. ret (Some (v, map_of (st_expiry st) k)))
       | (c, None) \<Rightarrow>
           if \<not> use_db s then ret None
           else
             bind (on_db (get_entry_with_expiry D u k)) (\<lambda>r.
               case r of
                 None \<Rightarrow> ret None
               | Some (v, exp) \<Rightarrow>
                   bind (of_sum (store_set k v (st\<lparr>st_cache := c\<rparr>))) (\<lambda>st1.
                   bind (put_store u (store_expire k exp st1)) (\<lambda>_. ret (Some (v, exp))))))"
    if "ram s" for s :: "'a machine"
    using that by (intro total_prod total_option total_bind total_put total_basic) (simp add: ram_def total_basic)
  then show ?thesis unfolding lookup_def by (rule total_get)
qed

lemmas total_rules = total_basic total_put total_change total_get_store total_lookup

lemma total_run_command:
  assumes "\<forall>v exp. c \<noteq> SetKey [] v exp"
  shows "total (run_command D u c)"
proof -
  have new: "total (of_sum (new_store u h (capacity s)) :: ('a machine, store) act)" if "ram s" for u h and s :: "'a machine"
    using that by (simp add: new_store_def lru_new_def ram_def total_basic)
  have set: "total (of_sum (store_set k v x) :: ('a machine, store) act)" if "k \<noteq> []" for k v x
    using that by (simp add: store_set_def lru_set_def Let_def total_basic)
  have mod: "total (modify (\<lambda>s. s\<lparr>stores := f (stores s)\<rparr>) :: ('a machine, unit) act)" for f
    by (rule total_modify) (simp add: ram_def)
  have db: "ram s \<Longrightarrow> use_db s \<Longrightarrow> total m" for s :: "'a machine" and m :: "('a machine, 'x) act"
    by (simp add: ram_def)
  have b: "total (ret x)" for x by (rule total_basic)
  show ?thesis
    using assms
    by (cases c; simp only: run_command.simps apply_signup_def apply_set_def apply_delete_def apply_expiry_def apply_sweep_def)
      (intro total_get total_bind total_option total_prod total_if total_rules mod new set; (assumption | blast intro: db))+
qed

lemma total_apply_entry:
  assumes "good_submit (e_command x) (e_request_id x)"
  shows "total (apply_entry D x)"
proof -
  obtain c where c: "parse_command (e_command x) = Inr c" "\<forall>v exp. c \<noteq> SetKey [] v exp"
    using assms by (auto simp: good_submit_def)
  obtain p where p: "parse_request_id (e_request_id x) = Inr p" using assms by (auto simp: good_submit_def)
  have cmd: "total (apply_command D x)" using total_run_command [OF c(2)] c(1) by (simp add: apply_command_parse)
  have check: "total (check_session (e_request_id x))"
    unfolding check_session_def p by (intro total_bind total_prod total_get total_rules)
  have m: "total (modify (\<lambda>s. s\<lparr>sessions := f (sessions s)\<rparr>) :: ('a machine, unit) act)" for f
    by (rule total_modify) (simp add: ram_def)
  have e: "total (modify (\<lambda>s. case z of None \<Rightarrow> s | Some o1 \<Rightarrow> s\<lparr>sessions := dict_pop (sessions s) o1\<rparr>) :: ('a machine, unit) act)" for z
    by (rule total_modify) (simp add: ram_def split: option.split)
  have rec: "total (record_session D (e_request_id x) r i)" for r i
  proof -
    have "total (if \<not> use_db s then ret () else q)" if "ram s" for s :: "'a machine" and q
      using that by (simp add: ram_def total_basic)
    then show ?thesis
      unfolding record_session_def p Let_def by (intro total_bind total_prod total_get total_rules m e)
  qed
  show ?thesis unfolding apply_entry_def by (intro total_bind total_option total_if total_rules check cmd rec)
qed


text \<open>A node that records what is submitted to it.\<close>

definition logging :: "'w node_ops \<Rightarrow> ('w \<times> (string \<times> string \<times> string) list) node_ops" where
  "logging N =
     (let lift = (\<lambda>f (w, l). case f w of (r, w1) \<Rightarrow> (r, (w1, l)))
      in \<lparr>op_submit = \<lambda>cmd u rid (w, l). case op_submit N cmd u rid w of (r, w1) \<Rightarrow> (r, (w1, l @ [(cmd, u, rid)])),
          op_read_index = lift (op_read_index N),
          op_add_member = \<lambda>m (w, l). case op_add_member N m w of (r, w1) \<Rightarrow> (r, (w1, l)),
          op_remove_member = \<lambda>i (w, l). case op_remove_member N i w of (r, w1) \<Rightarrow> (r, (w1, l)),
          op_user_exists = \<lambda>u. on_part fst (\<lambda>w p. (w, snd p)) (op_user_exists N u),
          op_verify_password = \<lambda>u pw. on_part fst (\<lambda>w p. (w, snd p)) (op_verify_password N u pw),
          op_session_result = \<lambda>t. on_part fst (\<lambda>w p. (w, snd p)) (op_session_result N t),
          op_get = \<lambda>u k. on_part fst (\<lambda>w p. (w, snd p)) (op_get N u k),
          op_has = \<lambda>u k. on_part fst (\<lambda>w p. (w, snd p)) (op_has N u k),
          op_ttl = \<lambda>u k. on_part fst (\<lambda>w p. (w, snd p)) (op_ttl N u k),
          op_keys = \<lambda>u q. on_part fst (\<lambda>w p. (w, snd p)) (op_keys N u q),
          op_make_password = \<lambda>pw. on_part fst (\<lambda>w p. (w, snd p)) (op_make_password N pw),
          op_now = \<lambda>p. op_now N (fst p), op_status = \<lambda>p. op_status N (fst p), op_leader = \<lambda>p. op_leader N (fst p),
          op_members = \<lambda>p. op_members N (fst p), op_member = \<lambda>i p. op_member N i (fst p)\<rparr>)"

lemma keeps_lift: "keeps_act (\<lambda>p. P (snd p)) (on_part fst (\<lambda>w p. (w, snd p)) m)"
  by (simp add: keeps_act_def on_part_def case_prod_beta)

lemma logging_keeps:
  "node_keeps (\<lambda>p. \<forall>(cmd, u, rid) \<in> set (snd p). good_submit cmd rid) (logging N)"
  unfolding node_keeps_def logging_def
  by (auto simp: Let_def split: prod.splits intro: keeps_lift [where P = "\<lambda>l. \<forall>(cmd, u, rid) \<in> set l. good_submit cmd rid"])



lemma readline_short:
  assumes "newline \<notin> set l" and "length l < n"
  shows "readline n (l @ newline # rest) = (l @ [newline], rest)"
proof -
  have "takeWhile (\<lambda>c. c \<noteq> newline) (l @ newline # rest) = l"
    using assms(1) by (subst takeWhile_append2) auto
  then show ?thesis using assms(2) by (simp add: readline_def Let_def)
qed

lemma recv_line:
  assumes "newline \<notin> set l" and "length l < max_line_bytes"
  shows "recv (l @ newline # rest, c) = (Some (str_strip (l @ [newline])), rest, c)"
  using assms readline_short [OF assms(1), of "max_line_bytes + 1" rest] by (simp add: recv_def)

text \<open>A node that agrees to everything, and a client that signs up and writes one key.\<close>

definition yes_node :: "unit node_ops" where
  "yes_node =
     \<lparr>op_submit = \<lambda>cmd u rid. ret (Inr (JBool True)), op_read_index = \<lambda>w. (Inr (), w),
      op_add_member = \<lambda>m. ret (Inr ()), op_remove_member = \<lambda>i. ret (Inr ()),
      op_user_exists = \<lambda>u. ret False, op_verify_password = \<lambda>u pw. ret True, op_session_result = \<lambda>t. ret JNull,
      op_get = \<lambda>u k. ret None, op_has = \<lambda>u k. ret False, op_ttl = \<lambda>u k. ret 0, op_keys = \<lambda>u p. ret [],
      op_make_password = \<lambda>pw. ret pw, op_now = \<lambda>w. 0, op_status = \<lambda>w. [], op_leader = \<lambda>w. None,
      op_members = \<lambda>w. [], op_member = \<lambda>i w. None\<rparr>"

definition plain_config :: server_config where
  "plain_config = \<lparr>stale_reads = False, admin_token = None, client_addresses = [], exn_text = \<lambda>e. []\<rparr>"

definition first_session :: string where
  "first_session = ''SIGNUP'' @ newline # ''bob'' @ newline # ''pass'' @ newline # ''SET a b'' @ newline # []"

lemma recv_compute:
  assumes "newline \<in> set s" and "length (takeWhile (\<lambda>c. c \<noteq> newline) s) < max_line_bytes"
  shows "recv (s, c) = (Some (str_strip (takeWhile (\<lambda>c. c \<noteq> newline) s @ [newline])), tl (dropWhile (\<lambda>c. c \<noteq> newline) s), c)"
proof -
  let ?l = "takeWhile (\<lambda>c. c \<noteq> newline) s"
  have "dropWhile (\<lambda>c. c \<noteq> newline) s \<noteq> []" using assms(1) by (auto simp: dropWhile_eq_Nil_conv)
  then have "dropWhile (\<lambda>c. c \<noteq> newline) s = newline # tl (dropWhile (\<lambda>c. c \<noteq> newline) s)"
    using hd_dropWhile [of "\<lambda>c. c \<noteq> newline" s] by (cases "dropWhile (\<lambda>c. c \<noteq> newline) s") auto
  then have "s = ?l @ newline # tl (dropWhile (\<lambda>c. c \<noteq> newline) s)" by (metis takeWhile_dropWhile_id)
  moreover have "newline \<notin> set ?l" by (auto dest: set_takeWhileD)
  ultimately show ?thesis using recv_line assms(2) by metis
qed

lemma recv_empty: "recv ([], c) = (None, [], c)"
  by (simp add: recv_def readline_def Let_def)

lemmas run_line = recv_compute recv_empty max_line_bytes_def newline_def str_strip_def is_space_def split_tag_def
  str_startswith_def str_upper_def upper_char_def

lemmas run_act = bind_def ret_def throw_def get_st_def modify_def of_sum_def on_part_def with_conn_def on_node_def
  tell_def send_def read_in_def next_request_id_def reply_def clock_def

lemma first_session_runs:
  "handle_client plain_config (logging yes_node) first_session
     \<lparr>c_output = [], c_client = ''x'', c_seq = 1, c_node = ((), [])\<rparr> =
   ([], \<lparr>c_output = [''Welcome! Type LOGIN or SIGNUP'', ''Choose username:'', ''Choose password:'', ''READY:bob'', ''OK''],
         c_client = ''x'', c_seq = 3, c_node = ((), [(''SIGNUP pass'', ''bob'', ''x:1''), (''SET a b'', ''bob'', ''x:2'')])\<rparr>)"
proof -
  have w: "words_max (Suc 0) ''SET a b'' = [''SET'', ''a b'']" "words_max (Suc 0) ''a b'' = [''a'', ''b'']" by code_simp+
  have n: "show_int 1 = ''1''" "show_int 2 = ''2''" by code_simp+
  show ?thesis
  by (simp del: words_max.simps add: w n handle_client_def first_session_def handle_auth.simps run_line run_act Let_def
    auth_round_def do_signup_def logging_def yes_node_def plain_config_def validate_username_def
    min_username_len_def max_username_len_def min_password_len_def submit_def
    handle_commands_def dispatch.simps handle_line_def user_handlers_def cmd_set_def valid_key_def max_key_length_def)
qed


end
