(* ===== verification/Tcp_Sessions.thy ===== *)
theory Tcp_Sessions
  imports Tcp_Theorems
begin

section \<open>Sessions of the client protocol\<close>

text \<open>
  Who gets past \<open>_handle_auth\<close>, what a line of a session is answered with, and how a session ends.
\<close>

subsection \<open>What the result of a dialogue tells\<close>

text \<open>\<open>gives P m F\<close>: the action keeps \<open>P\<close>, and its result satisfies \<open>F\<close>.\<close>

definition gives :: "('s \<Rightarrow> bool) \<Rightarrow> ('s, 'a) act \<Rightarrow> ('a \<Rightarrow> bool) \<Rightarrow> bool" where
  "gives P m F = outcome P m (\<lambda>x s. P s \<and> F x) (\<lambda>_. True)"

lemma gives_bind:
  assumes "gives P m F" and "\<And>x. F x \<Longrightarrow> gives P (f x) G"
  shows "gives P (bind m f) G"
  unfolding gives_def
  by (rule outcome_bind [OF assms(1) [unfolded gives_def]])
    (use assms(2) in \<open>auto simp: gives_def outcome_def\<close>)

lemma gives_ret: "F x \<Longrightarrow> gives P (ret x) F"
  by (simp add: gives_def outcome_def ret_def)

lemma gives_if: "(b \<Longrightarrow> gives P m F) \<Longrightarrow> (\<not> b \<Longrightarrow> gives P m' F) \<Longrightarrow> gives P (if b then m else m') F"
  by simp

lemma gives_option:
  "(z = None \<Longrightarrow> gives P m F) \<Longrightarrow> (\<And>x. z = Some x \<Longrightarrow> gives P (f x) F) \<Longrightarrow>
   gives P (case z of None \<Rightarrow> m | Some x \<Rightarrow> f x) F"
  by (cases z) simp_all

text \<open>\<open>l\<close> is what \<open>recv\<close> makes of the input from some point on.\<close>

definition heard :: "string \<Rightarrow> string \<Rightarrow> bool" where
  "heard input l = (\<exists>k c. fst (recv (drop k input, c :: unit conn)) = Some l)"

definition reading :: "string \<Rightarrow> string \<times> 'w conn \<Rightarrow> bool" where
  "reading input s = (\<exists>k. fst s = drop k input)"

lemma reading_with_conn: "(Inr x, s') = with_conn m s \<Longrightarrow> reading input s \<Longrightarrow> reading input s'"
  by (auto simp: with_conn_def on_part_def reading_def split: prod.splits)

lemma gives_tell: "gives (reading input) (tell msg) (\<lambda>_. True)"
  unfolding gives_def outcome_def tell_def by (auto split: sum.split prod.split dest: reading_with_conn [OF sym])

lemma recv_same: "fst (recv (s, c)) = fst (recv (s, c' :: 'v conn))"
  by (simp add: recv_def Let_def split: prod.split)

lemma gives_read: "gives (reading input) read_in (\<lambda>r. \<forall>l. r = Some l \<longrightarrow> heard input l)"
proof -
  have step: "reading input s1 \<and> (\<forall>l. r = Some l \<longrightarrow> heard input l)" if a: "reading input s" "recv s = (r, s1)" for s s1 r
  proof -
    obtain k c where s: "s = (drop k input, c)" using a(1) unfolding reading_def by (metis prod.collapse)
    have "\<exists>j. fst s1 = drop j input"
      using a(2) unfolding s by (auto simp: recv_def readline_def Let_def add.commute split: if_splits)
    moreover have "heard input l" if "r = Some l" for l
      using recv_same [of "drop k input" c] a(2) that unfolding heard_def s by (metis fst_conv)
    ultimately show ?thesis by (auto simp: reading_def)
  qed
  show ?thesis unfolding gives_def outcome_def
  proof (intro allI impI)
    fix s :: "string \<times> 'a conn"
    assume "reading input s"
    then show "case read_in s of (Inl e, s') \<Rightarrow> True | (Inr r, s') \<Rightarrow> reading input s' \<and> (\<forall>l. r = Some l \<longrightarrow> heard input l)"
      using step [of s "fst (recv s)" "snd (recv s)"] by (simp add: read_in_def case_prod_beta)
  qed
qed

lemma gives_node: "gives (reading input) (with_conn (on_node m)) (\<lambda>x. \<exists>w. fst (m w) = Inr x)"
  unfolding gives_def outcome_def
  by (auto simp: with_conn_def on_node_def on_part_def reading_def split: sum.split prod.splits) (metis fst_conv)

lemma gives_conn: "gives (reading input) (with_conn m) (\<lambda>_. True)"
  unfolding gives_def outcome_def by (auto split: sum.split prod.split dest: reading_with_conn [OF sym])

lemma gives_submit:
  "gives (reading input) (with_conn (submit N u cmd tag))
     (\<lambda>r. \<forall>x. r = Some x \<longrightarrow> (\<exists>rid w. fst (op_submit N cmd u rid w) = Inr (Inr x)))"
proof -
  have "\<exists>rid w. fst (op_submit N cmd u rid w) = Inr (Inr x)" if "submit N u cmd tag c = (Inr (Some x), c')" for c c' x
    using that
    by (auto simp: submit_def bind_def on_node_def on_part_def ret_def throw_def send_def modify_def next_request_id_def
        get_st_def split: tag.splits sum.splits prod.splits raft_error.splits)
      (metis fst_conv)+
  then show ?thesis
    unfolding gives_def outcome_def
    by (fastforce split: sum.split prod.splits simp: with_conn_def on_part_def reading_def)
qed

subsection \<open>Who is let in\<close>

text \<open>The user gave a password that the state machine verified, or the account was just created for him.\<close>

definition let_in :: "'w node_ops \<Rightarrow> string \<Rightarrow> string \<Rightarrow> bool" where
  "let_in N input u =
     ((\<exists>pw w. heard input pw \<and> fst (op_verify_password N u pw w) = Inr True) \<or>
      (\<exists>pw h rid w w' x. heard input pw \<and> min_password_len \<le> length pw \<and> validate_username u = None \<and>
         fst (op_make_password N pw w) = Inr h \<and> fst (op_submit N (''SIGNUP '' @ h) u rid w') = Inr (Inr x) \<and> truthy x))"

lemma gives_login: "gives (reading input) (do_login S N) (\<lambda>r. \<forall>u. r = Some u \<longrightarrow> let_in N input u)"
proof -
  have known: "gives (reading input) (if \<not> known \<and> \<not> stale_reads S then with_conn (read_barrier S N) else ret True) (\<lambda>_. True)"
    for known by (intro gives_if gives_conn gives_ret) simp
  show ?thesis unfolding do_login_def
    by (intro gives_bind [OF gives_tell] gives_bind [OF gives_read] gives_bind [OF gives_node] gives_bind [OF known]
          gives_option gives_if gives_ret)
      (auto simp: let_in_def)
qed

lemma gives_signup: "gives (reading input) (do_signup N tag) (\<lambda>r. \<forall>u. r = Some u \<longrightarrow> let_in N input u)"
proof -
  have mine: "gives (reading input) (case tag of
        Tag t \<Rightarrow> bind (with_conn (on_node (op_session_result N t))) (\<lambda>r. ret (r = JBool True))
      | _ \<Rightarrow> ret False) (\<lambda>_. True)"
    by (cases tag) (auto intro!: gives_bind [OF gives_node] gives_ret)
  have check: "gives (reading input) (case p of None \<Rightarrow> ret False
        | Some password \<Rightarrow> with_conn (on_node (op_verify_password N u password)))
      (\<lambda>ok. ok \<longrightarrow> (\<exists>pw w. p = Some pw \<and> fst (op_verify_password N u pw w) = Inr True))" for p u
    using gives_node [of input "op_verify_password N u (the p)"]
    by (cases p) (auto simp: gives_ret gives_def outcome_def split: sum.splits prod.splits)
  show ?thesis unfolding do_signup_def
    by (intro gives_bind [OF gives_tell] gives_bind [OF gives_read] gives_bind [OF gives_node] gives_bind [OF mine]
          gives_bind [OF check] gives_bind [OF gives_submit] gives_option gives_if gives_ret)
      (auto simp: let_in_def not_less, blast)
qed


lemma gives_admin:
  "gives (reading input) (do_admin S)
     (\<lambda>ok. ok \<longrightarrow> (\<exists>token. token \<noteq> [] \<and> admin_token S = Some token \<and> heard input token))"
  unfolding do_admin_def
  by (intro gives_bind [OF gives_tell] gives_bind [OF gives_read] gives_option gives_if gives_ret) auto

definition principal_ok :: "server_config \<Rightarrow> 'w node_ops \<Rightarrow> string \<Rightarrow> principal \<Rightarrow> bool" where
  "principal_ok S N input p =
     (case p of
        User u \<Rightarrow> let_in N input u
      | Admin \<Rightarrow> \<exists>token. token \<noteq> [] \<and> admin_token S = Some token \<and> heard input token)"

lemma gives_auth_round:
  "gives (reading input) (auth_round S N line) (\<lambda>(p, again). \<forall>x. p = Some x \<longrightarrow> principal_ok S N input x)"
proof -
  obtain tag raw where t: "split_tag line = (tag, raw)" by (metis surj_pair)
  show ?thesis unfolding auth_round_def t Let_def prod.case
    by (intro gives_bind [OF gives_tell] gives_bind [OF gives_login] gives_bind [OF gives_signup]
          gives_bind [OF gives_admin] gives_if gives_ret)
      (auto simp: principal_ok_def split: option.split list.split)
qed

text \<open>
  C30: a session is opened only for somebody who authenticated. \<open>_handle_auth\<close> gives a user name only
  after the state machine verified a password that this client sent for it, or after the client chose a
  valid new name and a password of the required length and the sign-up was applied; it opens an
  admin session only if a token is configured, is not empty, and this client sent it.
\<close>

theorem session_is_authenticated:
  assumes "handle_auth S N (input, c) = (Inr (Some p), s')"
  shows "principal_ok S N input p"
proof -
  have "fst (handle_auth S N s) = Inr (Some p) \<longrightarrow> principal_ok S N input p" if "reading input s" for s
    using that
  proof (induction "length (fst s)" arbitrary: s rule: less_induct)
    case less
    obtain r s1 where r: "recv s = (r, s1)" by (metis surj_pair)
    have s1: "reading input s1"
      using outcomeD(1) [OF gives_read [unfolded gives_def] less.prems, of r s1] r by (simp add: read_in_def)
    show ?case
    proof (cases r)
      case None
      then show ?thesis using r by (simp add: handle_auth.simps [of S N s])
    next
      case (Some line)
      obtain x s2 where x: "auth_round S N line s1 = (x, s2)" by (metis surj_pair)
      show ?thesis
      proof (cases x)
        case (Inl e)
        then show ?thesis using r Some x by (simp add: handle_auth.simps [of S N s])
      next
        case (Inr pa)
        have "reading input s2" "\<forall>y. fst pa = Some y \<longrightarrow> principal_ok S N input y"
          using outcomeD(1) [OF gives_auth_round [unfolded gives_def] s1, of S N line pa s2] x Inr
          by (simp_all add: case_prod_beta)
        moreover from this have "fst (handle_auth S N s2) = Inr (Some p) \<longrightarrow> principal_ok S N input p"
          using less.hyps [of s2] auth_shorter [OF r [unfolded Some] x] by blast
        ultimately show ?thesis using r Some x Inr by (cases pa) (simp add: handle_auth.simps [of S N s])
      qed
    qed
  qed
  moreover have "reading input (input, c)" unfolding reading_def by (rule exI [of _ 0]) simp
  ultimately show ?thesis using assms by (metis fst_conv)
qed


definition second_session :: string where
  "second_session = ''LOGIN'' @ newline # ''eve'' @ newline # ''guess'' @ newline # []"

text \<open>A node on which the only account is eve's.\<close>

definition eve_node :: "unit node_ops" where
  "eve_node = yes_node\<lparr>op_user_exists := \<lambda>u. ret (u = ''eve''), op_verify_password := \<lambda>u pw. ret (pw = ''guess'')\<rparr>"

lemma second_session_runs:
  "handle_auth plain_config eve_node (second_session, \<lparr>c_output = [], c_client = ''x'', c_seq = 1, c_node = ()\<rparr>) =
   (Inr (Some (User ''eve'')), [], \<lparr>c_output = [''Username:'', ''Password:''], c_client = ''x'', c_seq = 1, c_node = ()\<rparr>)"
  by (simp add: second_session_def handle_auth.simps run_line run_act Let_def auth_round_def do_login_def
      eve_node_def yes_node_def plain_config_def)

lemma session_is_authenticated_witness:
  "handle_auth plain_config eve_node (second_session, \<lparr>c_output = [], c_client = ''x'', c_seq = 1, c_node = ()\<rparr>) =
     (Inr (Some (User ''eve'')), [], \<lparr>c_output = [''Username:'', ''Password:''], c_client = ''x'', c_seq = 1, c_node = ()\<rparr>) \<and>
   principal_ok plain_config eve_node second_session (User ''eve'')"
  using second_session_runs session_is_authenticated [OF second_session_runs] by simp

subsection \<open>One answer for each command\<close>

text \<open>\<open>tells p m\<close>: the action sends one line if its result satisfies \<open>p\<close>, and none otherwise or if it raises.\<close>

definition tells :: "('a \<Rightarrow> bool) \<Rightarrow> ('w conn, 'a) act \<Rightarrow> bool" where
  "tells p m =
     (\<forall>c. case m c of
            (Inr x, c') \<Rightarrow> if p x then \<exists>msg. c_output c' = c_output c @ [msg] else c_output c' = c_output c
          | (Inl e, c') \<Rightarrow> c_output c' = c_output c)"

abbreviation quiet :: "('w conn, 'a) act \<Rightarrow> bool" where
  "quiet \<equiv> tells (\<lambda>_. False)"

abbreviation once :: "('w conn, 'a) act \<Rightarrow> bool" where
  "once \<equiv> tells (\<lambda>_. True)"

lemma tells_bind:
  assumes "tells p m" and "\<And>x. p x \<Longrightarrow> \<exists>y. f x = ret y \<and> q y" and "\<And>x. \<not> p x \<Longrightarrow> tells q (f x)"
  shows "tells q (bind m f)"
  unfolding tells_def
proof
  fix c
  obtain r c1 where m: "m c = (r, c1)" by (metis surj_pair)
  show "case bind m f c of
      (Inr x, c') \<Rightarrow> if q x then \<exists>msg. c_output c' = c_output c @ [msg] else c_output c' = c_output c
    | (Inl e, c') \<Rightarrow> c_output c' = c_output c"
  proof (cases r)
    case (Inl e)
    then show ?thesis using assms(1) [unfolded tells_def, rule_format, of c] m by (simp add: bind_def)
  next
    case (Inr x)
    note m1 = assms(1) [unfolded tells_def, rule_format, of c] m Inr
    show ?thesis
    proof (cases "p x")
      case True
      then obtain y where "f x = ret y" "q y" using assms(2) by blast
      then show ?thesis using m1 True by (simp add: bind_def ret_def)
    next
      case False
      then show ?thesis using m1 assms(3) [OF False, unfolded tells_def, rule_format, of c1]
        by (simp add: bind_def split: prod.splits sum.splits if_splits)
    qed
  qed
qed

lemma once_bind:
  "tells p m \<Longrightarrow> (\<And>x. p x \<Longrightarrow> f x = ret ()) \<Longrightarrow> (\<And>x. \<not> p x \<Longrightarrow> once (f x)) \<Longrightarrow> once (bind m f)"
  by (rule tells_bind [where p = p]) auto

lemma quiet_bind: "quiet m \<Longrightarrow> (\<And>x. tells q (f x)) \<Longrightarrow> tells q (bind m f)"
  by (rule tells_bind [where p = "\<lambda>_. False"]) auto

lemma tells_basic: "quiet (ret x)" "quiet (throw e)" "quiet get_st" "quiet (of_sum v)" "quiet (clock N)"
    "quiet next_request_id" "quiet (on_node m')" "once (send msg)"
  by (auto simp: tells_def ret_def throw_def get_st_def of_sum_def clock_def bind_def next_request_id_def modify_def
      on_node_def on_part_def send_def split: sum.split prod.split)

lemma tells_ret: "\<not> q x \<Longrightarrow> tells q (ret x)"
  by (simp add: tells_def ret_def)

lemma tells_throw: "tells q (throw e)"
  by (simp add: tells_def throw_def)

lemma tells_send_ret: "q x \<Longrightarrow> tells q (bind (send msg) (\<lambda>_. ret x))"
  by (rule tells_bind [where p = "\<lambda>_. True"]) (auto intro: tells_basic)

lemma tells_if: "(b \<Longrightarrow> tells q m) \<Longrightarrow> (\<not> b \<Longrightarrow> tells q m') \<Longrightarrow> tells q (if b then m else m')"
  by simp

lemma tells_option: "tells q m \<Longrightarrow> (\<And>x. tells q (f x)) \<Longrightarrow> tells q (case z of None \<Rightarrow> m | Some x \<Rightarrow> f x)"
  by (cases z) simp_all

lemma tells_list:
  "once a \<Longrightarrow> (\<And>x. once (f x)) \<Longrightarrow> once (case xs of [x] \<Rightarrow> f x | _ \<Rightarrow> a)"
  "once a \<Longrightarrow> (\<And>x y. once (g x y)) \<Longrightarrow> once (case xs of [x, y] \<Rightarrow> g x y | _ \<Rightarrow> a)"
  "once a \<Longrightarrow> (\<And>x y z. once (h x y z)) \<Longrightarrow> once (case xs of [x, y, z] \<Rightarrow> h x y z | _ \<Rightarrow> a)"
  "once a \<Longrightarrow> (\<And>x y z v. once (k x y z v)) \<Longrightarrow> once (case xs of [x, y, z, v] \<Rightarrow> k x y z v | _ \<Rightarrow> a)"
  by (auto split: list.split)

lemma tells_submit: "tells (\<lambda>r. r = None) (submit N u cmd tag)"
proof -
  have "quiet (case tag of Tag t \<Rightarrow> ret t | _ \<Rightarrow> next_request_id)" by (cases tag) (simp_all add: tells_basic)
  moreover have "tells (\<lambda>r. r = None) (case r of
         Inr result \<Rightarrow> ret (Some result)
       | Inl (NotLeaderError _) \<Rightarrow> bind (send no_leader) (\<lambda>_. ret None)
       | Inl (ProposalError msg) \<Rightarrow> bind (send (''ERROR: '' @ msg)) (\<lambda>_. ret None)
       | Inl (ConfigChangeError msg) \<Rightarrow> throw ValueError)" for r :: "raft_error + json"
    by (auto intro!: tells_ret tells_send_ret tells_throw split: sum.split raft_error.split)
  ultimately show ?thesis unfolding submit_def by (intro quiet_bind tells_basic)
qed

lemma tells_read_barrier: "tells Not (read_barrier S N)"
proof -
  have "tells Not (case r of
            Inr _ \<Rightarrow> ret True
          | Inl (NotLeaderError _) \<Rightarrow> bind (send no_leader) (\<lambda>_. ret False)
          | Inl (ProposalError msg) \<Rightarrow> bind (send (''ERROR: '' @ msg)) (\<lambda>_. ret False)
          | Inl (ConfigChangeError msg) \<Rightarrow> throw ValueError)" for r :: "raft_error + unit"
    by (auto intro!: tells_ret tells_send_ret tells_throw split: sum.split raft_error.split)
  then show ?thesis unfolding read_barrier_def by (intro tells_if tells_ret quiet_bind tells_basic) simp
qed

lemma tells_valid_key: "tells Not (valid_key key)"
  unfolding valid_key_def by (intro tells_if tells_send_ret tells_ret) simp_all

lemma once_reply: "once (reply (submit N u cmd tag) f)"
  unfolding reply_def by (rule once_bind [OF tells_submit]) (auto intro: tells_basic)

lemma once_guard: "tells Not m \<Longrightarrow> once k \<Longrightarrow> once (bind m (\<lambda>ok. if \<not> ok then ret () else k))"
  by (rule once_bind [where p = Not]) auto

lemma once_membership_change: "once (membership_change S N change)"
proof -
  have "once (case r of
         Inr _ \<Rightarrow> send ''OK''
       | Inl (NotLeaderError l) \<Rightarrow>
           bind get_st (\<lambda>c.
             send (not_leader_message S N
                     (if l = None \<or> l = Some [] then op_leader N (c_node c) else l) (c_node c)))
       | Inl (ProposalError msg) \<Rightarrow> send (''ERROR: '' @ msg)
       | Inl (ConfigChangeError msg) \<Rightarrow> send (''ERROR: '' @ msg))" for r :: "raft_error + unit"
    by (auto intro!: quiet_bind tells_basic split: sum.split raft_error.split)
  then show ?thesis unfolding membership_change_def by (intro quiet_bind tells_basic)
qed

lemmas once_rules = tells_list tells_if once_guard [OF tells_valid_key] once_guard [OF tells_read_barrier]
  once_reply once_membership_change tells_option quiet_bind tells_basic

lemma once_commands: "\<forall>h \<in> set (user_handlers S N) \<union> set (admin_handlers S N). once (snd h u args tag)"
  unfolding user_handlers_def admin_handlers_def set_simps Un_insert_left Un_empty_left ball_simps snd_conv
    cmd_set_def cmd_setex_def cmd_get_def cmd_has_def cmd_delete_def cmd_expire_def
    cmd_persist_def cmd_ttl_def cmd_keys_def cmd_info_def cmd_members_def admin_add_node_def admin_remove_node_def
    admin_import_user_def admin_import_set_def Let_def
  by (intro conjI once_rules TrueI)


lemma once_result:
  assumes "once m" and "m c = (r, c')"
  shows "case r of Inr x \<Rightarrow> \<exists>msg. c_output c' = c_output c @ [msg] | Inl e \<Rightarrow> c_output c' = c_output c"
  using assms(1) [unfolded tells_def, rule_format, of c] assms(2) by (cases r) simp_all

lemma handle_line_answers:
  assumes "\<forall>h \<in> set handlers. \<forall>u args tag. once (snd h u args tag)"
    and "handle_line S handlers usage who line c = (go, c')"
  shows "if fst (split_tag line) \<noteq> BadTag \<and> words_max 1 (snd (split_tag line)) = [] then go \<and> c' = c
         else \<exists>msg. c_output c' = c_output c @ [msg] \<and> (go \<or> msg = ''Bye!'')"
proof -
  obtain tag raw where t: "split_tag line = (tag, raw)" by (metis surj_pair)
  show ?thesis
  proof (cases "tag = BadTag \<or> words_max 1 raw = []")
    case True
    then show ?thesis using assms(2) by (auto simp: handle_line_def t simp del: words_max.simps)
  next
    case False
    then obtain w ws where w: "words_max 1 raw = w # ws" by (metis list.exhaust)
    let ?args = "case ws of [] \<Rightarrow> [] | a # _ \<Rightarrow> a"
    show ?thesis
    proof (cases "map_of handlers (str_upper w)")
      case None
      then show ?thesis using assms(2) False w
        by (auto simp: handle_line_def t Let_def simp del: words_max.simps split: if_splits)
    next
      case (Some h)
      obtain r c1 where h: "h who ?args tag c = (r, c1)" by (metis surj_pair)
      have "once (h who ?args tag)" using assms(1) map_of_SomeD [OF Some] by force
      then have "case r of Inr x \<Rightarrow> \<exists>msg. c_output c1 = c_output c @ [msg] | Inl e \<Rightarrow> c_output c1 = c_output c"
        by (rule once_result) (rule h)
      then show ?thesis using assms(2) False w Some h
        by (auto simp: handle_line_def t Let_def simp del: words_max.simps split: if_splits sum.splits)
    qed
  qed
qed

text \<open>
  C31: one answer for each command. In a session of a user or of an administrator, a line that holds a command
  - known or not, well-formed or not, and whatever happens in Raft or raises in the handler - is
  answered with exactly one message; an empty line with none. Only QUIT ends the session.
\<close>

theorem one_answer_per_command:
  assumes "handlers = user_handlers S N \<or> handlers = admin_handlers S N"
    and "handle_line S handlers usage who line c = (go, c')"
  shows "if fst (split_tag line) \<noteq> BadTag \<and> words_max 1 (snd (split_tag line)) = [] then go \<and> c' = c
         else \<exists>msg. c_output c' = c_output c @ [msg] \<and> (go \<or> msg = ''Bye!'')"
  using assms(1) once_commands [of S N] by (intro handle_line_answers [OF _ assms(2)]) auto

text \<open>
  C32: a session ends only when it has to. Whatever the commands did, the loop of a session stops only at the
  end of what the client sends, after QUIT, or after a line that is too long, and it does stop.
\<close>

theorem session_ends:
  assumes "handlers = user_handlers S N \<or> handlers = admin_handlers S N"
    and "dispatch S handlers usage who input c = (rest, c')"
  shows "rest = [] \<or> (c_output c' \<noteq> [] \<and> last (c_output c') \<in> {''Bye!'', ''ERROR: Line too long''})"
  using assms(2)
proof (induction "length input" arbitrary: input c rule: less_induct)
  case less
  obtain r left c1 where r: "recv (input, c) = (r, left, c1)" by (metis prod_cases3)
  show ?case
  proof (cases r)
    case None
    then have "rest = left" "c' = c1" using less.prems r by (simp_all add: dispatch.simps [of S handlers usage who input c])
    moreover have "left = [] \<or> last (c_output c1) = ''ERROR: Line too long'' \<and> c_output c1 \<noteq> []"
      using r None by (auto simp: recv_def readline_def Let_def max_line_bytes_def split: if_splits)
    ultimately show ?thesis by auto
  next
    case (Some line)
    obtain go c2 where h: "handle_line S handlers usage who line c1 = (go, c2)" by (metis surj_pair)
    show ?thesis
    proof (cases go)
      case True
      then have "dispatch S handlers usage who left c2 = (rest, c')"
        using less.prems r Some h by (simp add: dispatch.simps [of S handlers usage who input c])
      then show ?thesis using less.hyps [of left c2] recv_consumes r Some by blast
    next
      case False
      then have "c' = c2" using less.prems r Some h by (simp add: dispatch.simps [of S handlers usage who input c])
      moreover have "\<forall>h \<in> set handlers. \<forall>u args tag. once (snd h u args tag)"
        using assms(1) once_commands [of S N] by auto
      ultimately show ?thesis using handle_line_answers [OF _ h] False by (auto split: if_splits)
    qed
  qed
qed


text \<open>A user session on that node: a wrong command, an empty line and a request to quit.\<close>

definition third_session :: string where
  "third_session = ''SETT a b'' @ newline # newline # ''get a b'' @ newline # ''quit'' @ newline # ''SET a b'' @ newline # []"

definition third_conn :: "unit conn" where
  "third_conn = \<lparr>c_output = [], c_client = ''x'', c_seq = 1, c_node = ()\<rparr>"

lemmas run_chars = max_line_bytes_def newline_def str_strip_def is_space_def split_tag_def str_startswith_def

lemma third_line_runs:
  "handle_line plain_config (user_handlers plain_config yes_node) [] ''bob'' ''get a b'' third_conn =
     (True, third_conn\<lparr>c_output := [''ERROR: Usage: GET <key>'']\<rparr>)"
proof -
  have w: "words_max (Suc 0) ''get a b'' = [''get'', ''a b'']" "str_words ''a b'' = [''a'', ''b'']"
    "str_upper ''get'' = ''GET''" "str_upper ''quit'' = ''QUIT''" "str_upper ''SETT'' = ''SETT''" by code_simp+
  show ?thesis
    by (simp del: words_max.simps add: w handle_line_def recv_compute recv_empty run_chars run_act Let_def user_handlers_def cmd_get_def third_conn_def)
qed

lemma one_answer_per_command_witness:
  "\<exists>msg. c_output (third_conn\<lparr>c_output := [''ERROR: Usage: GET <key>'']\<rparr>) = c_output third_conn @ [msg]"
proof -
  have "words_max 1 ''get a b'' = [''get'', ''a b'']" by code_simp
  then show ?thesis
    using one_answer_per_command [OF disjI1 [OF refl] third_line_runs]
    by (simp add: split_tag_def str_startswith_def del: words_max.simps split: if_splits)
qed

lemma third_session_runs:
  "dispatch plain_config (user_handlers plain_config yes_node) [] ''bob'' third_session third_conn =
     (''SET a b'' @ [newline], third_conn\<lparr>c_output := [''ERROR: Unknown command. '', ''ERROR: Usage: GET <key>'', ''Bye!'']\<rparr>)"
proof -
  have w: "words_max (Suc 0) ''get a b'' = [''get'', ''a b'']" "words_max (Suc 0) ''SETT a b'' = [''SETT'', ''a b'']"
    "words_max (Suc 0) [] = []" "words_max (Suc 0) ''quit'' = [''quit'']" "str_words ''a b'' = [''a'', ''b'']"
    "str_upper ''get'' = ''GET''" "str_upper ''quit'' = ''QUIT''" "str_upper ''SETT'' = ''SETT''" by code_simp+
  show ?thesis
    by (simp del: words_max.simps add: w dispatch.simps third_session_def third_conn_def handle_line_def recv_compute recv_empty run_chars run_act Let_def
        user_handlers_def cmd_get_def)
qed

lemma session_ends_witness: "last [''ERROR: Unknown command. '', ''ERROR: Usage: GET <key>'', ''Bye!''] = ''Bye!''"
  using session_ends [OF disjI1 [OF refl] third_session_runs] by simp

end
