(* ===== verification/Raft_Database.thy ===== *)
theory Raft_Database
  imports Db_Service Raft_Events
begin

section \<open>apps/cluster/raft_storage.py: the Raft state of a node in the database\<close>

text \<open>
  \<open>DjangoRaftStorage\<close> over the tables of apps/cluster/models.py. A query of Django's ORM is a field
  of \<open>raft_orm\<close>; the locale \<open>raft_orm_laws\<close> says what a query that returns has done to the rows, which a view
  shows, and that one that raises has done nothing. \<open>raft_orm_up\<close> adds that, while the database is up, a query returns
  if its values fit the columns of models.py and its text fits one statement. From the first it follows that the storage
  loads what \<open>MemoryRaftStorage\<close> would load, from the second that it gets there. The engine has no code for a storage
  that raises: after a call with a value that does not fit, memory and database differ, and the theorems about engines
  and clusters, which take a storage that keeps what it is given, say nothing.
\<close>

subsection \<open>The tables\<close>

record raft_meta =
  mt_current_term :: int
  mt_voted_for :: "string option"
  mt_snapshot_index :: int
  mt_snapshot_term :: int
  mt_last_applied :: int
  mt_snapshot_config :: "string option"

text \<open>A new \<open>RaftMeta(node_id=...)\<close> has the defaults of its columns.\<close>

definition new_meta :: raft_meta where
  "new_meta = \<lparr>mt_current_term = 0, mt_voted_for = None, mt_snapshot_index = 0, mt_snapshot_term = 0,
     mt_last_applied = 0, mt_snapshot_config = None\<rparr>"

text \<open>A row of \<open>RaftLogEntry\<close>, without its key: the node and the index.\<close>

record raft_row =
  w_term :: int
  w_command :: string
  w_username :: string
  w_request_id :: string

text \<open>An item of \<open>defaults\<close>, the columns that \<open>update_or_create\<close> writes.\<close>

datatype meta_column =
    Current_term int
  | Voted_for "string option"
  | Snapshot_index int
  | Snapshot_term int
  | Last_applied int
  | Snapshot_config string

fun set_column :: "meta_column \<Rightarrow> raft_meta \<Rightarrow> raft_meta" where
  "set_column (Current_term t) m = m\<lparr>mt_current_term := t\<rparr>"
| "set_column (Voted_for v) m = m\<lparr>mt_voted_for := v\<rparr>"
| "set_column (Snapshot_index i) m = m\<lparr>mt_snapshot_index := i\<rparr>"
| "set_column (Snapshot_term t) m = m\<lparr>mt_snapshot_term := t\<rparr>"
| "set_column (Last_applied i) m = m\<lparr>mt_last_applied := i\<rparr>"
| "set_column (Snapshot_config c) m = m\<lparr>mt_snapshot_config := Some c\<rparr>"

text \<open>The queries of raft_storage.py, in its order; \<open>q_undo d d'\<close> is the rollback from \<open>d'\<close> to \<open>d\<close>.\<close>

record 'd raft_orm =
  q_meta_first :: "string \<Rightarrow> ('d, raft_meta option) act"
  q_log_after :: "string \<Rightarrow> int \<Rightarrow> ('d, (int \<times> raft_row) list) act"
  q_meta_upsert :: "string \<Rightarrow> meta_column list \<Rightarrow> ('d, unit) act"
  q_log_delete_from :: "string \<Rightarrow> int \<Rightarrow> ('d, unit) act"
  q_log_bulk_create :: "string \<Rightarrow> (int \<times> raft_row) list \<Rightarrow> ('d, unit) act"
  q_log_delete_upto :: "string \<Rightarrow> int \<Rightarrow> ('d, unit) act"
  q_undo :: "'d \<Rightarrow> 'd \<Rightarrow> 'd"

subsection \<open>DjangoRaftStorage\<close>

definition row_of :: "log_entry \<Rightarrow> raft_row" where
  "row_of e = \<lparr>w_term = e_term e, w_command = e_command e, w_username = e_username e, w_request_id = e_request_id e\<rparr>"

definition entry_of :: "int \<Rightarrow> raft_row \<Rightarrow> log_entry" where
  "entry_of i r = \<lparr>e_term = w_term r, e_index = i, e_command = w_command r, e_username = w_username r, e_request_id = w_request_id r\<rparr>"

definition config_text :: "member list \<Rightarrow> string" where
  "config_text ms = dumps (JArr (map member_to_dict ms))"

definition read_config :: "string option \<Rightarrow> py_exn + member list option" where
  "read_config text =
     (case text of
        None \<Rightarrow> Inr None
      | Some s \<Rightarrow>
          (case loads s of
             Inl e \<Rightarrow> Inl e
           | Inr (JArr ds) \<Rightarrow> (case members_from_dicts ds of Inl e \<Rightarrow> Inl e | Inr ms \<Rightarrow> Inr (Some ms))
           | Inr _ \<Rightarrow> Inl TypeError))"

definition dj_load :: "'d raft_orm \<Rightarrow> string \<Rightarrow> ('d, pstate) act" where
  "dj_load D nid =
     bind (q_meta_first D nid) (\<lambda>found.
       let meta = (case found of None \<Rightarrow> new_meta | Some m \<Rightarrow> m)
       in bind (q_log_after D nid (mt_snapshot_index meta)) (\<lambda>rows.
          bind (of_sum (read_config (mt_snapshot_config meta))) (\<lambda>config.
            ret \<lparr>p_current_term = mt_current_term meta, p_voted_for = mt_voted_for meta,
                 p_log = map (\<lambda>(i, r). entry_of i r) rows, p_snapshot_index = mt_snapshot_index meta,
                 p_snapshot_term = mt_snapshot_term meta, p_last_applied = mt_last_applied meta,
                 p_snapshot_config = config\<rparr>)))"

definition dj_save_term_and_vote :: "'d raft_orm \<Rightarrow> string \<Rightarrow> int \<Rightarrow> string option \<Rightarrow> ('d, unit) act" where
  "dj_save_term_and_vote D nid t v = q_meta_upsert D nid [Current_term t, Voted_for v]"

definition in_transaction :: "'d raft_orm \<Rightarrow> ('d, 'a) act \<Rightarrow> ('d, 'a) act" where
  "in_transaction D m d = (case m d of (Inl e, d') \<Rightarrow> (Inl e, q_undo D d d') | (Inr x, d') \<Rightarrow> (Inr x, d'))"

definition dj_append :: "'d raft_orm \<Rightarrow> string \<Rightarrow> log_entry list \<Rightarrow> ('d, unit) act" where
  "dj_append D nid entries =
     (case entries of
        [] \<Rightarrow> ret ()
      | first # _ \<Rightarrow>
          in_transaction D
            (bind (q_log_delete_from D nid (e_index first)) (\<lambda>_.
               q_log_bulk_create D nid (map (\<lambda>e. (e_index e, row_of e)) entries))))"

definition dj_truncate_from :: "'d raft_orm \<Rightarrow> string \<Rightarrow> int \<Rightarrow> ('d, unit) act" where
  "dj_truncate_from D nid i = q_log_delete_from D nid i"

definition dj_save_snapshot :: "'d raft_orm \<Rightarrow> string \<Rightarrow> int \<Rightarrow> int \<Rightarrow> int \<Rightarrow> member list option \<Rightarrow> ('d, unit) act" where
  "dj_save_snapshot D nid i t applied config =
     (let columns = [Snapshot_index i, Snapshot_term t, Last_applied applied] @
                    (case config of None \<Rightarrow> [] | Some ms \<Rightarrow> [Snapshot_config (config_text ms)])
      in in_transaction D (bind (q_meta_upsert D nid columns) (\<lambda>_. q_log_delete_upto D nid i)))"

subsection \<open>What the queries do\<close>

record raft_tables =
  rt_meta :: "string \<Rightarrow> raft_meta option"
  rt_log :: "string \<Rightarrow> int \<Rightarrow> raft_row option"

definition returns :: "('d \<Rightarrow> bool) \<Rightarrow> ('d, 'a) act \<Rightarrow> bool" where
  "returns up q = (\<forall>d. up d \<longrightarrow> (\<exists>x d'. q d = (Inr x, d') \<and> up d'))"

definition meta_of :: "raft_tables \<Rightarrow> string \<Rightarrow> raft_meta" where
  "meta_of T nid = (case rt_meta T nid of None \<Rightarrow> new_meta | Some m \<Rightarrow> m)"

definition with_log :: "raft_tables \<Rightarrow> string \<Rightarrow> (int \<Rightarrow> raft_row option) \<Rightarrow> raft_tables" where
  "with_log T nid f = T\<lparr>rt_log := (rt_log T)(nid := f)\<rparr>"

definition free_rows :: "raft_tables \<Rightarrow> string \<Rightarrow> (int \<times> raft_row) list \<Rightarrow> bool" where
  "free_rows T nid rows = (distinct (map fst rows) \<and> (\<forall>i \<in> fst ` set rows. rt_log T nid i = None))"

locale raft_orm_laws =
  fixes D :: "'d raft_orm" and view :: "'d \<Rightarrow> raft_tables"
  assumes meta_first: "implements view (q_meta_first D n) (\<lambda>T x T'. T' = T \<and> x = rt_meta T n)"
    and log_after: "implements view (q_log_after D n i)
          (\<lambda>T x T'. T' = T \<and> sorted (map fst x) \<and> distinct (map fst x) \<and> map_of x = (\<lambda>j. if i < j then rt_log T n j else None))"
    and meta_upsert: "implements view (q_meta_upsert D n cs)
          (\<lambda>T x T'. T' = T\<lparr>rt_meta := (rt_meta T)(n \<mapsto> fold set_column cs (meta_of T n))\<rparr>)"
    and log_delete_from: "implements view (q_log_delete_from D n i)
          (\<lambda>T x T'. T' = with_log T n (\<lambda>j. if i \<le> j then None else rt_log T n j))"
    and log_bulk_create: "implements view (q_log_bulk_create D n rows)
          (\<lambda>T x T'. free_rows T n rows \<and> T' = with_log T n (rt_log T n ++ map_of rows))"
    and log_delete_upto: "implements view (q_log_delete_upto D n i)
          (\<lambda>T x T'. T' = with_log T n (\<lambda>j. if j \<le> i then None else rt_log T n j))"
    and undo: "view (q_undo D d d') = view d"

text \<open>
  The columns of models.py: a \<open>BigIntegerField\<close>, and a \<open>CharField\<close> with its \<open>max_length\<close>. The texts of a statement are
  bounded as a whole, by the size of a statement and of a \<open>TextField\<close> (\<open>packet\<close>).
\<close>

definition big_fits :: "int \<Rightarrow> bool" where
  "big_fits i = (- (2 ^ 63) \<le> i \<and> i < 2 ^ 63)"

definition char_fits :: "nat \<Rightarrow> string \<Rightarrow> bool" where
  "char_fits n s = (length s \<le> n)"

fun column_fits :: "meta_column \<Rightarrow> bool" where
  "column_fits (Current_term t) = big_fits t"
| "column_fits (Voted_for v) = (case v of None \<Rightarrow> True | Some n \<Rightarrow> char_fits 64 n)"
| "column_fits (Snapshot_index i) = big_fits i"
| "column_fits (Snapshot_term t) = big_fits t"
| "column_fits (Last_applied i) = big_fits i"
| "column_fits (Snapshot_config c) = True"

fun column_texts :: "meta_column \<Rightarrow> string list" where
  "column_texts (Voted_for (Some n)) = [n]"
| "column_texts (Snapshot_config c) = [c]"
| "column_texts c = []"

fun row_fits :: "int \<times> raft_row \<Rightarrow> bool" where
  "row_fits (i, r) = (big_fits i \<and> big_fits (w_term r) \<and> char_fits 150 (w_username r) \<and> char_fits 100 (w_request_id r))"

fun row_texts :: "int \<times> raft_row \<Rightarrow> string list" where
  "row_texts (i, r) = [w_command r, w_username r, w_request_id r]"

definition columns_fit :: "(string list \<Rightarrow> bool) \<Rightarrow> string \<Rightarrow> meta_column list \<Rightarrow> bool" where
  "columns_fit packet n cs = (char_fits 64 n \<and> list_all column_fits cs \<and> packet (concat (map column_texts cs)))"

definition rows_fit :: "(string list \<Rightarrow> bool) \<Rightarrow> string \<Rightarrow> (int \<times> raft_row) list \<Rightarrow> bool" where
  "rows_fit packet n rows = (char_fits 64 n \<and> list_all row_fits rows \<and> packet (concat (map row_texts rows)))"

locale raft_orm_up = raft_orm_laws +
  fixes up :: "'d \<Rightarrow> bool" and packet :: "string list \<Rightarrow> bool"
  assumes meta_first_returns: "returns up (q_meta_first D n)"
    and log_after_returns: "big_fits i \<Longrightarrow> returns up (q_log_after D n i)"
    and meta_upsert_returns: "columns_fit packet n cs \<Longrightarrow> returns up (q_meta_upsert D n cs)"
    and log_delete_from_returns: "big_fits i \<Longrightarrow> returns up (q_log_delete_from D n i)"
    and log_bulk_create_returns:
      "up d \<Longrightarrow> free_rows (view d) n rows \<Longrightarrow> rows_fit packet n rows \<Longrightarrow> \<exists>x d'. q_log_bulk_create D n rows d = (Inr x, d') \<and> up d'"
    and log_delete_upto_returns: "big_fits i \<Longrightarrow> returns up (q_log_delete_upto D n i)"

subsection \<open>The rows of a node and what they stand for\<close>

definition stores :: "raft_tables \<Rightarrow> string \<Rightarrow> pstate \<Rightarrow> bool" where
  "stores T nid p =
     (p_current_term p = mt_current_term (meta_of T nid) \<and> p_voted_for p = mt_voted_for (meta_of T nid) \<and>
      p_snapshot_index p = mt_snapshot_index (meta_of T nid) \<and> p_snapshot_term p = mt_snapshot_term (meta_of T nid) \<and>
      p_last_applied p = mt_last_applied (meta_of T nid) \<and>
      read_config (mt_snapshot_config (meta_of T nid)) = Inr (p_snapshot_config p) \<and> wf_pstate p \<and>
      (\<forall>i > p_snapshot_index p. rt_log T nid i =
         (if i \<le> p_last_index p then Some (row_of (p_log p ! nat (i - p_snapshot_index p - 1))) else None)))"

lemma entry_of_row [simp]: "entry_of (e_index e) (row_of e) = e"
  by (simp add: entry_of_def row_of_def)

lemma read_config_text [simp]: "read_config (Some (config_text ms)) = Inr (Some ms)"
  using loads_dumps [OF wf_members_json, of ms] by (simp add: read_config_def config_text_def members_dicts_round_trip)

lemma meta_of_with_log [simp]: "meta_of (with_log T nid f) nid' = meta_of T nid'"
  by (simp add: meta_of_def with_log_def)

lemma rt_log_with_log [simp]: "rt_log (with_log T nid f) nid = f"
  by (simp add: with_log_def)

lemma stores_rows:
  assumes "stores T nid p" and "sorted (map fst rows)" and "distinct (map fst rows)"
    and "map_of rows = (\<lambda>j. if p_snapshot_index p < j then rt_log T nid j else None)"
  shows "map (\<lambda>(i, r). entry_of i r) rows = p_log p"
proof -
  let ?s = "p_snapshot_index p" and ?ks = "[p_snapshot_index p + 1 .. p_last_index p]"
  have row: "map_of rows i = (if ?s < i \<and> i \<le> p_last_index p then Some (row_of (p_log p ! nat (i - ?s - 1))) else None)" for i
    using assms(1,4) by (simp add: stores_def)
  have "set (map fst rows) = {i. map_of rows i \<noteq> None}" by (auto simp: map_of_eq_None_iff)
  also have "\<dots> = set ?ks" by (auto simp: row split: if_splits)
  finally have ks: "map fst rows = ?ks" using assms(2,3) by (intro sorted_distinct_set_unique) auto
  have "length (map fst rows) = length ?ks" by (simp only: ks)
  then have len: "length rows = length (p_log p)" by (simp add: p_last_index_def)
  show ?thesis
  proof (rule nth_equalityI)
    fix k assume k: "k < length (map (\<lambda>(i, r). entry_of i r) rows)"
    obtain i r where ir: "rows ! k = (i, r)" by (metis surj_pair)
    have "map fst rows ! k = ?ks ! k" by (simp only: ks)
    moreover have "?ks ! k = ?s + 1 + int k" using k len by (intro nth_upto) (simp add: p_last_index_def)
    ultimately have i: "i = ?s + 1 + int k" using k ir by simp
    have "map_of rows i = Some r" using k ir assms(3) by (metis length_map map_of_is_SomeI nth_mem)
    then have r: "r = row_of (p_log p ! k)" using i k len by (simp add: row p_last_index_def)
    have "e_index (p_log p ! k) = i" using assms(1) i k len by (simp add: stores_def wf_pstate_def consecutive_def)
    then show "map (\<lambda>(i, r). entry_of i r) rows ! k = p_log p ! k" using k ir r by auto
  qed (simp add: len)
qed

lemma stores_wf: "stores T nid p \<Longrightarrow> consecutive (p_snapshot_index p + 1) (p_log p)"
  unfolding stores_def wf_pstate_def by blast

lemma stores_row:
  "stores T nid p \<Longrightarrow> p_snapshot_index p < i \<Longrightarrow> rt_log T nid i =
     (if i \<le> p_snapshot_index p + int (length (p_log p)) then Some (row_of (p_log p ! nat (i - p_snapshot_index p - 1))) else None)"
  unfolding stores_def p_last_index_def by blast

lemma stores_logI:
  assumes "stores T nid p" and "consecutive (p_snapshot_index p + 1) es"
    and "\<And>i. p_snapshot_index p < i \<Longrightarrow>
      f i = (if i \<le> p_snapshot_index p + int (length es) then Some (row_of (es ! nat (i - p_snapshot_index p - 1))) else None)"
  shows "stores (with_log T nid f) nid (p\<lparr>p_log := es\<rparr>)"
  using assms by (auto simp: stores_def wf_pstate_def p_last_index_def)

lemma stores_empty: "rt_meta T nid = None \<Longrightarrow> rt_log T nid = Map.empty \<Longrightarrow> stores T nid fresh_pstate"
  by (simp add: stores_def meta_of_def new_meta_def fresh_pstate_def read_config_def wf_pstate_def consecutive_def p_last_index_def)

lemma stores_term_vote:
  assumes "stores T nid p"
  shows "stores (T\<lparr>rt_meta := (rt_meta T)(nid \<mapsto> fold set_column [Current_term t, Voted_for v] (meta_of T nid))\<rparr>) nid
    (p\<lparr>p_current_term := t, p_voted_for := v\<rparr>)"
  using assms by (auto simp: stores_def meta_of_def [of "_\<lparr>rt_meta := _\<rparr>"] wf_pstate_def p_last_index_def)

lemma stores_truncate:
  assumes "stores T nid p" and "p_snapshot_index p < i"
  shows "stores (with_log T nid (\<lambda>j. if i \<le> j then None else rt_log T nid j)) nid
    (p\<lparr>p_log := take (nat (i - p_snapshot_index p - 1)) (p_log p)\<rparr>)"
  using stores_row [OF assms(1)] assms(2)
  by (intro stores_logI [OF assms(1)] consecutive_take stores_wf [OF assms(1)]) (auto simp: min_def)

lemma stores_snapshot:
  assumes "stores T nid p" and "p_snapshot_index p \<le> i"
    and "T1 = T\<lparr>rt_meta := (rt_meta T)(nid \<mapsto> fold set_column ([Snapshot_index i, Snapshot_term t, Last_applied a] @
           (case c of None \<Rightarrow> [] | Some ms \<Rightarrow> [Snapshot_config (config_text ms)])) (meta_of T nid))\<rparr>"
  shows "stores (with_log T1 nid (\<lambda>j. if j \<le> i then None else rt_log T1 nid j)) nid
    (p\<lparr>p_log := drop (nat (i - p_snapshot_index p)) (p_log p), p_snapshot_index := i, p_snapshot_term := t, p_last_applied := a,
       p_snapshot_config := (case c of None \<Rightarrow> p_snapshot_config p | Some x \<Rightarrow> Some x)\<rparr>)"
proof -
  let ?n = "nat (i - p_snapshot_index p)"
  have wf: "wf_pstate p" and rows: "\<And>j. p_snapshot_index p < j \<Longrightarrow> rt_log T nid j =
     (if j \<le> p_last_index p then Some (row_of (p_log p ! nat (j - p_snapshot_index p - 1))) else None)"
    using assms(1) by (simp_all add: stores_def)
  have "consecutive (p_snapshot_index p + 1 + int ?n) (drop ?n (p_log p))"
    using wf by (intro consecutive_drop) (simp add: wf_pstate_def)
  then have c: "consecutive (i + 1) (drop ?n (p_log p))" using assms(2) by (simp add: algebra_simps)
  have sub: "?n + nat (j - i - 1) = nat (j - p_snapshot_index p - 1)" if "i < j" for j using that assms(2) by linarith
  have "meta_of T1 nid = fold set_column ([Snapshot_index i, Snapshot_term t, Last_applied a] @
       (case c of None \<Rightarrow> [] | Some ms \<Rightarrow> [Snapshot_config (config_text ms)])) (meta_of T nid)"
    by (simp add: assms(3) meta_of_def [of "_\<lparr>rt_meta := _\<rparr>"])
  moreover have "rt_log T1 = rt_log T" by (simp add: assms(3))
  ultimately show ?thesis
    using assms(1,2) c rows sub
    by (cases c) (auto simp: stores_def wf_pstate_def p_last_index_def)
qed

lemma consecutive_distinct:
  assumes "consecutive i es"
  shows "distinct (map e_index es)"
proof -
  have "map e_index es = map (\<lambda>k. i + int k) [0..<length es]"
    using assms by (intro nth_equalityI) (simp_all add: consecutive_def)
  then show ?thesis by (simp add: distinct_map inj_on_def)
qed

lemma map_of_rows:
  "consecutive i es \<Longrightarrow> map_of (map (\<lambda>e. (e_index e, row_of e)) es) j =
     (if i \<le> j \<and> j < i + int (length es) then Some (row_of (es ! nat (j - i))) else None)"
proof (induction es arbitrary: i)
  case (Cons e es)
  then have e: "e_index e = i" "consecutive (i + 1) es" by (simp_all add: consecutive_Cons)
  have "(e # es) ! nat (j - i) = es ! nat (j - (i + 1))" if "i < j"
  proof -
    have "nat (j - i) = Suc (nat (j - (i + 1)))" using that by linarith
    then show ?thesis by simp
  qed
  then show ?case using e Cons.IH [OF e(2)] by (auto simp: not_less)
qed auto

lemma stores_append:
  assumes st: "stores T nid p" and c: "consecutive (e_index e) (e # es)"
    and i: "p_snapshot_index p < e_index e" "e_index e \<le> p_last_index p + 1"
    and T1: "T1 = with_log T nid (\<lambda>j. if e_index e \<le> j then None else rt_log T nid j)"
  shows "free_rows T1 nid (map (\<lambda>x. (e_index x, row_of x)) (e # es))"
    and "stores (with_log T1 nid (rt_log T1 nid ++ map_of (map (\<lambda>x. (e_index x, row_of x)) (e # es)))) nid
      (p\<lparr>p_log := take (nat (e_index e - p_snapshot_index p - 1)) (p_log p) @ e # es\<rparr>)"
proof -
  let ?i = "e_index e" and ?n = "nat (e_index e - p_snapshot_index p - 1)"
  let ?old = "take ?n (p_log p)" and ?rows = "map (\<lambda>x. (e_index x, row_of x)) (e # es)"
  have len: "int (length ?old) = ?i - p_snapshot_index p - 1" using i by (simp add: p_last_index_def)
  have idx: "e_index ((e # es) ! k) = ?i + int k" if "k < length (e # es)" for k
    using c that by (simp add: consecutive_def)
  show "free_rows T1 nid ?rows"
  proof -
    have "map fst ?rows = map e_index (e # es)" by simp
    then have "distinct (map fst ?rows)" using consecutive_distinct [OF c] by (simp only:)
    moreover have "?i \<le> j" if "j \<in> fst ` set ?rows" for j
    proof -
      have "fst ` set ?rows = e_index ` set (e # es)" by (simp add: image_image)
      then obtain x where x: "x \<in> set (e # es)" "j = e_index x" using \<open>j \<in> _\<close> by blast
      obtain k where "k < length (e # es)" "(e # es) ! k = x" using x(1) by (metis in_set_conv_nth)
      then show ?thesis using idx [of k] x(2) by simp
    qed
    ultimately show ?thesis by (simp add: free_rows_def T1)
  qed
  have old: "stores T1 nid (p\<lparr>p_log := ?old\<rparr>)" unfolding T1 by (rule stores_truncate [OF st i(1)])
  have "consecutive (p_snapshot_index p + 1) (?old @ e # es)"
    using stores_wf [OF old] c len by (intro consecutive_append) simp_all
  moreover have "(rt_log T1 nid ++ map_of ?rows) j =
      (if j \<le> p_snapshot_index p + int (length (?old @ e # es)) then Some (row_of ((?old @ e # es) ! nat (j - p_snapshot_index p - 1))) else None)"
    if j: "p_snapshot_index p < j" for j
  proof (cases "j < ?i")
    case True
    then have k: "nat (j - p_snapshot_index p - 1) < length ?old" using j len by linarith
    have "rt_log T1 nid j = Some (row_of (?old ! nat (j - p_snapshot_index p - 1)))"
      using stores_row [OF old, of j] j True len by simp
    then show ?thesis
      using True k len by (simp add: map_add_def map_of_rows [OF c] nth_append del: list.map)
  next
    case False
    have k: "nat (j - p_snapshot_index p - 1) = length ?old + nat (j - ?i)" using False len i by linarith
    have n: "rt_log T1 nid j = None" using False by (simp add: T1)
    have m: "map_of ?rows j = (if j < ?i + int (length (e # es)) then Some (row_of ((e # es) ! nat (j - ?i))) else None)"
      using False by (simp add: map_of_rows [OF c] del: list.map)
    have l: "p_snapshot_index p + int (length (?old @ e # es)) = ?i + int (length (e # es)) - 1" using len by simp
    have "(rt_log T1 nid ++ map_of ?rows) j = map_of ?rows j" unfolding map_add_def using n by (simp split: option.split)
    also have "\<dots> = (if j \<le> p_snapshot_index p + int (length (?old @ e # es)) then Some (row_of ((?old @ e # es) ! nat (j - p_snapshot_index p - 1))) else None)"
      unfolding m l k nth_append_length_plus by auto
    finally show ?thesis .
  qed
  ultimately have "stores (with_log T1 nid (rt_log T1 nid ++ map_of ?rows)) nid (p\<lparr>p_log := ?old\<rparr>\<lparr>p_log := ?old @ e # es\<rparr>)"
    by (intro stores_logI [OF old]) (simp_all del: list.map)
  then show "stores (with_log T1 nid (rt_log T1 nid ++ map_of ?rows)) nid (p\<lparr>p_log := ?old @ e # es\<rparr>)" by simp
qed

subsection \<open>The calls of a storage\<close>

text \<open>The calls that the engine makes, of either storage, and what each makes of the persistent state.\<close>

datatype storage_call =
    Save_term_and_vote int "string option"
  | Append "log_entry list"
  | Truncate_from int
  | Save_snapshot int int int "member list option"

fun dj_call :: "'d raft_orm \<Rightarrow> string \<Rightarrow> storage_call \<Rightarrow> ('d, unit) act" where
  "dj_call D nid (Save_term_and_vote t v) = dj_save_term_and_vote D nid t v"
| "dj_call D nid (Append es) = dj_append D nid es"
| "dj_call D nid (Truncate_from i) = dj_truncate_from D nid i"
| "dj_call D nid (Save_snapshot i t a c) = dj_save_snapshot D nid i t a c"

fun mem_call :: "storage_call \<Rightarrow> mem_storage \<Rightarrow> mem_storage" where
  "mem_call (Save_term_and_vote t v) = mem_save_term_and_vote t v"
| "mem_call (Append es) = mem_append es"
| "mem_call (Truncate_from i) = mem_truncate_from i"
| "mem_call (Save_snapshot i t a c) = mem_save_snapshot i t a c"

fun after_call :: "storage_call \<Rightarrow> pstate \<Rightarrow> pstate" where
  "after_call (Save_term_and_vote t v) p = p\<lparr>p_current_term := t, p_voted_for := v\<rparr>"
| "after_call (Append []) p = p"
| "after_call (Append (e # es)) p = p\<lparr>p_log := take (nat (e_index e - p_snapshot_index p - 1)) (p_log p) @ e # es\<rparr>"
| "after_call (Truncate_from i) p = p\<lparr>p_log := take (nat (i - p_snapshot_index p - 1)) (p_log p)\<rparr>"
| "after_call (Save_snapshot i t a c) p =
     p\<lparr>p_log := drop (nat (i - p_snapshot_index p)) (p_log p), p_snapshot_index := i, p_snapshot_term := t,
       p_last_applied := a, p_snapshot_config := (case c of None \<Rightarrow> p_snapshot_config p | Some x \<Rightarrow> Some x)\<rparr>"

text \<open>What the engine guarantees of a call: the preconditions in \<open>raft_storage_laws\<close>.\<close>

fun call_valid :: "storage_call \<Rightarrow> pstate \<Rightarrow> bool" where
  "call_valid (Save_term_and_vote t v) p = True"
| "call_valid (Append []) p = True"
| "call_valid (Append (e # es)) p =
     (consecutive (e_index e) (e # es) \<and> p_snapshot_index p < e_index e \<and> e_index e \<le> p_last_index p + 1)"
| "call_valid (Truncate_from i) p = (p_snapshot_index p < i)"
| "call_valid (Save_snapshot i t a c) p = (p_snapshot_index p \<le> i)"

fun valid_calls :: "storage_call list \<Rightarrow> mem_storage \<Rightarrow> bool" where
  "valid_calls [] m = True"
| "valid_calls (c # cs) m = (call_valid c (mem_load m) \<and> valid_calls cs (mem_call c m))"

text \<open>The values of a call fit the columns.\<close>

fun call_fits :: "(string list \<Rightarrow> bool) \<Rightarrow> string \<Rightarrow> storage_call \<Rightarrow> bool" where
  "call_fits packet nid (Save_term_and_vote t v) = columns_fit packet nid [Current_term t, Voted_for v]"
| "call_fits packet nid (Append es) = rows_fit packet nid (map (\<lambda>e. (e_index e, row_of e)) es)"
| "call_fits packet nid (Truncate_from i) = big_fits i"
| "call_fits packet nid (Save_snapshot i t a c) =
     columns_fit packet nid ([Snapshot_index i, Snapshot_term t, Last_applied a] @
       (case c of None \<Rightarrow> [] | Some ms \<Rightarrow> [Snapshot_config (config_text ms)]))"

fun dj_calls :: "'d raft_orm \<Rightarrow> string \<Rightarrow> storage_call list \<Rightarrow> ('d, unit) act" where
  "dj_calls D nid [] = ret ()"
| "dj_calls D nid (c # cs) = bind (dj_call D nid c) (\<lambda>_. dj_calls D nid cs)"

lemma mem_call_after:
  assumes "mem_ok m" and "call_valid c (mem_load m)"
  shows "mem_ok (mem_call c m)" and "mem_load (mem_call c m) = after_call c (mem_load m)"
proof -
  note laws = mem.term_vote_ok mem.load_term_vote mem.append_Nil mem.append_ok mem.load_append mem.truncate_ok mem.load_truncate
    mem.snapshot_ok mem.load_snapshot
  show "mem_ok (mem_call c m)" "mem_load (mem_call c m) = after_call c (mem_load m)"
    using assms laws [unfolded memory_storage_sel] by (cases c; cases "case c of Append es \<Rightarrow> es | _ \<Rightarrow> []"; auto)+
qed

subsection \<open>The database follows\<close>

lemma query_did: "implements view q spec \<Longrightarrow> q d = (Inr x, d') \<Longrightarrow> spec (view d) x (view d')"
  unfolding implements_def by (drule spec [of _ d]) simp

lemma query_returns:
  assumes "implements view q spec" and "returns up q" and "up d"
  obtains x d' where "q d = (Inr x, d')" and "up d'" and "spec (view d) x (view d')"
proof -
  obtain x d' where q: "q d = (Inr x, d')" "up d'" using assms(2,3) by (auto simp: returns_def)
  then show thesis using that query_did [OF assms(1) q(1)] by blast
qed

lemma transaction_did: "in_transaction D m d = (Inr x, d') \<Longrightarrow> m d = (Inr x, d')"
  by (auto simp: in_transaction_def split: prod.splits sum.splits)

context raft_orm_laws
begin

lemma load_stores:
  assumes st: "stores (view d) nid p" and load: "dj_load D nid d = (Inr q, d2)"
  shows "q = p"
proof -
  define M where "M = meta_of (view d) nid"
  obtain found d1 where q1: "q_meta_first D nid d = (Inr found, d1)"
    using load by (auto simp: dj_load_def bind_Inr)
  have f1: "view d1 = view d" "(case found of None \<Rightarrow> new_meta | Some m \<Rightarrow> m) = M"
    using query_did [OF meta_first q1] by (simp_all add: M_def meta_of_def)
  obtain rows config where q2: "q_log_after D nid (mt_snapshot_index M) d1 = (Inr rows, d2)"
      "Inr config = read_config (mt_snapshot_config M)"
      "q = \<lparr>p_current_term = mt_current_term M, p_voted_for = mt_voted_for M, p_log = map (\<lambda>(i, r). entry_of i r) rows,
        p_snapshot_index = mt_snapshot_index M, p_snapshot_term = mt_snapshot_term M, p_last_applied = mt_last_applied M,
        p_snapshot_config = config\<rparr>"
    using load q1 f1(2) by (auto simp: dj_load_def bind_Inr Let_def)
  have f: "p_current_term p = mt_current_term M" "p_voted_for p = mt_voted_for M" "p_snapshot_index p = mt_snapshot_index M"
    "p_snapshot_term p = mt_snapshot_term M" "p_last_applied p = mt_last_applied M" "p_snapshot_config p = config"
    using st q2(2) [symmetric] unfolding stores_def M_def [symmetric] by simp_all
  have "map (\<lambda>(i, r). entry_of i r) rows = p_log p"
    using query_did [OF log_after q2(1), unfolded f1(1)] by (intro stores_rows [OF st]) (simp_all add: f(3))
  then show "q = p" using f unfolding q2(3) by (cases p) simp
qed

lemma call_stores:
  assumes st: "stores (view d) nid p" and valid: "call_valid c p" and call: "dj_call D nid c d = (Inr (), d')"
  shows "stores (view d') nid (after_call c p)"
proof (cases c)
  case (Save_term_and_vote t v)
  then have "q_meta_upsert D nid [Current_term t, Voted_for v] d = (Inr (), d')" using call by (simp add: dj_save_term_and_vote_def)
  from query_did [OF meta_upsert this] show ?thesis using stores_term_vote [OF st] Save_term_and_vote by simp
next
  case (Truncate_from i)
  then have "q_log_delete_from D nid i d = (Inr (), d')" using call by (simp add: dj_truncate_from_def)
  from query_did [OF log_delete_from this] show ?thesis using stores_truncate [OF st] valid Truncate_from by simp
next
  case (Save_snapshot i t a cf)
  define cs where "cs = [Snapshot_index i, Snapshot_term t, Last_applied a] @ (case cf of None \<Rightarrow> [] | Some ms \<Rightarrow> [Snapshot_config (config_text ms)])"
  have "in_transaction D (bind (q_meta_upsert D nid cs) (\<lambda>_. q_log_delete_upto D nid i)) d = (Inr (), d')"
    using call Save_snapshot by (simp add: dj_save_snapshot_def cs_def)
  from transaction_did [OF this] obtain x d1 where q: "q_meta_upsert D nid cs d = (Inr x, d1)" "q_log_delete_upto D nid i d1 = (Inr (), d')"
    by (auto simp: bind_Inr)
  have "view d1 = (view d)\<lparr>rt_meta := (rt_meta (view d))(nid \<mapsto> fold set_column cs (meta_of (view d) nid))\<rparr>"
    using query_did [OF meta_upsert q(1)] .
  from stores_snapshot [OF st _ this [unfolded cs_def]] query_did [OF log_delete_upto q(2)] show ?thesis
    using valid Save_snapshot by simp
next
  case (Append es)
  show ?thesis
  proof (cases es)
    case Nil
    then show ?thesis using call st Append by (simp add: dj_append_def)
  next
    case (Cons e fs)
    let ?rows = "map (\<lambda>x. (e_index x, row_of x)) (e # fs)"
    have "in_transaction D (bind (q_log_delete_from D nid (e_index e)) (\<lambda>_. q_log_bulk_create D nid ?rows)) d = (Inr (), d')"
      using call Append Cons by (simp add: dj_append_def)
    from transaction_did [OF this] obtain x d1
      where q: "q_log_delete_from D nid (e_index e) d = (Inr x, d1)" "q_log_bulk_create D nid ?rows d1 = (Inr (), d')"
      by (auto simp: bind_Inr simp del: list.map)
    have v: "consecutive (e_index e) (e # fs)" "p_snapshot_index p < e_index e" "e_index e \<le> p_last_index p + 1"
      using valid Append Cons by simp_all
    note T1 = query_did [OF log_delete_from q(1)]
    from stores_append(2) [OF st v T1] query_did [OF log_bulk_create q(2)] show ?thesis using Append Cons by simp
  qed
qed

lemma calls_store:
  assumes "stores (view d) nid (mem_load m)" and "mem_ok m" and "valid_calls cs m" and "dj_calls D nid cs d = (Inr (), d')"
  shows "stores (view d') nid (mem_load (fold mem_call cs m))"
  using assms
proof (induction cs arbitrary: d m)
  case (Cons c cs)
  then have v: "call_valid c (mem_load m)" "valid_calls cs (mem_call c m)" by simp_all
  obtain d1 where d1: "dj_call D nid c d = (Inr (), d1)" "dj_calls D nid cs d1 = (Inr (), d')"
    using Cons.prems(4) by (auto simp: bind_Inr)
  have "stores (view d1) nid (mem_load (mem_call c m))"
    using call_stores [OF Cons.prems(1) v(1) d1(1)] by (simp add: mem_call_after [OF Cons.prems(2) v(1)])
  from Cons.IH [OF this mem_call_after(1) [OF Cons.prems(2) v(1)] v(2) d1(2)] show ?case by simp
qed simp

end

subsection \<open>The calls return\<close>

context raft_orm_up
begin

lemma load_returns:
  assumes st: "stores (view d) nid p" and d: "up d" and i: "big_fits (p_snapshot_index p)"
  shows "\<exists>d'. dj_load D nid d = (Inr p, d')"
proof -
  define M where "M = meta_of (view d) nid"
  obtain found d1 where q1: "q_meta_first D nid d = (Inr found, d1)" "up d1" "view d1 = view d \<and> found = rt_meta (view d) nid"
    by (rule query_returns [OF meta_first meta_first_returns d])
  then have m: "(case found of None \<Rightarrow> new_meta | Some m \<Rightarrow> m) = M" by (simp add: M_def meta_of_def)
  have f: "p_snapshot_index p = mt_snapshot_index M" "read_config (mt_snapshot_config M) = Inr (p_snapshot_config p)"
    using st unfolding stores_def M_def [symmetric] by simp_all
  obtain rows d2 where "q_log_after D nid (mt_snapshot_index M) d1 = (Inr rows, d2)"
    by (rule query_returns [OF log_after log_after_returns [OF i [unfolded f(1)]] q1(2)])
  then have "\<exists>q. dj_load D nid d = (Inr q, d2)"
    by (simp add: dj_load_def bind_def q1(1) m f(2) Let_def of_sum_def ret_def)
  then show ?thesis using load_stores [OF st] by blast
qed

lemma call_returns:
  assumes st: "stores (view d) nid p" and d: "up d" and valid: "call_valid c p" and fits: "call_fits packet nid c"
  shows "\<exists>d'. dj_call D nid c d = (Inr (), d') \<and> up d'"
proof (cases c)
  case (Save_term_and_vote t v)
  then have "columns_fit packet nid [Current_term t, Voted_for v]" using fits by simp
  from meta_upsert_returns [OF this] show ?thesis
    using d Save_term_and_vote by (simp add: returns_def dj_save_term_and_vote_def)
next
  case (Truncate_from i)
  then have "big_fits i" using fits by simp
  from log_delete_from_returns [OF this] show ?thesis using d Truncate_from by (simp add: returns_def dj_truncate_from_def)
next
  case (Save_snapshot i t a cf)
  define cs where "cs = [Snapshot_index i, Snapshot_term t, Last_applied a] @ (case cf of None \<Rightarrow> [] | Some ms \<Rightarrow> [Snapshot_config (config_text ms)])"
  have cf: "columns_fit packet nid cs" using fits Save_snapshot by (simp add: cs_def)
  then have i: "big_fits i" by (simp add: columns_fit_def cs_def)
  obtain x d1 where q1: "q_meta_upsert D nid cs d = (Inr x, d1)" "up d1"
    using meta_upsert_returns [OF cf] d by (auto simp: returns_def)
  obtain y d2 where q2: "q_log_delete_upto D nid i d1 = (Inr y, d2)" "up d2"
    using log_delete_upto_returns [OF i] q1(2) by (auto simp: returns_def)
  have "in_transaction D (bind (q_meta_upsert D nid cs) (\<lambda>_. q_log_delete_upto D nid i)) d = (Inr y, d2)"
    using q1(1) q2(1) by (simp add: in_transaction_def bind_def)
  then show ?thesis using q2(2) Save_snapshot by (auto simp: dj_save_snapshot_def cs_def)
next
  case (Append es)
  show ?thesis
  proof (cases es)
    case Nil
    then show ?thesis using d Append by (simp add: dj_append_def)
  next
    case (Cons e fs)
    let ?rows = "map (\<lambda>x. (e_index x, row_of x)) (e # fs)"
    have rf: "rows_fit packet nid ?rows" using fits Append Cons by simp
    then have i: "big_fits (e_index e)" by (simp add: rows_fit_def)
    have v: "consecutive (e_index e) (e # fs)" "p_snapshot_index p < e_index e" "e_index e \<le> p_last_index p + 1"
      using valid Append Cons by simp_all
    obtain x d1 where q1: "q_log_delete_from D nid (e_index e) d = (Inr x, d1)" "up d1"
      "view d1 = with_log (view d) nid (\<lambda>j. if e_index e \<le> j then None else rt_log (view d) nid j)"
      by (rule query_returns [OF log_delete_from log_delete_from_returns [OF i] d])
    obtain y d2 where q2: "q_log_bulk_create D nid ?rows d1 = (Inr y, d2)" "up d2"
      using log_bulk_create_returns [OF q1(2) stores_append(1) [OF st v q1(3)] rf] by blast
    have "in_transaction D (bind (q_log_delete_from D nid (e_index e)) (\<lambda>_. q_log_bulk_create D nid ?rows)) d = (Inr y, d2)"
      using q1(1) q2(1) by (simp add: in_transaction_def bind_def del: list.map)
    then show ?thesis using q2(2) Append Cons by (auto simp: dj_append_def)
  qed
qed

lemma call_boundary: "call_fits packet nid c \<Longrightarrow> big_fits (p_snapshot_index p) \<Longrightarrow> big_fits (p_snapshot_index (after_call c p))"
  by (cases c; cases "case c of Append es \<Rightarrow> es | _ \<Rightarrow> []") (auto simp: columns_fit_def)

lemma calls_return:
  assumes "stores (view d) nid (mem_load m)" and "up d" and "mem_ok m" and "valid_calls cs m" and "list_all (call_fits packet nid) cs"
    and "big_fits (p_snapshot_index (mem_load m))"
  shows "\<exists>d' d''. dj_calls D nid cs d = (Inr (), d') \<and> dj_load D nid d' = (Inr (mem_load (fold mem_call cs m)), d'')"
  using assms
proof (induction cs arbitrary: d m)
  case Nil
  then show ?case using load_returns by auto
next
  case (Cons c cs)
  then have v: "call_valid c (mem_load m)" "valid_calls cs (mem_call c m)" "call_fits packet nid c" "list_all (call_fits packet nid) cs"
    by simp_all
  obtain d1 where d1: "dj_call D nid c d = (Inr (), d1)" "up d1" using call_returns [OF Cons.prems(1,2) v(1,3)] by blast
  note m = mem_call_after [OF Cons.prems(3) v(1)]
  have "stores (view d1) nid (mem_load (mem_call c m))" using call_stores [OF Cons.prems(1) v(1) d1(1)] by (simp add: m)
  moreover have "big_fits (p_snapshot_index (mem_load (mem_call c m)))" using call_boundary [OF v(3) Cons.prems(6)] by (simp add: m)
  ultimately obtain d2 d3 where "dj_calls D nid cs d1 = (Inr (), d2)" "dj_load D nid d2 = (Inr (mem_load (fold mem_call cs (mem_call c m))), d3)"
    using Cons.IH [OF _ d1(2) m(1) v(2,4)] by blast
  then show ?case using d1(1) by (auto simp: bind_def)
qed

end

subsection \<open>A write that fails\<close>

definition same_others :: "string \<Rightarrow> raft_tables \<Rightarrow> raft_tables \<Rightarrow> bool" where
  "same_others nid T T' = (\<forall>n. n \<noteq> nid \<longrightarrow> rt_meta T' n = rt_meta T n \<and> rt_log T' n = rt_log T n)"

definition careful :: "('d \<Rightarrow> raft_tables) \<Rightarrow> string \<Rightarrow> ('d, unit) act \<Rightarrow> bool" where
  "careful view nid m =
     (\<forall>d. case m d of (Inl e, d') \<Rightarrow> view d' = view d | (Inr x, d') \<Rightarrow> same_others nid (view d) (view d'))"

lemma carefulD: "careful view nid m \<Longrightarrow> m d = (Inl e, d') \<Longrightarrow> view d' = view d"
  unfolding careful_def by (drule spec [of _ d]) simp

lemma careful_query:
  assumes "implements view q spec" and "\<And>T x T'. spec T x T' \<Longrightarrow> same_others nid T T'"
  shows "careful view nid q"
  unfolding careful_def
proof
  fix d
  show "case q d of (Inl e, d') \<Rightarrow> view d' = view d | (Inr x, d') \<Rightarrow> same_others nid (view d) (view d')"
  proof (cases "q d")
    case (Pair r d')
    have "case r of Inr x \<Rightarrow> spec (view d) x (view d') | Inl e \<Rightarrow> view d' = view d"
      using assms(1) Pair by (auto simp: implements_def dest: HOL.spec [of _ d] split: sum.splits)
    then show ?thesis using Pair assms(2) by (cases r) auto
  qed
qed

lemma careful_transaction:
  assumes "careful view nid m1" and "careful view nid m2" and "\<And>d d'. view (q_undo D d d') = view d"
  shows "careful view nid (in_transaction D (bind m1 (\<lambda>_. m2)))"
  unfolding careful_def
proof
  fix d
  have m1: "case m1 d of (Inl e, d') \<Rightarrow> view d' = view d | (Inr x, d') \<Rightarrow> same_others nid (view d) (view d')"
    using assms(1) by (simp add: careful_def)
  have m2: "case m2 d1 of (Inl e, d') \<Rightarrow> view d' = view d1 | (Inr x, d') \<Rightarrow> same_others nid (view d1) (view d')" for d1
    using assms(2) by (simp add: careful_def)
  show "case in_transaction D (bind m1 (\<lambda>_. m2)) d of (Inl e, d') \<Rightarrow> view d' = view d | (Inr x, d') \<Rightarrow> same_others nid (view d) (view d')"
  proof (cases "m1 d")
    case (Pair r d1)
    then show ?thesis using m1 m2 [of d1] assms(3)
      by (cases r; cases "m2 d1"; cases "fst (m2 d1)") (auto simp: in_transaction_def bind_def same_others_def)
  qed
qed

text \<open>
  C37: a write of the Raft state that raises, at whatever query, leaves every row as it was, and one that returns
  touches no row of another node of the same database.
\<close>

theorem failed_write_changes_nothing:
  assumes "raft_orm_laws D view"
  shows "careful view nid (dj_save_term_and_vote D nid t v) \<and> careful view nid (dj_append D nid es) \<and>
    careful view nid (dj_truncate_from D nid i) \<and> careful view nid (dj_save_snapshot D nid i t a c)"
proof (intro conjI)
  note laws = raft_orm_laws.meta_upsert [OF assms] raft_orm_laws.log_delete_from [OF assms]
    raft_orm_laws.log_bulk_create [OF assms] raft_orm_laws.log_delete_upto [OF assms]
  have q: "careful view nid (q_meta_upsert D nid cs)" "careful view nid (q_log_delete_from D nid j)"
    "careful view nid (q_log_bulk_create D nid rows)" "careful view nid (q_log_delete_upto D nid j)" for cs j rows
    by (rule careful_query [OF laws(1)] careful_query [OF laws(2)] careful_query [OF laws(3)] careful_query [OF laws(4)],
        simp add: same_others_def with_log_def)+
  note tr = careful_transaction [OF _ _ raft_orm_laws.undo [OF assms]]
  show "careful view nid (dj_save_term_and_vote D nid t v)" unfolding dj_save_term_and_vote_def by (rule q)
  show "careful view nid (dj_append D nid es)"
  proof (cases es)
    case Nil
    then show ?thesis by (simp add: dj_append_def careful_def ret_def same_others_def)
  next
    case (Cons e fs)
    then show ?thesis unfolding dj_append_def Cons list.case by (intro tr q)
  qed
  show "careful view nid (dj_truncate_from D nid i)" unfolding dj_truncate_from_def by (rule q)
  show "careful view nid (dj_save_snapshot D nid i t a c)" unfolding dj_save_snapshot_def Let_def by (intro tr q)
qed

text \<open>
  C36: the database storage refines \<open>MemoryRaftStorage\<close>. After any sequence of the calls that the engine makes, on tables that
  hold nothing of the node yet, whatever other nodes keep in them, a \<open>load\<close> that returns gives what the storage in RAM
  would give; and while the database is up, calls whose values fit the columns all return, and so does the \<open>load\<close>.
\<close>

theorem django_storage_refines:
  assumes "raft_orm_up D view up packet" and "rt_meta (view d) nid = None" and "rt_log (view d) nid = Map.empty"
    and "valid_calls calls mem_init"
  shows "(\<forall>d1 p d2. dj_calls D nid calls d = (Inr (), d1) \<and> dj_load D nid d1 = (Inr p, d2) \<longrightarrow>
      p = mem_load (fold mem_call calls mem_init)) \<and>
    (up d \<and> list_all (call_fits packet nid) calls \<longrightarrow>
      (\<exists>d1 d2. dj_calls D nid calls d = (Inr (), d1) \<and> dj_load D nid d1 = (Inr (mem_load (fold mem_call calls mem_init)), d2)))"
proof -
  have L: "raft_orm_laws D view" using assms(1) by (rule raft_orm_up.axioms)
  have m: "mem_ok mem_init" "mem_load mem_init = fresh_pstate"
    by (simp_all add: mem_ok_def mem_init_def mem_last_def mem_load_def fresh_pstate_def)
  have st: "stores (view d) nid (mem_load mem_init)" unfolding m(2) by (rule stores_empty [OF assms(2,3)])
  have "big_fits (p_snapshot_index (mem_load mem_init))" by (simp add: m(2) fresh_pstate_def big_fits_def)
  from raft_orm_up.calls_return [OF assms(1) st _ m(1) assms(4) _ this] show ?thesis
    using raft_orm_laws.load_stores [OF L raft_orm_laws.calls_store [OF L st m(1) assms(4)]] by blast
qed

subsection \<open>A database of lists\<close>

text \<open>Rows in lists, and a schedule of the queries that raise.\<close>

record raft_sql =
  s_meta :: "(string \<times> raft_meta) list"
  s_log :: "((string \<times> int) \<times> raft_row) list"
  s_fail :: "bool list"

definition raft_query :: "(raft_sql \<Rightarrow> 'a \<times> raft_sql) \<Rightarrow> (raft_sql, 'a) act" where
  "raft_query f d =
     (case s_fail d of
        [] \<Rightarrow> map_prod Inr id (f d)
      | b # bs \<Rightarrow> if b then (Inl DatabaseError, d\<lparr>s_fail := bs\<rparr>) else map_prod Inr id (f (d\<lparr>s_fail := bs\<rparr>)))"

definition raft_view :: "raft_sql \<Rightarrow> raft_tables" where
  "raft_view d = \<lparr>rt_meta = map_of (s_meta d), rt_log = (\<lambda>n i. map_of (s_log d) (n, i))\<rparr>"

definition raft_up :: "raft_sql \<Rightarrow> bool" where
  "raft_up d = (s_fail d = [])"

definition indices_after :: "string \<Rightarrow> int \<Rightarrow> raft_sql \<Rightarrow> int list" where
  "indices_after n i d = sort (remdups (map (\<lambda>((_, j), _). j) (filter (\<lambda>((n', j), _). n' = n \<and> i < j) (s_log d))))"

text \<open>At most 64 MB of text in one statement; a value that does not fit its column, or a key that is taken, raises.\<close>

definition raft_packet :: "string list \<Rightarrow> bool" where
  "raft_packet ss = (int (sum_list (map length ss)) \<le> 67108864)"

definition raft_upsert :: "string \<Rightarrow> meta_column list \<Rightarrow> (raft_sql, unit) act" where
  "raft_upsert n cs d =
     (if columns_fit raft_packet n cs
      then raft_query (\<lambda>d. ((), d\<lparr>s_meta := AList.update n
             (fold set_column cs (case map_of (s_meta d) n of None \<Rightarrow> new_meta | Some m \<Rightarrow> m)) (s_meta d)\<rparr>)) d
      else (Inl DatabaseError, d))"

definition raft_create :: "string \<Rightarrow> (int \<times> raft_row) list \<Rightarrow> (raft_sql, unit) act" where
  "raft_create n rows d =
     (if distinct (map fst rows) \<and> list_all (\<lambda>(i, r). map_of (s_log d) (n, i) = None) rows \<and> rows_fit raft_packet n rows
      then raft_query (\<lambda>d. ((), d\<lparr>s_log := map (\<lambda>(i, r). ((n, i), r)) rows @ s_log d\<rparr>)) d
      else (Inl DatabaseError, d))"

definition raft_lists :: "raft_sql raft_orm" where
  "raft_lists = \<lparr>
     q_meta_first = \<lambda>n. raft_query (\<lambda>d. (map_of (s_meta d) n, d)),
     q_log_after = \<lambda>n i. raft_query (\<lambda>d. (map (\<lambda>j. (j, the (map_of (s_log d) (n, j)))) (indices_after n i d), d)),
     q_meta_upsert = raft_upsert,
     q_log_delete_from = \<lambda>n i. raft_query (\<lambda>d. ((), d\<lparr>s_log := filter (\<lambda>((n', j), _). \<not> (n' = n \<and> i \<le> j)) (s_log d)\<rparr>)),
     q_log_bulk_create = raft_create,
     q_log_delete_upto = \<lambda>n i. raft_query (\<lambda>d. ((), d\<lparr>s_log := filter (\<lambda>((n', j), _). \<not> (n' = n \<and> j \<le> i)) (s_log d)\<rparr>)),
     q_undo = \<lambda>d d'. d\<lparr>s_fail := s_fail d'\<rparr>\<rparr>"

lemma raft_view_fail [simp]: "raft_view (d\<lparr>s_fail := bs\<rparr>) = raft_view d"
  by (simp add: raft_view_def)

lemma implements_raft_query:
  assumes "\<And>d. spec (raft_view d) (fst (f d)) (raft_view (snd (f d)))"
  shows "implements raft_view (raft_query f) spec"
  unfolding implements_def
proof
  fix d
  show "case raft_query f d of (Inr x, d') \<Rightarrow> spec (raft_view d) x (raft_view d') | (Inl e, d') \<Rightarrow> raft_view d' = raft_view d"
  proof (cases "s_fail d")
    case Nil
    then show ?thesis using assms [of d] by (cases "f d") (simp add: raft_query_def)
  next
    case (Cons b bs)
    then show ?thesis using assms [of "d\<lparr>s_fail := bs\<rparr>"]
      by (cases "f (d\<lparr>s_fail := bs\<rparr>)") (simp add: raft_query_def)
  qed
qed

lemma returns_raft_query:
  assumes "\<And>d. s_fail (snd (f d)) = s_fail d"
  shows "returns raft_up (raft_query f)"
  using assms by (auto simp: returns_def raft_query_def raft_up_def map_prod_def split_beta)

lemma map_of_filter_row:
  "map_of (filter (\<lambda>p. fst (fst p) = n \<longrightarrow> \<not> i \<le> snd (fst p)) xs) q =
     (if fst q = n \<and> i \<le> snd q then None else map_of xs q)"
  "map_of (filter (\<lambda>p. fst (fst p) = n \<longrightarrow> \<not> snd (fst p) \<le> i) xs) q =
     (if fst q = n \<and> snd q \<le> i then None else map_of xs q)"
  by (induction xs) auto

lemma indices_after: "set (indices_after n i d) = {j. i < j \<and> map_of (s_log d) (n, j) \<noteq> None}"
  by (force simp: indices_after_def map_of_eq_None_iff image_iff)

lemma implements_if: "implements view q spec \<Longrightarrow> implements view (\<lambda>d. if b then q d else (Inl e, d)) spec"
  by (simp add: implements_def)

interpretation lists: raft_orm_up raft_lists raft_view raft_up raft_packet
proof (unfold_locales, goal_cases)
  case (2 n i)
  have "map_of (map (\<lambda>j. (j, the (map_of (s_log d) (n, j)))) (indices_after n i d)) =
      (\<lambda>j. if i < j then map_of (s_log d) (n, j) else None)" for d
    by (rule ext) (auto simp: map_of_map_keys map_of_map_restrict restrict_map_def comp_def indices_after)
  then show ?case
    by (auto simp: raft_lists_def raft_view_def comp_def indices_after_def intro!: implements_raft_query)
next
  case (3 n cs)
  show ?case
    unfolding raft_lists_def raft_orm.simps raft_upsert_def [abs_def]
    by (rule implements_if, rule implements_raft_query) (auto simp: raft_view_def meta_of_def update_conv' fun_eq_iff)
next
  case (5 n rows)
  have new: "map_of (map (\<lambda>(i, r). ((n, i), r)) rows @ xs) (n', j) = (if n' = n then ((\<lambda>i. map_of xs (n, i)) ++ map_of rows) j else map_of xs (n', j))"
    for xs n' j by (induction rows) (auto simp: map_add_def)
  show ?case
    unfolding implements_def
  proof
    fix d
    show "case q_log_bulk_create raft_lists n rows d of
        (Inr x, d') \<Rightarrow> free_rows (raft_view d) n rows \<and> raft_view d' = with_log (raft_view d) n (rt_log (raft_view d) n ++ map_of rows)
      | (Inl e, d') \<Rightarrow> raft_view d' = raft_view d"
    proof (cases "distinct (map fst rows) \<and> list_all (\<lambda>(i, r). map_of (s_log d) (n, i) = None) rows \<and> rows_fit raft_packet n rows")
      case True
      let ?f = "\<lambda>d. ((), d\<lparr>s_log := map (\<lambda>(i, r). ((n, i), r)) rows @ s_log d\<rparr>)"
      have "free_rows (raft_view d) n rows" using True by (auto simp: free_rows_def raft_view_def list_all_iff)
      moreover have "implements raft_view (raft_query ?f) (\<lambda>T x T'. T' = with_log T n (rt_log T n ++ map_of rows))"
        by (rule implements_raft_query) (auto simp: raft_view_def with_log_def fun_eq_iff new simp del: map_of_append)
      ultimately show ?thesis using True by (auto simp: raft_lists_def raft_create_def implements_def split: prod.splits sum.splits)
    next
      case False
      then show ?thesis by (auto simp: raft_lists_def raft_create_def)
    qed
  qed
next
  case (10 n cs)
  then show ?case
    by (auto simp: raft_lists_def raft_upsert_def returns_def raft_query_def raft_up_def)
next
  case (12 d n rows)
  then have "distinct (map fst rows) \<and> list_all (\<lambda>(i, r). map_of (s_log d) (n, i) = None) rows"
    by (auto simp: free_rows_def raft_view_def list_all_iff)
  then show ?case using 12(1,3) by (auto simp: raft_lists_def raft_create_def raft_query_def raft_up_def)
qed (auto simp: raft_lists_def raft_view_def with_log_def meta_of_def fun_eq_iff map_of_filter_row case_prod_unfold
     intro!: implements_raft_query returns_raft_query)

text \<open>
  A run: two entries are stored, an append that fails at its second query leaves them, a snapshot drops the first. An entry
  whose user name is longer than its column is never stored.
\<close>

definition demo_db :: raft_sql where
  "demo_db = \<lparr>s_meta = [], s_log = [((''b'', 1), \<lparr>w_term = 9, w_command = ''NOOP'', w_username = [], w_request_id = []\<rparr>)], s_fail = []\<rparr>"

definition demo_entry :: "int \<Rightarrow> log_entry" where
  "demo_entry i = \<lparr>e_term = 1, e_index = i, e_command = ''SET k v'', e_username = ''bob'', e_request_id = []\<rparr>"

definition demo_calls :: "storage_call list" where
  "demo_calls = [Save_term_and_vote 1 (Some ''a''), Append [demo_entry 1, demo_entry 2], Save_snapshot 1 1 1 (Some [])]"

lemma demo_db_fails:
  "fst (dj_append raft_lists ''a'' [demo_entry 2] (demo_db\<lparr>s_fail := [False, True]\<rparr>)) = Inl DatabaseError"
  by code_simp

lemma long_user_name_raises:
  "fst (dj_append raft_lists ''a'' [(demo_entry 1)\<lparr>e_username := replicate 151 CHR ''u''\<rparr>] demo_db) = Inl DatabaseError"
  by code_simp

lemma django_storage_refines_witness:
  "\<exists>d1 d2. dj_calls raft_lists ''a'' demo_calls demo_db = (Inr (), d1) \<and>
     dj_load raft_lists ''a'' d1 = (Inr \<lparr>p_current_term = 1, p_voted_for = Some ''a'', p_log = [demo_entry 2], p_snapshot_index = 1,
       p_snapshot_term = 1, p_last_applied = 1, p_snapshot_config = Some []\<rparr>, d2)"
proof -
  have "valid_calls demo_calls mem_init" by code_simp
  moreover have "list_all (call_fits raft_packet ''a'') demo_calls" by code_simp
  moreover have "mem_load (fold mem_call demo_calls mem_init) = \<lparr>p_current_term = 1, p_voted_for = Some ''a'', p_log = [demo_entry 2],
      p_snapshot_index = 1, p_snapshot_term = 1, p_last_applied = 1, p_snapshot_config = Some []\<rparr>" by code_simp
  moreover have "rt_meta (raft_view demo_db) ''a'' = None" "rt_log (raft_view demo_db) ''a'' = Map.empty" "raft_up demo_db"
    by (simp_all add: raft_view_def demo_db_def raft_up_def fun_eq_iff)
  ultimately show ?thesis using django_storage_refines [OF lists.raft_orm_up_axioms, of demo_db "''a''" demo_calls] by simp
qed

lemma failed_write_changes_nothing_witness:
  "raft_view (snd (dj_append raft_lists ''a'' [demo_entry 2] (demo_db\<lparr>s_fail := [False, True]\<rparr>))) = raft_view demo_db"
proof -
  have "careful raft_view ''a'' (dj_append raft_lists ''a'' [demo_entry 2])"
    using failed_write_changes_nothing [OF lists.raft_orm_laws_axioms] by blast
  from carefulD [OF this, of "demo_db\<lparr>s_fail := [False, True]\<rparr>"] show ?thesis
    using demo_db_fails by (cases "dj_append raft_lists ''a'' [demo_entry 2] (demo_db\<lparr>s_fail := [False, True]\<rparr>)") auto
qed

end
