(* ===== verification/Cluster_Config.thy ===== *)
theory Cluster_Config
  imports Raft_Rpc Raft_Cluster
begin

section \<open>config/cluster.py: the nodes of cluster.json\<close>

text \<open>
  Reading and checking \<open>cluster.json\<close>, and how \<open>TCPServer.from_cluster_config\<close> sets a node up from it.
  The text of a message is not modelled: each \<open>ValueError\<close> that the code raises itself is a
  constructor of \<open>config_error\<close>; \<open>Raised\<close> is an exception of a library call. The file is an
  argument: its text, or \<open>None\<close> if it does not exist, and its directory, an absolute path.
\<close>

subsection \<open>NodeConfig, TLSConfig, ClusterConfig\<close>

record node_config =
  nc_id :: string
  nc_host :: string
  nc_client_port :: int
  nc_raft_port :: int
  nc_db_name :: json
  nc_join :: bool

definition nc_client_address :: "node_config \<Rightarrow> string" where
  "nc_client_address n = nc_host n @ '':'' @ show_int (nc_client_port n)"

definition nc_raft_address :: "node_config \<Rightarrow> string" where
  "nc_raft_address n = nc_host n @ '':'' @ show_int (nc_raft_port n)"

definition nc_member :: "node_config \<Rightarrow> member" where
  "nc_member n = \<lparr>member_id = nc_id n, raft_address = nc_raft_address n, client_address = nc_client_address n\<rparr>"

record tls_config =
  tls_ca :: string
  tls_cert_dir :: string

text \<open>\<open>os.path.join\<close> of two parts.\<close>

definition join_path :: "string \<Rightarrow> string \<Rightarrow> string" where
  "join_path a b =
     (if str_startswith b ''/'' then b
      else if a = [] \<or> last a = CHR ''/'' then a @ b
      else a @ ''/'' @ b)"

definition tls_cert :: "tls_config \<Rightarrow> string \<Rightarrow> string" where
  "tls_cert t nid = join_path (tls_cert_dir t) (nid @ ''.pem'')"

definition tls_key :: "tls_config \<Rightarrow> string \<Rightarrow> string" where
  "tls_key t nid = join_path (tls_cert_dir t) (nid @ ''-key.pem'')"

record cluster_config =
  c_nodes :: "node_config list"
  c_tls :: "tls_config option"
  c_admin_token :: json

datatype config_error =
    File_not_found
  | Missing_field string
  | No_nodes
  | Duplicate_ids "string list"
  | Same_address
  | All_join
  | Unknown_node string "string list"
  | Raised py_exn
  | Attribute_error

fun find_node :: "string \<Rightarrow> node_config list \<Rightarrow> node_config option" where
  "find_node nid [] = None"
| "find_node nid (n # ns) = (if nc_id n = nid then Some n else find_node nid ns)"

definition config_get :: "cluster_config \<Rightarrow> string \<Rightarrow> config_error + node_config" where
  "config_get c nid =
     (case find_node nid (c_nodes c) of
        Some n \<Rightarrow> Inr n
      | None \<Rightarrow> Inl (Unknown_node nid (map nc_id (c_nodes c))))"

definition config_peers_of :: "cluster_config \<Rightarrow> string \<Rightarrow> string list" where
  "config_peers_of c nid = map nc_raft_address (filter (\<lambda>n. nc_id n \<noteq> nid) (c_nodes c))"

definition config_members :: "cluster_config \<Rightarrow> member list" where
  "config_members c = map nc_member (filter (\<lambda>n. \<not> nc_join n) (c_nodes c))"

definition client_addresses :: "cluster_config \<Rightarrow> (string, string) dict" where
  "client_addresses c = dict_merge [] (map (\<lambda>n. (nc_id n, nc_client_address n)) (c_nodes c))"

text \<open>\<open>admin_token\<close>; \<open>env\<close> is the environment variable.\<close>

definition config_admin_token :: "string option \<Rightarrow> cluster_config \<Rightarrow> json" where
  "config_admin_token env c = (case env of Some (x # xs) \<Rightarrow> JStr (x # xs) | _ \<Rightarrow> c_admin_token c)"

subsection \<open>Values of a JSON text\<close>

text \<open>\<open>bool(v)\<close>, \<open>int(v)\<close>, \<open>str(v)\<close> (the last not for arrays and objects) and \<open>for x in v\<close>.\<close>

fun json_true :: "json \<Rightarrow> bool" where
  "json_true JNull = False"
| "json_true (JBool b) = b"
| "json_true (JInt i) = (i \<noteq> 0)"
| "json_true (JStr s) = (s \<noteq> [])"
| "json_true (JArr xs) = (xs \<noteq> [])"
| "json_true (JObj kvs) = (kvs \<noteq> [])"

fun int_of_json :: "json \<Rightarrow> py_exn + int" where
  "int_of_json (JInt i) = Inr i"
| "int_of_json (JBool b) = Inr (if b then 1 else 0)"
| "int_of_json (JStr s) = py_int s"
| "int_of_json _ = Inl TypeError"

fun text_of_json :: "json \<Rightarrow> py_exn + string" where
  "text_of_json JNull = Inr ''None''"
| "text_of_json (JBool b) = Inr (if b then ''True'' else ''False'')"
| "text_of_json (JInt i) = Inr (show_int i)"
| "text_of_json (JStr s) = Inr s"
| "text_of_json _ = Inl TypeError"

fun iter_json :: "json \<Rightarrow> py_exn + json list" where
  "iter_json (JArr xs) = Inr xs"
| "iter_json (JStr s) = Inr (map (\<lambda>c. JStr [c]) s)"
| "iter_json (JObj kvs) = Inr (map (\<lambda>(k, v). JStr k) kvs)"
| "iter_json _ = Inl TypeError"

definition raised :: "py_exn + 'a \<Rightarrow> config_error + 'a" where
  "raised r = (case r of Inl e \<Rightarrow> Inl (Raised e) | Inr x \<Rightarrow> Inr x)"

subsection \<open>load_cluster_config\<close>

definition need :: "(string, json) dict \<Rightarrow> string \<Rightarrow> config_error + json" where
  "need kvs f = (case map_of kvs f of None \<Rightarrow> Inl (Missing_field f) | Some v \<Rightarrow> Inr v)"

definition parse_node :: "json \<Rightarrow> config_error + node_config" where
  "parse_node raw =
     (case raw of
        JObj kvs \<Rightarrow>
          sbind (need kvs ''id'') (\<lambda>i.
          sbind (raised (text_of_json i)) (\<lambda>nid.
          sbind (raised (text_of_json (dict_get kvs ''host'' (JStr ''127.0.0.1'')))) (\<lambda>host.
          sbind (need kvs ''client_port'') (\<lambda>cp.
          sbind (raised (int_of_json cp)) (\<lambda>cport.
          sbind (need kvs ''raft_port'') (\<lambda>rp.
          sbind (raised (int_of_json rp)) (\<lambda>rport.
            Inr \<lparr>nc_id = nid, nc_host = host, nc_client_port = cport, nc_raft_port = rport,
                 nc_db_name = dict_get kvs ''db_name'' JNull, nc_join = json_true (dict_get kvs ''join'' (JBool False))\<rparr>)))))))
      | _ \<Rightarrow> Inl (Raised TypeError))"

fun parse_nodes :: "json list \<Rightarrow> config_error + node_config list" where
  "parse_nodes [] = Inr []"
| "parse_nodes (raw # raws) = sbind (parse_node raw) (\<lambda>n. sbind (parse_nodes raws) (\<lambda>ns. Inr (n # ns)))"

definition all_addresses :: "node_config list \<Rightarrow> string list" where
  "all_addresses ns = concat (map (\<lambda>n. [nc_client_address n, nc_raft_address n]) ns)"

definition check_nodes :: "node_config list \<Rightarrow> config_error option" where
  "check_nodes ns =
     (if ns = [] then Some No_nodes
      else if length (remdups (map nc_id ns)) \<noteq> length (map nc_id ns) then Some (Duplicate_ids (map nc_id ns))
      else if length (remdups (all_addresses ns)) \<noteq> length (all_addresses ns) then Some Same_address
      else if list_all nc_join ns then Some All_join
      else None)"

text \<open>
  \<open>base / x\<close> of \<open>pathlib\<close>, as text, for an absolute \<open>base\<close>: empty parts and single dots vanish.
\<close>

definition path_parts :: "string \<Rightarrow> string list" where
  "path_parts p = filter (\<lambda>x. x \<noteq> [] \<and> x \<noteq> ''.'') (str_split (CHR ''/'') p)"

definition path_div :: "string \<Rightarrow> string \<Rightarrow> string" where
  "path_div base x =
     ''/'' @ str_join ''/'' ((if str_startswith x ''/'' then [] else path_parts base) @ path_parts x)"

fun text_only :: "json \<Rightarrow> config_error + string" where
  "text_only (JStr s) = Inr s"
| "text_only _ = Inl (Raised TypeError)"

definition parse_tls :: "string \<Rightarrow> json \<Rightarrow> config_error + tls_config option" where
  "parse_tls base tls =
     (if \<not> json_true tls then Inr None
      else case tls of
             JObj kvs \<Rightarrow>
               (case map_of kvs ''ca'' of
                  None \<Rightarrow> Inl (Raised KeyError)
                | Some ca \<Rightarrow>
                    sbind (text_only ca) (\<lambda>ca_path.
                    sbind (text_only (dict_get kvs ''cert_dir'' (JStr ''certs''))) (\<lambda>dir_path.
                      Inr (Some \<lparr>tls_ca = path_div base ca_path, tls_cert_dir = path_div base dir_path\<rparr>))))
           | _ \<Rightarrow> Inl (Raised TypeError))"

definition load_cluster_config :: "string \<Rightarrow> string option \<Rightarrow> config_error + cluster_config" where
  "load_cluster_config base file =
     (case file of
        None \<Rightarrow> Inl File_not_found
      | Some text \<Rightarrow>
          sbind (raised (loads text)) (\<lambda>data.
            case data of
              JObj kvs \<Rightarrow>
                sbind (raised (iter_json (dict_get kvs ''nodes'' (JArr [])))) (\<lambda>raws.
                sbind (parse_nodes raws) (\<lambda>ns.
                  case check_nodes ns of
                    Some e \<Rightarrow> Inl e
                  | None \<Rightarrow>
                      sbind (parse_tls base (dict_get kvs ''tls'' JNull)) (\<lambda>tls.
                        Inr \<lparr>c_nodes = ns, c_tls = tls, c_admin_token = dict_get kvs ''admin_token'' JNull\<rparr>)))
            | _ \<Rightarrow> Inl Attribute_error))"

subsection \<open>A server from the configuration\<close>

text \<open>\<open>_default_raft_storage\<close>: which storage a server gives its engine.\<close>

datatype storage_kind = Database_storage string | Local_storage | Memory_storage

definition default_raft_storage :: "bool \<Rightarrow> string \<Rightarrow> bool \<Rightarrow> storage_kind" where
  "default_raft_storage use_db nid clustered =
     (if use_db \<and> clustered then Database_storage nid else if use_db then Local_storage else Memory_storage)"

text \<open>
  The part of \<open>TCPServer\<close> that its constructor sets from its arguments: \<open>peers\<close> and \<open>members\<close> may be
  missing. \<open>s_boot\<close> is the starting membership that \<open>RaftEngine\<close> makes of them.
\<close>

record server_setup =
  s_host :: string
  s_port :: int
  s_node_id :: string
  s_raft_address :: string
  s_storage :: storage_kind
  s_boot :: "member list"
  s_client_addresses :: "(string, string) dict"
  s_token :: json

definition is_clustered :: "string list \<Rightarrow> member list option \<Rightarrow> bool \<Rightarrow> bool" where
  "is_clustered peers ms join = (peers \<noteq> [] \<or> ms \<noteq> None \<or> join)"

definition bootstrap_members :: "string \<Rightarrow> string \<Rightarrow> string \<Rightarrow> string list \<Rightarrow> member list option \<Rightarrow> bool \<Rightarrow> member list" where
  "bootstrap_members nid raddr caddr peers ms join =
     (if join then []
      else case ms of
             Some l \<Rightarrow> l
           | None \<Rightarrow> \<lparr>member_id = nid, raft_address = raddr, client_address = caddr\<rparr> #
                       map (\<lambda>p. \<lparr>member_id = p, raft_address = p, client_address = ''''\<rparr>) peers)"

definition from_cluster_config :: "string option \<Rightarrow> cluster_config \<Rightarrow> string \<Rightarrow> bool \<Rightarrow> bool \<Rightarrow> config_error + server_setup" where
  "from_cluster_config env c nid use_db join =
     sbind (config_get c nid) (\<lambda>n.
       Inr \<lparr>s_host = nc_host n, s_port = nc_client_port n, s_node_id = nc_id n, s_raft_address = nc_raft_address n,
            s_storage = default_raft_storage use_db (nc_id n) (is_clustered [] (Some (config_members c)) join),
            s_boot = bootstrap_members (nc_id n) (nc_raft_address n) (nc_client_address n) [] (Some (config_members c)) join,
            s_client_addresses = dict_merge [] (client_addresses c), s_token = config_admin_token env c\<rparr>)"

text \<open>The engine of a server.\<close>

definition server_engine ::
  "'s raft_storage \<Rightarrow> time \<Rightarrow> time \<times> time \<Rightarrow> int \<Rightarrow> server_setup \<Rightarrow> 's \<Rightarrow> ('s, 'r) engine" where
  "server_engine R now timeouts threshold s st =
     new_engine R now (s_node_id s) (s_raft_address s) (s_boot s) timeouts threshold st"

subsection \<open>What a loaded configuration guarantees\<close>

lemma remdups_distinct: "length (remdups xs) = length xs \<longleftrightarrow> distinct xs"
  using remdups_id_iff_distinct [of xs] length_remdups_eq [of xs] by simp

lemma check_nodes_None:
  "check_nodes ns = None \<longleftrightarrow> distinct (map nc_id ns) \<and> distinct (all_addresses ns) \<and> (\<exists>n \<in> set ns. \<not> nc_join n)"
  by (auto simp: check_nodes_def remdups_distinct list_all_iff simp del: length_map split: if_splits)

lemma sbind_Inr: "sbind r f = Inr y \<longleftrightarrow> (\<exists>x. r = Inr x \<and> f x = Inr y)"
  by (cases r) auto

lemma load_checked:
  assumes "load_cluster_config base file = Inr c"
  shows "check_nodes (c_nodes c) = None"
proof -
  obtain s data where "file = Some s" "raised (loads s) = Inr data"
    using assms by (auto simp: load_cluster_config_def sbind_Inr split: option.splits)
  then show ?thesis
    using assms by (cases data) (auto simp: load_cluster_config_def sbind_Inr split: option.splits)
qed

lemma find_node_own: "distinct (map nc_id ns) \<Longrightarrow> n \<in> set ns \<Longrightarrow> find_node (nc_id n) ns = Some n"
  by (induction ns) (auto simp: image_iff)

lemma find_node_Some: "find_node nid ns = Some n \<Longrightarrow> n \<in> set ns \<and> nc_id n = nid"
  by (induction ns) (auto split: if_splits)

lemma merge_pairs: "distinct (map fst xs) \<Longrightarrow> dict_merge [] xs = xs"
  using dict_merge_fresh [of "[]" xs] by simp

lemma client_addresses_eq:
  "distinct (map nc_id (c_nodes c)) \<Longrightarrow> client_addresses c = map (\<lambda>n. (nc_id n, nc_client_address n)) (c_nodes c)"
  unfolding client_addresses_def by (rule merge_pairs) (simp add: comp_def)

lemma address_in: "n \<in> set ns \<Longrightarrow> nc_raft_address n \<in> set (all_addresses ns)"
  by (auto simp: all_addresses_def)

lemma raft_addresses_distinct: "distinct (all_addresses ns) \<Longrightarrow> distinct (map nc_raft_address ns)"
  by (induction ns) (auto simp: all_addresses_def)

text \<open>
  C38: a configuration that is accepted is well-formed: node ids and all addresses are distinct; the starting membership
  is not empty, names no node twice and holds exactly the nodes that are not marked to join, each with its own addresses;
  and every node is found by its id, with its client address and the other nodes' Raft addresses as peers.
\<close>

theorem loaded_config_is_valid:
  assumes "load_cluster_config base file = Inr c"
  shows "distinct (map nc_id (c_nodes c)) \<and> distinct (all_addresses (c_nodes c)) \<and>
    config_members c \<noteq> [] \<and> distinct (map member_id (config_members c)) \<and>
    (\<forall>m \<in> set (config_members c). \<exists>n \<in> set (c_nodes c). nc_id n = member_id m \<and>
       nc_raft_address n = raft_address m \<and> nc_client_address n = client_address m) \<and>
    (\<forall>n \<in> set (c_nodes c). config_get c (nc_id n) = Inr n \<and> map_of (client_addresses c) (nc_id n) = Some (nc_client_address n) \<and>
       (nc_id n \<in> member_id ` set (config_members c) \<longleftrightarrow> \<not> nc_join n) \<and>
       set (config_peers_of c (nc_id n)) = nc_raft_address ` (set (c_nodes c) - {n}) \<and> nc_raft_address n \<notin> set (config_peers_of c (nc_id n)))"
proof -
  let ?ns = "c_nodes c"
  have ok: "distinct (map nc_id ?ns)" "distinct (all_addresses ?ns)" "\<exists>n \<in> set ?ns. \<not> nc_join n"
    using load_checked [OF assms] by (simp_all add: check_nodes_None)
  have inj: "inj_on nc_id (set ?ns)" "inj_on nc_raft_address (set ?ns)"
    using ok(1) raft_addresses_distinct [OF ok(2)] by (simp_all add: distinct_map)
  have "config_members c \<noteq> []" using ok(3) by (auto simp: config_members_def filter_empty_conv)
  moreover have "distinct (map member_id (config_members c))"
    using ok(1) by (simp add: config_members_def nc_member_def comp_def distinct_map_filter)
  moreover have "\<exists>n \<in> set ?ns. nc_id n = member_id m \<and> nc_raft_address n = raft_address m \<and> nc_client_address n = client_address m"
    if "m \<in> set (config_members c)" for m
    using that by (auto simp: config_members_def nc_member_def)
  moreover have "nc_id n \<in> member_id ` set (config_members c) \<longleftrightarrow> \<not> nc_join n" if "n \<in> set ?ns" for n
    using that inj(1) by (auto simp: config_members_def nc_member_def image_iff inj_on_def)
  moreover have "config_get c (nc_id n) = Inr n" if "n \<in> set ?ns" for n
    using find_node_own [OF ok(1) that] by (simp add: config_get_def)
  moreover have "map_of (client_addresses c) (nc_id n) = Some (nc_client_address n)" if n: "n \<in> set ?ns" for n
    using n ok(1) unfolding client_addresses_eq [OF ok(1)] by (intro map_of_is_SomeI) (auto simp: comp_def)
  moreover have "set (config_peers_of c (nc_id n)) = nc_raft_address ` (set ?ns - {n})" if "n \<in> set ?ns" for n
    using that inj(1) by (auto simp: config_peers_of_def inj_on_def)
  moreover have "nc_raft_address n \<notin> nc_raft_address ` (set ?ns - {n})" if "n \<in> set ?ns" for n
    using that inj(2) by (auto simp: inj_on_def)
  ultimately show ?thesis using ok(1,2) by simp
qed

lemma fresh_members:
  fixes R :: "'s raft_storage"
  assumes "load_op R st = fresh_pstate"
  shows "members (new_engine R now nid addr boot timeouts threshold st :: ('s, 'r) engine) = members_dict boot"
proof -
  have "latest_config (n\<lparr>log := [], snapshot_index := 0, snapshot_config := Some boot\<rparr>) = (0, Some boot)" for n
    by (simp add: latest_config_def newest_config_plain)
  then show ?thesis
    using assms
    by (cases "members_dict boot") (simp_all add: new_engine_def restore_persistent_state_def Let_def fresh_pstate_def
        refresh_config_def dict_eq_map_of initial_node_def latest_config_def newest_config_plain)
qed

text \<open>The engine of a node set up from the configuration, before it is started.\<close>

definition founders :: "cluster_config \<Rightarrow> string list" where
  "founders c = map nc_id (filter (\<lambda>n. \<not> nc_join n) (c_nodes c))"

lemma config_setup:
  assumes "from_cluster_config env c nid use_db join = Inr s"
  shows "s_node_id s = nid" "s_boot s = (if join then [] else config_members c)"
    "s_storage s = (if use_db then Database_storage nid else Memory_storage)"
proof -
  obtain n where n: "find_node nid (c_nodes c) = Some n"
    and s: "s_node_id s = nc_id n" "s_boot s = (if join then [] else config_members c)"
      "s_storage s = default_raft_storage use_db (nc_id n) True"
    using assms
    by (auto simp: from_cluster_config_def sbind_Inr config_get_def bootstrap_members_def is_clustered_def split: option.splits)
  have "nc_id n = nid" using find_node_Some [OF n] by simp
  then show "s_node_id s = nid" "s_boot s = (if join then [] else config_members c)"
    "s_storage s = (if use_db then Database_storage nid else Memory_storage)"
    using s by (simp_all add: default_raft_storage_def)
qed

lemma members_dict_distinct: "distinct (map member_id ms) \<Longrightarrow> members_dict ms = map (\<lambda>m. (member_id m, m)) ms"
  unfolding members_dict_def by (intro merge_pairs) (simp add: comp_def)

lemma fresh_server:
  fixes R :: "'s raft_storage" and e :: "('s, 'r) engine"
  assumes "load_cluster_config base file = Inr c" and "from_cluster_config env c nid use_db join = Inr s"
    and "load_op R st = fresh_pstate" and "e = server_engine R now timeouts threshold s st"
  shows "node_id e = nid" "members e = (if join then [] else map (\<lambda>m. (member_id m, m)) (config_members c))"
    "role (node e) = FOLLOWER" "current_term (node e) = 0" "effects e = []" "map member_id (config_members c) = founders c"
    "distinct (founders c)"
proof -
  have f: "map member_id (config_members c) = founders c"
    by (simp add: config_members_def founders_def nc_member_def comp_def)
  have d: "distinct (founders c)"
    using load_checked [OF assms(1)] by (auto simp: check_nodes_None founders_def distinct_map_filter)
  have "members e = members_dict (s_boot s)" by (simp add: assms(4) server_engine_def fresh_members [OF assms(3)])
  then show "members e = (if join then [] else map (\<lambda>m. (member_id m, m)) (config_members c))"
    using config_setup(2) [OF assms(2)] d by (simp add: members_dict_distinct f)
  show "node_id e = nid" "role (node e) = FOLLOWER" "current_term (node e) = 0"
    using config_setup(1) [OF assms(2)] assms(3)
    by (simp_all add: assms(4) server_engine_def new_engine_def restore_persistent_state_def Let_def initial_node_def fresh_pstate_def)
  show "effects e = []"
    by (simp add: assms(4) server_engine_def new_engine_def restore_persistent_state_def Let_def initial_node_def
        refresh_config_def split: prod.split)
  show "map member_id (config_members c) = founders c" "distinct (founders c)" by (fact f d)+
qed

text \<open>What \<open>start()\<close> does to a follower: alone in its membership it is elected at once, else it waits.\<close>

lemma start_alone:
  assumes "members e = [(node_id e, m)]" and "member_id m = node_id e" and "role (node e) = FOLLOWER"
  shows "role (node (start_engine R now e)) = LEADER \<and> current_term (node (start_engine R now e)) = current_term (node e) + 1 \<and>
    voted_for (node (start_engine R now e)) = Some (node_id e)"
  using assms by (simp add: start_engine_def Let_def start_election_def dict_has_def peers_of_def
      become_candidate_def majority_def count_votes_def become_leader_def)

lemma start_waits:
  assumes "set (dict_keys (members e)) \<noteq> {node_id e}"
  shows "node (start_engine R now e) = node e \<and> storage (start_engine R now e) = storage e \<and> effects (start_engine R now e) = effects e"
  using assms by (simp add: start_engine_def Let_def reset_election_timer_def)

lemma single_list: "distinct xs \<Longrightarrow> set xs = {x} \<longleftrightarrow> xs = [x]"
  by (cases xs) (auto simp: subset_singleton_iff simp flip: set_empty)


text \<open>A file with two founding nodes and one that joins.\<close>

definition demo_a :: json where
  "demo_a = JObj [(''id'', JStr ''a''), (''client_port'', JInt 1), (''raft_port'', JInt 2), (''db_name'', JStr ''cache_a'')]"

definition demo_b :: json where
  "demo_b = JObj [(''id'', JStr ''b''), (''client_port'', JInt 3), (''raft_port'', JInt 4)]"

definition demo_c :: json where
  "demo_c = JObj [(''id'', JStr ''c''), (''host'', JStr ''h''), (''client_port'', JInt 1), (''raft_port'', JInt 2), (''join'', JBool True)]"

definition demo_json :: json where
  "demo_json = JObj [(''nodes'', JArr [demo_a, demo_b, demo_c]), (''tls'', JObj [(''ca'', JStr ''certs/ca.pem'')])]"

definition demo_config :: cluster_config where
  "demo_config = \<lparr>c_nodes = [
     \<lparr>nc_id = ''a'', nc_host = ''127.0.0.1'', nc_client_port = 1, nc_raft_port = 2, nc_db_name = JStr ''cache_a'', nc_join = False\<rparr>,
     \<lparr>nc_id = ''b'', nc_host = ''127.0.0.1'', nc_client_port = 3, nc_raft_port = 4, nc_db_name = JNull, nc_join = False\<rparr>,
     \<lparr>nc_id = ''c'', nc_host = ''h'', nc_client_port = 1, nc_raft_port = 2, nc_db_name = JNull, nc_join = True\<rparr>],
   c_tls = Some \<lparr>tls_ca = ''/srv/certs/ca.pem'', tls_cert_dir = ''/srv/certs''\<rparr>, c_admin_token = JNull\<rparr>"

lemma demo_nodes:
  "parse_node demo_a = Inr (c_nodes demo_config ! 0)" "parse_node demo_b = Inr (c_nodes demo_config ! 1)"
  "parse_node demo_c = Inr (c_nodes demo_config ! 2)"
  by (simp_all add: demo_config_def demo_a_def demo_b_def demo_c_def parse_node_def need_def dict_get_def raised_def)

lemma demo_wf: "wf_json demo_json"
  by (simp add: demo_json_def demo_a_def demo_b_def demo_c_def)

lemma demo_check: "check_nodes (c_nodes demo_config) = None"
  by code_simp

lemma demo_tls: "parse_tls ''/srv'' (JObj [(''ca'', JStr ''certs/ca.pem'')]) = Inr (c_tls demo_config)"
  by code_simp

lemma demo_loads: "load_cluster_config ''/srv'' (Some (dumps demo_json)) = Inr demo_config"
proof -
  define kvs where "kvs = [(''nodes'', JArr [demo_a, demo_b, demo_c]), (''tls'', JObj [(''ca'', JStr ''certs/ca.pem'')])]"
  have g: "dict_get kvs ''nodes'' (JArr []) = JArr [demo_a, demo_b, demo_c]" "dict_get kvs ''tls'' JNull = JObj [(''ca'', JStr ''certs/ca.pem'')]"
    "dict_get kvs ''admin_token'' JNull = JNull"
    by (simp_all add: kvs_def dict_get_def)
  have l: "loads (dumps demo_json) = Inr (JObj kvs)"
    using loads_dumps [OF demo_wf] by (simp only: demo_json_def kvs_def)
  have p: "parse_nodes [demo_a, demo_b, demo_c] = Inr (c_nodes demo_config)"
    by (simp only: parse_nodes.simps demo_nodes sbind_simps) (simp add: demo_config_def)
  show ?thesis
    unfolding load_cluster_config_def option.case l raised_def sum.case sbind_simps json.case g iter_json.simps p demo_check demo_tls
    by (simp add: demo_config_def)
qed

lemma loaded_config_is_valid_witness:
  "map member_id (config_members demo_config) = [''a'', ''b''] \<and> distinct (all_addresses (c_nodes demo_config)) \<and>
   config_peers_of demo_config ''a'' = [''127.0.0.1:4'', ''h:2'']"
proof -
  have "distinct (all_addresses (c_nodes demo_config))" using loaded_config_is_valid [OF demo_loads] by blast
  moreover have "map member_id (config_members demo_config) = [''a'', ''b'']" "config_peers_of demo_config ''a'' = [''127.0.0.1:4'', ''h:2'']"
    by code_simp+
  ultimately show ?thesis by blast
qed


end
