(* ===== verification/Client.thy ===== *)
theory Client
  imports Py_String
begin

section \<open>client/cli.py: the client, its retries and its failover\<close>

text \<open>
  \<open>CacheClient\<close>. The sockets and the clock are a parameter, the record \<open>network\<close> over the world \<open>'w\<close>;
  \<open>recv_op\<close> is \<open>readline\<close>: a line with its line end, decoded, or the empty string at the end of the
  connection. It may never return, since the timeout of a socket starts anew with every byte that comes: this is
  \<open>None\<close>. \<open>OSError\<close> and its subclasses are \<open>os_error\<close>: a timeout of a socket, or another one, with
  its text. Time is in microseconds. The loop of \<open>_with_retries\<close> has no bound of its own, so it is a
  partial function: \<open>None\<close>, as the result of a function of the client, means that it never returns.
\<close>

subsection \<open>The world of a client\<close>

datatype os_error = TimedOut string | Failed string

fun os_text :: "os_error \<Rightarrow> string" where
  "os_text (TimedOut s) = s"
| "os_text (Failed s) = s"

text \<open>
  \<open>Unending\<close> is no exception of the program: a read that never returns gives it, no handler catches it, and
  \<open>with_retries\<close> makes it \<open>None\<close>.
\<close>

datatype client_exn =
    OSErr os_error
  | ClientError string
  | AuthError string
  | ProtocolMismatch string
  | NotReplicatedYet string
  | PyError py_exn
  | Unending

record 'w network =
  clock_op :: "'w \<Rightarrow> int \<times> 'w"
  sleep_op :: "int \<Rightarrow> 'w \<Rightarrow> 'w"
  open_op :: "string \<Rightarrow> int \<Rightarrow> 'w \<Rightarrow> os_error option \<times> 'w"
  send_op :: "string \<Rightarrow> 'w \<Rightarrow> os_error option \<times> 'w"
  recv_op :: "'w \<Rightarrow> (os_error + string) option \<times> 'w"
  close_op :: "'w \<Rightarrow> 'w"

text \<open>\<open>k_connected\<close>: there is a socket. \<open>k_retry_text\<close> is \<open>retry_for\<close> in whole seconds, as text.\<close>

record 'w client =
  k_nodes :: "string list"
  k_retry_for :: int
  k_retry_text :: string
  k_address :: "string option"
  k_username :: string
  k_mode :: "string option"
  k_secret :: string
  k_connected :: bool
  k_preferred :: "string option"
  k_failed_at :: "(string, int) dict"
  k_client_id :: string
  k_seq :: int
  k_world :: 'w

definition new_client :: "string list \<Rightarrow> int \<Rightarrow> string \<Rightarrow> string \<Rightarrow> 'w \<Rightarrow> 'w client" where
  "new_client ns retry text cid w =
     \<lparr>k_nodes = ns, k_retry_for = retry, k_retry_text = text, k_address = None, k_username = [], k_mode = None,
      k_secret = [], k_connected = False, k_preferred = None, k_failed_at = [], k_client_id = cid, k_seq = 0,
      k_world = w\<rparr>"

text \<open>An action of the client.\<close>

type_synonym ('w, 'a) cl = "'w client \<Rightarrow> (client_exn + 'a) \<times> 'w client"

definition cret :: "'a \<Rightarrow> ('w, 'a) cl" where
  "cret x k = (Inr x, k)"

definition craise :: "client_exn \<Rightarrow> ('w, 'a) cl" where
  "craise e k = (Inl e, k)"

definition cbind :: "('w, 'a) cl \<Rightarrow> ('a \<Rightarrow> ('w, 'b) cl) \<Rightarrow> ('w, 'b) cl" where
  "cbind m f k = (case m k of (Inl e, k1) \<Rightarrow> (Inl e, k1) | (Inr x, k1) \<Rightarrow> f x k1)"

subsection \<open>Constants and strings\<close>

definition redirect_prefix :: string where
  "redirect_prefix = ''ERROR: NOT_LEADER ''"

definition retryable_prefixes :: "string list" where
  "retryable_prefixes = [''ERROR: NO_LEADER'', ''ERROR: timed out'', ''ERROR: write was replaced'']"

definition failed_node_cooldown :: int where
  "failed_node_cooldown = 5000000"

definition retryable :: "string \<Rightarrow> bool" where
  "retryable reply = list_ex (str_startswith reply) retryable_prefixes"

definition remove_prefix :: "string \<Rightarrow> string \<Rightarrow> string" where
  "remove_prefix s p = (if str_startswith s p then drop (length p) s else s)"

text \<open>\<open>rstrip("\r\n")\<close> and the test \<open>p in s\<close>.\<close>

definition strip_eol :: "string \<Rightarrow> string" where
  "strip_eol s = rev (dropWhile (\<lambda>c. c \<in> set [char_of (10 :: nat), char_of (13 :: nat)]) (rev s))"

fun occurs_in :: "string \<Rightarrow> string \<Rightarrow> bool" where
  "occurs_in p [] = (p = [])"
| "occurs_in p (c # cs) = (str_startswith (c # cs) p \<or> occurs_in p cs)"

subsection \<open>One connection\<close>

definition k_clock :: "'w network \<Rightarrow> 'w client \<Rightarrow> int \<times> 'w client" where
  "k_clock N k = (case clock_op N (k_world k) of (t, w) \<Rightarrow> (t, k\<lparr>k_world := w\<rparr>))"

definition next_tag :: "'w client \<Rightarrow> string \<times> 'w client" where
  "next_tag k = (k_client_id k @ '':'' @ show_int (k_seq k + 1), k\<lparr>k_seq := k_seq k + 1\<rparr>)"

definition disconnect :: "'w network \<Rightarrow> 'w client \<Rightarrow> 'w client" where
  "disconnect N k =
     (if k_connected k then k\<lparr>k_world := close_op N (k_world k), k_connected := False, k_address := None\<rparr>
      else k\<lparr>k_address := None\<rparr>)"

definition mark_failed :: "'w network \<Rightarrow> string option \<Rightarrow> 'w client \<Rightarrow> 'w client" where
  "mark_failed N addr k =
     (case addr of
        Some (x # xs) \<Rightarrow>
          (let (t, k1) = k_clock N k; k2 = k1\<lparr>k_failed_at := dict_set (k_failed_at k1) (x # xs) t\<rparr>
           in if k_preferred k2 = Some (x # xs) then k2\<lparr>k_preferred := None\<rparr> else k2)
      | _ \<Rightarrow> k)"

definition recv_line :: "'w network \<Rightarrow> ('w, string) cl" where
  "recv_line N k =
     (case recv_op N (k_world k) of
        (None, w) \<Rightarrow> (Inl Unending, k\<lparr>k_world := w\<rparr>)
      | (Some (Inl e), w) \<Rightarrow> (Inl (OSErr e), k\<lparr>k_world := w\<rparr>)
      | (Some (Inr l), w) \<Rightarrow>
          (if l = [] then Inl (OSErr (Failed ''server closed the connection'')) else Inr (strip_eol l), k\<lparr>k_world := w\<rparr>))"

definition request :: "'w network \<Rightarrow> string \<Rightarrow> ('w, string) cl" where
  "request N line k =
     (case send_op N (line @ [char_of (10 :: nat)]) (k_world k) of
        (Some e, w) \<Rightarrow> (Inl (OSErr e), k\<lparr>k_world := w\<rparr>)
      | (None, w) \<Rightarrow> recv_line N (k\<lparr>k_world := w\<rparr>))"

text \<open>An address without a colon, or whose port is no number, raises \<open>ValueError\<close>.\<close>

definition connect :: "'w network \<Rightarrow> string \<Rightarrow> ('w, unit) cl" where
  "connect N addr k =
     (let (host, colon, port) = str_rpartition (CHR '':'') addr
      in if colon = [] then (Inl (PyError ValueError), k)
         else case py_int port of
                Inl e \<Rightarrow> (Inl (PyError e), k)
              | Inr p \<Rightarrow>
                  (case open_op N host p (k_world k) of
                     (Some e, w) \<Rightarrow> (Inl (OSErr e), k\<lparr>k_world := w\<rparr>)
                   | (None, w) \<Rightarrow>
                       (case recv_line N (k\<lparr>k_world := w, k_connected := True, k_address := Some addr\<rparr>) of
                          (Inr _, k1) \<Rightarrow> (Inr (), k1)
                        | (Inl (OSErr (TimedOut t)), k1) \<Rightarrow>
                            (Inl (ProtocolMismatch (addr @ '' sent no welcome message - if the cluster uses TLS, pass --ca (or add tls to cluster.json)'')),
                             disconnect N k1)
                        | (Inl (OSErr e), k1) \<Rightarrow> (Inl (OSErr e), disconnect N k1)
                        | (Inl e, k1) \<Rightarrow> (Inl e, k1))))"

fun try_nodes :: "'w network \<Rightarrow> string list \<Rightarrow> string \<Rightarrow> ('w, unit) cl" where
  "try_nodes N [] err k = (Inl (OSErr (Failed (''no node reachable ('' @ err @ '')''))), k)"
| "try_nodes N (a # as) err k =
     (case connect N a k of
        (Inl (OSErr e), k1) \<Rightarrow> try_nodes N as (os_text e) (mark_failed N (Some a) k1)
      | r \<Rightarrow> r)"

definition candidates :: "int \<Rightarrow> 'w client \<Rightarrow> string list" where
  "candidates now k =
     (let others = filter (\<lambda>a. Some a \<noteq> k_preferred k) (k_nodes k);
          healthy = filter (\<lambda>a. now - dict_get (k_failed_at k) a (- 1000000000000000) > failed_node_cooldown) others;
          failing = filter (\<lambda>a. a \<notin> set healthy) others
      in (case k_preferred k of Some (x # xs) \<Rightarrow> [x # xs] | _ \<Rightarrow> []) @ healthy @ failing)"

definition connect_any :: "'w network \<Rightarrow> ('w, unit) cl" where
  "connect_any N k = (let (now, k1) = k_clock N k in try_nodes N (candidates now k1) ''None'' k1)"

definition auth_exchange :: "'w network \<Rightarrow> string \<Rightarrow> string \<Rightarrow> string \<Rightarrow> string option \<Rightarrow> ('w, string) cl" where
  "auth_exchange N mode user secret tag =
     cbind (request N (case tag of Some (t # ts) \<Rightarrow> ''@'' @ (t # ts) @ '' '' @ mode | _ \<Rightarrow> mode)) (\<lambda>reply.
       if str_startswith reply ''ERROR'' then cret reply
       else if mode \<noteq> ''ADMIN''
       then cbind (request N user) (\<lambda>reply2. if str_startswith reply2 ''ERROR'' then cret reply2 else request N secret)
       else request N secret)"

definition the_mode :: "'w client \<Rightarrow> string" where
  "the_mode k = (case k_mode k of None \<Rightarrow> [] | Some m \<Rightarrow> m)"

definition ensure_connected :: "'w network \<Rightarrow> bool \<Rightarrow> ('w, unit) cl" where
  "ensure_connected N logged_in k =
     (if k_connected k then (Inr (), k)
      else cbind (connect_any N) (\<lambda>_.
        if \<not> logged_in then cret ()
        else (\<lambda>k1. cbind (auth_exchange N (the_mode k1) (k_username k1) (k_secret k1) None) (\<lambda>reply k2.
               if str_startswith reply ''READY'' then (Inr (), k2)
               else let k3 = disconnect N k2
                    in if occurs_in ''not found'' (str_lower reply) \<or> retryable reply then (Inl (NotReplicatedYet reply), k3)
                       else (Inl (AuthError (remove_prefix reply ''ERROR: '')), k3)) k1)) k)"

subsection \<open>Retries\<close>

text \<open>
  One round of the loop of \<open>_with_retries\<close>: the result if the loop ends with it, or the problem with
  which it goes on. \<open>after_attempt\<close> has the \<open>except\<close> and \<open>else\<close> branches.
\<close>

definition nap :: "'w network \<Rightarrow> 'w client \<Rightarrow> 'w client" where
  "nap N k = k\<lparr>k_world := sleep_op N 200000 (k_world k)\<rparr>"

definition redirect :: "'w network \<Rightarrow> string \<Rightarrow> 'w client \<Rightarrow> 'w client" where
  "redirect N reply k =
     (let leader = str_strip (drop (length redirect_prefix) reply);
          k1 = (if leader \<in> set (k_nodes k) then k else k\<lparr>k_nodes := k_nodes k @ [leader]\<rparr>)
      in disconnect N (k1\<lparr>k_preferred := Some leader\<rparr>))"

definition after_attempt ::
  "'w network \<Rightarrow> string \<Rightarrow> client_exn + string \<Rightarrow> 'w client \<Rightarrow> (client_exn + string) option \<times> string \<times> 'w client" where
  "after_attempt N problem r k =
     (case r of
        Inl (NotReplicatedYet msg) \<Rightarrow> (None, msg, nap N k)
      | Inl (OSErr e) \<Rightarrow>
          (None, (case k_address k of None \<Rightarrow> ''cluster'' | Some a \<Rightarrow> a) @ '' unreachable ('' @ os_text e @ '')'',
           nap N (disconnect N (mark_failed N (k_address k) k)))
      | Inl e \<Rightarrow> (Some (Inl e), problem, k)
      | Inr reply \<Rightarrow>
          if str_startswith reply redirect_prefix then (None, reply, redirect N reply k)
          else if \<not> retryable reply then (Some (Inr reply), problem, k)
          else (None, reply, nap N k))"

definition retry_round ::
  "'w network \<Rightarrow> ('w, string) cl \<Rightarrow> bool \<Rightarrow> int \<Rightarrow> string \<Rightarrow> bool \<Rightarrow> 'w client \<Rightarrow>
   (client_exn + string) option \<times> string \<times> 'w client" where
  "retry_round N attempt logged_in deadline problem first k =
     (let (now, k0) = (if first then (0, k) else k_clock N k)
      in if \<not> first \<and> deadline \<le> now
         then (Some (Inl (ClientError (''gave up after '' @ k_retry_text k0 @ ''s: '' @ problem))), problem, k0)
         else let (r, k1) = cbind (ensure_connected N logged_in) (\<lambda>_. attempt) k0 in after_attempt N problem r k1)"

partial_function (option) retry_loop ::
  "'w network \<Rightarrow> ('w, string) cl \<Rightarrow> bool \<Rightarrow> int \<Rightarrow> string \<Rightarrow> bool \<Rightarrow> 'w client \<Rightarrow>
   ((client_exn + string) \<times> 'w client) option" where
  "retry_loop N attempt logged_in deadline problem first k =
     (let (result, problem1, k1) = retry_round N attempt logged_in deadline problem first k
      in if result = None then retry_loop N attempt logged_in deadline problem1 False k1 else Some (the result, k1))"

declare retry_loop.simps [code]

definition with_retries :: "'w network \<Rightarrow> ('w, string) cl \<Rightarrow> bool \<Rightarrow> 'w client \<Rightarrow> ((client_exn + string) \<times> 'w client) option" where
  "with_retries N attempt logged_in k =
     (let (now, k1) = k_clock N k
      in case retry_loop N attempt logged_in (now + k_retry_for k) ''no node reachable'' True k1 of
           None \<Rightarrow> None
         | Some (r, k2) \<Rightarrow> if r = Inl Unending then None else Some (r, k2))"

subsection \<open>Authentication and commands\<close>

definition authenticate_as :: "'w network \<Rightarrow> string \<Rightarrow> string \<Rightarrow> string \<Rightarrow> 'w client \<Rightarrow> ((client_exn + unit) \<times> 'w client) option" where
  "authenticate_as N mode user secret k =
     (let k1 = (disconnect N k)\<lparr>k_username := [], k_secret := [], k_mode := None\<rparr>;
          (tag, k2) = (if mode = ''SIGNUP'' then (let (t, k') = next_tag k1 in (Some t, k')) else (None, k1))
      in case with_retries N (auth_exchange N mode user secret tag) False k2 of
           None \<Rightarrow> None
         | Some (Inl e, k3) \<Rightarrow> Some (Inl e, k3)
         | Some (Inr reply, k3) \<Rightarrow>
             Some (if \<not> str_startswith reply ''READY''
                   then (Inl (AuthError (remove_prefix reply ''ERROR: '')), disconnect N k3)
                   else (Inr (), k3\<lparr>k_username := user, k_secret := secret,
                                   k_mode := Some (if mode = ''ADMIN'' then ''ADMIN'' else ''LOGIN'')\<rparr>)))"

definition login :: "'w network \<Rightarrow> string \<Rightarrow> string \<Rightarrow> 'w client \<Rightarrow> ((client_exn + unit) \<times> 'w client) option" where
  "login N user password = authenticate_as N ''LOGIN'' user password"

definition signup :: "'w network \<Rightarrow> string \<Rightarrow> string \<Rightarrow> 'w client \<Rightarrow> ((client_exn + unit) \<times> 'w client) option" where
  "signup N user password = authenticate_as N ''SIGNUP'' user password"

definition admin_login :: "'w network \<Rightarrow> string \<Rightarrow> 'w client \<Rightarrow> ((client_exn + unit) \<times> 'w client) option" where
  "admin_login N token = authenticate_as N ''ADMIN'' ''admin'' token"

definition request_line :: "string \<Rightarrow> string \<Rightarrow> string" where
  "request_line tag command = ''@'' @ tag @ '' '' @ command"

definition has_line_break :: "string \<Rightarrow> bool" where
  "has_line_break s = (char_of (10 :: nat) \<in> set s \<or> char_of (13 :: nat) \<in> set s)"

definition execute :: "'w network \<Rightarrow> string \<Rightarrow> 'w client \<Rightarrow> ((client_exn + string) \<times> 'w client) option" where
  "execute N command k =
     (if k_mode k = None then Some (Inl (ClientError ''log in first (login(), signup() or admin_login())''), k)
      else if has_line_break command then Some (Inl (ClientError ''commands cannot contain line breaks''), k)
      else let (tag, k1) = next_tag k in with_retries N (request N (request_line tag command)) True k1)"

text \<open>\<open>close\<close>: an \<open>OSError\<close> of the farewell is ignored.\<close>

definition close_client :: "'w network \<Rightarrow> 'w client \<Rightarrow> 'w client" where
  "close_client N k =
     (if k_connected k
      then let (r, w) = send_op N (''QUIT'' @ [char_of (10 :: nat)]) (k_world k) in disconnect N (k\<lparr>k_world := w\<rparr>)
      else disconnect N k)"

subsection \<open>The typed commands\<close>

text \<open>What a function makes of the reply; the state is the one \<open>execute\<close> leaves.\<close>

definition with_reply ::
  "(string \<Rightarrow> client_exn + 'a) \<Rightarrow> ((client_exn + string) \<times> 'w client) option \<Rightarrow> ((client_exn + 'a) \<times> 'w client) option" where
  "with_reply f m = map_option (\<lambda>(r, k). (case r of Inl e \<Rightarrow> Inl e | Inr x \<Rightarrow> f x, k)) m"

definition checked :: "'w network \<Rightarrow> string \<Rightarrow> 'w client \<Rightarrow> ((client_exn + string) \<times> 'w client) option" where
  "checked N command k =
     with_reply (\<lambda>r. if str_startswith r ''ERROR'' then Inl (ClientError (remove_prefix r ''ERROR: '')) else Inr r)
       (execute N command k)"

definition expect_ok :: "string \<Rightarrow> client_exn + unit" where
  "expect_ok r = (if r \<noteq> ''OK'' then Inl (ClientError (''unexpected reply: '' @ r)) else Inr ())"

definition client_set :: "'w network \<Rightarrow> string \<Rightarrow> string \<Rightarrow> 'w client \<Rightarrow> ((client_exn + unit) \<times> 'w client) option" where
  "client_set N key v k = with_reply expect_ok (checked N (''SET '' @ key @ '' '' @ v) k)"

definition client_setex :: "'w network \<Rightarrow> string \<Rightarrow> int \<Rightarrow> string \<Rightarrow> 'w client \<Rightarrow> ((client_exn + unit) \<times> 'w client) option" where
  "client_setex N key secs v k = with_reply expect_ok (checked N (''SETEX '' @ key @ '' '' @ show_int secs @ '' '' @ v) k)"

definition client_get :: "'w network \<Rightarrow> string \<Rightarrow> 'w client \<Rightarrow> ((client_exn + string option) \<times> 'w client) option" where
  "client_get N key k = with_reply (\<lambda>r. Inr (if r = ''NULL'' then None else Some r)) (checked N (''GET '' @ key) k)"

definition client_has :: "'w network \<Rightarrow> string \<Rightarrow> 'w client \<Rightarrow> ((client_exn + bool) \<times> 'w client) option" where
  "client_has N key k = with_reply (\<lambda>r. Inr (r = ''1'')) (checked N (''HAS '' @ key) k)"

definition client_delete :: "'w network \<Rightarrow> string \<Rightarrow> 'w client \<Rightarrow> ((client_exn + bool) \<times> 'w client) option" where
  "client_delete N key k = with_reply (\<lambda>r. Inr (r = ''OK'')) (checked N (''DELETE '' @ key) k)"

definition client_expire :: "'w network \<Rightarrow> string \<Rightarrow> int \<Rightarrow> 'w client \<Rightarrow> ((client_exn + bool) \<times> 'w client) option" where
  "client_expire N key secs k = with_reply (\<lambda>r. Inr (r = ''1'')) (checked N (''EXPIRE '' @ key @ '' '' @ show_int secs) k)"

definition client_persist :: "'w network \<Rightarrow> string \<Rightarrow> 'w client \<Rightarrow> ((client_exn + bool) \<times> 'w client) option" where
  "client_persist N key k = with_reply (\<lambda>r. Inr (r = ''1'')) (checked N (''PERSIST '' @ key) k)"

definition client_ttl :: "'w network \<Rightarrow> string \<Rightarrow> 'w client \<Rightarrow> ((client_exn + int) \<times> 'w client) option" where
  "client_ttl N key k =
     with_reply (\<lambda>r. case py_int r of Inl e \<Rightarrow> Inl (PyError e) | Inr i \<Rightarrow> Inr i) (checked N (''TTL '' @ key) k)"

definition client_keys :: "'w network \<Rightarrow> string option \<Rightarrow> 'w client \<Rightarrow> ((client_exn + string list) \<times> 'w client) option" where
  "client_keys N pattern k =
     with_reply (\<lambda>r. Inr (drop 1 (str_words r)))
       (checked N (''KEYS'' @ (case pattern of Some (p # ps) \<Rightarrow> '' '' @ p # ps | _ \<Rightarrow> [])) k)"

text \<open>\<open>dict(part.split("=", 1) ...)\<close>, of the replies to INFO and MEMBERS.\<close>

definition fields_of :: "string \<Rightarrow> (string, string) dict" where
  "fields_of r =
     dict_merge [] (map (\<lambda>part. let (name, _, v) = str_partition (CHR ''='') part in (name, v))
                        (filter (\<lambda>part. CHR ''='' \<in> set part) (str_words r)))"

definition client_info :: "'w network \<Rightarrow> 'w client \<Rightarrow> ((client_exn + (string, string) dict) \<times> 'w client) option" where
  "client_info N k = with_reply (\<lambda>r. Inr (fields_of r)) (checked N ''INFO'' k)"

definition client_members :: "'w network \<Rightarrow> 'w client \<Rightarrow> ((client_exn + (string, string) dict) \<times> 'w client) option" where
  "client_members N k = with_reply (\<lambda>r. Inr (fields_of r)) (checked N ''MEMBERS'' k)"

definition client_add_node :: "'w network \<Rightarrow> string \<Rightarrow> string \<Rightarrow> string \<Rightarrow> 'w client \<Rightarrow> ((client_exn + unit) \<times> 'w client) option" where
  "client_add_node N i caddr raddr k = with_reply expect_ok (checked N (''ADDNODE '' @ i @ '' '' @ caddr @ '' '' @ raddr) k)"

definition client_remove_node :: "'w network \<Rightarrow> string \<Rightarrow> 'w client \<Rightarrow> ((client_exn + unit) \<times> 'w client) option" where
  "client_remove_node N i k = with_reply expect_ok (checked N (''REMOVENODE '' @ i) k)"

definition client_import_user :: "'w network \<Rightarrow> string \<Rightarrow> string \<Rightarrow> 'w client \<Rightarrow> ((client_exn + bool) \<times> 'w client) option" where
  "client_import_user N user h k = with_reply (\<lambda>r. Inr (r = ''OK'')) (checked N (''IMPORTUSER '' @ user @ '' '' @ h) k)"

definition client_import_set ::
  "'w network \<Rightarrow> string \<Rightarrow> string \<Rightarrow> string \<Rightarrow> int \<Rightarrow> 'w client \<Rightarrow> ((client_exn + string) \<times> 'w client) option" where
  "client_import_set N user key v expire_at k =
     checked N (''IMPORTSET '' @ user @ '' '' @ key @ '' '' @ show_int expire_at @ '' '' @ v) k"

end
