(* ===== verification/Client_Theorems.thy ===== *)
theory Client_Theorems
  imports Client Tcp_Server
begin

section \<open>What the client promises\<close>

text \<open>
  \<open>network_frame\<close> is what the client's functions need of a network to keep a relation between worlds:
  it is used once for the passing of time and once for the record of the lines sent.
\<close>

subsection \<open>Relations that the client keeps\<close>

definition nl :: string where
  "nl = [char_of (10 :: nat)]"

text \<open>What a request leaves alone: who the client is.\<close>

definition self :: "'w client \<Rightarrow> string \<times> int \<times> string option \<times> string \<times> string \<times> int" where
  "self k = (k_client_id k, k_seq k, k_mode k, k_username k, k_secret k, k_retry_for k)"

locale network_frame =
  fixes N :: "'w network" and le :: "'w \<Rightarrow> 'w \<Rightarrow> bool" and S :: "string set"
  assumes le_refl: "le w w" and le_trans: "le w1 w2 \<Longrightarrow> le w2 w3 \<Longrightarrow> le w1 w3"
    and clock_le: "le w (snd (clock_op N w))" and sleep_le: "0 \<le> d \<Longrightarrow> le w (sleep_op N d w)"
    and open_le: "le w (snd (open_op N h p w))" and recv_le: "le w (snd (recv_op N w))"
    and close_le: "le w (close_op N w)" and send_le: "line \<in> S \<Longrightarrow> le w (snd (send_op N (line @ nl) w))"
begin

definition stays :: "'w client \<Rightarrow> 'w client \<Rightarrow> bool" where
  "stays k k' = (le (k_world k) (k_world k') \<and> self k' = self k)"

lemma stays_refl [simp]: "stays k k"
  by (simp add: stays_def le_refl)

lemma stays_trans: "stays k1 k2 \<Longrightarrow> stays k2 k3 \<Longrightarrow> stays k1 k3"
  unfolding stays_def using le_trans by metis

lemma stays_world: "le (k_world k) w \<Longrightarrow> stays k (k\<lparr>k_world := w\<rparr>)"
  by (simp add: stays_def self_def)

lemma stays_update:
  "stays k (k'\<lparr>k_connected := x1\<rparr>) = stays k k'" "stays k (k'\<lparr>k_address := x2\<rparr>) = stays k k'"
  "stays k (k'\<lparr>k_preferred := x3\<rparr>) = stays k k'" "stays k (k'\<lparr>k_failed_at := x4\<rparr>) = stays k k'"
  "stays k (k'\<lparr>k_nodes := x5\<rparr>) = stays k k'"
  by (simp_all add: stays_def self_def)

lemma stays_clock: "stays k (snd (k_clock N k))"
  using clock_le [of "k_world k"] by (cases "clock_op N (k_world k)") (simp add: k_clock_def stays_world)

lemma stays_disconnect: "stays k (disconnect N k)"
  using stays_world [OF close_le, of k] by (simp add: disconnect_def stays_update)

lemma stays_mark: "stays k (mark_failed N addr k)"
proof -
  have "stays k (snd (k_clock N k))" by (rule stays_clock)
  then show ?thesis by (auto simp: mark_failed_def Let_def stays_update split: option.split list.split prod.split)
qed

lemma stays_read: "stays k (snd (recv_line N k))"
proof (cases "recv_op N (k_world k)")
  case (Pair r w)
  then have "le (k_world k) w" using recv_le [of "k_world k"] by simp
  then show ?thesis using Pair by (simp add: recv_line_def stays_world split: option.split sum.split)
qed

lemma stays_request: "line \<in> S \<Longrightarrow> stays k (snd (request N line k))"
proof -
  assume "line \<in> S"
  then have s: "stays k (k\<lparr>k_world := snd (send_op N (line @ nl) (k_world k))\<rparr>)" by (rule stays_world [OF send_le])
  then have "stays k (snd (recv_line N (k\<lparr>k_world := snd (send_op N (line @ nl) (k_world k))\<rparr>)))"
    using stays_read stays_trans by blast
  then show ?thesis using s by (auto simp: request_def nl_def split: prod.split option.split)
qed

lemma stays_bind:
  assumes "stays k (snd (m k))" and "\<And>x k1. m k = (Inr x, k1) \<Longrightarrow> stays k1 (snd (f x k1))"
  shows "stays k (snd (cbind m f k))"
proof (cases "m k")
  case (Pair r k1)
  then show ?thesis using assms stays_trans by (cases r) (auto simp: cbind_def)
qed

lemma stays_connect: "stays k (snd (connect N addr k))"
proof -
  have o: "stays k (k\<lparr>k_world := snd (open_op N h p (k_world k)), k_connected := True, k_address := Some addr\<rparr>)" for h p
    using stays_world [OF open_le] by (simp add: stays_update)
  have r: "stays k (snd (recv_line N (k\<lparr>k_world := snd (open_op N h p (k_world k)), k_connected := True, k_address := Some addr\<rparr>)))" for h p
    by (rule stays_trans [OF o stays_read])
  have d: "stays k (disconnect N (snd (recv_line N (k\<lparr>k_world := snd (open_op N h p (k_world k)), k_connected := True, k_address := Some addr\<rparr>))))" for h p
    by (rule stays_trans [OF r stays_disconnect])
  show ?thesis
  proof (cases "str_rpartition (CHR '':'') addr")
    case (fields host colon port)
    show ?thesis
    proof (cases "py_int port")
      case (Inl e)
      then show ?thesis using fields by (simp add: connect_def)
    next
      case (Inr p)
      then show ?thesis using r [of host p] d [of host p] stays_world [OF open_le [of "k_world k" host p]] fields
        by (auto simp: connect_def split: prod.splits option.splits sum.splits client_exn.splits os_error.splits)
    qed
  qed
qed

lemma stays_try: "stays k (snd (try_nodes N as err k))"
proof (induction "as" arbitrary: err k)
  case Nil
  then show ?case by simp
next
  case (Cons a "as")
  show ?case
  proof (cases "connect N a k")
    case (Pair r k1)
    then have c: "stays k k1" using stays_connect [of k a] by simp
    show ?thesis
    proof (cases "\<exists>e. r = Inl (OSErr e)")
      case True
      then show ?thesis using Pair stays_trans [OF c stays_trans [OF stays_mark Cons]] by auto
    next
      case False
      then show ?thesis using Pair c by (auto split: sum.split client_exn.split)
    qed
  qed
qed

lemma stays_connect_any: "stays k (snd (connect_any N k))"
  using stays_trans [OF stays_clock stays_try] by (simp add: connect_any_def Let_def split: prod.split) (metis snd_conv)

lemma stays_auth:
  assumes "case tag of Some (t # ts) \<Rightarrow> ''@'' @ (t # ts) @ '' '' @ mode \<in> S | _ \<Rightarrow> mode \<in> S" and "user \<in> S" and "secret \<in> S"
  shows "stays k (snd (auth_exchange N mode user secret tag k))"
proof -
  have l: "(case tag of Some (t # ts) \<Rightarrow> ''@'' @ (t # ts) @ '' '' @ mode | _ \<Rightarrow> mode) \<in> S"
    using assms(1) by (auto split: option.splits list.splits)
  show ?thesis unfolding auth_exchange_def
    by (intro stays_bind stays_request [OF l])
      (auto simp: cret_def intro!: stays_bind stays_request assms(2,3) split: if_splits)
qed

definition may_log_in :: "'w client \<Rightarrow> bool" where
  "may_log_in k = (the_mode k \<in> S \<and> k_username k \<in> S \<and> k_secret k \<in> S)"

lemma may_log_in_stays: "stays k k' \<Longrightarrow> may_log_in k' = may_log_in k"
  by (auto simp: may_log_in_def the_mode_def stays_def self_def)

lemma stays_ensure:
  assumes "logged_in \<Longrightarrow> may_log_in k"
  shows "stays k (snd (ensure_connected N logged_in k))"
proof -
  have a: "stays k1 (snd (auth_exchange N (the_mode k1) (k_username k1) (k_secret k1) None k1))" if "may_log_in k1" for k1
    using that by (intro stays_auth) (simp_all add: may_log_in_def)
  have f: "stays k1 (snd (if P then (Inr (), k1) else let k3 = disconnect N k1 in if Q then (Inl x, k3) else (Inl y, k3)))"
    for k1 P Q x y using stays_disconnect by (simp add: Let_def)
  show ?thesis
    unfolding ensure_connected_def
  proof (cases "k_connected k")
    case False
    have "stays k1 (snd ((if \<not> logged_in then cret () else (\<lambda>k1. cbind (auth_exchange N (the_mode k1) (k_username k1) (k_secret k1) None) (\<lambda>reply k2.
               if str_startswith reply ''READY'' then (Inr (), k2)
               else let k3 = disconnect N k2
                    in if occurs_in ''not found'' (str_lower reply) \<or> retryable reply then (Inl (NotReplicatedYet reply), k3)
                       else (Inl (AuthError (remove_prefix reply ''ERROR: '')), k3)) k1)) k1))"
      if "connect_any N k = (Inr u, k1)" for u k1
    proof (cases logged_in)
      case True
      have "stays k k1" using stays_connect_any [of k] that by simp
      then have "may_log_in k1" using may_log_in_stays assms True by blast
      then show ?thesis using True by (simp add: stays_bind [OF a f])
    qed (simp add: cret_def)
    then show "stays k (snd (if k_connected k then (Inr (), k) else cbind (connect_any N) (\<lambda>_.
        if \<not> logged_in then cret ()
        else (\<lambda>k1. cbind (auth_exchange N (the_mode k1) (k_username k1) (k_secret k1) None) (\<lambda>reply k2.
               if str_startswith reply ''READY'' then (Inr (), k2)
               else let k3 = disconnect N k2
                    in if occurs_in ''not found'' (str_lower reply) \<or> retryable reply then (Inl (NotReplicatedYet reply), k3)
                       else (Inl (AuthError (remove_prefix reply ''ERROR: '')), k3)) k1)) k))"
      using False stays_connect_any by (simp add: stays_bind)
  qed simp
qed

lemma stays_nap: "stays k (nap N k)"
  by (simp add: nap_def stays_world [OF sleep_le [of 200000, simplified]])

lemma stays_after: "stays k (snd (snd (after_attempt N problem r k)))"
proof -
  have "stays k (redirect N reply k)" for reply
    unfolding redirect_def Let_def by (rule stays_trans [OF _ stays_disconnect]) (simp add: stays_update)
  moreover have "stays k (nap N (disconnect N (mark_failed N a k)))" for a
    by (rule stays_trans [OF stays_trans [OF stays_mark stays_disconnect] stays_nap])
  ultimately show ?thesis
    using stays_nap [of k] unfolding after_attempt_def by (cases r; simp split: client_exn.split)
qed

lemma stays_round:
  assumes "\<And>k1. stays k k1 \<Longrightarrow> stays k1 (snd (attempt k1))" and "logged_in \<Longrightarrow> may_log_in k"
  shows "stays (if first then k else snd (k_clock N k)) (snd (snd (retry_round N attempt logged_in deadline problem first k)))"
proof -
  define k0 where "k0 = (if first then k else snd (k_clock N k))"
  have k0: "stays k k0" using stays_clock by (simp add: k0_def)
  have m: "logged_in \<Longrightarrow> may_log_in k0" using assms(2) may_log_in_stays [OF k0] by blast
  have "stays k2 (snd (attempt k2))" if "ensure_connected N logged_in k0 = (Inr u, k2)" for u k2
  proof -
    have "stays k0 k2" using stays_ensure [of logged_in k0, OF m] that by simp
    then show ?thesis using assms(1) stays_trans [OF k0] by blast
  qed
  then have c: "stays k0 (snd (cbind (ensure_connected N logged_in) (\<lambda>_. attempt) k0))"
    by (intro stays_bind stays_ensure m)
  obtain r k1 where rk: "cbind (ensure_connected N logged_in) (\<lambda>_. attempt) k0 = (r, k1)" by fastforce
  have "stays k0 (snd (snd (after_attempt N problem r k1)))" using stays_trans [OF _ stays_after, of k0 k1] c rk by simp
  moreover obtain now where n: "(if first then (0, k) else k_clock N k) = (now, k0)"
    using k0_def by (cases "k_clock N k") (auto split: if_splits)
  ultimately show ?thesis unfolding k0_def [symmetric] retry_round_def n Let_def prod.case rk by simp
qed

lemma stays_loop:
  assumes r: "retry_loop N attempt logged_in deadline problem first k = Some y"
    and att: "\<And>k1. stays k k1 \<Longrightarrow> stays k1 (snd (attempt k1))" and log: "logged_in \<Longrightarrow> may_log_in k"
  shows "stays k (snd y)"
proof -
  have "N = N \<longrightarrow> (\<forall>k1. stays k k1 \<longrightarrow> stays k1 (snd (attempt k1))) \<longrightarrow> (logged_in \<longrightarrow> may_log_in k) \<longrightarrow> stays k (snd y)"
  proof (rule retry_loop.raw_induct [where P = "\<lambda>M attempt logged_in deadline problem first k y. M = N \<longrightarrow>
      (\<forall>k1. stays k k1 \<longrightarrow> stays k1 (snd (attempt k1))) \<longrightarrow> (logged_in \<longrightarrow> may_log_in k) \<longrightarrow> stays k (snd y)", OF _ r], intro impI)
    fix loop M attempt logged_in deadline problem first k y
    assume IH: "\<And>M attempt logged_in deadline problem first k y. loop M attempt logged_in deadline problem first k = Some y \<Longrightarrow>
        M = N \<longrightarrow> (\<forall>k1. stays k k1 \<longrightarrow> stays k1 (snd (attempt k1))) \<longrightarrow> (logged_in \<longrightarrow> may_log_in k) \<longrightarrow> stays k (snd y)"
      and y: "(let (result, problem1, k1) = retry_round M attempt logged_in deadline problem first k
           in if result = None then loop M attempt logged_in deadline problem1 False k1 else Some (the result, k1)) = Some y"
      and M: "M = N" and att: "\<forall>k1. stays k k1 \<longrightarrow> stays k1 (snd (attempt k1))" and log: "logged_in \<longrightarrow> may_log_in k"
    obtain result problem1 k1 where rd: "retry_round N attempt logged_in deadline problem first k = (result, problem1, k1)"
      by (metis prod_cases3)
    have "stays (if first then k else snd (k_clock N k)) k1"
      using stays_round [of k attempt logged_in first deadline problem] att log rd by simp
    then have s: "stays k k1" using stays_clock stays_trans by (metis (full_types))
    show "stays k (snd y)"
    proof (cases result)
      case None
      then have "loop N attempt logged_in deadline problem1 False k1 = Some y" using y rd M by simp
      moreover have "\<forall>k2. stays k1 k2 \<longrightarrow> stays k2 (snd (attempt k2))" using att stays_trans [OF s] by blast
      moreover have "logged_in \<longrightarrow> may_log_in k1" using log may_log_in_stays [OF s] by blast
      ultimately show ?thesis using IH stays_trans [OF s] by blast
    next
      case (Some x)
      then show ?thesis using y rd M s by auto
    qed
  qed
  then show ?thesis using att log by blast
qed

end

subsection \<open>A network that records the lines sent\<close>

definition traced :: "'w network \<Rightarrow> ('w \<times> string list) network" where
  "traced N =
     \<lparr>clock_op = (\<lambda>(w, tr). case clock_op N w of (t, w1) \<Rightarrow> (t, (w1, tr))),
      sleep_op = (\<lambda>d (w, tr). (sleep_op N d w, tr)),
      open_op = (\<lambda>h p (w, tr). case open_op N h p w of (r, w1) \<Rightarrow> (r, (w1, tr))),
      send_op = (\<lambda>line (w, tr). case send_op N line w of (r, w1) \<Rightarrow> (r, (w1, tr @ [line]))),
      recv_op = (\<lambda>(w, tr). case recv_op N w of (r, w1) \<Rightarrow> (r, (w1, tr))),
      close_op = (\<lambda>(w, tr). (close_op N w, tr))\<rparr>"

definition sends :: "string set \<Rightarrow> 'w \<times> string list \<Rightarrow> 'w \<times> string list \<Rightarrow> bool" where
  "sends S s s' = (\<exists>ls. snd s' = snd s @ ls \<and> set ls \<subseteq> (\<lambda>l. l @ nl) ` S)"

interpretation traced: network_frame "traced N" "sends S" S for N :: "'w network" and S
proof
  show "sends S w w" for w by (simp add: sends_def)
  show "sends S w1 w3" if a: "sends S w1 w2" "sends S w2 w3" for w1 w2 w3
  proof -
    obtain l1 l2 where "snd w2 = snd w1 @ l1" "set l1 \<subseteq> (\<lambda>l. l @ nl) ` S" "snd w3 = snd w2 @ l2" "set l2 \<subseteq> (\<lambda>l. l @ nl) ` S"
      using a unfolding sends_def by blast
    then show ?thesis unfolding sends_def by (intro exI [of _ "l1 @ l2"]) auto
  qed
  show "sends S w (snd (send_op (traced N) (line @ nl) w))" if "line \<in> S" for line w
    using that by (auto simp: sends_def traced_def split: prod.split)
qed (auto simp: sends_def traced_def split: prod.split)

text \<open>
  C33: one request, one id. Whatever happens to the connections, all that \<open>execute\<close> ever sends is the login of the
  user and the one line with the command and a request id that no other call of this client uses.
\<close>

theorem one_request_id:
  assumes "execute (traced N) command k = Some (r, k')" and "k_mode k \<noteq> None" and "\<not> has_line_break command"
  shows "(\<exists>ls. snd (k_world k') = snd (k_world k) @ ls \<and>
      set ls \<subseteq> {the_mode k @ nl, k_username k @ nl, k_secret k @ nl,
        request_line (k_client_id k @ '':'' @ show_int (k_seq k + 1)) command @ nl}) \<and>
    k_seq k' = k_seq k + 1 \<and> k_client_id k' = k_client_id k"
proof -
  let ?tag = "k_client_id k @ '':'' @ show_int (k_seq k + 1)"
  let ?S = "{the_mode k, k_username k, k_secret k, request_line ?tag command}"
  define k1 where "k1 = snd (k_clock (traced N) (k\<lparr>k_seq := k_seq k + 1\<rparr>))"
  obtain now where "k_clock (traced N) (k\<lparr>k_seq := k_seq k + 1\<rparr>) = (now, k1)" by (simp add: k1_def prod_eq_iff)
  then obtain d p where l: "retry_loop (traced N) (request (traced N) (request_line ?tag command)) True d p True k1 = Some (r, k')"
    using assms by (auto simp: execute_def next_tag_def with_retries_def split: option.splits if_splits)
  have s1: "traced.stays ?S (k\<lparr>k_seq := k_seq k + 1\<rparr>) k1" unfolding k1_def by (rule traced.stays_clock)
  have "traced.may_log_in ?S (k\<lparr>k_seq := k_seq k + 1\<rparr>)" by (simp add: traced.may_log_in_def the_mode_def)
  then have "traced.may_log_in ?S k1" using traced.may_log_in_stays [OF s1] by blast
  moreover have "traced.stays ?S k2 (snd (request (traced N) (request_line ?tag command) k2))" for k2
    by (rule traced.stays_request) simp
  ultimately have "traced.stays ?S k1 k'" using traced.stays_loop [OF l] by simp
  then have "traced.stays ?S (k\<lparr>k_seq := k_seq k + 1\<rparr>) k'" by (rule traced.stays_trans [OF s1])
  then show ?thesis
    by (auto simp: traced.stays_def sends_def self_def)
qed

subsection \<open>A request ends\<close>

text \<open>
  What the time \<open>T\<close> of a network does: it never runs backwards, a nap takes at least as long as asked, opening a connection
  takes some time, and the clock the program reads lags at most \<open>g\<close> behind, however coarse its ticks are.
\<close>

definition moves_on :: "('w \<Rightarrow> int) \<Rightarrow> int \<Rightarrow> 'w network \<Rightarrow> bool" where
  "moves_on T g N =
     ((\<forall>w. T w \<le> fst (clock_op N w) + g \<and> T w \<le> T (snd (clock_op N w)) \<and> T w \<le> T (snd (recv_op N w)) \<and> T w \<le> T (close_op N w)) \<and>
      (\<forall>d w. 0 \<le> d \<longrightarrow> T w + d \<le> T (sleep_op N d w)) \<and>
      (\<forall>h p w. T w \<le> T (snd (open_op N h p w)) \<and> (fst (open_op N h p w) = None \<longrightarrow> T w < T (snd (open_op N h p w)))) \<and>
      (\<forall>line w. T w \<le> T (snd (send_op N line w))))"

text \<open>Every read of a line comes to an end: with the line, the end of the connection, a timeout or another error.\<close>

definition reads_return :: "'w network \<Rightarrow> bool" where
  "reads_return N = (\<forall>w. fst (recv_op N w) \<noteq> None)"

text \<open>The exceptions that a caller may see: those of sockets and \<open>_NotReplicatedYet\<close> are not among them.\<close>

fun reported :: "client_exn \<Rightarrow> bool" where
  "reported (OSErr e) = False"
| "reported (NotReplicatedYet s) = False"
| "reported Unending = False"
| "reported e = True"

definition settled :: "client_exn + string \<Rightarrow> bool" where
  "settled r = (case r of Inl e \<Rightarrow> reported e | Inr x \<Rightarrow> \<not> str_startswith x redirect_prefix \<and> \<not> retryable x)"

text \<open>\<open>returning\<close>: no read of the action goes on for ever.\<close>

definition returning :: "('w, 'a) cl \<Rightarrow> bool" where
  "returning m = (\<forall>k. fst (m k) \<noteq> Inl Unending)"

lemma returning_bind: "returning m \<Longrightarrow> (\<And>x. returning (f x)) \<Longrightarrow> returning (cbind m f)"
  unfolding returning_def cbind_def by (auto split: prod.split sum.split) (metis fst_conv)

lemma returning_if: "returning m \<Longrightarrow> returning m' \<Longrightarrow> returning (if b then m else m')"
  by simp

lemma returning_cret: "returning (cret x)"
  by (simp add: returning_def cret_def)

lemma read_returns:
  assumes "reads_return N"
  shows "fst (recv_line N k) \<noteq> Inl Unending"
proof -
  obtain x w where "recv_op N (k_world k) = (Some x, w)" using assms unfolding reads_return_def by (metis not_Some_eq prod.collapse)
  then show ?thesis by (cases x) (simp_all add: recv_line_def)
qed

lemma returning_request: "reads_return N \<Longrightarrow> returning (request N line)"
  unfolding returning_def request_def by (simp add: read_returns split: prod.split option.split)

lemma returning_connect:
  assumes "reads_return N"
  shows "returning (connect N addr)"
  unfolding returning_def
proof
  fix k
  obtain host colon port where a: "str_rpartition (CHR '':'') addr = (host, colon, port)" by (metis prod_cases3)
  have "x \<noteq> Unending" if "recv_line N k' = (Inl x, k1)" for x k' k1
    using read_returns [OF assms, of k'] that by auto
  then show "fst (connect N addr k) \<noteq> Inl Unending"
    unfolding connect_def a Let_def prod.case
    by (auto split: sum.split prod.split option.split client_exn.split os_error.split)
qed

lemma returning_connect_any:
  assumes "reads_return N"
  shows "returning (connect_any N)"
proof -
  have "fst (try_nodes N as err k) \<noteq> Inl Unending" for "as" err k
  proof (induction "as" arbitrary: err k)
    case (Cons a "as")
    obtain r k1 where c: "connect N a k = (r, k1)" by fastforce
    then have "r \<noteq> Inl Unending" using returning_connect [OF assms, of a] by (auto simp: returning_def dest: spec [of _ k])
    then show ?case using Cons c by (cases r) (auto split: client_exn.split)
  qed simp
  then show ?thesis by (simp add: returning_def connect_any_def split: prod.split)
qed

lemma returning_auth: "reads_return N \<Longrightarrow> returning (auth_exchange N mode user secret tag)"
  unfolding auth_exchange_def by (intro returning_bind returning_if returning_request returning_cret)

lemma returning_ensure:
  assumes "reads_return N"
  shows "returning (ensure_connected N logged_in)"
proof -
  have f: "returning (\<lambda>k2. if P then (Inr (), k2) else let k3 = disconnect N k2 in if Q then (Inl (NotReplicatedYet x), k3) else (Inl (AuthError y), k3))"
    for P Q x y by (simp add: returning_def Let_def)
  have l: "returning (\<lambda>k1. cbind (auth_exchange N (the_mode k1) (k_username k1) (k_secret k1) None) f k1)" if "\<And>r. returning (f r)" for f
    using returning_bind [OF returning_auth [OF assms] that] by (simp add: returning_def)
  have c: "returning (cbind (connect_any N) (\<lambda>_. if \<not> logged_in then cret ()
        else (\<lambda>k1. cbind (auth_exchange N (the_mode k1) (k_username k1) (k_secret k1) None) (\<lambda>reply k2.
               if str_startswith reply ''READY'' then (Inr (), k2)
               else let k3 = disconnect N k2
                    in if occurs_in ''not found'' (str_lower reply) \<or> retryable reply then (Inl (NotReplicatedYet reply), k3)
                       else (Inl (AuthError (remove_prefix reply ''ERROR: '')), k3)) k1)))"
    by (intro returning_bind returning_connect_any [OF assms] returning_if returning_cret l f)
  show ?thesis
    unfolding returning_def
  proof
    fix k
    show "fst (ensure_connected N logged_in k) \<noteq> Inl Unending"
    proof (cases "k_connected k")
      case False
      show ?thesis
        unfolding ensure_connected_def if_not_P [OF False] by (rule c [unfolded returning_def, rule_format])
    qed (simp add: ensure_connected_def)
  qed
qed

lemma moves_frame: "moves_on T g N \<Longrightarrow> network_frame N (\<lambda>w w'. T w \<le> T w') UNIV"
  unfolding moves_on_def by (unfold_locales) (auto, smt (verit))

subsection \<open>Every round of the loop makes progress\<close>

text \<open>A round that goes on has slept, or it has opened a connection, or it has given up the one that it had.\<close>

lemma keeps_time:
  assumes "moves_on T g N" and "network_frame.stays (\<lambda>w w'. T w \<le> T w') k k'"
  shows "T (k_world k) \<le> T (k_world k')"
  using assms(2) by (simp add: network_frame.stays_def [OF moves_frame [OF assms(1)]])

lemma not_connected [simp]: "\<not> k_connected (disconnect N k)"
  by (simp add: disconnect_def)

lemma clock_connected: "k_clock N k = (now, k1) \<Longrightarrow> k_connected k1 = k_connected k"
  by (auto simp: k_clock_def split: prod.splits)

lemma connect_takes_time:
  assumes T: "moves_on T g N" and c: "connect N a k = (Inr (), k1)"
  shows "T (k_world k) < T (k_world k1)"
proof -
  obtain host colon port where a: "str_rpartition (CHR '':'') a = (host, colon, port)" by (metis prod_cases3)
  obtain q where q: "py_int port = Inr q" using c a by (auto simp: connect_def split: if_splits sum.splits)
  obtain e w where o: "open_op N host q (k_world k) = (e, w)" by fastforce
  have e: "e = None" using c a q o by (cases e) (auto simp: connect_def split: if_splits)
  then have w: "T (k_world k) < T w" using T o unfolding moves_on_def by (metis fst_conv snd_conv)
  let ?k = "k\<lparr>k_world := w, k_connected := True, k_address := Some a\<rparr>"
  have "recv_line N ?k = (Inr (SOME x. recv_line N ?k = (Inr x, k1)), k1)"
    using c a q o e by (auto simp: connect_def split: if_splits prod.splits sum.splits client_exn.splits os_error.splits intro: someI)
  then have "network_frame.stays (\<lambda>w w'. T w \<le> T w') ?k k1"
    using network_frame.stays_read [OF moves_frame [OF T], of ?k] by (metis snd_conv)
  from keeps_time [OF T this] show ?thesis using w by simp
qed

lemma try_takes_time:
  assumes T: "moves_on T g N"
  shows "try_nodes N as err k = (Inr (), k1) \<Longrightarrow> T (k_world k) < T (k_world k1)"
proof (induction "as" arbitrary: err k)
  case (Cons a "as")
  obtain r k2 where c: "connect N a k = (r, k2)" by fastforce
  have k2: "T (k_world k) \<le> T (k_world k2)"
    using keeps_time [OF T network_frame.stays_connect [OF moves_frame [OF T], of k a]] c by simp
  show ?case
  proof (cases "\<exists>e. r = Inl (OSErr e)")
    case True
    then obtain e where "try_nodes N as (os_text e) (mark_failed N (Some a) k2) = (Inr (), k1)" using Cons.prems c by auto
    from Cons.IH [OF this] keeps_time [OF T network_frame.stays_mark [OF moves_frame [OF T], of k2 "Some a"]] k2
    show ?thesis by simp
  next
    case False
    then have "connect N a k = (Inr (), k1)" using Cons.prems c by (cases r) (auto split: client_exn.splits)
    then show ?thesis by (rule connect_takes_time [OF T])
  qed
qed simp

lemma ensure_takes_time:
  assumes T: "moves_on T g N" and e: "ensure_connected N logged_in k = (Inr (), k1)" and n: "\<not> k_connected k"
  shows "T (k_world k) < T (k_world k1)"
proof -
  note fr = moves_frame [OF T]
  obtain now k2 where k2: "k_clock N k = (now, k2)" by fastforce
  have c: "T (k_world k) \<le> T (k_world k2)" using keeps_time [OF T network_frame.stays_clock [OF fr, of k]] k2 by simp
  obtain k3 where k3: "try_nodes N (candidates now k2) ''None'' k2 = (Inr (), k3)"
    using e n k2 by (auto simp: ensure_connected_def connect_any_def cbind_def split: prod.splits sum.splits)
  have t: "T (k_world k2) < T (k_world k3)" by (rule try_takes_time [OF T k3])
  have "T (k_world k3) \<le> T (k_world k1)"
  proof (cases logged_in)
    case False
    then show ?thesis using e n k2 k3 by (simp add: ensure_connected_def connect_any_def cbind_def cret_def)
  next
    case True
    obtain r k4 where k4: "auth_exchange N (the_mode k3) (k_username k3) (k_secret k3) None k3 = (r, k4)" by fastforce
    have "k4 = k1"
      using e n k2 k3 k4 True
      by (auto simp: ensure_connected_def connect_any_def cbind_def Let_def split: sum.splits if_splits)
    moreover have "network_frame.stays (\<lambda>w w'. T w \<le> T w') k3
        (snd (auth_exchange N (the_mode k3) (k_username k3) (k_secret k3) None k3))"
      by (rule network_frame.stays_auth [OF fr]) simp_all
    ultimately show ?thesis using keeps_time [OF T] k4 by (metis snd_conv)
  qed
  then show ?thesis using c t by simp
qed

lemma nap_takes_time: "moves_on T g N \<Longrightarrow> T (k_world k) < T (k_world (nap N k))"
proof -
  assume "moves_on T g N"
  then have "T (k_world k) + 200000 \<le> T (sleep_op N 200000 (k_world k))" unfolding moves_on_def by simp
  then show ?thesis by (simp add: nap_def)
qed

lemma after_goes_on:
  assumes T: "moves_on T g N" and a: "after_attempt N problem r k = (None, problem1, k1)"
  shows "T (k_world k) < T (k_world k1) \<or> (\<exists>x. r = Inr x) \<and> \<not> k_connected k1 \<and> T (k_world k) \<le> T (k_world k1)"
proof -
  note fr = moves_frame [OF T]
  have k1: "T (k_world k) \<le> T (k_world k1)"
    using keeps_time [OF T network_frame.stays_after [OF fr, of k problem r]] a by simp
  have d: "T (k_world k) \<le> T (k_world (disconnect N (mark_failed N b k)))" for b
    using keeps_time [OF T network_frame.stays_mark [OF fr, of k b]]
      keeps_time [OF T network_frame.stays_disconnect [OF fr, of "mark_failed N b k"]] by simp
  show ?thesis
  proof (cases r)
    case (Inl e)
    have "k1 = nap N k \<or> (\<exists>b. k1 = nap N (disconnect N (mark_failed N b k)))"
      using a Inl by (cases e) (auto simp: after_attempt_def)
    then show ?thesis using nap_takes_time [OF T] d order_le_less_trans by blast
  next
    case (Inr x)
    have "k1 = nap N k \<or> k1 = redirect N x k" using a Inr by (auto simp: after_attempt_def split: if_splits)
    then show ?thesis using nap_takes_time [OF T, of k] k1 Inr by (auto simp: redirect_def Let_def)
  qed
qed

lemma round_goes_on:
  assumes T: "moves_on T g N" and att: "\<And>k1. network_frame.stays (\<lambda>w w'. T w \<le> T w') k1 (snd (attempt k1))"
    and r: "retry_round N attempt logged_in deadline problem first k = (None, problem1, k1)"
  shows "T (k_world k) < T (k_world k1) \<or> k_connected k \<and> \<not> k_connected k1 \<and> T (k_world k) \<le> T (k_world k1)"
    and "\<not> first \<Longrightarrow> T (k_world k) < deadline + g"
proof -
  note fr = moves_frame [OF T]
  obtain now k0 where k0: "(if first then (0, k) else k_clock N k) = (now, k0)" by fastforce
  have c: "T (k_world k) \<le> T (k_world k0)" "k_connected k0 = k_connected k"
    using keeps_time [OF T network_frame.stays_clock [OF fr, of k]] k0 clock_connected by (auto split: if_splits)
  have go: "first \<or> now < deadline" using r k0 by (auto simp: retry_round_def not_le split: if_splits)
  show "T (k_world k) < deadline + g" if "\<not> first"
  proof -
    have "now = fst (clock_op N (k_world k))" using k0 that by (auto simp: k_clock_def split: prod.splits)
    moreover have "T (k_world k) \<le> fst (clock_op N (k_world k)) + g" using T unfolding moves_on_def by simp
    ultimately show ?thesis using go that by simp
  qed
  obtain res k2 where k2: "cbind (ensure_connected N logged_in) (\<lambda>_. attempt) k0 = (res, k2)" by fastforce
  have a: "after_attempt N problem res k2 = (None, problem1, k1)" using r k0 k2 go by (auto simp: retry_round_def not_le split: if_splits)
  obtain e k3 where k3: "ensure_connected N logged_in k0 = (e, k3)" by fastforce
  have t3: "T (k_world k0) \<le> T (k_world k3)"
    using keeps_time [OF T network_frame.stays_ensure [OF fr, of logged_in k0]] k3 by (simp add: network_frame.may_log_in_def [OF fr])
  have t2: "T (k_world k3) \<le> T (k_world k2)"
    using k2 k3 keeps_time [OF T att, of k3] by (cases e) (auto simp: cbind_def)
  show "T (k_world k) < T (k_world k1) \<or> k_connected k \<and> \<not> k_connected k1 \<and> T (k_world k) \<le> T (k_world k1)"
  proof (cases "T (k_world k2) < T (k_world k1)")
    case True
    then show ?thesis using c t2 t3 by simp
  next
    case False
    then have x: "\<exists>x. res = Inr x" "\<not> k_connected k1" "T (k_world k2) \<le> T (k_world k1)" using after_goes_on [OF T a] by auto
    then have "e = Inr ()" using k2 k3 by (cases e) (auto simp: cbind_def)
    then show ?thesis using ensure_takes_time [OF T, of logged_in k0 k3] k3 x c t2 t3 by fastforce
  qed
qed

lemma round_settles:
  assumes ret: "reads_return N" and att: "returning attempt"
    and r: "retry_round N attempt logged_in deadline problem first k = (Some x, problem1, k1)"
  shows "settled x"
proof -
  have a: "settled x" if "after_attempt N problem res k2 = (Some x, problem1, k1)" "res \<noteq> Inl Unending" for res k2
  proof (cases res)
    case (Inl e)
    then show ?thesis using that by (cases e) (auto simp: after_attempt_def settled_def)
  next
    case (Inr y)
    then show ?thesis using that by (auto simp: after_attempt_def settled_def split: if_splits)
  qed
  have c: "fst (cbind (ensure_connected N logged_in) (\<lambda>_. attempt) k0) \<noteq> Inl Unending" for k0
    using returning_bind [OF returning_ensure [OF ret] att] by (simp add: returning_def)
  show ?thesis
    using r a c by (auto simp: retry_round_def settled_def split: prod.splits if_splits) (metis fst_conv)+
qed

lemma loop_ends:
  assumes T: "moves_on T g N" and att: "\<And>k1. network_frame.stays (\<lambda>w w'. T w \<le> T w') k1 (snd (attempt k1))"
    and ret: "reads_return N" and fin: "returning attempt"
  shows "\<exists>x k'. retry_loop N attempt logged_in deadline problem first k = Some (x, k') \<and> settled x"
proof -
  note settles = round_settles [OF ret fin]
  have later: "\<exists>x k'. retry_loop N attempt logged_in deadline problem False k = Some (x, k') \<and> settled x" for problem k
  proof (induction "2 * nat (deadline + g - T (k_world k)) + (if k_connected k then 1 else 0)" arbitrary: problem k rule: less_induct)
    case less
    obtain result problem1 k1 where r: "retry_round N attempt logged_in deadline problem False k = (result, problem1, k1)"
      by (metis prod_cases3)
    show ?case
    proof (cases result)
      case None
      note go = round_goes_on [OF T att r [unfolded None]]
      have "2 * nat (deadline + g - T (k_world k1)) + (if k_connected k1 then 1 else 0) <
          2 * nat (deadline + g - T (k_world k)) + (if k_connected k then 1 else 0 :: nat)"
        using go(1) go(2) by (auto split: if_splits)
      from less [OF this] show ?thesis using None r by (subst retry_loop.simps) simp
    next
      case (Some x)
      then show ?thesis using r settles by (subst retry_loop.simps) simp
    qed
  qed
  obtain result problem1 k1 where r: "retry_round N attempt logged_in deadline problem first k = (result, problem1, k1)"
    by (metis prod_cases3)
  then show ?thesis using later [of problem1 k1] settles by (subst retry_loop.simps) (cases result; simp)
qed

lemma retries_end:
  assumes "moves_on T g N" and "reads_return N" and "\<And>k1. network_frame.stays (\<lambda>w w'. T w \<le> T w') k1 (snd (attempt k1))"
    and "returning attempt"
  shows "\<exists>x k'. with_retries N attempt logged_in k = Some (x, k') \<and> settled x"
proof -
  obtain now k1 where "k_clock N k = (now, k1)" by fastforce
  moreover obtain x k' where "retry_loop N attempt logged_in (now + k_retry_for k) ''no node reachable'' True k1 = Some (x, k')" "settled x"
    using loop_ends [OF assms(1,3,2,4)] by blast
  moreover have "x \<noteq> Inl Unending" using \<open>settled x\<close> by (auto simp: settled_def)
  ultimately show ?thesis by (simp add: with_retries_def)
qed

lemma execute_returns:
  assumes "moves_on T g N" and "reads_return N"
  obtains r k' where "execute N command k = Some (r, k')" and "settled r"
proof -
  have a: "\<exists>x k'. with_retries N (request N line) logged_in k = Some (x, k') \<and> settled x" for line logged_in k
    using retries_end [OF assms network_frame.stays_request [OF moves_frame [OF assms(1)]] returning_request [OF assms(2)]] by simp
  have "\<exists>r k'. execute N command k = Some (r, k') \<and> settled r"
    using a by (simp add: execute_def settled_def split: prod.split)
  then show thesis using that by blast
qed

lemma authenticate_returns:
  assumes "moves_on T g N" and "reads_return N"
  obtains r k' where "authenticate_as N mode user secret k = Some (r, k')" and "\<forall>e. r = Inl e \<longrightarrow> reported e"
proof -
  have b: "\<exists>x k'. with_retries N (auth_exchange N mode user secret tag) False k = Some (x, k') \<and> settled x" for tag k
    using retries_end [OF assms network_frame.stays_auth [OF moves_frame [OF assms(1)]] returning_auth [OF assms(2)]]
    by (simp split: option.split list.split)
  let ?k = "(disconnect N k)\<lparr>k_username := [], k_secret := [], k_mode := None\<rparr>"
  obtain tag k2 where t: "(if mode = ''SIGNUP'' then (let (t, k') = next_tag ?k in (Some t, k')) else (None, ?k)) = (tag, k2)"
    by (metis surj_pair)
  obtain r k3 where w: "with_retries N (auth_exchange N mode user secret tag) False k2 = Some (r, k3)" "settled r" using b by metis
  have "\<exists>r k'. authenticate_as N mode user secret k = Some (r, k') \<and> (\<forall>e. r = Inl e \<longrightarrow> reported e)"
    unfolding authenticate_as_def Let_def [of ?k] t using w by (cases r) (simp_all add: Let_def settled_def)
  then show thesis using that by blast
qed

text \<open>
  C35: when time passes on the network and every read of a line returns, at its latest by its timeout, every command and
  every login ends, whatever the nodes answer and however often they redirect or fail: a command with a reply that is no redirect
  and no error worth a retry, or with an exception of the client's own; no exception of a socket gets out.
\<close>

theorem request_ends:
  assumes "moves_on T g N" and "reads_return N"
  shows "(\<exists>r k'. execute N command k = Some (r, k') \<and>
      (case r of Inl e \<Rightarrow> reported e | Inr x \<Rightarrow> \<not> str_startswith x redirect_prefix \<and> \<not> retryable x)) \<and>
    (\<exists>r k'. authenticate_as N mode user secret k = Some (r, k') \<and> (\<forall>e. r = Inl e \<longrightarrow> reported e))"
proof
  show "\<exists>r k'. execute N command k = Some (r, k') \<and>
      (case r of Inl e \<Rightarrow> reported e | Inr x \<Rightarrow> \<not> str_startswith x redirect_prefix \<and> \<not> retryable x)"
    by (rule execute_returns [OF assms]) (auto simp: settled_def)
  show "\<exists>r k'. authenticate_as N mode user secret k = Some (r, k') \<and> (\<forall>e. r = Inl e \<longrightarrow> reported e)"
    by (rule authenticate_returns [OF assms]) blast
qed

subsection \<open>The server reads what the client sends\<close>

lemma dropWhile_all: "\<forall>c \<in> set xs. P c \<Longrightarrow> dropWhile P (xs @ ys) = dropWhile P ys"
  by (induction xs) auto

lemma strip_Nil: "str_strip [] = []"
  by (simp add: str_strip_def)

lemma strip_after:
  assumes "a \<noteq> []" and "\<forall>c \<in> set a. \<not> is_space c"
  obtains b where "str_strip (a @ '' '' @ command) = a @ b" and "b = [] \<and> str_strip command = [] \<or> (\<exists>d. b = CHR '' '' # d \<and> str_strip d = str_strip command)"
proof -
  have sp: "is_space (CHR '' '')" by (simp add: is_space_def)
  have h: "dropWhile is_space (a @ xs) = a @ xs" for xs using assms by (cases a) auto
  let ?r = "dropWhile is_space (rev command)"
  show thesis
  proof (cases "?r = []")
    case True
    then have all: "\<forall>c \<in> set command. is_space c" by (simp add: dropWhile_eq_Nil_conv)
    have "dropWhile is_space (rev (a @ '' '' @ command)) = dropWhile is_space (rev a)"
      using all sp by (simp add: dropWhile_all)
    also have "\<dots> = rev a" using assms by (cases "rev a") auto
    finally have "str_strip (a @ '' '' @ command) = a" unfolding str_strip_def h by simp
    moreover have "dropWhile is_space command = []" using all by (simp add: dropWhile_eq_Nil_conv)
    then have "str_strip command = []" unfolding str_strip_def by (simp only: rev.simps dropWhile.simps)
    ultimately show thesis using that [of "[]"] by simp
  next
    case False
    define d where "d = rev ?r"
    have "dropWhile is_space (rev command @ '' '' @ rev a) = ?r @ '' '' @ rev a"
      using False by (simp add: dropWhile_append) (metis dropWhile_append1 dropWhile_eq_Nil_conv set_rev)
    then have "str_strip (a @ '' '' @ command) = a @ CHR '' '' # d" unfolding str_strip_def h by (simp add: d_def)
    moreover have "str_strip d = str_strip command"
    proof -
      obtain ts where t: "command = d @ ts" "\<forall>c \<in> set ts. is_space c"
        using takeWhile_dropWhile_id [of is_space "rev command"] set_takeWhileD [of _ is_space "rev command"]
        by (metis d_def rev_append rev_rev_ident set_rev)
      have d: "d \<noteq> []" "\<not> is_space (last d)" using False hd_dropWhile [of is_space "rev command"] by (simp_all add: d_def last_rev)
      then have "dropWhile is_space d \<noteq> []" by (metis dropWhile_eq_Nil_conv last_in_set)
      then have "dropWhile is_space command = dropWhile is_space d @ ts" using t(1) by (metis dropWhile_append1 dropWhile_eq_Nil_conv)
      then show ?thesis using t(2) by (simp add: str_strip_def dropWhile_all)
    qed
    ultimately show thesis using that [of "CHR '' '' # d"] by blast
  qed
qed

lemma id_char_plain: "id_char c \<Longrightarrow> \<not> is_space c \<and> c \<noteq> CHR '':'' \<and> c \<noteq> CHR '' ''"
  by (auto simp: id_char_def Let_def is_space_def is_decimal_def)

lemma split_request:
  assumes i: "node_id_match i" and n: "0 \<le> n" "length (show_int n) \<le> 18"
  shows "split_tag (str_strip (request_line (i @ '':'' @ show_int n) command)) = (Tag (i @ '':'' @ show_int n), str_strip command)"
proof -
  let ?tag = "i @ '':'' @ show_int n"
  have dec: "list_all is_decimal (show_int n)" using n(1) show_nat_decimal by (auto simp: show_int_def list_all_iff)
  have ic: "\<forall>c \<in> set i. \<not> is_space c \<and> c \<noteq> CHR '':'' \<and> c \<noteq> CHR '' ''"
    using i id_char_plain by (auto simp: node_id_match_def list_all_iff)
  have sp: "is_space (CHR '' '')" "\<not> is_space (CHR '':'')" "\<not> is_space (CHR ''@'')" by (simp_all add: is_space_def)
  have ns: "\<forall>c \<in> set (''@'' @ ?tag). \<not> is_space c" using ic sp show_int_no_space by auto
  then have nb: "CHR '' '' \<notin> set (''@'' @ ?tag)" using sp(1) by blast
  obtain b where b: "str_strip ((''@'' @ ?tag) @ '' '' @ command) = (''@'' @ ?tag) @ b"
    "b = [] \<and> str_strip command = [] \<or> (\<exists>d. b = CHR '' '' # d \<and> str_strip d = str_strip command)"
    using strip_after [OF _ ns] by blast
  have p: "\<exists>x d. str_partition (CHR '' '') ((''@'' @ ?tag) @ b) = (''@'' @ ?tag, x, d) \<and> str_strip d = str_strip command"
    using b(2) str_partition_found [OF nb] str_partition_absent [OF nb] by (auto simp: strip_Nil)
  then obtain x d where pd: "str_partition (CHR '' '') ((''@'' @ ?tag) @ b) = (''@'' @ ?tag, x, d)" "str_strip d = str_strip command" by blast
  have q: "str_partition (CHR '':'') ?tag = (i, [CHR '':''], show_int n)"
    using str_partition_found [of "CHR '':''" i "show_int n"] ic by auto
  have "str_startswith ((''@'' @ ?tag) @ b) ''@''" by (simp add: str_startswith_def)
  then show ?thesis
    using b(1) pd q i n dec unfolding request_line_def split_tag_def by (simp add: Let_def)
qed

text \<open>
  C34: what the client writes on a connection is what the server reads: the line is framed as one line and split into
  the request id of this call and the command.
\<close>

theorem server_reads_request:
  fixes k :: "'v client"
  assumes "node_id_match (k_client_id k)" and "0 \<le> k_seq k" and "length (show_int (k_seq k + 1)) \<le> 18"
    and "\<not> has_line_break command"
    and "length (request_line (fst (next_tag k)) command) < max_line_bytes"
  shows "\<exists>line. recv (request_line (fst (next_tag k)) command @ nl @ input, c) = (Some line, input, c) \<and>
    split_tag line = (Tag (fst (next_tag k)), str_strip command)"
proof -
  let ?r = "request_line (fst (next_tag k)) command"
  have t: "fst (next_tag k) = k_client_id k @ '':'' @ show_int (k_seq k + 1)" by (simp add: next_tag_def)
  have n10: "newline = char_of (10 :: nat)" by code_simp
  have sp: "is_space newline" by (simp add: is_space_def newline_def)
  have i: "newline \<notin> set (k_client_id k)" "newline \<notin> set (show_int (k_seq k + 1))"
    using assms(1) id_char_plain show_int_no_space sp by (auto simp: node_id_match_def list_all_iff)
  moreover have "newline \<notin> set command" using assms(4) by (simp add: has_line_break_def n10)
  ultimately have nn: "newline \<notin> set ?r" by (auto simp: request_line_def t newline_def)
  have nl: "nl = [newline]" by (simp add: nl_def n10)
  have "takeWhile (\<lambda>c. c \<noteq> newline) (?r @ newline # input) = ?r" using nn by (rule takeWhile_neq_append)
  then have rl: "readline (max_line_bytes + 1) (?r @ nl @ input) = (?r @ [newline], input)"
    using assms(5) by (simp add: readline_def Let_def nl)
  have strip: "str_strip (?r @ [newline]) = str_strip ?r"
  proof -
    have "dropWhile is_space (?r @ xs) = ?r @ xs" for xs by (simp add: request_line_def is_space_def)
    from this [of "[newline]"] this [of "[]"] show ?thesis using sp by (simp add: str_strip_def)
  qed
  have "recv (?r @ nl @ input, c) = (Some (str_strip ?r), input, c)"
    using rl assms(5) strip by (simp add: recv_def Let_def)
  moreover have "split_tag (str_strip ?r) = (Tag (fst (next_tag k)), str_strip command)"
    unfolding t using assms(1-3) by (intro split_request) simp_all
  ultimately show ?thesis by blast
qed

subsection \<open>A run\<close>

text \<open>
  A network that answers from a script: opening a connection takes a millisecond, and a read with nothing left to come times
  out. Its clock ticks every fifteen milliseconds. On the other one a node sends bytes for ever and no line end.
\<close>

definition script_net :: "(int \<times> string list) network" where
  "script_net =
     \<lparr>clock_op = (\<lambda>(t, ls). (t - t mod 15000, (t, ls))), sleep_op = (\<lambda>d (t, ls). (t + d, ls)),
      open_op = (\<lambda>h p (t, ls). (None, (t + 1000, ls))),
      send_op = (\<lambda>line w. (None, w)),
      recv_op = (\<lambda>(t, ls). case ls of [] \<Rightarrow> (Some (Inl (TimedOut ''timed out'')), (t, [])) | l # ls1 \<Rightarrow> (Some (Inr l), (t, ls1))),
      close_op = (\<lambda>w. w)\<rparr>"

lemma script_moves: "moves_on fst 15000 script_net" and script_reads: "reads_return script_net"
  by (auto simp: moves_on_def reads_return_def script_net_def less_imp_le split: list.split)

definition drip_net :: "(int \<times> string list) network" where
  "drip_net = script_net\<lparr>recv_op := (\<lambda>(t, ls). case ls of [] \<Rightarrow> (None, (t, [])) | l # ls1 \<Rightarrow> (Some (Inr l), (t, ls1)))\<rparr>"

definition demo_client :: "'w \<Rightarrow> 'w client" where
  "demo_client w = (new_client [''h:1''] 10000000 ''10'' ''ab12'' w)\<lparr>k_mode := Some ''LOGIN'', k_username := ''bob'', k_secret := ''pass''\<rparr>"

text \<open>The first attempt meets an election; the second one sends the same line.\<close>

definition demo_script :: "string list" where
  "demo_script = map (\<lambda>l. l @ nl) [''Welcome! Type LOGIN or SIGNUP'', ''Username:'', ''Password:'', ''READY: Welcome'',
     ''ERROR: NO_LEADER election in progress, retry shortly'', ''OK'']"

definition demo_result :: "((client_exn + string) \<times> ((int \<times> string list) \<times> string list) client) option" where
  "demo_result = execute (traced script_net) ''SET a b'' (demo_client ((0, demo_script), []))"

lemma demo_runs:
  "map_option fst demo_result = Some (Inr ''OK'')"
  "map_option (\<lambda>(r, k). snd (k_world k)) demo_result =
     Some (map (\<lambda>l. l @ nl) [''LOGIN'', ''bob'', ''pass'', ''@ab12:1 SET a b'', ''@ab12:1 SET a b''])"
  by code_simp+

lemma one_request_id_witness:
  "\<exists>k'. demo_result = Some (Inr ''OK'', k') \<and> k_seq k' = 1 \<and> length (snd (k_world k')) = 5 \<and>
     set (snd (k_world k')) \<subseteq> {''LOGIN'' @ nl, ''bob'' @ nl, ''pass'' @ nl, ''@ab12:1 SET a b'' @ nl}"
proof -
  obtain k' where k: "demo_result = Some (Inr ''OK'', k')" using demo_runs(1) by (cases demo_result) auto
  have tag: "show_int 1 = ''1''" "\<not> has_line_break ''SET a b''" by code_simp+
  have l: "length (snd (k_world k')) = 5" using demo_runs(2) unfolding k by simp
  have "k_mode (demo_client ((0 :: int, demo_script), [] :: string list)) \<noteq> None" by (simp add: demo_client_def)
  from one_request_id [OF k [unfolded demo_result_def] this tag(2)] show ?thesis
    using k l by (auto simp: demo_client_def new_client_def the_mode_def request_line_def tag)
qed

lemma request_ends_witness:
  "(\<exists>r k'. execute script_net ''SET a b'' (demo_client (0, demo_script)) = Some (r, k') \<and>
     (case r of Inl e \<Rightarrow> reported e | Inr x \<Rightarrow> \<not> str_startswith x redirect_prefix \<and> \<not> retryable x)) \<and>
   (\<exists>r k'. authenticate_as script_net ''LOGIN'' ''bob'' ''pass'' (demo_client (0, demo_script)) = Some (r, k') \<and>
     (\<forall>e. r = Inl e \<longrightarrow> reported e))"
  by (rule request_ends [OF script_moves script_reads])

text \<open>A node that sends the start of a reply and then goes on without a line end holds the client for ever.\<close>

lemma dripping_node_holds_client: "execute drip_net ''SET a b'' (demo_client (0, take 4 demo_script)) = None"
  by code_simp

lemma server_reads_request_witness:
  "\<forall>c :: unit conn. \<exists>line. recv (''@ab12:1 SET a b'' @ nl @ ''QUIT'', c) = (Some line, ''QUIT'', c) \<and>
     split_tag line = (Tag ''ab12:1'', ''SET a b'')" (is "\<forall>c. ?P c")
proof
  fix c :: "unit conn"
  let ?k = "demo_client ()"
  have tag: "fst (next_tag ?k) = ''ab12:1''" by code_simp
  have f: "node_id_match (k_client_id ?k)" "0 \<le> k_seq ?k" "length (show_int (k_seq ?k + 1)) \<le> 18" "\<not> has_line_break ''SET a b''"
    by code_simp+
  have l: "length (request_line (fst (next_tag ?k)) ''SET a b'') < max_line_bytes" unfolding tag by (simp add: request_line_def max_line_bytes_def)
  have s: "str_strip ''SET a b'' = ''SET a b''" by code_simp
  from server_reads_request [OF f l, of "''QUIT''" c] show "?P c" unfolding tag s by (simp add: request_line_def)
qed

end
