(* ===== verification/Client_Cli.thy ===== *)
theory Client_Cli
  imports Client_Theorems Cluster_Config
begin

section \<open>client/cli.py: the command line, and scripts/import_data.py\<close>

text \<open>
  The interactive part of the client. What the user types is a list of lines, and a prompt after the
  last one raises \<open>EOFError\<close>; what is printed is a list of lines (the prompts themselves are left
  out). \<open>getpass\<close> reads a line like \<open>input\<close>. \<open>None\<close> as the result of a function that talks to the
  network means, as in \<open>Client\<close>, that it does not return.
\<close>

subsection \<open>Where the nodes are\<close>

text \<open>\<open>data["nodes"]\<close> and the entries of it are objects of the JSON text of cluster.json.\<close>

definition node_address :: "json \<Rightarrow> py_exn + string" where
  "node_address n =
     (case n of
        JObj kvs \<Rightarrow>
          sbind (text_of_json (dict_get kvs ''host'' (JStr ''127.0.0.1''))) (\<lambda>host.
            case map_of kvs ''client_port'' of
              None \<Rightarrow> Inl KeyError
            | Some p \<Rightarrow> sbind (text_of_json p) (\<lambda>port. Inr (host @ '':'' @ port)))
      | _ \<Rightarrow> Inl TypeError)"

fun node_addresses :: "json list \<Rightarrow> py_exn + string list" where
  "node_addresses [] = Inr []"
| "node_addresses (n # ns) = sbind (node_address n) (\<lambda>a. sbind (node_addresses ns) (\<lambda>rest. Inr (a # rest)))"

definition nodes_from_cluster :: "(string, json) dict \<Rightarrow> py_exn + string list" where
  "nodes_from_cluster data =
     (case map_of data ''nodes'' of None \<Rightarrow> Inl KeyError | Some ns \<Rightarrow> sbind (iter_json ns) node_addresses)"

text \<open>An option of the command line counts when it is not empty.\<close>

definition given :: "string option \<Rightarrow> bool" where
  "given a = (case a of Some (x # xs) \<Rightarrow> True | _ \<Rightarrow> False)"

definition split_nodes :: "string \<Rightarrow> string list" where
  "split_nodes s = filter (\<lambda>a. a \<noteq> []) (map str_strip (str_split (CHR '','') s))"

definition resolve_nodes :: "string option \<Rightarrow> bool \<Rightarrow> (string, json) dict option \<Rightarrow> py_exn + string list" where
  "resolve_nodes nodes cluster_option cluster =
     (if given nodes then Inr (split_nodes (the nodes))
      else case cluster of
             Some (kv # kvs) \<Rightarrow>
               sbind (nodes_from_cluster (kv # kvs)) (\<lambda>ns.
                 if cluster_option then Inr ns
                 else Inr (''127.0.0.1:8001'' # filter (\<lambda>a. a \<noteq> ''127.0.0.1:8001'') ns))
           | _ \<Rightarrow> Inr [''127.0.0.1:8001''])"

subsection \<open>Prompts\<close>

text \<open>A prompt gives \<open>None\<close> at the end of the input, and what is left of the input and has been printed.\<close>

type_synonym 'a asked = "'a option \<times> string list \<times> string list"

definition cli_min_username :: nat where
  "cli_min_username = 3"

definition cli_min_password :: nat where
  "cli_min_password = 4"

fun ask_mode :: "string list \<Rightarrow> string list \<Rightarrow> string option asked" where
  "ask_mode [] out = (None, [], out)"
| "ask_mode (l # ls) out =
     (let typed = str_lower (str_strip l); choice = (if typed = [] then ''login'' else typed)
      in if choice = ''l'' \<or> choice = ''login'' then (Some (Some ''login''), ls, out)
         else if choice = ''s'' \<or> choice = ''signup'' then (Some (Some ''signup''), ls, out)
         else if choice = ''q'' \<or> choice = ''quit'' \<or> choice = ''exit'' then (Some None, ls, out)
         else ask_mode ls (out @ [''Please type LOGIN or SIGNUP (or QUIT).'']))"

fun ask_username :: "string \<Rightarrow> string list \<Rightarrow> string list \<Rightarrow> string asked" where
  "ask_username mode [] out = (None, [], out)"
| "ask_username mode (l # ls) out =
     (let username = str_strip l
      in if username = [] then ask_username mode ls (out @ [''Username cannot be empty''])
         else if mode = ''signup'' \<and> length username < cli_min_username
         then ask_username mode ls (out @ [''Username must be at least '' @ show_nat cli_min_username @ '' characters''])
         else if mode = ''signup'' \<and> list_ex is_space username
         then ask_username mode ls (out @ [''Username cannot contain spaces''])
         else (Some username, ls, out))"

fun ask_password :: "string \<Rightarrow> string list \<Rightarrow> string list \<Rightarrow> string asked" where
  "ask_password mode [] out = (None, [], out)"
| "ask_password mode (p # ls) out =
     (if mode = ''login''
      then if str_strip p \<noteq> [] then (Some p, ls, out) else ask_password mode ls (out @ [''Password cannot be empty''])
      else if length (str_strip p) < cli_min_password
      then ask_password mode ls (out @ [''Password must be at least '' @ show_nat cli_min_password @ '' characters''])
      else case ls of
             [] \<Rightarrow> (None, [], out)
           | c # ls1 \<Rightarrow> if c \<noteq> p then ask_password mode ls1 (out @ [''Passwords don't match, try again'']) else (Some p, ls1, out))"

subsection \<open>authenticate\<close>

record cli_args =
  a_user :: "string option"
  a_password :: "string option"
  a_signup :: bool
  a_admin :: bool
  a_admin_token :: "string option"
  a_command :: "string list"

text \<open>\<open>except ClientError\<close> catches the exceptions that have a text here.\<close>

fun client_error_text :: "client_exn \<Rightarrow> string option" where
  "client_error_text (ClientError s) = Some s"
| "client_error_text (AuthError s) = Some s"
| "client_error_text (ProtocolMismatch s) = Some s"
| "client_error_text _ = None"

definition address_text :: "'w client \<Rightarrow> string" where
  "address_text k = (case k_address k of None \<Rightarrow> ''None'' | Some a \<Rightarrow> a)"

type_synonym ('w, 'a) session = "((client_exn + 'a) \<times> string list \<times> string list \<times> 'w client) option"

text \<open>What \<open>except ClientError\<close> makes of an exception: a line is printed and \<open>authenticate\<close> is false.\<close>

definition refused :: "client_exn \<Rightarrow> string list \<Rightarrow> string list \<Rightarrow> 'w client \<Rightarrow> ('w, bool) session" where
  "refused e ins out k =
     (case client_error_text e of
        Some s \<Rightarrow> Some (Inr False, ins, out @ [''Error: '' @ s], k)
      | None \<Rightarrow> Some (Inl e, ins, out, k))"

definition enter :: "'w network \<Rightarrow> string \<Rightarrow> string \<Rightarrow> string \<Rightarrow> 'w client \<Rightarrow> ((client_exn + unit) \<times> 'w client) option" where
  "enter N mode user password k = (if mode = ''signup'' then signup N user password k else login N user password k)"

definition first_given :: "string option list \<Rightarrow> string option" where
  "first_given xs = (case filter given xs of [] \<Rightarrow> None | x # _ \<Rightarrow> x)"

definition admin_session ::
  "'w network \<Rightarrow> string option \<Rightarrow> string list \<Rightarrow> string list \<Rightarrow> 'w client \<Rightarrow> ('w, bool) session" where
  "admin_session N token ins out k =
     (let (typed, rest) = (case token of
                             Some t \<Rightarrow> (Some t, ins)
                           | None \<Rightarrow> (case ins of [] \<Rightarrow> (None, []) | t # ls \<Rightarrow> (Some t, ls)))
      in case typed of
           None \<Rightarrow> Some (Inr False, rest, out @ [[]], k)
         | Some t \<Rightarrow>
             (case admin_login N t k of
                None \<Rightarrow> None
              | Some (Inr _, k1) \<Rightarrow> Some (Inr True, rest, out @ [''Admin session on '' @ address_text k1], k1)
              | Some (Inl e, k1) \<Rightarrow> refused e rest out k1))"

definition with_options :: "'w network \<Rightarrow> string \<Rightarrow> string \<Rightarrow> string \<Rightarrow> string list \<Rightarrow> string list \<Rightarrow> 'w client \<Rightarrow> ('w, bool) session" where
  "with_options N mode user password ins out k =
     (case enter N mode user password k of
        None \<Rightarrow> None
      | Some (Inr _, k1) \<Rightarrow> Some (Inr True, ins, out @ [''Logged in as '' @ user @ '' on '' @ address_text k1], k1)
      | Some (Inl e, k1) \<Rightarrow> refused e ins out k1)"

function auth_loop ::
  "'w network \<Rightarrow> string \<Rightarrow> string option \<Rightarrow> string list \<Rightarrow> string list \<Rightarrow> 'w client \<Rightarrow> ('w, bool) session" where
  "auth_loop N mode user ins out k =
     (case (if given user then (user, ins, out) else ask_username mode ins out) of
        (None, ins1, out1) \<Rightarrow> Some (Inr False, ins1, out1 @ [[]], k)
      | (Some username, ins1, out1) \<Rightarrow>
          (case ask_password mode ins1 out1 of
             (None, ins2, out2) \<Rightarrow> Some (Inr False, ins2, out2 @ [[]], k)
           | (Some password, ins2, out2) \<Rightarrow>
               (case enter N mode username password k of
                  None \<Rightarrow> None
                | Some (Inr _, k1) \<Rightarrow> Some (Inr True, ins2, out2 @ [''Logged in as '' @ username @ '' on '' @ address_text k1], k1)
                | Some (Inl e, k1) \<Rightarrow>
                    (case e of
                       AuthError s \<Rightarrow>
                         if occurs_in ''wrong password'' (str_lower s)
                         then auth_loop N mode (Some username) ins2 (out2 @ [''Error: '' @ s]) k1
                         else (case ask_mode ins2 (out2 @ [''Error: '' @ s] @
                                      (if occurs_in ''not found'' (str_lower s) then [''Tip: choose SIGNUP to create this account.''] else [])) of
                                 (None, ins3, out3) \<Rightarrow> Some (Inr False, ins3, out3 @ [[]], k1)
                               | (Some None, ins3, out3) \<Rightarrow> Some (Inr False, ins3, out3, k1)
                               | (Some (Some m), ins3, out3) \<Rightarrow> auth_loop N m None ins3 out3 k1)
                     | _ \<Rightarrow> refused e ins2 out2 k1))))"
  by pat_completeness auto

lemma ask_mode_shorter: "ask_mode ins out = (r, rest, out') \<Longrightarrow> length rest \<le> length ins"
  by (induction ins out rule: ask_mode.induct) (fastforce simp: Let_def split: if_splits)+

lemma ask_username_shorter: "ask_username mode ins out = (r, rest, out') \<Longrightarrow> length rest \<le> length ins"
  by (induction mode ins out rule: ask_username.induct) (fastforce simp: Let_def split: if_splits)+

lemma ask_password_shorter: "ask_password mode ins out = (Some p, rest, out') \<Longrightarrow> length rest < length ins"
  by (induction mode ins out rule: ask_password.induct) (fastforce split: if_splits list.splits)+

text \<open>Every round of the loop reads at least one line.\<close>

termination auth_loop
proof (relation "measure (\<lambda>(N, mode, user, ins, out, k). length ins)", goal_cases)
  case 1
  then show ?case by simp
qed (auto dest!: ask_mode_shorter [OF sym] ask_username_shorter [OF sym] ask_password_shorter [OF sym] split: if_splits)

definition authenticate ::
  "'w network \<Rightarrow> cli_args \<Rightarrow> string option \<Rightarrow> string option \<Rightarrow> string list \<Rightarrow> 'w client \<Rightarrow> ('w, bool) session" where
  "authenticate N args env cluster_token ins k =
     (if a_admin args then admin_session N (first_given [a_admin_token args, env, cluster_token]) ins [] k
      else if given (a_user args) \<and> given (a_password args)
      then with_options N (if a_signup args then ''signup'' else ''login'') (the (a_user args)) (the (a_password args)) ins [] k
      else case (if a_signup args then (Some (Some ''signup''), ins, []) else ask_mode ins []) of
             (None, ins1, out) \<Rightarrow> Some (Inr False, ins1, out @ [[]], k)
           | (Some None, ins1, out) \<Rightarrow> Some (Inr False, ins1, out, k)
           | (Some (Some mode), ins1, out) \<Rightarrow> auth_loop N mode (a_user args) ins1 out k)"

subsection \<open>The read-eval-print loop and main\<close>

definition cli_help :: "string list" where
  "cli_help =
    [''Commands:'',
     ''  SET <key> <value>          store a value (the value may contain spaces)'',
     ''  SETEX <key> <secs> <value> store a value that expires after <secs>'',
     ''  GET <key>                  read a value (NULL if missing)'',
     ''  HAS <key>                  1 if the key exists, else 0'',
     ''  DELETE <key>               remove a key'',
     ''  EXPIRE <key> <secs>        make an existing key expire'',
     ''  PERSIST <key>              remove a key's expiry'',
     ''  TTL <key>                  seconds left (-1 no expiry, -2 no such key)'',
     ''  KEYS [pattern]             list your keys (glob pattern, e.g. user:*)'',
     ''  INFO                       Raft status of the node you're connected to'',
     ''  MEMBERS                    the cluster's nodes and its leader'',
     ''  HELP                       show this text'',
     ''  EXIT                       quit'']"

definition cli_admin_help :: "string list" where
  "cli_admin_help =
    [''Admin commands:'',
     ''  MEMBERS                                  the cluster's nodes and its leader'',
     ''  ADDNODE <id> <client host:port> <raft host:port>'',
     ''                                           add a node (it must be running)'',
     ''  REMOVENODE <id>                          remove a node from the cluster'',
     ''  IMPORTUSER <username> <password_hash>    (used by scripts/import_data.py)'',
     ''  IMPORTSET <username> <key> <expire_at_ms|0> <value>'',
     ''  INFO                                     Raft status of this node'',
     ''  HELP / EXIT'']"

fun repl_loop :: "'w network \<Rightarrow> bool \<Rightarrow> string list \<Rightarrow> string list \<Rightarrow> 'w client \<Rightarrow> ('w, unit) session" where
  "repl_loop N admin [] out k = Some (Inr (), [], out @ [[]], k)"
| "repl_loop N admin (l # ls) out k =
     (let line = str_strip l; word = str_upper (hd (str_words line))
      in if line = [] then repl_loop N admin ls out k
         else if word = ''EXIT'' \<or> word = ''QUIT'' then Some (Inr (), ls, out, k)
         else if word = ''HELP'' then repl_loop N admin ls (out @ (if admin then cli_admin_help else cli_help)) k
         else case execute N line k of
                None \<Rightarrow> None
              | Some (Inl e, k1) \<Rightarrow>
                  (case client_error_text e of
                     Some s \<Rightarrow> repl_loop N admin ls (out @ [''(error) '' @ s]) k1
                   | None \<Rightarrow> Some (Inl e, ls, out, k1))
              | Some (Inr got, k1) \<Rightarrow>
                  repl_loop N admin ls
                    (out @ (if k_address k1 \<noteq> k_address k then [''(now connected to '' @ address_text k1 @ '')''] else []) @ [got]) k1)"

definition repl :: "'w network \<Rightarrow> bool \<Rightarrow> string list \<Rightarrow> string list \<Rightarrow> 'w client \<Rightarrow> ('w, unit) session" where
  "repl N admin ins out k = repl_loop N admin ins (out @ [''Type HELP for commands, EXIT to quit.'']) k"

text \<open>\<open>main\<close> after the client object is there: the exit code, and the client closed in any case.\<close>

definition one_command :: "'w network \<Rightarrow> string \<Rightarrow> string list \<Rightarrow> string list \<Rightarrow> 'w client \<Rightarrow> ('w, int) session" where
  "one_command N command ins out k =
     (case execute N command k of
        None \<Rightarrow> None
      | Some (Inr got, k1) \<Rightarrow> Some (Inr 0, ins, out @ [got], k1)
      | Some (Inl e, k1) \<Rightarrow>
          (case client_error_text e of
             Some s \<Rightarrow> Some (Inr 1, ins, out @ [''Error: '' @ s], k1)
           | None \<Rightarrow> Some (Inl e, ins, out, k1)))"

definition cli_main ::
  "'w network \<Rightarrow> cli_args \<Rightarrow> string option \<Rightarrow> string option \<Rightarrow> string list \<Rightarrow> 'w client \<Rightarrow> ('w, int) session" where
  "cli_main N args env cluster_token ins k =
     map_option (\<lambda>(r, ins', out, k'). (r, ins', out, close_client N k'))
       (case authenticate N args env cluster_token ins k of
          None \<Rightarrow> None
        | Some (Inl e, ins1, out, k1) \<Rightarrow> Some (Inl e, ins1, out, k1)
        | Some (Inr ok, ins1, out, k1) \<Rightarrow>
            if \<not> ok then Some (Inr 1, ins1, out, k1)
            else if a_command args \<noteq> [] then one_command N (str_join '' '' (a_command args)) ins1 out k1
            else map_option (\<lambda>(r, ins', out', k'). (case r of Inl e \<Rightarrow> Inl e | Inr _ \<Rightarrow> Inr 0, ins', out', k'))
                   (repl N (a_admin args) ins1 out k1))"

subsection \<open>scripts/import_data.py\<close>

record import_stats =
  users_created :: int
  users_existing :: int
  keys_imported :: int
  keys_expired :: int

definition no_stats :: import_stats where
  "no_stats = \<lparr>users_created = 0, users_existing = 0, keys_imported = 0, keys_expired = 0\<rparr>"

text \<open>\<open>_rows\<close>: the rows of a cursor in batches; the loop ends at the first empty batch.\<close>

definition fetch_size :: nat where
  "fetch_size = 1000"

function fetched_rows :: "nat \<Rightarrow> 'a list \<Rightarrow> 'a list" where
  "fetched_rows n cursor =
     (let batch = take n cursor in if batch = [] then [] else batch @ fetched_rows n (drop n cursor))"
  by pat_completeness auto

termination by (relation "measure (\<lambda>(n, cursor). length cursor)") auto

text \<open>A row of \<open>cache_entries\<close>; an old database has no column \<open>expire_at\<close>, and \<open>None or 0\<close> is 0.\<close>

definition entry_row :: "bool \<Rightarrow> string \<times> string \<times> string \<times> int option \<Rightarrow> string \<times> string \<times> string \<times> int" where
  "entry_row has_expiry row =
     (let (username, key, value, e) = row; expire_at = (if has_expiry then e else None)
      in (username, key, value, case expire_at of None \<Rightarrow> 0 | Some t \<Rightarrow> t))"

definition read_entries :: "bool \<Rightarrow> (string \<times> string \<times> string \<times> int option) list \<Rightarrow> (string \<times> string \<times> string \<times> int) list" where
  "read_entries has_expiry rows = map (entry_row has_expiry) (fetched_rows fetch_size rows)"

fun import_users ::
  "'w network \<Rightarrow> (string \<times> string) list \<Rightarrow> import_stats \<Rightarrow> 'w client \<Rightarrow> ((client_exn + import_stats) \<times> 'w client) option" where
  "import_users N [] st k = Some (Inr st, k)"
| "import_users N ((u, h) # us) st k =
     (case client_import_user N u h k of
        None \<Rightarrow> None
      | Some (Inl e, k1) \<Rightarrow> Some (Inl e, k1)
      | Some (Inr created, k1) \<Rightarrow>
          import_users N us
            (if created then st\<lparr>users_created := users_created st + 1\<rparr> else st\<lparr>users_existing := users_existing st + 1\<rparr>) k1)"

fun import_entries ::
  "'w network \<Rightarrow> (string \<times> string \<times> string \<times> int) list \<Rightarrow> import_stats \<Rightarrow> string list \<Rightarrow> 'w client \<Rightarrow>
   ((client_exn + import_stats) \<times> string list \<times> 'w client) option" where
  "import_entries N [] st out k = Some (Inr st, out, k)"
| "import_entries N ((u, key, v, t) # es) st out k =
     (case client_import_set N u key v t k of
        None \<Rightarrow> None
      | Some (Inl e, k1) \<Rightarrow> Some (Inl e, out, k1)
      | Some (Inr got, k1) \<Rightarrow>
          if got = ''EXPIRED'' then import_entries N es (st\<lparr>keys_expired := keys_expired st + 1\<rparr>) out k1
          else
            (let n = keys_imported st + 1
             in import_entries N es (st\<lparr>keys_imported := n\<rparr>)
                  (if n mod 1000 = 0 then out @ [''  ...'' @ show_int n @ '' keys''] else out) k1))"

definition import_into ::
  "'w network \<Rightarrow> (string \<times> string) list \<Rightarrow> (string \<times> string \<times> string \<times> int) list \<Rightarrow> string list \<Rightarrow> 'w client \<Rightarrow>
   ((client_exn + import_stats) \<times> string list \<times> 'w client) option" where
  "import_into N users es out k =
     (case import_users N users no_stats k of
        None \<Rightarrow> None
      | Some (Inl e, k1) \<Rightarrow> Some (Inl e, out, k1)
      | Some (Inr st, k1) \<Rightarrow> import_entries N es st out k1)"

text \<open>\<open>main\<close> once the source is open and the client is made: the exit code.\<close>

definition import_main ::
  "'w network \<Rightarrow> string option \<Rightarrow> (string \<times> string) list \<Rightarrow> bool \<Rightarrow> (string \<times> string \<times> string \<times> int option) list \<Rightarrow> 'w client \<Rightarrow>
   ((client_exn + int) \<times> string list \<times> 'w client) option" where
  "import_main N token users has_expiry rows k =
     (let failed = (\<lambda>e out k1. case client_error_text e of
                       Some s \<Rightarrow> (Inr 1, out @ [''Error: '' @ s], close_client N k1)
                     | None \<Rightarrow> (Inl e, out, close_client N k1))
      in case token of
           None \<Rightarrow> Some (Inr 1, [''Error: an admin token is needed (--admin-token, CACHE_ADMIN_TOKEN or cluster.json)''], k)
         | Some t \<Rightarrow>
             (case admin_login N t k of
                None \<Rightarrow> None
              | Some (Inl e, k1) \<Rightarrow> Some (failed e [] k1)
              | Some (Inr _, k1) \<Rightarrow>
                  (case import_into N (fetched_rows fetch_size users) (read_entries has_expiry rows)
                          [''Importing into the cluster via '' @ address_text k1 @ '' ...''] k1 of
                     None \<Rightarrow> None
                   | Some (Inl e, out, k2) \<Rightarrow> Some (failed e out k2)
                   | Some (Inr st, out, k2) \<Rightarrow>
                       Some (Inr 0, out @ [''Done: '' @ show_int (users_created st) @ '' users created, '' @
                         show_int (users_existing st) @ '' already existed, '' @ show_int (keys_imported st) @ '' keys imported, '' @
                         show_int (keys_expired st) @ '' already expired (skipped)''], close_client N k2))))"

subsection \<open>main.py: joining a cluster\<close>

text \<open>
  One round of the loop of \<open>join_cluster\<close>: \<open>Inr True\<close> when the node is a member or has been added,
  \<open>Inr False\<close> when the loop tries again after three seconds. The client of the round is new and is
  closed in any case; \<open>cid\<close> is its random id.
\<close>

definition join_round ::
  "'w network \<Rightarrow> cluster_config \<Rightarrow> string \<Rightarrow> node_config \<Rightarrow> string list \<Rightarrow> string \<Rightarrow> 'w \<Rightarrow> ((client_exn + bool) \<times> 'w) option" where
  "join_round N c token n member_ids cid w =
     (let others = map nc_client_address (filter (\<lambda>x. nc_id x \<noteq> nc_id n) (c_nodes c));
          finish = (\<lambda>r k. Some (case r of
                      Inl e \<Rightarrow> (case client_error_text e of None \<Rightarrow> Inl e | Some _ \<Rightarrow> Inr False)
                    | Inr _ \<Rightarrow> Inr True, k_world (close_client N k)))
      in if nc_id n \<in> set member_ids then Some (Inr True, w)
         else if others = [] then Some (Inl (PyError ValueError), w)
         else case admin_login N token (new_client others 15000000 ''15'' cid w) of
                None \<Rightarrow> None
              | Some (Inl e, k1) \<Rightarrow> finish (Inl e) k1
              | Some (Inr _, k1) \<Rightarrow>
                  (case client_add_node N (nc_id n) (nc_client_address n) (nc_raft_address n) k1 of
                     None \<Rightarrow> None
                   | Some (r, k2) \<Rightarrow> finish r k2))"

text \<open>What \<open>main\<close> makes of the options \<open>--node\<close> and \<open>--join\<close>: an error text, or the set-up and whether to join.\<close>

definition main_setup ::
  "string option \<Rightarrow> bool \<Rightarrow> bool \<Rightarrow> string \<Rightarrow> int \<Rightarrow> string option \<Rightarrow> (config_error + cluster_config) \<Rightarrow>
   config_error option + server_setup \<times> bool" where
  "main_setup node_arg join_arg with_db host port env config =
     (if given node_arg
      then (case sbind config (\<lambda>c. sbind (config_get c (the node_arg)) (\<lambda>n.
                   sbind (from_cluster_config env c (the node_arg) with_db (join_arg \<or> nc_join n)) (\<lambda>s. Inr (s, join_arg \<or> nc_join n)))) of
              Inl e \<Rightarrow> Inl (Some e)
            | Inr r \<Rightarrow> Inr r)
      else if join_arg then Inl None
      else Inr (\<lparr>s_host = host, s_port = port, s_node_id = ''standalone'', s_raft_address = [],
                 s_storage = default_raft_storage with_db ''standalone'' (is_clustered [] None False),
                 s_boot = bootstrap_members ''standalone'' [] (host @ '':'' @ show_int port) [] None False,
                 s_client_addresses = [], s_token = (case env of None \<Rightarrow> JNull | Some t \<Rightarrow> JStr t)\<rparr>, False))"

subsection \<open>What the prompts accept\<close>

text \<open>
  What the prompts accept for a new account, the server accepts too, except that the prompts do not know the
  server's maximal length of a name.
\<close>

theorem signup_name_accepted:
  "ask_username ''signup'' ins out = (Some u, rest, out') \<Longrightarrow>
     str_strip u = u \<and> \<not> has_line_break u \<and> (length u \<le> max_username_len \<longrightarrow> validate_username u = None)"
proof (induction "''signup''" ins out rule: ask_username.induct)
  case (2 l ls out)
  show ?case
  proof (cases "ask_username ''signup'' (l # ls) out = (Some (str_strip l), ls, out) \<and> \<not> length (str_strip l) < cli_min_username \<and>
      \<not> list_ex is_space (str_strip l)")
    case True
    then have u: "u = str_strip l" using 2(4) by simp
    have sp: "\<forall>c \<in> set u. \<not> is_space c" using True by (simp add: u list_ex_iff)
    have "is_space (char_of (10 :: nat))" "is_space (char_of (13 :: nat))" by code_simp+
    then have "\<not> has_line_break u" using sp by (auto simp: has_line_break_def)
    moreover have "\<not> length u < min_username_len" using True by (simp add: u cli_min_username_def min_username_len_def)
    ultimately show ?thesis using sp str_strip_no_space [OF sp] by (auto simp: validate_username_def list_ex_iff)
  next
    case False
    then show ?thesis using 2 by (auto simp: Let_def split: if_splits)
  qed
qed simp

theorem signup_password_accepted:
  "ask_password ''signup'' ins out = (Some p, rest, out') \<Longrightarrow> min_password_len \<le> length (str_strip p)"
proof (induction "''signup''" ins out rule: ask_password.induct)
  case (2 p' ls out)
  have m: "(''signup'' = ''login'') = False" by simp
  show ?case
  proof (cases "length (str_strip p') < cli_min_password")
    case True
    then show ?thesis using 2(2) [OF _ True] 2(4) by (simp add: m)
  next
    case False
    show ?thesis
    proof (cases ls)
      case Nil
      then show ?thesis using 2(4) False by (simp add: m)
    next
      case (Cons c ls1)
      then show ?thesis using 2(3) [OF _ False Cons] 2(4) False
        by (cases "c = p'") (simp_all add: m cli_min_password_def min_password_len_def not_less)
    qed
  qed
qed simp

lemma long_name_is_not_caught:
  "ask_username ''signup'' [replicate 151 (CHR ''a'')] [] = (Some (replicate 151 (CHR ''a'')), [], []) \<and>
   validate_username (replicate 151 (CHR ''a'')) \<noteq> None"
proof -
  have sp: "\<forall>c \<in> set (replicate 151 (CHR ''a'')). \<not> is_space c" by (auto simp: is_space_def)
  then have "\<not> list_ex is_space (replicate 151 (CHR ''a''))" by (simp only: list_ex_iff) blast
  moreover have "(replicate 151 (CHR ''a'') = []) = False" by (simp only: replicate_empty) simp
  ultimately show ?thesis
    by (simp only: ask_username.simps Let_def str_strip_no_space [OF sp] validate_username_def length_replicate)
      (simp add: cli_min_username_def min_username_len_def max_username_len_def)
qed

subsection \<open>The programs end\<close>

lemma fetched_rows_all: "0 < n \<Longrightarrow> fetched_rows n xs = xs"
proof (induction n xs rule: fetched_rows.induct)
  case (1 n xs)
  then show ?case by (subst fetched_rows.simps) (auto simp: Let_def simp del: fetched_rows.simps)
qed

lemma operations_return:
  assumes "moves_on T g N" and "reads_return N"
  shows "execute N command k \<noteq> None" and "enter N mode user password k \<noteq> None" and "admin_login N token k \<noteq> None"
    and "client_import_user N u h k \<noteq> None" and "client_import_set N u key v t k \<noteq> None" and "client_add_node N i ca ra k \<noteq> None"
proof -
  have e: "execute N command k \<noteq> None" for command k by (rule execute_returns [OF assms, of command k]) simp
  have a: "authenticate_as N mode user secret k \<noteq> None" for mode user secret k by (rule authenticate_returns [OF assms, of mode user secret k]) simp
  show "execute N command k \<noteq> None" by (rule e)
  show "enter N mode user password k \<noteq> None" by (cases "mode = ''signup''") (simp_all add: enter_def signup_def login_def a)
  show "admin_login N token k \<noteq> None" by (simp add: admin_login_def a)
  show "client_import_user N u h k \<noteq> None" "client_import_set N u key v t k \<noteq> None" "client_add_node N i ca ra k \<noteq> None"
    by (simp_all add: client_import_user_def client_import_set_def client_add_node_def checked_def with_reply_def e)
qed

lemma refused_returns: "refused e ins out k \<noteq> None"
  by (simp add: refused_def split: option.split)

lemma auth_loop_returns:
  assumes "moves_on T g N" and "reads_return N"
  shows "auth_loop N mode user ins out k \<noteq> None"
proof (induction "length ins" arbitrary: mode user ins out k rule: less_induct)
  case less
  note step = auth_loop.simps [of N mode user ins out k]
  obtain name ins1 out1 where q: "(if given user then (user, ins, out) else ask_username mode ins out) = (name, ins1, out1)"
    by (metis prod_cases3)
  have l1: "length ins1 \<le> length ins" using q ask_username_shorter by (auto split: if_splits)
  obtain password ins2 out2 where p: "ask_password mode ins1 out1 = (password, ins2, out2)" by (metis prod_cases3)
  show ?case
  proof (cases "name = None \<or> password = None")
    case True
    then show ?thesis unfolding step q using p by (auto split: option.split)
  next
    case False
    then obtain username pw where n: "name = Some username" "password = Some pw" by auto
    have l2: "length ins2 < length ins" using ask_password_shorter [OF p [unfolded n]] l1 by simp
    obtain r k1 where e: "enter N mode username pw k = Some (r, k1)" using operations_return(2) [OF assms] by fastforce
    note unf = step q n p [unfolded n] e prod.case option.case sum.case
    show ?thesis
    proof (cases r)
      case (Inr u)
      then show ?thesis unfolding unf by simp
    next
      case (Inl x)
      show ?thesis
      proof (cases "\<exists>s. x = AuthError s")
        case False
        then show ?thesis unfolding unf Inl by (cases x) (simp_all add: refused_returns del: not_None_eq)
      next
        case True
        then obtain s where x: "x = AuthError s" by blast
        obtain m ins3 out3 where m: "ask_mode ins2 (out2 @ [''Error: '' @ s] @
            (if occurs_in ''not found'' (str_lower s) then [''Tip: choose SIGNUP to create this account.''] else [])) = (m, ins3, out3)"
          by (metis prod_cases3)
        have l3: "length ins3 < length ins" using ask_mode_shorter [OF m] l2 by simp
        show ?thesis
          unfolding unf Inl x client_exn.case m using less [OF l2] less [OF l3] by (auto split: option.split)
      qed
    qed
  qed
qed

lemma repl_loop_returns: "moves_on T g N \<Longrightarrow> reads_return N \<Longrightarrow> repl_loop N admin ins out k \<noteq> None"
proof (induction N admin ins out k rule: repl_loop.induct)
  case (2 N admin l ls out k)
  obtain r k1 where e: "execute N (str_strip l) k = Some (r, k1)" by (rule execute_returns [OF 2(5,6)])
  show ?case
  proof (cases r)
    case (Inl x)
    then show ?thesis using 2 e by (cases "client_error_text x") (simp_all add: Let_def)
  next
    case (Inr got)
    then show ?thesis using 2 e by (simp add: Let_def)
  qed
qed simp

lemma import_users_returns: "moves_on T g N \<Longrightarrow> reads_return N \<Longrightarrow> import_users N us st k \<noteq> None"
proof (induction N us st k rule: import_users.induct)
  case (2 N u h us st k)
  have "client_import_user N u h k \<noteq> None" by (rule operations_return [OF 2(2,3)])
  then show ?case using 2 by (auto split: sum.splits)
qed simp

lemma import_entries_returns: "moves_on T g N \<Longrightarrow> reads_return N \<Longrightarrow> import_entries N es st out k \<noteq> None"
proof (induction N es st out k rule: import_entries.induct)
  case (2 N u key v t es st out k)
  have "client_import_set N u key v t k \<noteq> None" by (rule operations_return [OF 2(3,4)])
  then show ?case using 2 by (auto simp: Let_def split: sum.splits)
qed simp

lemma admin_session_returns:
  assumes "moves_on T g N" and "reads_return N"
  shows "admin_session N token ins out k \<noteq> None"
proof -
  obtain typed rest where t: "(case token of Some t \<Rightarrow> (Some t, ins)
      | None \<Rightarrow> (case ins of [] \<Rightarrow> (None, []) | t # ls \<Rightarrow> (Some t, ls))) = (typed, rest)" by (metis surj_pair)
  show ?thesis
  proof (cases typed)
    case None
    then show ?thesis unfolding admin_session_def t by simp
  next
    case (Some u)
    obtain r k1 where "admin_login N u k = Some (r, k1)" using operations_return(3) [OF assms, of u k] by auto
    then show ?thesis unfolding admin_session_def t Some
      by (cases r) (simp_all add: refused_returns del: not_None_eq)
  qed
qed

lemma with_options_returns:
  assumes "moves_on T g N" and "reads_return N"
  shows "with_options N mode user password ins out k \<noteq> None"
proof -
  obtain r k1 where "enter N mode user password k = Some (r, k1)" using operations_return(2) [OF assms, of mode user password k] by auto
  then show ?thesis unfolding with_options_def by (cases r) (simp_all add: refused_returns del: not_None_eq)
qed

lemma authenticate_session_returns:
  assumes "moves_on T g N" and "reads_return N"
  obtains r ins' out k' where "authenticate N args env cluster_token ins k = Some (r, ins', out, k')"
proof -
  obtain m ins1 out where m: "(if a_signup args then (Some (Some ''signup''), ins, []) else ask_mode ins []) = (m, ins1, out)"
    by (metis prod_cases3)
  note ret = admin_session_returns [OF assms] with_options_returns [OF assms] auth_loop_returns [OF assms]
  have "authenticate N args env cluster_token ins k \<noteq> None"
    unfolding authenticate_def m prod.case
    by (cases "a_admin args"; cases "given (a_user args) \<and> given (a_password args)"; cases m; cases "the m";
        simp only: if_True if_False ret not_False_eq_True option.case option.sel option.distinct simp_thms)
  then show thesis using that by auto
qed

text \<open>
  The command line client ends with an exit code, or with an exception, whatever the nodes answer and the user types, when
  time passes on the network and every read of a line returns. So does the import.
\<close>

theorem cli_main_ends:
  assumes "moves_on T g N" and "reads_return N"
  shows "cli_main N args env cluster_token ins k \<noteq> None"
proof -
  obtain r ins1 out k1 where a: "authenticate N args env cluster_token ins k = Some (r, ins1, out, k1)"
    by (rule authenticate_session_returns [OF assms])
  have one: "one_command N command a b c \<noteq> None" for command a b c
  proof -
    obtain r k2 where "execute N command c = Some (r, k2)" by (rule execute_returns [OF assms])
    then show ?thesis by (cases r) (auto simp: one_command_def split: option.split)
  qed
  have rep: "repl N admin a b c \<noteq> None" for admin a b c
    unfolding repl_def by (rule repl_loop_returns [OF assms])
  show ?thesis
    unfolding cli_main_def a using one rep by (cases r) (simp_all add: option.map_disc_iff del: not_None_eq)
qed

lemma import_into_returns:
  assumes "moves_on T g N" and "reads_return N"
  shows "import_into N us es out k \<noteq> None"
proof -
  obtain r k1 where "import_users N us no_stats k = Some (r, k1)" using import_users_returns [OF assms, of us no_stats k] by auto
  then show ?thesis unfolding import_into_def
    using import_entries_returns [OF assms] by (cases r) (simp_all del: not_None_eq)
qed

theorem import_main_ends:
  assumes "moves_on T g N" and "reads_return N"
  shows "import_main N token users has_expiry rows k \<noteq> None"
proof (cases token)
  case None
  then show ?thesis by (simp add: import_main_def)
next
  case (Some t)
  obtain r k1 where l: "admin_login N t k = Some (r, k1)" using operations_return(3) [OF assms, of t k] by auto
  obtain r2 out k2 where i: "import_into N (fetched_rows fetch_size users) (read_entries has_expiry rows)
      [''Importing into the cluster via '' @ address_text k1 @ '' ...''] k1 = Some (r2, out, k2)"
    using import_into_returns [OF assms] by (metis not_None_eq prod_cases3)
  show ?thesis unfolding import_main_def Let_def Some using l i by (cases r; cases r2) simp_all
qed

lemma join_round_ends:
  assumes "moves_on T g N" and "reads_return N"
  shows "join_round N c token n ids cid w \<noteq> None"
proof -
  let ?others = "map nc_client_address (filter (\<lambda>x. nc_id x \<noteq> nc_id n) (c_nodes c))"
  obtain r k1 where l: "admin_login N token (new_client ?others 15000000 ''15'' cid w) = Some (r, k1)"
    using operations_return(3) [OF assms, of token "new_client ?others 15000000 ''15'' cid w"] by auto
  obtain r2 k2 where "client_add_node N (nc_id n) (nc_client_address n) (nc_raft_address n) k1 = Some (r2, k2)"
    using operations_return(6) [OF assms, of "nc_id n" "nc_client_address n" "nc_raft_address n" k1] by auto
  then show ?thesis unfolding join_round_def Let_def using l by (cases r) simp_all
qed

subsection \<open>What an import reports\<close>

lemma import_users_counts:
  "import_users N us st k = Some (Inr st', k') \<Longrightarrow>
     users_created st' + users_existing st' = users_created st + users_existing st + int (length us) \<and>
     keys_imported st' = keys_imported st \<and> keys_expired st' = keys_expired st"
  by (induction N us st k rule: import_users.induct) (fastforce split: option.splits sum.splits prod.splits if_splits)+

lemma import_entries_counts:
  "import_entries N es st out k = Some (Inr st', out', k') \<Longrightarrow>
     keys_imported st' + keys_expired st' = keys_imported st + keys_expired st + int (length es) \<and>
     users_created st' = users_created st \<and> users_existing st' = users_existing st"
  by (induction N es st out k rule: import_entries.induct) (fastforce simp: Let_def split: option.splits sum.splits prod.splits if_splits)+

text \<open>An import that ends without an exception has counted every user and every key once.\<close>

theorem import_counts:
  assumes "import_into N users es out k = Some (Inr st, out', k')"
  shows "users_created st + users_existing st = int (length users) \<and> keys_imported st + keys_expired st = int (length es)"
proof -
  obtain st1 k1 where u: "import_users N users no_stats k = Some (Inr st1, k1)" "import_entries N es st1 out k1 = Some (Inr st, out', k')"
    using assms by (auto simp: import_into_def split: option.splits sum.splits prod.splits)
  show ?thesis using import_users_counts [OF u(1)] import_entries_counts [OF u(2)] by (simp add: no_stats_def)
qed

end
