(* ===== verification/Spec2Isabelle.thy ===== *)
theory Spec2Isabelle
  imports Raft_Consensus Sm_Theorems Tcp_Sessions Raft_Database Cluster_Config Client_Cli
begin

section \<open>A distributed key-value cache over Raft\<close>

text \<open>
  The program is a replicated key-value cache in Python. A client sends commands to any node; a write
  becomes a Raft log entry, is replicated to a majority, committed, and applied on every node to a
  state machine that keeps rows in a database and LRU caches in RAM. The development follows the
  packages under src/.

  \<^bold>\<open>Foundations.\<close> \<open>Prelude\<close>: Python dictionaries (association lists in insertion order) and slices,
  exceptions. \<open>Py_String\<close>: the methods of \<open>str\<close>, \<open>int()\<close> and \<open>str()\<close> with their inverse laws. \<open>Json\<close>:
  \<open>json.dumps\<close> and \<open>json.loads\<close> on integers, strings, booleans, null, arrays and objects, with the
  round trip. \<open>Base64\<close>: \<open>b64encode\<close> and \<open>b64decode\<close>. \<open>Effects\<close>: actions that change a state and may
  raise, with rules for their outcomes.

  \<^bold>\<open>raft/.\<close> \<open>Raft_Types\<close> is raft/types.py: log entries, members, the node with its log and snapshot
  boundary, configuration commands. \<open>Raft_Storage\<close> is raft/storage.py: the interface \<open>RaftStorage\<close> as a
  record of operations, its contract as the locale \<open>raft_storage_laws\<close>, the RAM storage as an
  instance. \<open>Raft_Engine\<close> and \<open>Raft_Replication\<close> are raft/node.py. Each block under \<open>_state_lock\<close> is one
  function from engine to engine; a thread that the code starts is a value in the field \<open>effects\<close>; a
  thread that waits on the condition variable is a start function and a poll function. Time is an
  argument, in microseconds. \<open>Raft_Rpc\<close> is raft/rpc.py with the connection handling of node.py: the
  JSON text of every message and the dispatch of an incoming one.

  \<open>Raft_Events\<close> collects the functions into one type of events of a node and shows what every event
  keeps: the term never falls, a vote is not changed within a term, the storage mirrors the node.
  \<open>Raft_Cluster\<close> is a transition system of many nodes with a network that loses, delays, reorders and
  duplicates messages, and nodes that crash and restart from their storage; election safety is proved
  of it by rule induction. The membership is fixed there. \<open>Raft_Theorems\<close> has the properties of one engine: what it accepts,
  acknowledges and restores over any run of events, linearizable reads, snapshot transfer. There the loop that applies
  entries runs section by section, with events of the other threads between, and chooses the index itself; and in
  a run of a new engine an answer carries a number that was given out before, which ties the confirmation of a read to
  requests sent after it began.

  \<^bold>\<open>Agreement of the logs.\<close> \<open>Raft_Logs\<close> introduces the ghosts of the safety proof, on lists only: the
  history of each term (what its leader ever had in its log), what each node acknowledged of it, and
  the argument that a log which a majority can vote for holds every committed entry. \<open>Raft_Lists\<close> and
  \<open>Raft_Outcomes\<close> follow the whole log of a node, of which the engine holds the part after its snapshot,
  through every critical section. \<open>Raft_Agreement\<close> states the invariant that ties engines and messages to
  the ghosts; \<open>Raft_Ghosts\<close> re-establishes it for each kind of outcome, also for a snapshot installed by
  a node that has become a candidate or leader since it received it; \<open>Raft_Safety\<close> does so for each step.
  \<open>Raft_Consensus\<close> has log matching, leader completeness, state machine safety and what a leader commits.

  \<^bold>\<open>cache/, store/, server/state_machine.py, apps/users/db_service.py.\<close> \<open>Cache\<close> has the LRU and the
  unbounded cache, the interface \<open>ICache\<close> as locales, and a refinement of the LRU cache to a map.
  \<open>Db_Service\<close> has every function of db_service.py over the ORM's queries, which are a parameter with the
  hypothesis \<open>orm_laws\<close>; \<open>Db_Table\<close> is one database that satisfies it. \<open>State_Machine\<close> is the class
  \<open>CacheStateMachine\<close> with \<open>Store\<close>. \<open>Sm_Database\<close> shows for each operation what it does to the rows, also
  when a query raises half-way, and that RAM stays coherent with them; \<open>Sm_Sessions\<close> adds the table
  of sessions, the application of whole logs and the loading at start; \<open>Sm_Theorems\<close> states the
  properties.

  \<^bold>\<open>server/tcp_server.py.\<close> \<open>Tcp_Server\<close> is one client connection: reading lines, request tags, the
  dialogues of \<open>_handle_auth\<close>, the dispatch loop and every command of users and administrators. What
  the server calls on the engine, the state machine and the clock is a record of operations, the
  parameter \<open>node_ops\<close>. \<open>Tcp_Theorems\<close> shows that everything a client can make the server submit can be
  applied by the state machine; \<open>Tcp_Sessions\<close> shows who is let in, that each command gets one answer,
  and how a session ends.

  \<^bold>\<open>client/cli.py.\<close> \<open>Client\<close> is the class \<open>CacheClient\<close>: connections, failover among nodes, redirects to the
  leader, retries under one request id, the typed commands. Sockets and the clock are the parameter
  \<open>network\<close>. \<open>Client_Theorems\<close> follows a property of the world through all of it (the locale
  \<open>network_frame\<close>) and with it shows that one command is sent under one request id, that every request
  ends if every read of a line does, and that the server reads the line the client sends as that id and that command. A read
  need not end: a node that sends bytes and no line end holds the client for ever, and the model has this as \<open>None\<close>.

  \<open>Client_Cli\<close> has the prompts, the dialogue of \<open>authenticate\<close>, the read-eval-print loop and \<open>main\<close>, with
  scripts/import_data.py and the joining of a cluster from main.py; the programs end for every input
  when time passes on the network and every read returns, and what the prompts accept for a new account passes the server's checks, except for its length.

  \<^bold>\<open>apps/cluster/raft_storage.py.\<close> \<open>Raft_Database\<close> is \<open>DjangoRaftStorage\<close> over the ORM's queries, which are
  the parameter \<open>raft_orm\<close>. The locale \<open>raft_orm_laws\<close> says what a query that returns has done and that one that raises
  has done nothing; \<open>raft_orm_up\<close> that it returns while the database is up and its values fit the columns of
  apps/cluster/models.py. The storage refines the one in RAM: what it loads after any calls is what that would load, and the calls
  return while the values fit; a write that raises leaves all rows as they were. One database of lists keeps the laws. The theorems
  on engines and clusters take a storage that keeps whatever it is given, which \<open>MemoryRaftStorage\<close> does; they
  carry over to a database only as long as no call raises.

  \<^bold>\<open>config/cluster.py.\<close> \<open>Cluster_Config\<close> reads and checks \<open>cluster.json\<close> and sets a server up from it, with
  the choice of its storage and the starting membership of its engine.

  \<^bold>\<open>Conventions.\<close> Python's integers are \<^typ>\<open>int\<close>, and \<open>int()\<close> reads any number of digits (Python stops at 4300 by default). Strings are lists of characters below 256. A raise is
  \<open>Inl\<close>. Fuel is used once, in the JSON reader, where one unit per character of the text is enough, as
  the round trip shows. The retry loop of the client has no bound of its own: it is a partial function, and
  the proof that it returns is by the time left until the deadline. A message or entry whose JSON has a member of
  the wrong type is refused when it is decoded, and a CONFIG entry whose text does not parse counts as no
  configuration; in the code both raise later, in a handler. No client can cause either: what the server submits is no command
  of Raft's own, and the encoders write the right types.

  \<^bold>\<open>Not modelled.\<close> Sockets, TLS, thread start, temporary files and logging, which are I/O; Django and
  MySQL, which are parameters; password hashing; the text of \<open>ForwardRequest\<close>, which carries a float;
  the life cycle of the server's sockets and threads; a storage that raises inside the engine, which has no
  code for it; argument parsing, settings, the generation of certificates and the start of processes.
\<close>

end
